(* ===== verification/Kernel_Prelude.thy ===== *)
theory Kernel_Prelude
  imports Main "HOL-Library.Word"
begin

text \<open>
  The vocabulary every component shares: the kernel's integer types, panics as error
  values, Rust's checked and wrapping \<^verbatim>\<open>usize\<close> arithmetic as the release build compiles
  it, \<^verbatim>\<open>for\<close> loops whose body may panic, little-endian byte access, and the bit and
  counting lemmas the proofs rest on.
\<close>

unbundle bit_operations_syntax

section \<open>Integers\<close>

type_synonym u8 = "8 word"
type_synonym u16 = "16 word"
type_synonym u32 = "32 word"
type_synonym u64 = "64 word"

text \<open>
  \<^verbatim>\<open>usize\<close> is 64 bits wide on the kernel's only target. Sizes, indices and counts are
  \<open>nat\<close> values; every unchecked addition, subtraction and multiplication of the source goes
  through the wrapping operations below (the kernel is built with the release profile, which
  has no overflow checks).
\<close>

type_synonym usize = nat

abbreviation usize_range :: nat where
  "usize_range \<equiv> 2 ^ 64"

definition uadd :: "usize \<Rightarrow> usize \<Rightarrow> usize" where
  "uadd a b = (a + b) mod usize_range"

definition usub :: "usize \<Rightarrow> usize \<Rightarrow> usize" where
  "usub a b = (if b \<le> a then a - b else usize_range - (b - a))"

definition umul :: "usize \<Rightarrow> usize \<Rightarrow> usize" where
  "umul a b = (a * b) mod usize_range"

definition checked_add :: "usize \<Rightarrow> usize \<Rightarrow> usize option" where
  "checked_add a b = (if a + b < usize_range then Some (a + b) else None)"

definition checked_mul :: "usize \<Rightarrow> usize \<Rightarrow> usize option" where
  "checked_mul a b = (if a * b < usize_range then Some (a * b) else None)"

definition div_ceil :: "usize \<Rightarrow> usize \<Rightarrow> usize" where
  "div_ceil a b = (if a mod b = 0 then a div b else a div b + 1)"

definition checked_add_u64 :: "u64 \<Rightarrow> u64 \<Rightarrow> u64 option" where
  "checked_add_u64 a b = (if unat a + unat b < 2 ^ 64 then Some (a + b) else None)"

named_theorems usize_simps \<open>the wrapping operations where nothing wraps\<close>

lemma uadd_exact [usize_simps]: "a + b < usize_range \<Longrightarrow> uadd a b = a + b"
  by (simp add: uadd_def)

lemma usub_exact [usize_simps]: "b \<le> a \<Longrightarrow> usub a b = a - b"
  by (simp add: usub_def)

lemma umul_exact [usize_simps]: "a * b < usize_range \<Longrightarrow> umul a b = a * b"
  by (simp add: umul_def)

lemma checked_add_Some [simp]:
  "checked_add a b = Some c \<longleftrightarrow> c = a + b \<and> a + b < usize_range"
  by (auto simp: checked_add_def)

lemma checked_mul_Some [simp]:
  "checked_mul a b = Some c \<longleftrightarrow> c = a * b \<and> a * b < usize_range"
  by (auto simp: checked_mul_def)

lemma checked_add_u64_Some:
  "checked_add_u64 a b = Some c \<longleftrightarrow> c = a + b \<and> unat a + unat b < 2 ^ 64"
  by (auto simp: checked_add_u64_def)

lemma checked_add_u64_None: "checked_add_u64 a b = None \<longleftrightarrow> 2 ^ 64 \<le> unat a + unat b"
  by (auto simp: checked_add_u64_def)

lemma unat_add_u64: "unat (a :: u64) + unat b < 2 ^ 64 \<Longrightarrow> unat (a + b) = unat a + unat b"
  by (simp add: unat_word_ariths)

lemma unat_of_nat_u64: "n < 2 ^ 64 \<Longrightarrow> unat (of_nat n :: u64) = n"
  by (simp add: unsigned_of_nat take_bit_nat_eq_self)

lemma div_ceil_le_iff: "0 < b \<Longrightarrow> div_ceil a b \<le> n \<longleftrightarrow> a \<le> n * b"
proof -
  assume b: "0 < b"
  show ?thesis
  proof (cases "a mod b = 0")
    case True
    then obtain k where "a = k * b" by (metis mod_0_imp_dvd dvd_def mult.commute)
    with b True show ?thesis by (simp add: div_ceil_def)
  next
    case False
    have "a div b + 1 \<le> n \<longleftrightarrow> a div b < n" by linarith
    also have "\<dots> \<longleftrightarrow> a < n * b" using b by (simp add: div_less_iff_less_mult)
    also have "\<dots> \<longleftrightarrow> a \<le> n * b" using False by (metis le_neq_implies_less mod_mult_self2_is_0 order_less_imp_le)
    finally show ?thesis using False by (simp add: div_ceil_def)
  qed
qed

lemma less_div_ceil_iff: "0 < b \<Longrightarrow> n < div_ceil a b \<longleftrightarrow> n * b < a"
  using div_ceil_le_iff [of b a n] by (metis not_less)

section \<open>Panics as error values\<close>

text \<open>
  A failed \<^verbatim>\<open>assert!\<close>, \<^verbatim>\<open>expect\<close> or \<^verbatim>\<open>panic!\<close> stops the kernel (\<^verbatim>\<open>main.rs\<close>, the panic
  handler halts). A computation that may panic returns \<open>Inl\<close> of the panic, carrying the
  message of the failed check, or \<open>Inr\<close> of its value.
\<close>

datatype panic = Panic string

type_synonym 'a res = "panic + 'a"

definition bind_res :: "'e + 'a \<Rightarrow> ('a \<Rightarrow> 'e + 'b) \<Rightarrow> 'e + 'b" where
  "bind_res m f = (case m of Inl e \<Rightarrow> Inl e | Inr x \<Rightarrow> f x)"

definition ensure :: "bool \<Rightarrow> string \<Rightarrow> unit res" where
  "ensure b msg = (if b then Inr () else Inl (Panic msg))"

definition expect :: "'a option \<Rightarrow> string \<Rightarrow> 'a res" where
  "expect x msg = (case x of None \<Rightarrow> Inl (Panic msg) | Some v \<Rightarrow> Inr v)"

definition expect_ok :: "'e + 'a \<Rightarrow> string \<Rightarrow> 'a res" where
  "expect_ok r msg = (case r of Inl e \<Rightarrow> Inl (Panic msg) | Inr v \<Rightarrow> Inr v)"

lemma bind_res_simps [simp]:
  "bind_res (Inl e) f = Inl e"
  "bind_res (Inr x) f = f x"
  by (simp_all add: bind_res_def)

lemma bind_res_Inr: "bind_res m f = Inr y \<longleftrightarrow> (\<exists>x. m = Inr x \<and> f x = Inr y)"
  by (cases m) auto

lemma bind_res_Inl: "bind_res m f = Inl e \<longleftrightarrow> m = Inl e \<or> (\<exists>x. m = Inr x \<and> f x = Inl e)"
  by (cases m) auto

lemma bind_res_assoc: "bind_res (bind_res m f) g = bind_res m (\<lambda>x. bind_res (f x) g)"
  by (cases m) auto

lemma bind_res_cong [fundef_cong]:
  "m = m' \<Longrightarrow> (\<And>x. m' = Inr x \<Longrightarrow> f x = f' x) \<Longrightarrow> bind_res m f = bind_res m' f'"
  by (cases m') auto

lemma ensure_simps [simp]:
  "ensure True msg = Inr ()"
  "ensure False msg = Inl (Panic msg)"
  "ensure b msg = Inr u \<longleftrightarrow> b"
  "ensure b msg = Inl e \<longleftrightarrow> \<not> b \<and> e = Panic msg"
  by (auto simp: ensure_def)

lemma ensure_bind [simp]: "b \<Longrightarrow> bind_res (ensure b msg) f = f ()"
  by simp

lemma expect_simps [simp]:
  "expect None msg = Inl (Panic msg)"
  "expect (Some v) msg = Inr v"
  "expect x msg = Inr v \<longleftrightarrow> x = Some v"
  by (auto simp: expect_def split: option.splits)

lemma expect_ok_simps [simp]:
  "expect_ok (Inl e) msg = Inl (Panic msg)"
  "expect_ok (Inr v) msg = Inr v"
  "expect_ok r msg = Inr v \<longleftrightarrow> r = Inr v"
  by (auto simp: expect_ok_def split: sum.splits)

lemmas res_Inr = bind_res_Inr ensure_simps expect_simps expect_ok_simps

section \<open>Loops\<close>

text \<open>\<^verbatim>\<open>for x in xs { s = body(x, s) }\<close>, stopping at the first panic of the body.\<close>

fun for_res :: "'i list \<Rightarrow> ('i \<Rightarrow> 's \<Rightarrow> 'e + 's) \<Rightarrow> 's \<Rightarrow> 'e + 's" where
  "for_res [] body s = Inr s"
| "for_res (x # xs) body s = bind_res (body x s) (for_res xs body)"

lemma for_res_append:
  "for_res (xs @ ys) body s = bind_res (for_res xs body s) (for_res ys body)"
  by (induction xs arbitrary: s) (auto simp: bind_res_def split: sum.splits)

lemma for_res_cong:
  "(\<And>x s. x \<in> set xs \<Longrightarrow> body x s = body' x s) \<Longrightarrow> for_res xs body s = for_res xs body' s"
  by (induction xs arbitrary: s) (auto intro!: bind_res_cong)

text \<open>Total correctness of a loop over a range, with the loop invariant indexed by the counter.\<close>

lemma for_range_total:
  assumes "a \<le> b" and "I a s"
    and "\<And>i s. a \<le> i \<Longrightarrow> i < b \<Longrightarrow> I i s \<Longrightarrow> \<exists>s'. body i s = Inr s' \<and> I (Suc i) s'"
  shows "\<exists>s'. for_res [a..<b] body s = Inr s' \<and> I b s'"
  using assms
proof (induction b)
  case 0
  then show ?case by simp
next
  case (Suc b)
  show ?case
  proof (cases "a \<le> b")
    case True
    then obtain t where t: "for_res [a..<b] body s = Inr t" "I b t"
      using Suc by (metis less_SucI)
    then obtain u where "body b t = Inr u" "I (Suc b) u"
      using Suc.prems True by blast
    with t True show ?thesis by (simp add: for_res_append)
  next
    case False
    with Suc.prems show ?thesis by (simp add: le_Suc_eq)
  qed
qed

text \<open>Partial correctness: what every successful iteration keeps.\<close>

lemma for_range_partial:
  assumes "for_res [a..<b] body s = Inr s'" and "a \<le> b" and "I a s"
    and "\<And>i s s'. a \<le> i \<Longrightarrow> i < b \<Longrightarrow> I i s \<Longrightarrow> body i s = Inr s' \<Longrightarrow> I (Suc i) s'"
  shows "I b s'"
  using assms
proof (induction b arbitrary: s')
  case 0
  then show ?case by simp
next
  case (Suc b)
  show ?case
  proof (cases "a \<le> b")
    case True
    with Suc.prems(1) obtain t where t: "for_res [a..<b] body s = Inr t" "body b t = Inr s'"
      by (auto simp: for_res_append bind_res_Inr)
    have "I b t" using Suc.IH [OF t(1) True] Suc.prems by simp
    then show ?thesis using Suc.prems(4) [OF True _ _ t(2)] by simp
  next
    case False
    with Suc.prems show ?thesis by (simp add: le_Suc_eq)
  qed
qed

text \<open>A loop whose body only checks, and keeps the state.\<close>

lemma for_res_check:
  "for_res xs (\<lambda>x s. bind_res (ensure (P x) msg) (\<lambda>_. Inr s)) s =
     (if list_all P xs then Inr s else Inl (Panic msg))"
  by (induction xs) (auto simp: ensure_def)

lemma for_res_unit: "for_res xs body () = Inr () \<longleftrightarrow> list_all (\<lambda>x. body x () = Inr ()) xs"
  by (induction xs) (auto simp: bind_res_Inr)

section \<open>Bytes\<close>

text \<open>A little-endian integer read from a byte-addressed memory.\<close>

definition read_le :: "nat \<Rightarrow> (nat \<Rightarrow> u8) \<Rightarrow> nat \<Rightarrow> 'w::len word" where
  "read_le n mem a = word_rcat (rev (map mem [a..<a + n]))"

definition le_bytes :: "nat \<Rightarrow> 'w::len word \<Rightarrow> u8 list" where
  "le_bytes n w = map (\<lambda>k. ucast (drop_bit (8 * k) w)) [0..<n]"

lemma length_le_bytes [simp]: "length (le_bytes n w) = n"
  by (simp add: le_bytes_def)

definition holds_bytes :: "(nat \<Rightarrow> u8) \<Rightarrow> nat \<Rightarrow> u8 list \<Rightarrow> bool" where
  "holds_bytes mem a bs \<longleftrightarrow> map mem [a..<a + length bs] = bs"

lemma holds_bytes_append:
  "holds_bytes mem a (xs @ ys) \<longleftrightarrow> holds_bytes mem a xs \<and> holds_bytes mem (a + length xs) ys"
proof -
  have "[a..<a + (length xs + length ys)] =
      [a..<a + length xs] @ [a + length xs..<a + length xs + length ys]"
    by (metis add.assoc le_add1 upt_add_eq_append)
  then show ?thesis by (simp add: holds_bytes_def append_eq_append_conv)
qed

lemma holds_bytes_nth: "holds_bytes mem a bs \<Longrightarrow> k < length bs \<Longrightarrow> mem (a + k) = bs ! k"
  unfolding holds_bytes_def by (metis add_diff_cancel_left' length_upt nth_map nth_upt nat_add_left_cancel_less)

lemma read_le_holds:
  fixes w :: "'w::len word"
  assumes "holds_bytes mem a (le_bytes n w)" and "LENGTH('w) \<le> 8 * n"
  shows "read_le n mem a = w"
proof -
  have "map mem [a..<a + n] = le_bytes n w"
    using assms(1) by (simp add: holds_bytes_def)
  then have r: "read_le n mem a = (word_rcat (rev (le_bytes n w)) :: 'w word)"
    by (simp add: read_le_def)
  show ?thesis
    unfolding r
  proof (rule bit_word_eqI)
    fix k assume k: "k < LENGTH('w)"
    then have d: "k div 8 < n" using assms(2) by linarith
    have byte: "le_bytes n w ! (k div 8) = (ucast (drop_bit (8 * (k div 8)) w) :: u8)"
      using d by (simp add: le_bytes_def)
    have "bit (word_rcat (rev (le_bytes n w)) :: 'w word) k \<longleftrightarrow>
        bit (le_bytes n w ! (k div 8)) (k mod 8)"
      using k d bit_horner_sum_uint_exp_iff [of "le_bytes n w" k]
      by (simp add: word_rcat_def bit_word_of_int_iff)
    then show "bit (word_rcat (rev (le_bytes n w)) :: 'w word) k = bit w k"
      using k by (simp add: byte bit_simps)
  qed
qed

text \<open>Conversely, the bytes of an integer that was read are the bytes in memory.\<close>

lemma le_bytes_read:
  assumes "LENGTH('w::len) = 8 * n"
  shows "le_bytes n (read_le n mem a :: 'w word) = map mem [a..<a + n]"
proof (rule nth_equalityI)
  fix i assume "i < length (le_bytes n (read_le n mem a :: 'w word))"
  then have i: "i < n" by simp
  have "(ucast (drop_bit (8 * i) (read_le n mem a :: 'w word)) :: u8) = mem (a + i)"
  proof (rule bit_word_eqI)
    fix k assume "k < LENGTH(8)"
    then have k: "k < 8" by simp
    then have d: "8 * i + k < LENGTH('w)" "(8 * i + k) div 8 = i" "(8 * i + k) mod 8 = k"
      using i assms by auto
    show "bit (ucast (drop_bit (8 * i) (read_le n mem a :: 'w word)) :: u8) k = bit (mem (a + i)) k"
      using d k i bit_horner_sum_uint_exp_iff [of "map mem [a..<a + n]" "8 * i + k"]
      by (simp add: read_le_def word_rcat_def bit_word_of_int_iff bit_simps)
  qed
  then show "le_bytes n (read_le n mem a :: 'w word) ! i = map mem [a..<a + n] ! i"
    using i by (simp add: le_bytes_def)
qed simp

section \<open>List update\<close>

lemma nth_update_if: "xs[i := x] ! j = (if i = j \<and> i < length xs then x else xs ! j)"
  by (cases "i < length xs") (auto simp: nth_list_update list_update_beyond)

section \<open>Counting over a range\<close>

lemma sum_upt_cong:
  "(\<And>j. a \<le> j \<Longrightarrow> j < b \<Longrightarrow> g j = f j) \<Longrightarrow> sum_list (map g [a..<b]) = sum_list (map f [a..<b])"
  by (rule arg_cong [where f = sum_list]) simp

text \<open>Changing the summand at one point of the range.\<close>

lemma sum_upt_change:
  fixes f g :: "nat \<Rightarrow> nat"
  assumes "a \<le> i" "i < b" and "\<And>j. j \<noteq> i \<Longrightarrow> g j = f j"
  shows "sum_list (map g [a..<b]) + f i = sum_list (map f [a..<b]) + g i"
proof -
  have split: "[a..<b] = [a..<i] @ i # [Suc i..<b]"
    using assms(1,2) upt_add_eq_append [of a i "b - i"] by (simp add: upt_conv_Cons)
  have "sum_list (map g [a..<i]) = sum_list (map f [a..<i])"
    and "sum_list (map g [Suc i..<b]) = sum_list (map f [Suc i..<b])"
    using assms(3) by (auto intro: sum_upt_cong)
  then show ?thesis by (simp add: split)
qed

lemma sum_upt_le: "(\<And>j. f j \<le> (1::nat)) \<Longrightarrow> sum_list (map f [a..<b]) \<le> b - a"
proof -
  assume "\<And>j. f j \<le> 1"
  then have "sum_list (map f [a..<b]) \<le> sum_list (map (\<lambda>j. 1) [a..<b])"
    by (intro sum_list_mono) simp
  then show ?thesis by (simp add: sum_list_triv)
qed

lemma sum_upt_ge: "a \<le> i \<Longrightarrow> i < b \<Longrightarrow> (f i :: nat) \<le> sum_list (map f [a..<b])"
  by (rule member_le_sum_list) auto

text \<open>A block of points where the predicate holds is counted in any range around it.\<close>

lemma sum_upt_block:
  assumes "a \<le> g" "g + n \<le> b" and "\<And>j. g \<le> j \<Longrightarrow> j < g + n \<Longrightarrow> P j"
  shows "n \<le> sum_list (map (\<lambda>j. of_bool (P j)) [a..<b])"
proof -
  have "[a..<b] = [a..<g] @ [g..<g + n] @ [g + n..<b]"
    using assms(1,2) upt_add_eq_append [of a g "b - g"] upt_add_eq_append [of g "g + n" "b - (g + n)"]
    by simp
  moreover have "sum_list (map (\<lambda>j. of_bool (P j) :: nat) [g..<g + n]) = n"
    using sum_upt_cong [of g "g + n" "\<lambda>j. of_bool (P j) :: nat" "\<lambda>j. 1"] assms(3)
    by (simp add: sum_list_triv)
  ultimately show ?thesis by simp
qed

end
