(* ===== verification/Bootinfo.thy ===== *)
theory Bootinfo
  imports Kernel_Prelude "HOL-Library.Multiset"
begin

text \<open>
  The firmware memory map (\<^verbatim>\<open>src/kernel/bootinfo.rs\<close>): the 16-byte hand-over header and the
  20-byte E820 entries the loader leaves in low memory, their validation, and the copy the
  kernel keeps. Memory is a byte map indexed by virtual address. The console messages are not
  part of the model.
\<close>

section \<open>Data\<close>

definition PAGE_OFFSET :: usize where
  "PAGE_OFFSET = 0xffff800000000000"

definition MAX_ENTRIES :: usize where
  "MAX_ENTRIES = 32"

definition HEADER :: usize where
  "HEADER = 0x4ff0"

definition ENTRIES :: usize where
  "ENTRIES = 0x5000"

definition MAGIC :: u32 where
  "MAGIC = 0x30323845"

record header =
  hdr_magic :: u32
  hdr_version :: u16
  hdr_entry_size :: u16
  hdr_count :: u16
  hdr_capacity :: u16
  hdr_flags :: u32

record e820_entry =
  e820_address :: u64
  e820_length :: u64
  e820_kind :: u32

definition EMPTY :: e820_entry where
  "EMPTY = \<lparr>e820_address = 0, e820_length = 0, e820_kind = 0\<rparr>"

record memory_map =
  map_entries :: "e820_entry list"
  map_count :: usize

section \<open>Operations\<close>

definition contains_usable :: "memory_map \<Rightarrow> usize \<Rightarrow> usize \<Rightarrow> bool res" where
  "contains_usable m start end =
     (if \<not> start < end then Inr False
      else if length (map_entries m) < map_count m then
        Inl (Panic ''range end index out of range'')
      else Inr (list_ex (\<lambda>e. e820_kind e = 1 \<and> e820_length e \<noteq> 0
          \<and> e820_address e \<le> of_nat start
          \<and> of_nat end \<le> e820_address e + e820_length e)
        (take (map_count m) (map_entries m))))"

definition validate_header :: "header \<Rightarrow> string + usize" where
  "validate_header h =
     (if hdr_magic h \<noteq> MAGIC \<or> hdr_version h \<noteq> 1 \<or> hdr_entry_size h \<noteq> 20
         \<or> unat (hdr_capacity h) \<noteq> MAX_ENTRIES \<or> hdr_flags h \<noteq> 1
      then Inl ''invalid or incomplete E820 handoff''
      else if hdr_count h = 0 \<or> MAX_ENTRIES < unat (hdr_count h)
      then Inl ''invalid E820 count''
      else Inr (unat (hdr_count h)))"

text \<open>The inner loop of \<^verbatim>\<open>validate_entries\<close>, over the entries before the current one.\<close>

fun check_previous :: "e820_entry \<Rightarrow> u64 \<Rightarrow> e820_entry list \<Rightarrow> string + unit" where
  "check_previous entry end [] = Inr ()"
| "check_previous entry end (previous # rest) =
     (let previous_end = e820_address previous + e820_length previous in
      if e820_length previous \<noteq> 0 \<and> e820_address entry < previous_end
         \<and> e820_address previous < end
      then Inl ''overlapping E820 ranges''
      else check_previous entry end rest)"

text \<open>The outer loop: \<open>seen\<close> is \<^verbatim>\<open>entries[..index]\<close>.\<close>

fun validate_from :: "e820_entry list \<Rightarrow> e820_entry list \<Rightarrow> string + unit" where
  "validate_from seen [] = Inr ()"
| "validate_from seen (entry # rest) =
     (case checked_add_u64 (e820_address entry) (e820_length entry) of
        None \<Rightarrow> Inl ''E820 address overflow''
      | Some end \<Rightarrow>
          if e820_length entry = 0 then validate_from (seen @ [entry]) rest
          else (case check_previous entry end seen of
                  Inl msg \<Rightarrow> Inl msg
                | Inr _ \<Rightarrow> validate_from (seen @ [entry]) rest))"

definition validate_entries :: "e820_entry list \<Rightarrow> string + unit" where
  "validate_entries es = validate_from [] es"

text \<open>\<^verbatim>\<open>read_unaligned\<close> of the two \<^verbatim>\<open>repr(C)\<close> structures.\<close>

definition read_header :: "(nat \<Rightarrow> u8) \<Rightarrow> usize \<Rightarrow> header" where
  "read_header mem a =
     \<lparr>hdr_magic = read_le 4 mem a, hdr_version = read_le 2 mem (a + 4),
      hdr_entry_size = read_le 2 mem (a + 6), hdr_count = read_le 2 mem (a + 8),
      hdr_capacity = read_le 2 mem (a + 10), hdr_flags = read_le 4 mem (a + 12)\<rparr>"

definition read_entry :: "(nat \<Rightarrow> u8) \<Rightarrow> usize \<Rightarrow> e820_entry" where
  "read_entry mem a =
     \<lparr>e820_address = read_le 8 mem a, e820_length = read_le 8 mem (a + 8),
      e820_kind = read_le 4 mem (a + 16)\<rparr>"

definition bootstrap_ranges :: "(usize \<times> usize) list" where
  "bootstrap_ranges =
     [(HEADER, 0x5318), (0x6000, 0x10000), (0x10000, 0x20000), (0x90000, 0x93000)]"

definition read_memory_map :: "(nat \<Rightarrow> u8) \<Rightarrow> memory_map res" where
  "read_memory_map mem =
     bind_res (expect_ok (validate_header (read_header mem (PAGE_OFFSET + HEADER)))
       ''E820 handoff rejected'') (\<lambda>count.
     let entries = foldl (\<lambda>es index.
           es[index := read_entry mem (PAGE_OFFSET + ENTRIES + index * 20)])
           (replicate MAX_ENTRIES EMPTY) [0..<count];
         m = \<lparr>map_entries = entries, map_count = count\<rparr>
     in bind_res (expect_ok (validate_entries (take count entries)) ''E820 map rejected'') (\<lambda>_.
        bind_res (for_res bootstrap_ranges (\<lambda>(start, end) u.
            bind_res (contains_usable m start end) (\<lambda>ok.
              ensure ok ''bootstrap layout is not usable RAM'')) ())
          (\<lambda>_. Inr m)))"

text \<open>
  \<^verbatim>\<open>verify\<close> of the \<^verbatim>\<open>memory-check\<close> feature: the self-test the kernel runs on local values right
  before it returns the map.
\<close>

definition bootinfo_verify :: "unit res" where
  "bootinfo_verify =
     (let good = \<lparr>hdr_magic = MAGIC, hdr_version = 1, hdr_entry_size = 20, hdr_count = 32,
                   hdr_capacity = 32, hdr_flags = 1\<rparr>;
          ram = \<lparr>e820_address = 0x100000, e820_length = 0x400000, e820_kind = 1\<rparr>;
          reserved = \<lparr>e820_address = 0x500000, e820_length = 0x1000, e820_kind = 2\<rparr>;
          m = \<lparr>map_entries = [reserved, ram] @ replicate (MAX_ENTRIES - 2) EMPTY,
               map_count = 2\<rparr>;
          rejects = (\<lambda>s e b. bind_res (contains_usable m s e) (\<lambda>r. ensure (r = b) ''contains_usable''))
      in
      bind_res (ensure (validate_header good = Inr 32) ''good.validate()'') (\<lambda>_.
      bind_res (for_res [good\<lparr>hdr_magic := 0\<rparr>, good\<lparr>hdr_version := 2\<rparr>,
            good\<lparr>hdr_entry_size := 24\<rparr>, good\<lparr>hdr_capacity := 31\<rparr>, good\<lparr>hdr_flags := 0\<rparr>,
            good\<lparr>hdr_count := 0\<rparr>, good\<lparr>hdr_count := 33\<rparr>]
          (\<lambda>bad u. ensure (isl (validate_header bad)) ''bad.validate().is_err()'') ()) (\<lambda>_.
      bind_res (ensure (\<not> isl (validate_entries [reserved, ram, EMPTY])) ''unordered'') (\<lambda>_.
      bind_res (ensure (\<not> isl (validate_entries [reserved\<lparr>e820_kind := 99\<rparr>, ram])) ''unknown'') (\<lambda>_.
      bind_res (ensure (isl (validate_entries [ram, reserved\<lparr>e820_address := 0x200000\<rparr>]))
        ''overlap'') (\<lambda>_.
      bind_res (ensure (isl (validate_entries [ram, ram])) ''overlap'') (\<lambda>_.
      bind_res (ensure (isl (validate_entries
          [\<lparr>e820_address = 0xffffffffffffffff, e820_length = 1, e820_kind = 1\<rparr>])) ''overflow'') (\<lambda>_.
      bind_res (rejects 0x100000 0x500000 True) (\<lambda>_.
      bind_res (rejects 0x100000 0x500001 False) (\<lambda>_.
      bind_res (rejects 0x500000 0x500001 False) (\<lambda>_.
      rejects 0x100000 0x100000 False)))))))))))"

section \<open>What the validation accepts\<close>

definition entry_span :: "e820_entry \<Rightarrow> nat set" where
  "entry_span e = {unat (e820_address e) ..< unat (e820_address e) + unat (e820_length e)}"

definition entry_fits :: "e820_entry \<Rightarrow> bool" where
  "entry_fits e \<longleftrightarrow> unat (e820_address e) + unat (e820_length e) < 2 ^ 64"

abbreviation span_disjoint :: "e820_entry \<Rightarrow> e820_entry \<Rightarrow> bool" where
  "span_disjoint e f \<equiv> entry_span e \<inter> entry_span f = {}"

lemma entry_span_empty_iff: "entry_span e = {} \<longleftrightarrow> e820_length e = 0"
  by (simp add: entry_span_def unat_eq_zero)

lemma entry_end_exact:
  "entry_fits e \<Longrightarrow> unat (e820_address e + e820_length e) =
     unat (e820_address e) + unat (e820_length e)"
  by (simp add: entry_fits_def unat_add_u64)

text \<open>The overlap test of the source is set disjointness of the two byte ranges.\<close>

lemma overlap_test_iff:
  assumes "entry_fits e" "entry_fits p" "e820_length e \<noteq> 0"
  shows "(e820_length p \<noteq> 0 \<and> e820_address e < e820_address p + e820_length p
      \<and> e820_address p < e820_address e + e820_length e) \<longleftrightarrow> \<not> span_disjoint p e"
proof -
  have pos: "0 < unat (e820_length e)" using assms(3) by (simp add: unat_gt_0)
  have "\<not> span_disjoint p e \<longleftrightarrow> 0 < unat (e820_length p)
      \<and> unat (e820_address e) < unat (e820_address p) + unat (e820_length p)
      \<and> unat (e820_address p) < unat (e820_address e) + unat (e820_length e)"
    using pos by (auto simp: entry_span_def)
  then show ?thesis
    using assms by (simp add: word_less_nat_alt entry_end_exact unat_gt_0)
qed

lemma check_previous_iff:
  assumes "entry_fits e" "e820_length e \<noteq> 0" "\<forall>p \<in> set seen. entry_fits p"
  shows "check_previous e (e820_address e + e820_length e) seen = Inr () \<longleftrightarrow>
    (\<forall>p \<in> set seen. span_disjoint p e)"
  using assms(3)
proof (induction seen)
  case Nil
  then show ?case by simp
next
  case (Cons p rest)
  have "check_previous e (e820_address e + e820_length e) (p # rest) = Inr () \<longleftrightarrow>
      span_disjoint p e \<and> check_previous e (e820_address e + e820_length e) rest = Inr ()"
    using overlap_test_iff [OF assms(1) _ assms(2), of p] Cons.prems
    by (auto simp: Let_def)
  with Cons show ?case by simp
qed

lemma validate_from_iff:
  assumes "\<forall>p \<in> set seen. entry_fits p"
  shows "validate_from seen es = Inr () \<longleftrightarrow>
    (\<forall>e \<in> set es. entry_fits e) \<and> (\<forall>p \<in> set seen. \<forall>e \<in> set es. span_disjoint p e)
    \<and> sorted_wrt span_disjoint es"
  using assms
proof (induction es arbitrary: seen)
  case Nil
  then show ?case by simp
next
  case (Cons e rest)
  show ?case
  proof (cases "entry_fits e")
    case False
    then show ?thesis
      by (simp add: checked_add_u64_def entry_fits_def)
  next
    case True
    then have sum: "checked_add_u64 (e820_address e) (e820_length e) =
        Some (e820_address e + e820_length e)"
      by (simp add: checked_add_u64_def entry_fits_def)
    have IH: "validate_from (seen @ [e]) rest = Inr () \<longleftrightarrow>
        (\<forall>f \<in> set rest. entry_fits f)
        \<and> (\<forall>p \<in> set (seen @ [e]). \<forall>f \<in> set rest. span_disjoint p f)
        \<and> sorted_wrt span_disjoint rest"
      using Cons.IH [of "seen @ [e]"] Cons.prems True by simp
    show ?thesis
    proof (cases "e820_length e = 0")
      case zero: True
      then have "entry_span e = {}" by (simp add: entry_span_empty_iff)
      then show ?thesis
        using True zero sum IH by (simp add: ball_Un)
    next
      case False
      note prev = check_previous_iff [OF True False Cons.prems]
      have "validate_from seen (e # rest) = Inr () \<longleftrightarrow>
          check_previous e (e820_address e + e820_length e) seen = Inr ()
          \<and> validate_from (seen @ [e]) rest = Inr ()"
        using False sum by (cases "check_previous e (e820_address e + e820_length e) seen") simp_all
      then show ?thesis
        unfolding prev IH using True by (simp add: ball_Un) blast
    qed
  qed
qed

lemma validate_entries_iff:
  "validate_entries es = Inr () \<longleftrightarrow>
     (\<forall>e \<in> set es. entry_fits e) \<and> sorted_wrt span_disjoint es"
  by (simp add: validate_entries_def validate_from_iff)


lemma sorted_wrt_sym_move:
  assumes "\<And>x y. P x y \<Longrightarrow> P y x"
  shows "sorted_wrt P (us @ x # vs) \<longleftrightarrow> (\<forall>y \<in> set (us @ vs). P x y) \<and> sorted_wrt P (us @ vs)"
  using assms by (auto simp: sorted_wrt_append)

lemma sorted_wrt_sym_mset:
  assumes sym: "\<And>x y. P x y \<Longrightarrow> P y x"
  shows "mset xs = mset ys \<Longrightarrow> sorted_wrt P xs \<longleftrightarrow> sorted_wrt P ys"
proof (induction xs arbitrary: ys)
  case Nil
  then show ?case by simp
next
  case (Cons x xs)
  then have "x \<in> set ys" by (metis list.set_intros(1) set_mset_mset)
  then obtain us vs where ys: "ys = us @ x # vs" by (meson split_list)
  with Cons.prems have m: "mset xs = mset (us @ vs)" by simp
  then have "set xs = set (us @ vs)" by (metis set_mset_mset)
  with Cons.IH [OF m] show ?case
    unfolding ys using sorted_wrt_sym_move [of P us x vs, OF sym] by simp
qed

section \<open>Properties of the validation\<close>

text \<open>
  C15. The E820 validation accepts exactly the tables in which no entry's end address
  overflows 64 bits and no two entries share a byte.
\<close>

theorem validate_entries_exact:
  "validate_entries es = Inr () \<longleftrightarrow>
     list_all (\<lambda>e. unat (e820_address e) + unat (e820_length e) < 2 ^ 64) es
     \<and> sorted_wrt (\<lambda>e f. entry_span e \<inter> entry_span f = {}) es"
  by (simp add: validate_entries_iff entry_fits_def list_all_iff)

text \<open>
  Whether a table is accepted does not depend on the order the firmware lists the
  entries in.
\<close>

theorem validate_entries_order_independent:
  assumes "mset es = mset es'"
  shows "validate_entries es = Inr () \<longleftrightarrow> validate_entries es' = Inr ()"
proof -
  have "set es = set es'" using assms by (metis set_mset_mset)
  moreover have "sorted_wrt span_disjoint es \<longleftrightarrow> sorted_wrt span_disjoint es'"
    by (rule sorted_wrt_sym_mset [OF _ assms]) auto
  ultimately show ?thesis by (simp add: validate_entries_iff)
qed

definition example_ram :: e820_entry where
  "example_ram = \<lparr>e820_address = 0x100000, e820_length = 0x400000, e820_kind = 1\<rparr>"

definition example_reserved :: e820_entry where
  "example_reserved = \<lparr>e820_address = 0x500000, e820_length = 0x1000, e820_kind = 2\<rparr>"

theorem validate_entries_order_independent_witness:
  "validate_entries [example_reserved, example_ram] = Inr ()
   \<and> validate_entries [example_ram, example_reserved] = Inr ()"
proof -
  have "validate_entries [example_reserved, example_ram] = Inr ()"
    by (simp add: validate_entries_def example_ram_def example_reserved_def checked_add_u64_def
        Let_def)
  then show ?thesis
    using validate_entries_order_independent
      [of "[example_reserved, example_ram]" "[example_ram, example_reserved]"] by simp
qed

lemma validate_header_Inr:
  "validate_header h = Inr n \<longleftrightarrow> n = unat (hdr_count h) \<and> 1 \<le> n \<and> n \<le> MAX_ENTRIES
     \<and> hdr_magic h = MAGIC \<and> hdr_version h = 1 \<and> hdr_entry_size h = 20
     \<and> hdr_capacity h = 32 \<and> hdr_flags h = 1"
proof -
  have "unat (hdr_capacity h) = MAX_ENTRIES \<longleftrightarrow> hdr_capacity h = 32"
    by (simp add: MAX_ENTRIES_def word_unat_eq_iff)
  moreover have "1 \<le> unat (hdr_count h) \<longleftrightarrow> hdr_count h \<noteq> 0"
    by (simp add: Suc_le_eq unat_gt_0)
  ultimately show ?thesis by (auto simp: validate_header_def)
qed

section \<open>Containment in usable RAM\<close>

text \<open>The map a successful read returns: what the rest of the kernel may rely on.\<close>

definition map_valid :: "memory_map \<Rightarrow> bool" where
  "map_valid m \<longleftrightarrow> length (map_entries m) = MAX_ENTRIES
     \<and> 1 \<le> map_count m \<and> map_count m \<le> MAX_ENTRIES
     \<and> validate_entries (take (map_count m) (map_entries m)) = Inr ()"

lemma covers_iff:
  assumes "entry_fits e" "s < t" "t < 2 ^ 64"
  shows "(e820_length e \<noteq> 0 \<and> e820_address e \<le> of_nat s
      \<and> of_nat t \<le> e820_address e + e820_length e) \<longleftrightarrow> {s..<t} \<subseteq> entry_span e"
proof -
  have s: "unat (of_nat s :: u64) = s" and t: "unat (of_nat t :: u64) = t"
    using assms by (simp_all add: unat_of_nat)
  have "{s..<t} \<subseteq> entry_span e \<longleftrightarrow> unat (e820_address e) \<le> s
      \<and> t \<le> unat (e820_address e) + unat (e820_length e)"
    using assms(2) by (auto simp: entry_span_def atLeastLessThan_subset_iff)
  moreover have "unat (e820_address e) \<le> s \<and> t \<le> unat (e820_address e) + unat (e820_length e)
      \<Longrightarrow> e820_length e \<noteq> 0"
    using assms(2) by auto
  ultimately show ?thesis
    using assms(1) by (auto simp: word_le_nat_alt s t entry_end_exact)
qed

lemma contains_usable_spec:
  assumes "map_valid m" "t < 2 ^ 64"
  shows "contains_usable m s t = Inr (s < t \<and>
    (\<exists>e \<in> set (take (map_count m) (map_entries m)).
       e820_kind e = 1 \<and> {s..<t} \<subseteq> entry_span e))"
proof -
  have fits: "entry_fits e" if "e \<in> set (take (map_count m) (map_entries m))" for e
    using assms(1) that by (simp add: map_valid_def validate_entries_iff)
  show ?thesis
    using assms covers_iff [OF fits _ assms(2)]
    by (auto simp: contains_usable_def map_valid_def list_ex_iff Bex_def)
qed

lemma sorted_wrt_unique:
  assumes "sorted_wrt span_disjoint es" "e \<in> set es" "f \<in> set es"
    and "a \<in> entry_span e" "a \<in> entry_span f"
  shows "e = f"
proof -
  obtain i where i: "i < length es" "e = es ! i" using assms(2) by (auto simp: in_set_conv_nth)
  obtain j where j: "j < length es" "f = es ! j" using assms(3) by (auto simp: in_set_conv_nth)
  have disj: "\<And>k l. k < l \<Longrightarrow> l < length es \<Longrightarrow> span_disjoint (es ! k) (es ! l)"
    using assms(1) by (simp add: sorted_wrt_iff_nth_less)
  have "i = j"
  proof (rule linorder_cases [of i j])
    assume "i < j" then show ?thesis using disj [of i j] i j assms(4,5) by auto
  next
    assume "j < i" then show ?thesis using disj [of j i] i j assms(4,5) by auto
  qed simp
  then show ?thesis using i j by simp
qed

text \<open>
  When the containment check of a validated map succeeds for a byte range, the range is
  not empty and every entry that shares a byte with it is RAM: no reserved, ACPI or bad
  range can reach into memory the kernel has found to be usable.
\<close>

theorem contains_usable_safe:
  assumes "map_valid m" and "t < 2 ^ 64"
    and "contains_usable m s t = Inr True"
    and "e \<in> set (take (map_count m) (map_entries m))"
    and "entry_span e \<inter> {s..<t} \<noteq> {}"
  shows "s < t \<and> e820_kind e = 1 \<and> {s..<t} \<subseteq> entry_span e"
proof -
  let ?es = "take (map_count m) (map_entries m)"
  obtain f where f: "s < t" "f \<in> set ?es" "e820_kind f = 1" "{s..<t} \<subseteq> entry_span f"
    using contains_usable_spec [OF assms(1,2), of s] assms(3) by auto
  have "sorted_wrt span_disjoint ?es"
    using assms(1) by (simp add: map_valid_def validate_entries_iff)
  moreover obtain a where "a \<in> entry_span e \<inter> {s..<t}" using assms(5) by blast
  ultimately have "e = f" using sorted_wrt_unique [of ?es e f a] f(2,4) assms(4) by blast
  with f show ?thesis by simp
qed

definition example_map :: memory_map where
  "example_map = \<lparr>map_entries = [example_reserved, example_ram] @ replicate 30 EMPTY,
     map_count = 2\<rparr>"

lemma example_map_valid: "map_valid example_map"
  by (simp add: map_valid_def example_map_def MAX_ENTRIES_def validate_entries_def
      example_ram_def example_reserved_def checked_add_u64_def Let_def)

lemma example_map_contains: "contains_usable example_map 0x100000 0x500000 = Inr True"
  by (simp add: contains_usable_def example_map_def example_ram_def example_reserved_def)

theorem contains_usable_safe_witness:
  "(0x100000 :: nat) < 0x500000 \<and> e820_kind example_ram = 1
   \<and> {0x100000 ..< 0x500000} \<subseteq> entry_span example_ram"
proof (rule contains_usable_safe [OF example_map_valid _ example_map_contains])
  show "(0x500000 :: nat) < 2 ^ 64" by simp
  show "example_ram \<in> set (take (map_count example_map) (map_entries example_map))"
    by (simp add: example_map_def)
  show "entry_span example_ram \<inter> {0x100000 ..< 0x500000} \<noteq> {}"
    by (simp add: entry_span_def example_ram_def)
qed

section \<open>Reading the hand-over\<close>

lemma foldl_list_update:
  "n \<le> length xs \<Longrightarrow> foldl (\<lambda>es i. es[i := f i]) xs [0..<n] = map f [0..<n] @ drop n xs"
proof (induction n)
  case 0
  then show ?case by simp
next
  case (Suc n)
  then have "foldl (\<lambda>es i. es[i := f i]) xs [0..<Suc n] = (map f [0..<n] @ drop n xs)[n := f n]"
    by simp
  also have "\<dots> = map f [0..<n] @ (drop n xs)[0 := f n]"
    by (simp add: list_update_append)
  also have "drop n xs = xs ! n # drop (Suc n) xs"
    using Suc.prems by (simp add: Cons_nth_drop_Suc)
  finally show ?case by simp
qed

abbreviation entries_from :: "(nat \<Rightarrow> u8) \<Rightarrow> nat \<Rightarrow> e820_entry list" where
  "entries_from mem n \<equiv> map (\<lambda>i. read_entry mem (PAGE_OFFSET + ENTRIES + i * 20)) [0..<n]"

lemma read_memory_map_iff:
  "read_memory_map mem = Inr m \<longleftrightarrow>
    (\<exists>n. validate_header (read_header mem (PAGE_OFFSET + HEADER)) = Inr n
      \<and> m = \<lparr>map_entries = entries_from mem n @ replicate (MAX_ENTRIES - n) EMPTY, map_count = n\<rparr>
      \<and> validate_entries (entries_from mem n) = Inr ()
      \<and> (\<forall>(s, t) \<in> set bootstrap_ranges. contains_usable m s t = Inr True))"
proof -
  have fold: "foldl (\<lambda>es i. es[i := read_entry mem (PAGE_OFFSET + ENTRIES + i * 20)])
      (replicate MAX_ENTRIES EMPTY) [0..<n] =
      entries_from mem n @ replicate (MAX_ENTRIES - n) EMPTY" if "n \<le> MAX_ENTRIES" for n
    using that by (simp add: foldl_list_update)
  have loop: "for_res rs (\<lambda>(s, t) u. bind_res (contains_usable m s t)
        (\<lambda>ok. ensure ok msg)) () = Inr () \<longleftrightarrow>
      (\<forall>(s, t) \<in> set rs. contains_usable m s t = Inr True)" for rs m msg
    by (induction rs) (auto simp: res_Inr)
  show ?thesis
    unfolding read_memory_map_def
    by (auto simp: res_Inr loop fold validate_header_Inr Let_def)
qed

lemma read_memory_map_valid:
  assumes "read_memory_map mem = Inr m"
  shows "map_valid m"
  using assms by (auto simp: read_memory_map_iff map_valid_def validate_header_Inr)

text \<open>
  C16. A map the kernel accepts is well formed: between 1 and 32 entries, none overflowing, no
  two overlapping, and the four fixed regions the boot code already uses (hand-over buffer,
  boot stack and scratch, loader, temporary page tables) lie in RAM entries.
\<close>

theorem read_memory_map_sound:
  assumes "read_memory_map mem = Inr m"
  shows "map_valid m
    \<and> list_all (\<lambda>(s, t). \<exists>e. e \<in> set (take (map_count m) (map_entries m))
          \<and> e820_kind e = 1 \<and> {s..<t} \<subseteq> entry_span e)
        [(0x4ff0, 0x5318), (0x6000, 0x10000), (0x10000, 0x20000), (0x90000, 0x93000)]"
proof -
  have v: "map_valid m" using assms by (rule read_memory_map_valid)
  have ok: "\<forall>(s, t) \<in> set bootstrap_ranges. contains_usable m s t = Inr True"
    using assms by (auto simp: read_memory_map_iff)
  show ?thesis
    using v ok contains_usable_spec [OF v]
    by (auto simp: bootstrap_ranges_def HEADER_def Bex_def)
qed

text \<open>The bytes the loader writes for a header and for the entry array.\<close>

definition header_bytes :: "header \<Rightarrow> u8 list" where
  "header_bytes h = le_bytes 4 (hdr_magic h) @ le_bytes 2 (hdr_version h)
     @ le_bytes 2 (hdr_entry_size h) @ le_bytes 2 (hdr_count h)
     @ le_bytes 2 (hdr_capacity h) @ le_bytes 4 (hdr_flags h)"

definition entry_bytes :: "e820_entry \<Rightarrow> u8 list" where
  "entry_bytes e = le_bytes 8 (e820_address e) @ le_bytes 8 (e820_length e)
     @ le_bytes 4 (e820_kind e)"

lemma length_entry_bytes [simp]: "length (entry_bytes e) = 20"
  by (simp add: entry_bytes_def)

lemma read_header_bytes: "holds_bytes mem a (header_bytes h) \<Longrightarrow> read_header mem a = h"
  by (cases h) (simp add: read_header_def header_bytes_def holds_bytes_append read_le_holds
      add.commute [of _ a])

lemma read_entry_bytes: "holds_bytes mem a (entry_bytes e) \<Longrightarrow> read_entry mem a = e"
  by (cases e) (simp add: read_entry_def entry_bytes_def holds_bytes_append read_le_holds
      add.commute [of _ a])

lemma holds_entries_nth:
  "holds_bytes mem a (concat (map entry_bytes es)) \<Longrightarrow> i < length es \<Longrightarrow>
     holds_bytes mem (a + i * 20) (entry_bytes (es ! i))"
proof (induction es arbitrary: a i)
  case Nil
  then show ?case by simp
next
  case (Cons e es)
  then show ?case
    using Cons.IH [of "a + 20"] by (cases i) (auto simp: holds_bytes_append add.assoc)
qed

lemma entries_from_bytes:
  assumes "holds_bytes mem (PAGE_OFFSET + ENTRIES) (concat (map entry_bytes es))"
  shows "entries_from mem (length es) = es"
  by (rule nth_equalityI) (simp_all add: read_entry_bytes [OF holds_entries_nth [OF assms]])

text \<open>
  C17. Round trip of the hand-over format: when memory holds the little-endian encoding of a
  version 1, complete header and of its entry array, the table passes validation and its RAM
  entries cover the boot regions, the kernel reads back exactly that table, padded to 32
  entries with empty ones.
\<close>

theorem read_memory_map_roundtrip:
  assumes "holds_bytes mem (0xffff800000000000 + 0x4ff0)
      (header_bytes \<lparr>hdr_magic = 0x30323845, hdr_version = 1, hdr_entry_size = 20,
         hdr_count = of_nat (length es), hdr_capacity = 32, hdr_flags = 1\<rparr>)"
    and "holds_bytes mem (0xffff800000000000 + 0x5000) (concat (map entry_bytes es))"
    and "1 \<le> length es" and "length es \<le> 32"
    and "validate_entries es = Inr ()"
    and "list_all (\<lambda>(s, t). list_ex (\<lambda>e. e820_kind e = 1 \<and> {s..<t} \<subseteq> entry_span e) es)
          bootstrap_ranges"
  shows "read_memory_map mem =
    Inr \<lparr>map_entries = es @ replicate (32 - length es) EMPTY, map_count = length es\<rparr>"
proof -
  let ?m = "\<lparr>map_entries = es @ replicate (32 - length es) EMPTY, map_count = length es\<rparr>"
  have n: "unat (of_nat (length es) :: u16) = length es"
    using assms(4) by (simp add: unat_of_nat)
  have hdr: "validate_header (read_header mem (PAGE_OFFSET + HEADER)) = Inr (length es)"
    using read_header_bytes [OF assms(1)] assms(3,4)
    by (simp add: PAGE_OFFSET_def HEADER_def validate_header_Inr n MAGIC_def MAX_ENTRIES_def)
  have es: "entries_from mem (length es) = es"
    by (rule entries_from_bytes) (use assms(2) in \<open>simp add: PAGE_OFFSET_def ENTRIES_def\<close>)
  have v: "map_valid ?m"
    using assms(3-5) by (simp add: map_valid_def MAX_ENTRIES_def)
  have "contains_usable ?m s t = Inr True" if "(s, t) \<in> set bootstrap_ranges" for s t
    using assms(6) that contains_usable_spec [OF v, of t s]
    by (auto simp: bootstrap_ranges_def HEADER_def list_ex_iff list_all_iff Bex_def)
  then show ?thesis
    unfolding read_memory_map_iff using hdr es assms(5)
    by (intro exI [of _ "length es"]) (auto simp: MAX_ENTRIES_def)
qed

text \<open>A small machine: 636 KiB of low RAM, the BIOS area, and RAM from 1 MiB to 16 MiB.\<close>

definition example_entries :: "e820_entry list" where
  "example_entries =
     [\<lparr>e820_address = 0, e820_length = 0x9f000, e820_kind = 1\<rparr>,
      \<lparr>e820_address = 0xf0000, e820_length = 0x10000, e820_kind = 2\<rparr>,
      \<lparr>e820_address = 0x100000, e820_length = 0xf00000, e820_kind = 1\<rparr>]"

definition example_header :: header where
  "example_header = \<lparr>hdr_magic = 0x30323845, hdr_version = 1, hdr_entry_size = 20,
     hdr_count = 3, hdr_capacity = 32, hdr_flags = 1\<rparr>"

definition place_bytes :: "nat \<Rightarrow> u8 list \<Rightarrow> nat \<Rightarrow> u8" where
  "place_bytes base bs a = (if base \<le> a \<and> a < base + length bs then bs ! (a - base) else 0)"

lemma place_bytes_holds: "holds_bytes (place_bytes base bs) base bs"
  unfolding holds_bytes_def by (rule nth_equalityI) (simp_all add: place_bytes_def)

definition example_memory :: "nat \<Rightarrow> u8" where
  "example_memory = place_bytes (0xffff800000000000 + 0x4ff0)
     (header_bytes example_header @ concat (map entry_bytes example_entries))"

lemma example_memory_holds:
  "holds_bytes example_memory (0xffff800000000000 + 0x4ff0) (header_bytes example_header)"
  "holds_bytes example_memory (0xffff800000000000 + 0x5000)
     (concat (map entry_bytes example_entries))"
  using place_bytes_holds [of "0xffff800000000000 + 0x4ff0"
      "header_bytes example_header @ concat (map entry_bytes example_entries)"]
  unfolding example_memory_def holds_bytes_append by (simp_all add: header_bytes_def)

lemma example_entries_valid: "validate_entries example_entries = Inr ()"
  by (simp add: validate_entries_def example_entries_def checked_add_u64_def Let_def)

theorem read_memory_map_roundtrip_witness:
  "read_memory_map example_memory =
     Inr \<lparr>map_entries = example_entries @ replicate (32 - length example_entries) EMPTY,
          map_count = length example_entries\<rparr>"
proof (rule read_memory_map_roundtrip)
  show "holds_bytes example_memory (0xffff800000000000 + 0x4ff0)
      (header_bytes \<lparr>hdr_magic = 0x30323845, hdr_version = 1, hdr_entry_size = 20,
         hdr_count = of_nat (length example_entries), hdr_capacity = 32, hdr_flags = 1\<rparr>)"
    using example_memory_holds(1) by (simp add: example_header_def example_entries_def)
  show "holds_bytes example_memory (0xffff800000000000 + 0x5000)
      (concat (map entry_bytes example_entries))"
    by (rule example_memory_holds(2))
  show "1 \<le> length example_entries" and "length example_entries \<le> 32"
    by (simp_all add: example_entries_def)
  show "validate_entries example_entries = Inr ()" by (rule example_entries_valid)
  show "list_all (\<lambda>(s, t). list_ex (\<lambda>e. e820_kind e = 1 \<and> {s..<t} \<subseteq> entry_span e)
      example_entries) bootstrap_ranges"
    by (simp add: example_entries_def bootstrap_ranges_def HEADER_def entry_span_def
        atLeastLessThan_subset_iff)
qed

definition example_handoff :: memory_map where
  "example_handoff = \<lparr>map_entries = example_entries @ replicate 29 EMPTY, map_count = 3\<rparr>"

lemma example_handoff_entries: "take (map_count example_handoff) (map_entries example_handoff) =
    example_entries"
  by (simp add: example_handoff_def example_entries_def)

lemma example_handoff_valid: "map_valid example_handoff"
  by (simp only: map_valid_def example_handoff_entries)
    (simp add: example_handoff_def example_entries_def MAX_ENTRIES_def
      validate_entries_def checked_add_u64_def Let_def)

lemma example_read: "read_memory_map example_memory = Inr example_handoff"
proof -
  have h: "read_header example_memory (PAGE_OFFSET + HEADER) = example_header"
    using read_header_bytes [OF example_memory_holds(1)] by (simp add: PAGE_OFFSET_def HEADER_def)
  have "length example_entries = 3" by (simp add: example_entries_def)
  then have e: "entries_from example_memory 3 = example_entries"
    using entries_from_bytes [of example_memory example_entries] example_memory_holds(2)
    by (simp add: PAGE_OFFSET_def ENTRIES_def)
  have "contains_usable example_handoff s t = Inr True" if "(s, t) \<in> set bootstrap_ranges" for s t
    using that by (auto simp: bootstrap_ranges_def HEADER_def contains_usable_def
        example_handoff_def example_entries_def)
  then show ?thesis
    unfolding read_memory_map_iff h
    by (intro exI [of _ 3]) (auto simp: e example_entries_valid validate_header_Inr MAX_ENTRIES_def
        example_header_def MAGIC_def example_handoff_def)
qed

theorem read_memory_map_sound_witness:
  "map_valid example_handoff
    \<and> list_all (\<lambda>(s, t). \<exists>e. e \<in> set (take (map_count example_handoff) (map_entries example_handoff))
          \<and> e820_kind e = 1 \<and> {s..<t} \<subseteq> entry_span e)
        [(0x4ff0, 0x5318), (0x6000, 0x10000), (0x10000, 0x20000), (0x90000, 0x93000)]"
  by (rule read_memory_map_sound [OF example_read])

section \<open>The start-up self-test\<close>

lemma bootinfo_verify_headers:
  "validate_header \<lparr>hdr_magic = mg, hdr_version = v, hdr_entry_size = z, hdr_count = c,
     hdr_capacity = k, hdr_flags = f\<rparr> =
     (if mg \<noteq> 0x30323845 \<or> v \<noteq> 1 \<or> z \<noteq> 20 \<or> unat k \<noteq> 32 \<or> f \<noteq> 1
      then Inl ''invalid or incomplete E820 handoff''
      else if c = 0 \<or> 32 < unat c then Inl ''invalid E820 count'' else Inr (unat c))"
  by (simp add: validate_header_def MAGIC_def MAX_ENTRIES_def)

text \<open>
  The self-test of the hand-over validation (seven malformed headers, unordered, unknown,
  overlapping and overflowing entries, and the boundary cases of the containment test) passes.
\<close>

theorem bootinfo_verify_passes: "bootinfo_verify = Inr ()"
  by (simp add: bootinfo_verify_def bootinfo_verify_headers MAGIC_def MAX_ENTRIES_def EMPTY_def
      validate_entries_def checked_add_u64_def contains_usable_def Let_def)

end
