(* ===== verification/Memory.thy ===== *)
theory Memory
  imports Bootinfo
begin

text \<open>
  Physical memory bookkeeping (\<^verbatim>\<open>src/kernel/memory.rs\<close>): the page, zone and descriptor
  structures, the two page transitions \<^verbatim>\<open>init_page\<close> and \<^verbatim>\<open>clean_page\<close>, and the consistency
  invariant they keep. A pointer into one of the metadata arrays is an index (\<open>None\<close> for a
  null pointer); the three arrays are lists, with the address each was placed at beside them.
\<close>

section \<open>Constants\<close>

definition PAGE_2M_SIZE :: usize where
  "PAGE_2M_SIZE = 2097152"

definition PAGE_4K_SIZE :: usize where
  "PAGE_4K_SIZE = 4096"

definition DIRECT_RAM_END :: usize where
  "DIRECT_RAM_END = 10 * 1024 * 1024"

definition MAX_ZONES :: usize where
  "MAX_ZONES = MAX_ENTRIES"

definition PAGE_TABLE_MAPPED :: u64 where "PAGE_TABLE_MAPPED = 0x001"
definition KERNEL_INIT :: u64 where "KERNEL_INIT = 0x002"
definition REFERENCED :: u64 where "REFERENCED = 0x004"
definition ACTIVE :: u64 where "ACTIVE = 0x010"
definition KERNEL :: u64 where "KERNEL = 0x080"
definition KERNEL_SHARE_TO_USER :: u64 where "KERNEL_SHARE_TO_USER = 0x100"

text \<open>\<^verbatim>\<open>size_of::<Page>()\<close> and \<^verbatim>\<open>size_of::<Zone>()\<close>: five and ten 8-byte fields.\<close>

definition SIZEOF_PAGE :: usize where "SIZEOF_PAGE = 5 * 8"
definition SIZEOF_ZONE :: usize where "SIZEOF_ZONE = 10 * 8"

lemmas flag_defs = PAGE_TABLE_MAPPED_def KERNEL_INIT_def REFERENCED_def ACTIVE_def KERNEL_def
  KERNEL_SHARE_TO_USER_def

section \<open>Structures\<close>

record page =
  pg_zone :: "usize option"
  pg_physical_address :: usize
  pg_attribute :: u64
  pg_reference_count :: usize
  pg_create_time :: u64

text \<open>The back pointer of a zone is null in a zeroed slot and the static \<^verbatim>\<open>MEMORY\<close> otherwise.\<close>

datatype descriptor_ptr = Null_Descriptor | MEMORY

record zone =
  zn_pages :: "usize option"
  zn_number_pages :: usize
  zn_start_address :: usize
  zn_end_address :: usize
  zn_attribute :: u64
  zn_length :: usize
  zn_descriptor :: descriptor_ptr
  zn_page_using_count :: usize
  zn_page_free_count :: usize
  zn_total_pages_ref_count :: usize

record memory_descriptor =
  md_e820 :: "e820_entry list"
  md_number_entries :: usize
  md_bits_map :: "u64 list"
  md_bits_map_addr :: usize
  md_bits_size :: usize
  md_bits_length :: usize
  md_pages :: "page list"
  md_pages_addr :: usize
  md_pages_length :: usize
  md_zones :: "zone list"
  md_zones_addr :: usize
  md_zones_size :: usize
  md_end_of_struct :: usize
  md_global_cr3 :: u64

section \<open>Alignment and usable ranges\<close>

definition is_power_of_two :: "usize \<Rightarrow> bool" where
  "is_power_of_two n \<longleftrightarrow> list_ex (\<lambda>k. n = 2 ^ k) [0..<64]"

text \<open>\<^verbatim>\<open>a & !m\<close> on \<^verbatim>\<open>usize\<close> values.\<close>

definition and_not :: "usize \<Rightarrow> usize \<Rightarrow> usize" where
  "and_not a m = unat ((of_nat a :: u64) AND NOT (of_nat m))"

definition align_up :: "usize \<Rightarrow> usize \<Rightarrow> usize res" where
  "align_up address alignment =
     bind_res (ensure (is_power_of_two alignment) ''alignment.is_power_of_two()'') (\<lambda>_.
     bind_res (expect (checked_add address (usub alignment 1)) ''alignment overflow'') (\<lambda>a.
     Inr (and_not a (usub alignment 1))))"

definition entry_end :: "e820_entry \<Rightarrow> usize res" where
  "entry_end e = bind_res (expect (checked_add_u64 (e820_address e) (e820_length e))
     ''E820 address overflow'') (\<lambda>a. Inr (unat a))"

definition usable_range :: "e820_entry \<Rightarrow> (usize \<times> usize) option res" where
  "usable_range e =
     (if e820_kind e \<noteq> 1 \<or> e820_length e = 0 then Inr None
      else bind_res (align_up (unat (e820_address e)) PAGE_2M_SIZE) (\<lambda>start.
           bind_res (entry_end e) (\<lambda>en.
           let end = and_not en (usub PAGE_2M_SIZE 1) in
           Inr (if start < end then Some (start, end) else None))))"

section \<open>Page transitions\<close>

definition set_used :: "memory_descriptor \<Rightarrow> usize \<Rightarrow> bool \<Rightarrow> memory_descriptor res" where
  "set_used d index used =
     bind_res (ensure (index < md_bits_size d) ''index < self.bits_size'') (\<lambda>_.
     let word = index div 64;
         mask = push_bit (index mod 64) (1 :: u64);
         value = (if used then md_bits_map d ! word OR mask else md_bits_map d ! word AND NOT mask)
     in Inr (d\<lparr>md_bits_map := (md_bits_map d)[word := value]\<rparr>))"

definition init_page :: "memory_descriptor \<Rightarrow> usize \<Rightarrow> u64 \<Rightarrow> memory_descriptor res" where
  "init_page d index attributes =
     bind_res (ensure (index < md_bits_size d) ''index < self.bits_size'') (\<lambda>_.
     let p = md_pages d ! index in
     if pg_attribute p = 0 then
       let p' = p\<lparr>pg_attribute := attributes, pg_reference_count := 1\<rparr>;
           d1 = d\<lparr>md_pages := (md_pages d)[index := p']\<rparr>
       in (case pg_zone p of
             None \<Rightarrow> set_used d1 index True
           | Some z \<Rightarrow>
               let zn = md_zones d ! z in
               bind_res (ensure (0 < zn_page_free_count zn) ''zone.page_free_count > 0'') (\<lambda>_.
               set_used (d1\<lparr>md_zones := (md_zones d)[z := zn\<lparr>
                   zn_page_using_count := uadd (zn_page_using_count zn) 1,
                   zn_page_free_count := usub (zn_page_free_count zn) 1,
                   zn_total_pages_ref_count := uadd (zn_total_pages_ref_count zn) 1\<rparr>]\<rparr>)
                 index True))
     else if (pg_attribute p OR attributes) AND (REFERENCED OR KERNEL_SHARE_TO_USER) \<noteq> 0 then
       let p' = p\<lparr>pg_attribute := pg_attribute p OR attributes,
                  pg_reference_count := uadd (pg_reference_count p) 1\<rparr>;
           d1 = d\<lparr>md_pages := (md_pages d)[index := p']\<rparr>
       in (case pg_zone p of
             None \<Rightarrow> set_used d1 index True
           | Some z \<Rightarrow>
               let zn = md_zones d ! z in
               set_used (d1\<lparr>md_zones := (md_zones d)[z := zn\<lparr>
                   zn_total_pages_ref_count := uadd (zn_total_pages_ref_count zn) 1\<rparr>]\<rparr>)
                 index True)
     else
       set_used (d\<lparr>md_pages := (md_pages d)[index :=
           p\<lparr>pg_attribute := pg_attribute p OR attributes\<rparr>]\<rparr>) index True)"

definition clean_page :: "memory_descriptor \<Rightarrow> usize \<Rightarrow> memory_descriptor res" where
  "clean_page d index =
     bind_res (ensure (index < md_bits_size d) ''index < self.bits_size'') (\<lambda>_.
     let p = md_pages d ! index in
     case pg_zone p of
       None \<Rightarrow> Inl (Panic ''!page.zone.is_null()'')
     | Some z \<Rightarrow>
         bind_res (ensure (pg_attribute p AND KERNEL_INIT = 0)
           ''page.attribute & flags::KERNEL_INIT == 0'') (\<lambda>_.
         if pg_attribute p = 0 then Inr d
         else
           bind_res (ensure (0 < pg_reference_count p) ''page.reference_count > 0'') (\<lambda>_.
           let zn = md_zones d ! z;
               count = usub (pg_reference_count p) 1;
               refs = usub (zn_total_pages_ref_count zn) 1
           in if count = 0 then
                set_used (d\<lparr>md_pages := (md_pages d)[index :=
                      p\<lparr>pg_attribute := 0, pg_reference_count := 0\<rparr>],
                    md_zones := (md_zones d)[z := zn\<lparr>
                      zn_page_using_count := usub (zn_page_using_count zn) 1,
                      zn_page_free_count := uadd (zn_page_free_count zn) 1,
                      zn_total_pages_ref_count := refs\<rparr>]\<rparr>) index False
              else
                Inr (d\<lparr>md_pages := (md_pages d)[index := p\<lparr>pg_reference_count := count\<rparr>],
                    md_zones := (md_zones d)[z := zn\<lparr>zn_total_pages_ref_count := refs\<rparr>]\<rparr>))))"

section \<open>Arithmetic of alignment\<close>

lemma word_and_not_mask: "(w :: u64) AND NOT (mask n) = w - take_bit n w"
proof -
  have "w AND NOT (mask n) = push_bit n (drop_bit n w)"
    by (rule bit_word_eqI) (auto simp: bit_simps)
  then show ?thesis by (metis add_diff_cancel_right' bits_ident)
qed

lemma and_not_mask:
  assumes "a < usize_range" "n < 64"
  shows "and_not a (2 ^ n - 1) = a - a mod 2 ^ n"
proof -
  have "(of_nat (2 ^ n - 1) :: u64) = mask n"
    by (metis mask_eq_exp_minus_1 of_nat_mask_eq)
  then have w: "and_not a (2 ^ n - 1) = unat ((of_nat a :: u64) - take_bit n (of_nat a))"
    by (simp add: and_not_def word_and_not_mask)
  have a: "unat (of_nat a :: u64) = a" using assms(1) by (simp add: unat_of_nat)
  have t: "unat (take_bit n (of_nat a) :: u64) = a mod 2 ^ n"
    unfolding unsigned_take_bit_eq a by (simp add: take_bit_eq_mod)
  have le: "take_bit n (of_nat a :: u64) \<le> of_nat a"
    by (simp add: word_le_nat_alt a t)
  have "unat ((of_nat a :: u64) - take_bit n (of_nat a)) = a - a mod 2 ^ n"
    unfolding unat_sub [OF le] a t ..
  with w show ?thesis by (simp only:)
qed

lemma is_power_of_two_pow: "n < 64 \<Longrightarrow> is_power_of_two (2 ^ n)"
  by (auto simp: is_power_of_two_def list_ex_iff)

lemma round_up_eq:
  fixes a b :: nat
  assumes "0 < b"
  shows "(a + (b - 1)) - (a + (b - 1)) mod b = div_ceil a b * b"
proof -
  have "(a + (b - 1)) div b = div_ceil a b"
  proof (cases "a mod b = 0")
    case True
    then have "(a + (b - 1)) div b = a div b + (b - 1) div b"
      by (simp add: div_add1_eq)
    with True assms show ?thesis by (simp add: div_ceil_def)
  next
    case False
    then have m: "0 < a mod b" "a mod b < b" using assms by simp_all
    have "a = a div b * b + a mod b" by simp
    then have "a + (b - 1) = (a div b + 1) * b + (a mod b - 1)"
      using m unfolding add_mult_distrib by linarith
    then have "(a + (b - 1)) div b = a div b + 1 + (a mod b - 1) div b"
      using assms by (metis div_mult_self3 gr_implies_not0)
    moreover have "(a mod b - 1) div b = 0" using m by simp
    ultimately show ?thesis using False by (simp add: div_ceil_def)
  qed
  then show ?thesis by (metis minus_mod_eq_div_mult)
qed

lemma align_up_pow:
  assumes "n < 64"
  shows "align_up a (2 ^ n) = Inr r \<longleftrightarrow> a + (2 ^ n - 1) < usize_range \<and> r = div_ceil a (2 ^ n) * 2 ^ n"
proof -
  have "usub (2 ^ n) 1 = 2 ^ n - 1" by (simp add: usub_def)
  then show ?thesis
    using assms is_power_of_two_pow [OF assms] round_up_eq [of "2 ^ n" a]
      and_not_mask [OF _ assms, of "a + (2 ^ n - 1)"]
    by (auto simp: align_up_def res_Inr)
qed

lemma align_up_2M:
  "align_up a PAGE_2M_SIZE = Inr r \<longleftrightarrow>
     a + (PAGE_2M_SIZE - 1) < usize_range \<and> r = div_ceil a PAGE_2M_SIZE * PAGE_2M_SIZE"
  using align_up_pow [of 21 a r] by (simp add: PAGE_2M_SIZE_def)

lemma align_up_4K:
  "align_up a PAGE_4K_SIZE = Inr r \<longleftrightarrow>
     a + (PAGE_4K_SIZE - 1) < usize_range \<and> r = div_ceil a PAGE_4K_SIZE * PAGE_4K_SIZE"
  using align_up_pow [of 12 a r] by (simp add: PAGE_4K_SIZE_def)

lemma align_up_256:
  "align_up a 256 = Inr r \<longleftrightarrow> a + 255 < usize_range \<and> r = div_ceil a 256 * 256"
  using align_up_pow [of 8 a r] by simp

lemma page_2M_pos [simp]: "0 < PAGE_2M_SIZE"
  by (simp add: PAGE_2M_SIZE_def)

lemma page_2M_nonzero [simp]: "PAGE_2M_SIZE \<noteq> 0"
  by (simp add: PAGE_2M_SIZE_def)

lemma page_size_le [simp]: "PAGE_2M_SIZE \<le> usize_range"
  by (simp add: PAGE_2M_SIZE_def)

lemma round_down_2M: "a < usize_range \<Longrightarrow> and_not a (usub PAGE_2M_SIZE 1) = a div PAGE_2M_SIZE * PAGE_2M_SIZE"
  using and_not_mask [of a 21] by (simp add: PAGE_2M_SIZE_def usub_def minus_mod_eq_div_mult)

lemmas round_down_2M_num = round_down_2M [simplified]

section \<open>Bitmap access\<close>

definition get_bit :: "u64 list \<Rightarrow> nat \<Rightarrow> bool" where
  "get_bit bm i = bit (bm ! (i div 64)) (i mod 64)"

definition put_bit :: "u64 list \<Rightarrow> nat \<Rightarrow> bool \<Rightarrow> u64 list" where
  "put_bit bm i b = bm[i div 64 :=
     (if b then bm ! (i div 64) OR push_bit (i mod 64) 1
      else bm ! (i div 64) AND NOT (push_bit (i mod 64) 1))]"

lemma length_put_bit [simp]: "length (put_bit bm i b) = length bm"
  by (simp add: put_bit_def)

lemma get_put_bit:
  assumes "i < 64 * length bm"
  shows "get_bit (put_bit bm i b) j = (if i = j then b else get_bit bm j)"
proof -
  have l: "i div 64 < length bm" using assms by (simp add: div_less_iff_less_mult mult.commute)
  have eq: "i = j \<longleftrightarrow> i div 64 = j div 64 \<and> i mod 64 = j mod 64"
    by (metis div_mult_mod_eq)
  show ?thesis
  proof (cases "i div 64 = j div 64")
    case True
    with l eq show ?thesis
      by (auto simp: get_bit_def put_bit_def bit_simps)
  next
    case False
    with eq show ?thesis by (auto simp: get_bit_def put_bit_def)
  qed
qed

lemma put_bit_same:
  assumes "i < 64 * length bm" "get_bit bm i = b"
  shows "put_bit bm i b = bm"
proof -
  have l: "i div 64 < length bm" using assms by (simp add: div_less_iff_less_mult mult.commute)
  have "(if b then bm ! (i div 64) OR push_bit (i mod 64) 1
      else bm ! (i div 64) AND NOT (push_bit (i mod 64) 1)) = bm ! (i div 64)"
    using assms(2) by (intro bit_word_eqI) (auto simp: get_bit_def bit_simps)
  with l show ?thesis by (simp add: put_bit_def)
qed

lemma put_bit_undo:
  assumes "i < 64 * length bm" "get_bit bm i = b"
  shows "put_bit (put_bit bm i c) i b = bm"
proof -
  have l: "i div 64 < length bm" using assms by (simp add: div_less_iff_less_mult mult.commute)
  have "(if b then put_bit bm i c ! (i div 64) OR push_bit (i mod 64) 1
      else put_bit bm i c ! (i div 64) AND NOT (push_bit (i mod 64) 1)) = bm ! (i div 64)"
    using assms(2) l
    by (intro bit_word_eqI) (auto simp: get_bit_def put_bit_def bit_simps)
  with l show ?thesis
    unfolding put_bit_def [of "put_bit bm i c"] by (simp add: put_bit_def)
qed

lemma mask_test_iff: "(w :: u64) AND push_bit k 1 \<noteq> 0 \<longleftrightarrow> bit w k"
  by (simp add: bit_iff_and_push_bit_not_eq_0)

lemma mask_test_exp: "((w :: u64) AND 2 ^ k \<noteq> 0) = bit w k"
  using mask_test_iff [of w k] by simp

lemma set_used_eq:
  "set_used d i b = (if i < md_bits_size d
     then Inr (d\<lparr>md_bits_map := put_bit (md_bits_map d) i b\<rparr>)
     else Inl (Panic ''index < self.bits_size''))"
  by (simp add: set_used_def put_bit_def Let_def)

section \<open>Usable ranges are the whole pages of RAM entries\<close>

definition page_bytes :: "nat \<Rightarrow> nat set" where
  "page_bytes i = {i * PAGE_2M_SIZE ..< i * PAGE_2M_SIZE + PAGE_2M_SIZE}"

definition range_pages :: "(usize \<times> usize) option \<Rightarrow> nat set" where
  "range_pages r = (case r of None \<Rightarrow> {}
     | Some (start, end) \<Rightarrow> {start div PAGE_2M_SIZE ..< end div PAGE_2M_SIZE})"

lemma entry_end_Inr:
  "entry_end e = Inr t \<longleftrightarrow> entry_fits e \<and> t = unat (e820_address e) + unat (e820_length e)"
  by (auto simp: entry_end_def entry_fits_def res_Inr checked_add_u64_Some unat_add_u64)

lemma usable_range_Inr:
  "usable_range e = Inr r \<longleftrightarrow>
     (if e820_kind e \<noteq> 1 \<or> e820_length e = 0 then r = None
      else unat (e820_address e) + (PAGE_2M_SIZE - 1) < usize_range \<and> entry_fits e \<and>
        r = (let f = div_ceil (unat (e820_address e)) PAGE_2M_SIZE;
                 l = (unat (e820_address e) + unat (e820_length e)) div PAGE_2M_SIZE
             in if f < l then Some (f * PAGE_2M_SIZE, l * PAGE_2M_SIZE) else None))"
  by (auto simp: usable_range_def bind_res_Inr align_up_2M entry_end_Inr Let_def
      round_down_2M_num entry_fits_def)

lemma usable_range_Some:
  "usable_range e = Inr (Some (s, t)) \<Longrightarrow>
     e820_kind e = 1 \<and> entry_fits e \<and> s < t
     \<and> s = s div PAGE_2M_SIZE * PAGE_2M_SIZE \<and> t = t div PAGE_2M_SIZE * PAGE_2M_SIZE
     \<and> s div PAGE_2M_SIZE = div_ceil (unat (e820_address e)) PAGE_2M_SIZE
     \<and> t div PAGE_2M_SIZE = (unat (e820_address e) + unat (e820_length e)) div PAGE_2M_SIZE"
  by (auto simp: usable_range_Inr Let_def split: if_splits)

lemma page_in_span_iff:
  "page_bytes i \<subseteq> entry_span e \<longleftrightarrow> div_ceil (unat (e820_address e)) PAGE_2M_SIZE \<le> i
     \<and> i < (unat (e820_address e) + unat (e820_length e)) div PAGE_2M_SIZE"
proof -
  let ?a = "unat (e820_address e)" and ?t = "unat (e820_address e) + unat (e820_length e)"
  have "page_bytes i \<subseteq> entry_span e \<longleftrightarrow> ?a \<le> i * PAGE_2M_SIZE \<and> Suc i * PAGE_2M_SIZE \<le> ?t"
    by (auto simp: page_bytes_def entry_span_def atLeastLessThan_subset_iff add.commute)
  also have "Suc i * PAGE_2M_SIZE \<le> ?t \<longleftrightarrow> Suc i \<le> ?t div PAGE_2M_SIZE"
    by (simp add: less_eq_div_iff_mult_less_eq)
  finally show ?thesis by (simp add: div_ceil_le_iff Suc_le_eq)
qed

lemma range_pages_usable:
  assumes "usable_range e = Inr r"
  shows "range_pages r = {i. e820_kind e = 1 \<and> page_bytes i \<subseteq> entry_span e}"
proof (cases "e820_kind e \<noteq> 1 \<or> e820_length e = 0")
  case True
  then have "r = None" using assms by (simp add: usable_range_Inr)
  moreover have "\<not> page_bytes i \<subseteq> entry_span e" if "e820_length e = 0" for i
    using that by (auto simp: entry_span_def page_bytes_def)
  ultimately show ?thesis using True by (auto simp: range_pages_def)
next
  case False
  with assms show ?thesis
    by (auto simp: usable_range_Inr range_pages_def page_in_span_iff Let_def split: if_splits)
qed

text \<open>
  The usable range of an E820 entry holds exactly the 2 MiB pages that lie completely
  inside the entry, and none at all when the entry is not RAM: both ends are rounded inwards,
  so a page that also holds reserved bytes is never offered.
\<close>

theorem usable_range_exact:
  assumes "usable_range e = Inr r"
  shows "range_pages r = {i. e820_kind e = 1 \<and> page_bytes i \<subseteq> entry_span e}"
  by (rule range_pages_usable [OF assms])

lemma example_usable_range:
  "usable_range \<lparr>e820_address = 0x100000, e820_length = 0xf00000, e820_kind = 1\<rparr> =
     Inr (Some (0x200000, 0x1000000))"
  by (simp add: usable_range_Inr entry_fits_def PAGE_2M_SIZE_def div_ceil_def Let_def)

theorem usable_range_exact_witness:
  "range_pages (Some (0x200000, 0x1000000)) =
     {i. e820_kind \<lparr>e820_address = 0x100000, e820_length = 0xf00000, e820_kind = 1\<rparr> = 1
       \<and> page_bytes i \<subseteq> entry_span \<lparr>e820_address = 0x100000, e820_length = 0xf00000, e820_kind = 1\<rparr>}"
  by (rule usable_range_exact [OF example_usable_range])

end
