(* ===== verification/Memory_Invariant.thy ===== *)
theory Memory_Invariant
  imports Memory
begin

text \<open>
  The consistency invariant of the memory descriptor (bitmap, page and zone arrays agree, and
  the zone counters are the true counts) and its preservation by the page transitions
  \<^verbatim>\<open>init_page\<close> and \<^verbatim>\<open>clean_page\<close> of \<^verbatim>\<open>src/kernel/memory.rs\<close>.
\<close>

section \<open>The invariant\<close>

abbreviation page_used :: "memory_descriptor \<Rightarrow> nat \<Rightarrow> bool" where
  "page_used d i \<equiv> get_bit (md_bits_map d) i"

definition zone_first :: "zone \<Rightarrow> nat" where
  "zone_first zn = zn_start_address zn div PAGE_2M_SIZE"

definition zone_last :: "zone \<Rightarrow> nat" where
  "zone_last zn = zn_end_address zn div PAGE_2M_SIZE"

definition in_zone :: "memory_descriptor \<Rightarrow> nat \<Rightarrow> nat \<Rightarrow> bool" where
  "in_zone d z i \<longleftrightarrow> z < md_zones_size d
     \<and> zone_first (md_zones d ! z) \<le> i \<and> i < zone_last (md_zones d ! z)"

text \<open>What no allocation changes: sizes, page addresses, zone membership, zone extents.\<close>

definition zone_shape :: "memory_descriptor \<Rightarrow> nat \<Rightarrow> bool" where
  "zone_shape d z \<longleftrightarrow> (let zn = md_zones d ! z in
     zn_start_address zn = zone_first zn * PAGE_2M_SIZE
     \<and> zn_end_address zn = zone_last zn * PAGE_2M_SIZE
     \<and> zone_first zn < zone_last zn \<and> zone_last zn \<le> md_bits_size d
     \<and> zn_number_pages zn = zone_last zn - zone_first zn
     \<and> zn_length zn = zn_end_address zn - zn_start_address zn
     \<and> zn_pages zn = Some (zone_first zn) \<and> zn_descriptor zn = MEMORY)"

definition page_shape :: "memory_descriptor \<Rightarrow> nat \<Rightarrow> bool" where
  "page_shape d i \<longleftrightarrow> pg_physical_address (md_pages d ! i) = i * PAGE_2M_SIZE
     \<and> (\<forall>z. pg_zone (md_pages d ! i) = Some z \<longleftrightarrow> in_zone d z i)"

definition layout_ok :: "memory_descriptor \<Rightarrow> bool" where
  "layout_ok d \<longleftrightarrow> length (md_bits_map d) = div_ceil (md_bits_size d) 64
     \<and> length (md_pages d) = md_bits_size d
     \<and> length (md_zones d) = MAX_ZONES \<and> md_zones_size d \<le> MAX_ZONES
     \<and> md_bits_size d * PAGE_2M_SIZE < usize_range
     \<and> (\<forall>i < md_bits_size d. page_shape d i) \<and> (\<forall>z < md_zones_size d. zone_shape d z)"

text \<open>
  The dynamic part: a page has a non-zero attribute exactly when it has its one reference, and
  its bit is set exactly when it is referenced or lies outside every zone.
\<close>

definition page_state :: "memory_descriptor \<Rightarrow> nat \<Rightarrow> bool" where
  "page_state d i \<longleftrightarrow> (let p = md_pages d ! i in
     pg_reference_count p = (if pg_attribute p = 0 then 0 else 1)
     \<and> (page_used d i \<longleftrightarrow> pg_zone p = None \<or> pg_attribute p \<noteq> 0))"

definition free_in :: "memory_descriptor \<Rightarrow> zone \<Rightarrow> nat" where
  "free_in d zn = sum_list (map (\<lambda>j. of_bool (\<not> page_used d j)) [zone_first zn..<zone_last zn])"

definition used_in :: "memory_descriptor \<Rightarrow> zone \<Rightarrow> nat" where
  "used_in d zn = sum_list (map (\<lambda>j. of_bool (page_used d j)) [zone_first zn..<zone_last zn])"

definition refs_in :: "memory_descriptor \<Rightarrow> zone \<Rightarrow> nat" where
  "refs_in d zn = sum_list (map (\<lambda>j. pg_reference_count (md_pages d ! j))
     [zone_first zn..<zone_last zn])"

definition zone_counts :: "memory_descriptor \<Rightarrow> nat \<Rightarrow> bool" where
  "zone_counts d z \<longleftrightarrow> (let zn = md_zones d ! z in
     zn_page_free_count zn = free_in d zn \<and> zn_page_using_count zn = used_in d zn
     \<and> zn_total_pages_ref_count zn = refs_in d zn)"

definition md_wf :: "memory_descriptor \<Rightarrow> bool" where
  "md_wf d \<longleftrightarrow> layout_ok d \<and> (\<forall>i < md_bits_size d. page_state d i)
     \<and> (\<forall>z < md_zones_size d. zone_counts d z)"

text \<open>The pages the allocator may hand out.\<close>

definition free_pages :: "memory_descriptor \<Rightarrow> nat set" where
  "free_pages d = {i. i < md_bits_size d \<and> \<not> page_used d i}"

section \<open>Consequences of the layout\<close>

lemma bits_in_map: "layout_ok d \<Longrightarrow> i < md_bits_size d \<Longrightarrow> i < 64 * length (md_bits_map d)"
proof -
  assume l: "layout_ok d" and i: "i < md_bits_size d"
  have "md_bits_size d \<le> div_ceil (md_bits_size d) 64 * 64"
    using div_ceil_le_iff [of 64 "md_bits_size d" "div_ceil (md_bits_size d) 64"] by simp
  with l i show ?thesis by (simp add: layout_ok_def)
qed

lemma in_zone_unique:
  assumes "layout_ok d" "in_zone d z i" "in_zone d z' i"
  shows "z = z'"
proof -
  have "zone_shape d z" using assms(1,2) by (simp add: layout_ok_def in_zone_def)
  then have "i < md_bits_size d" using assms(2) by (simp add: zone_shape_def in_zone_def Let_def)
  then have "page_shape d i" using assms(1) by (simp add: layout_ok_def)
  then show ?thesis using assms(2,3) by (simp add: page_shape_def) (metis option.inject)
qed

lemma zone_pages_in_range:
  "layout_ok d \<Longrightarrow> in_zone d z i \<Longrightarrow> i < md_bits_size d"
  by (auto simp: layout_ok_def in_zone_def zone_shape_def Let_def)

lemma bits_size_bound: "layout_ok d \<Longrightarrow> md_bits_size d < usize_range"
proof -
  assume "layout_ok d"
  then have "md_bits_size d * PAGE_2M_SIZE < usize_range" by (simp add: layout_ok_def)
  moreover have "md_bits_size d * 1 \<le> md_bits_size d * PAGE_2M_SIZE"
    by (rule mult_le_mono2) (simp add: PAGE_2M_SIZE_def)
  ultimately show ?thesis by linarith
qed

lemma free_plus_used: "free_in d zn + used_in d zn = zone_last zn - zone_first zn"
proof -
  have "sum_list (map (\<lambda>j. of_bool (\<not> page_used d j)) xs) +
      sum_list (map (\<lambda>j. of_bool (page_used d j)) xs) = length xs" for xs :: "nat list"
    by (induction xs) auto
  then show ?thesis by (simp add: free_in_def used_in_def)
qed

text \<open>Within a zone, the references are the used pages: the counters agree with each other.\<close>

lemma refs_eq_used:
  assumes "md_wf d" "z < md_zones_size d"
  shows "refs_in d (md_zones d ! z) = used_in d (md_zones d ! z)"
  unfolding refs_in_def used_in_def
proof (rule sum_upt_cong)
  fix j assume "zone_first (md_zones d ! z) \<le> j" "j < zone_last (md_zones d ! z)"
  then have z: "in_zone d z j" using assms(2) by (simp add: in_zone_def)
  have l: "layout_ok d" using assms(1) by (simp add: md_wf_def)
  have j: "j < md_bits_size d" by (rule zone_pages_in_range [OF l z])
  then have "pg_zone (md_pages d ! j) = Some z"
    using l z by (simp add: layout_ok_def page_shape_def)
  with j show "pg_reference_count (md_pages d ! j) = of_bool (page_used d j)"
    using assms(1) by (simp add: md_wf_def page_state_def Let_def)
qed

section \<open>Claiming and releasing one page\<close>

text \<open>The two descriptor updates the transitions perform, without their checks.\<close>

definition claim :: "memory_descriptor \<Rightarrow> nat \<Rightarrow> u64 \<Rightarrow> memory_descriptor" where
  "claim d i attributes =
     (let p = md_pages d ! i in
      d\<lparr>md_bits_map := put_bit (md_bits_map d) i True,
        md_pages := (md_pages d)[i := p\<lparr>pg_attribute := attributes, pg_reference_count := 1\<rparr>],
        md_zones := (case pg_zone p of None \<Rightarrow> md_zones d
          | Some z \<Rightarrow> (md_zones d)[z := (md_zones d ! z)\<lparr>
              zn_page_using_count := zn_page_using_count (md_zones d ! z) + 1,
              zn_page_free_count := zn_page_free_count (md_zones d ! z) - 1,
              zn_total_pages_ref_count := zn_total_pages_ref_count (md_zones d ! z) + 1\<rparr>])\<rparr>)"

definition unclaim :: "memory_descriptor \<Rightarrow> nat \<Rightarrow> memory_descriptor" where
  "unclaim d i =
     (let p = md_pages d ! i in
      d\<lparr>md_bits_map := put_bit (md_bits_map d) i False,
        md_pages := (md_pages d)[i := p\<lparr>pg_attribute := 0, pg_reference_count := 0\<rparr>],
        md_zones := (case pg_zone p of None \<Rightarrow> md_zones d
          | Some z \<Rightarrow> (md_zones d)[z := (md_zones d ! z)\<lparr>
              zn_page_using_count := zn_page_using_count (md_zones d ! z) - 1,
              zn_page_free_count := zn_page_free_count (md_zones d ! z) + 1,
              zn_total_pages_ref_count := zn_total_pages_ref_count (md_zones d ! z) - 1\<rparr>])\<rparr>)"

definition same_zone_shape :: "zone \<Rightarrow> zone \<Rightarrow> bool" where
  "same_zone_shape a b \<longleftrightarrow> zn_start_address a = zn_start_address b
     \<and> zn_end_address a = zn_end_address b \<and> zn_number_pages a = zn_number_pages b
     \<and> zn_length a = zn_length b \<and> zn_pages a = zn_pages b \<and> zn_descriptor a = zn_descriptor b
     \<and> zn_attribute a = zn_attribute b"

definition same_page_shape :: "page \<Rightarrow> page \<Rightarrow> bool" where
  "same_page_shape a b \<longleftrightarrow> pg_zone a = pg_zone b
     \<and> pg_physical_address a = pg_physical_address b \<and> pg_create_time a = pg_create_time b"

definition same_layout :: "memory_descriptor \<Rightarrow> memory_descriptor \<Rightarrow> bool" where
  "same_layout d d' \<longleftrightarrow>
     d' = d\<lparr>md_bits_map := md_bits_map d', md_pages := md_pages d', md_zones := md_zones d'\<rparr>
     \<and> length (md_bits_map d') = length (md_bits_map d)
     \<and> list_all2 same_page_shape (md_pages d') (md_pages d)
     \<and> list_all2 same_zone_shape (md_zones d') (md_zones d)
     \<and> drop (md_zones_size d) (md_zones d') = drop (md_zones_size d) (md_zones d)"

lemma same_layout_sizes:
  assumes "same_layout d d'"
  shows "md_bits_size d' = md_bits_size d" "md_zones_size d' = md_zones_size d"
    "length (md_bits_map d') = length (md_bits_map d)"
    "length (md_pages d') = length (md_pages d)" "length (md_zones d') = length (md_zones d)"
proof -
  let ?m = "\<lambda>d' d. d\<lparr>md_bits_map := md_bits_map d', md_pages := md_pages d', md_zones := md_zones d'\<rparr>"
  have "d' = ?m d' d" using assms by (simp add: same_layout_def)
  then have "md_bits_size d' = md_bits_size (?m d' d)" "md_zones_size d' = md_zones_size (?m d' d)"
    by (metis, metis)
  then show "md_bits_size d' = md_bits_size d" "md_zones_size d' = md_zones_size d" by simp_all
qed (use assms in \<open>auto simp: same_layout_def dest: list_all2_lengthD\<close>)

lemma same_layout_page:
  "same_layout d d' \<Longrightarrow> j < length (md_pages d) \<Longrightarrow>
     same_page_shape (md_pages d' ! j) (md_pages d ! j)"
  by (simp add: same_layout_def list_all2_conv_all_nth)

lemma same_layout_zone:
  "same_layout d d' \<Longrightarrow> z < length (md_zones d) \<Longrightarrow>
     same_zone_shape (md_zones d' ! z) (md_zones d ! z)"
  by (simp add: same_layout_def list_all2_conv_all_nth)

lemma same_layout_refl [simp]: "same_layout d d"
  by (simp add: same_layout_def same_zone_shape_def same_page_shape_def list_all2_refl)

lemma same_layout_trans:
  assumes "same_layout d e" "same_layout e f"
  shows "same_layout d f"
proof -
  have "list_all2 same_page_shape (md_pages f) (md_pages d)"
    by (rule list_all2_trans [of same_page_shape same_page_shape same_page_shape _ "md_pages e"])
      (use assms in \<open>auto simp: same_layout_def same_page_shape_def\<close>)
  moreover have "list_all2 same_zone_shape (md_zones f) (md_zones d)"
    by (rule list_all2_trans [of same_zone_shape same_zone_shape same_zone_shape _ "md_zones e"])
      (use assms in \<open>auto simp: same_layout_def same_zone_shape_def\<close>)
  moreover have "f = d\<lparr>md_bits_map := md_bits_map f, md_pages := md_pages f, md_zones := md_zones f\<rparr>"
  proof -
    have "f = e\<lparr>md_bits_map := md_bits_map f, md_pages := md_pages f, md_zones := md_zones f\<rparr>"
      and "e = d\<lparr>md_bits_map := md_bits_map e, md_pages := md_pages e, md_zones := md_zones e\<rparr>"
      using assms by (auto simp: same_layout_def)
    then show ?thesis
      by (cases d, cases e, cases f) simp
  qed
  moreover have "md_zones_size e = md_zones_size d" by (rule same_layout_sizes [OF assms(1)])
  ultimately show ?thesis
    using assms by (simp add: same_layout_def)
qed

lemma same_zone_bounds:
  "same_zone_shape a b \<Longrightarrow> zone_first a = zone_first b \<and> zone_last a = zone_last b"
  by (simp add: same_zone_shape_def zone_first_def zone_last_def)

lemma same_layout_in_zone:
  assumes "same_layout d d'" "layout_ok d"
  shows "in_zone d' z i = in_zone d z i"
proof (cases "z < md_zones_size d")
  case True
  then have "same_zone_shape (md_zones d' ! z) (md_zones d ! z)"
    using assms by (simp add: same_layout_zone layout_ok_def)
  then show ?thesis
    using same_layout_sizes [OF assms(1)] same_zone_bounds by (auto simp: in_zone_def)
next
  case False
  then show ?thesis using same_layout_sizes [OF assms(1)] by (simp add: in_zone_def)
qed

lemma same_layout_ok:
  assumes "same_layout d d'" "layout_ok d"
  shows "layout_ok d'"
proof -
  note sz = same_layout_sizes [OF assms(1)]
  have "page_shape d' i" if "i < md_bits_size d" for i
    using assms that same_layout_in_zone [OF assms] same_layout_page [OF assms(1), of i]
    by (auto simp: layout_ok_def page_shape_def same_page_shape_def)
  moreover have "zone_shape d' z" if "z < md_zones_size d" for z
  proof -
    have s: "same_zone_shape (md_zones d' ! z) (md_zones d ! z)"
      using assms that by (simp add: same_layout_zone layout_ok_def)
    show ?thesis
      using assms s same_zone_bounds [OF s] that sz
      by (simp add: layout_ok_def zone_shape_def same_zone_shape_def Let_def)
  qed
  ultimately show ?thesis
    using assms sz by (simp add: layout_ok_def)
qed

lemma claim_simps [simp]:
  "md_bits_size (claim d i a) = md_bits_size d"
  "md_zones_size (claim d i a) = md_zones_size d"
  "md_bits_map (claim d i a) = put_bit (md_bits_map d) i True"
  "md_pages (claim d i a) =
     (md_pages d)[i := (md_pages d ! i)\<lparr>pg_attribute := a, pg_reference_count := 1\<rparr>]"
  by (simp_all add: claim_def Let_def)

lemma unclaim_simps [simp]:
  "md_bits_size (unclaim d i) = md_bits_size d"
  "md_zones_size (unclaim d i) = md_zones_size d"
  "md_bits_map (unclaim d i) = put_bit (md_bits_map d) i False"
  "md_pages (unclaim d i) =
     (md_pages d)[i := (md_pages d ! i)\<lparr>pg_attribute := 0, pg_reference_count := 0\<rparr>]"
  by (simp_all add: unclaim_def Let_def)

lemma same_zone_shape_counts [simp]:
  "same_zone_shape (zn\<lparr>zn_page_using_count := u, zn_page_free_count := f,
     zn_total_pages_ref_count := r\<rparr>) zn"
  "same_zone_shape zn zn"
  by (simp_all add: same_zone_shape_def)

lemma page_zone_index:
  assumes "layout_ok d" "i < md_bits_size d" "pg_zone (md_pages d ! i) = Some z"
  shows "z < md_zones_size d"
  using assms by (auto simp: layout_ok_def page_shape_def in_zone_def)

lemma list_all2_update_same:
  "(\<And>x. R x x) \<Longrightarrow> R y (xs ! i) \<Longrightarrow> list_all2 R (xs[i := y]) xs"
  by (auto simp: list_all2_conv_all_nth nth_update_if)

lemma claim_same_layout:
  assumes "layout_ok d" "i < md_bits_size d"
  shows "same_layout d (claim d i a)"
  unfolding same_layout_def claim_def Let_def
  using page_zone_index [OF assms]
  by (cases "pg_zone (md_pages d ! i)")
    (auto intro!: list_all2_update_same list_all2_refl
      simp: same_page_shape_def same_zone_shape_def drop_update_cancel)

lemma unclaim_same_layout:
  assumes "layout_ok d" "i < md_bits_size d"
  shows "same_layout d (unclaim d i)"
  unfolding same_layout_def unclaim_def Let_def
  using page_zone_index [OF assms]
  by (cases "pg_zone (md_pages d ! i)")
    (auto intro!: list_all2_update_same list_all2_refl
      simp: same_page_shape_def same_zone_shape_def drop_update_cancel)

lemma page_used_claim:
  "layout_ok d \<Longrightarrow> i < md_bits_size d \<Longrightarrow>
     page_used (claim d i a) j = (j = i \<or> page_used d j)"
  by (auto simp: get_put_bit bits_in_map)

lemma page_used_unclaim:
  "layout_ok d \<Longrightarrow> i < md_bits_size d \<Longrightarrow>
     page_used (unclaim d i) j = (j \<noteq> i \<and> page_used d j)"
  by (auto simp: get_put_bit bits_in_map)

text \<open>
  How the three counts of a zone move when bit and reference count change at one page only.
\<close>

lemma counts_outside:
  assumes "\<And>j. j \<noteq> i \<Longrightarrow> page_used d' j = page_used d j"
    and "\<And>j. j \<noteq> i \<Longrightarrow> md_pages d' ! j = md_pages d ! j"
    and "zone_first zn' = zone_first zn" "zone_last zn' = zone_last zn"
    and "\<not> (zone_first zn \<le> i \<and> i < zone_last zn)"
  shows "free_in d' zn' = free_in d zn" "used_in d' zn' = used_in d zn"
    "refs_in d' zn' = refs_in d zn"
  using assms unfolding free_in_def used_in_def refs_in_def by (auto intro!: sum_upt_cong)

lemma counts_inside:
  assumes "\<And>j. j \<noteq> i \<Longrightarrow> page_used d' j = page_used d j"
    and "\<And>j. j \<noteq> i \<Longrightarrow> md_pages d' ! j = md_pages d ! j"
    and "zone_first zn' = zone_first zn" "zone_last zn' = zone_last zn"
    and "zone_first zn \<le> i" "i < zone_last zn"
  shows "free_in d' zn' + of_bool (\<not> page_used d i) = free_in d zn + of_bool (\<not> page_used d' i)"
    "used_in d' zn' + of_bool (page_used d i) = used_in d zn + of_bool (page_used d' i)"
    "refs_in d' zn' + pg_reference_count (md_pages d ! i) =
       refs_in d zn + pg_reference_count (md_pages d' ! i)"
proof -
  show "free_in d' zn' + of_bool (\<not> page_used d i) = free_in d zn + of_bool (\<not> page_used d' i)"
    unfolding free_in_def assms(3,4) by (rule sum_upt_change) (use assms in auto)
  show "used_in d' zn' + of_bool (page_used d i) = used_in d zn + of_bool (page_used d' i)"
    unfolding used_in_def assms(3,4) by (rule sum_upt_change) (use assms in auto)
  show "refs_in d' zn' + pg_reference_count (md_pages d ! i) =
       refs_in d zn + pg_reference_count (md_pages d' ! i)"
    unfolding refs_in_def assms(3,4) by (rule sum_upt_change) (use assms in auto)
qed

lemma zone_of_page:
  assumes "layout_ok d" "i < md_bits_size d"
  shows "pg_zone (md_pages d ! i) = Some z \<longleftrightarrow> in_zone d z i"
  using assms by (simp add: layout_ok_def page_shape_def)

lemma zone_counts_outside:
  assumes "same_layout d d'" "layout_ok d" "z < md_zones_size d" "zone_counts d z"
    and "\<And>j. j \<noteq> i \<Longrightarrow> page_used d' j = page_used d j"
    and "\<And>j. j \<noteq> i \<Longrightarrow> md_pages d' ! j = md_pages d ! j"
    and "md_zones d' ! z = md_zones d ! z" and "\<not> in_zone d z i"
  shows "zone_counts d' z"
  using counts_outside [of i d' d "md_zones d' ! z" "md_zones d ! z"] assms
  by (simp add: zone_counts_def in_zone_def Let_def)

text \<open>A change of one page keeps the invariant if that page and the counters of its zone stay right.\<close>

lemma change_page_wf:
  assumes wf: "md_wf d" and same: "same_layout d d'" and i: "i < md_bits_size d"
    and used: "\<And>j. j \<noteq> i \<Longrightarrow> page_used d' j = page_used d j"
    and pages: "\<And>j. j \<noteq> i \<Longrightarrow> md_pages d' ! j = md_pages d ! j"
    and state: "page_state d' i"
    and zones: "\<And>z. pg_zone (md_pages d ! i) \<noteq> Some z \<Longrightarrow> md_zones d' ! z = md_zones d ! z"
    and inside: "\<And>z. z < md_zones_size d \<Longrightarrow> pg_zone (md_pages d ! i) = Some z \<Longrightarrow> in_zone d z i \<Longrightarrow>
      zone_counts d z \<Longrightarrow> zone_counts d' z"
  shows "md_wf d'"
proof -
  have l: "layout_ok d" using wf by (simp add: md_wf_def)
  have "page_state d' j" if "j < md_bits_size d" for j
  proof (cases "j = i")
    case True
    then show ?thesis using state by simp
  next
    case False
    have "page_state d j" using wf that by (simp add: md_wf_def)
    then show ?thesis using False used [of j] pages [of j] by (simp add: page_state_def)
  qed
  moreover have "zone_counts d' z" if z: "z < md_zones_size d" for z
  proof -
    have c: "zone_counts d z" using wf z by (simp add: md_wf_def)
    have iz: "pg_zone (md_pages d ! i) = Some z \<longleftrightarrow> in_zone d z i" by (rule zone_of_page [OF l i])
    show ?thesis
    proof (cases "in_zone d z i")
      case True
      then show ?thesis using inside [OF z _ True c] iz by blast
    next
      case False
      then show ?thesis using zone_counts_outside [OF same l z c used pages _ False] zones iz by blast
    qed
  qed
  ultimately show ?thesis
    using same_layout_ok [OF same l] same_layout_sizes [OF same] by (simp add: md_wf_def)
qed

lemma claim_wf:
  assumes "md_wf d" "i < md_bits_size d" "pg_attribute (md_pages d ! i) = 0" "a \<noteq> 0"
  shows "md_wf (claim d i a)"
proof -
  let ?d' = "claim d i a"
  have l: "layout_ok d" using assms(1) by (simp add: md_wf_def)
  note same = claim_same_layout [OF l assms(2), of a]
  have used: "page_used ?d' j = (j = i \<or> page_used d j)" for j
    using page_used_claim [OF l assms(2)] .
  have len: "length (md_pages d) = md_bits_size d" using l by (simp add: layout_ok_def)
  have st: "page_state d i" using assms(1,2) by (simp add: md_wf_def)
  show ?thesis
  proof (rule change_page_wf [OF assms(1) same assms(2)])
    show "page_state ?d' i" using used [of i] assms(2,4) len by (simp add: page_state_def)
    fix z
    show "md_zones ?d' ! z = md_zones d ! z" if "pg_zone (md_pages d ! i) \<noteq> Some z"
      using that by (auto simp: claim_def Let_def nth_update_if split: option.splits)
    assume z: "z < md_zones_size d" "pg_zone (md_pages d ! i) = Some z" "in_zone d z i" and c: "zone_counts d z"
    have zl: "z < length (md_zones d)" using l z by (simp add: layout_ok_def)
    have unused: "\<not> page_used d i" and rc: "pg_reference_count (md_pages d ! i) = 0"
      using st z(2) assms(3) by (simp_all add: page_state_def)
    have zn: "md_zones ?d' ! z = (md_zones d ! z)\<lparr>
        zn_page_using_count := zn_page_using_count (md_zones d ! z) + 1,
        zn_page_free_count := zn_page_free_count (md_zones d ! z) - 1,
        zn_total_pages_ref_count := zn_total_pages_ref_count (md_zones d ! z) + 1\<rparr>"
      using z(2) zl by (simp add: claim_def Let_def)
    have "zone_first (md_zones ?d' ! z) = zone_first (md_zones d ! z)"
      "zone_last (md_zones ?d' ! z) = zone_last (md_zones d ! z)"
      by (simp_all add: zn zone_first_def zone_last_def)
    note ch = counts_inside [of i ?d' d, OF _ _ this]
    have "free_in ?d' (md_zones ?d' ! z) + 1 = free_in d (md_zones d ! z)"
      "used_in ?d' (md_zones ?d' ! z) = used_in d (md_zones d ! z) + 1"
      "refs_in ?d' (md_zones ?d' ! z) = refs_in d (md_zones d ! z) + 1"
      using ch used unused rc z(3) assms(2) len by (simp_all add: in_zone_def)
    with c show "zone_counts ?d' z" by (simp add: zone_counts_def zn Let_def)
  qed (use used in simp_all)
qed

lemma unclaim_wf:
  assumes "md_wf d" "i < md_bits_size d" "pg_attribute (md_pages d ! i) \<noteq> 0"
    and "pg_zone (md_pages d ! i) \<noteq> None"
  shows "md_wf (unclaim d i)"
proof -
  let ?d' = "unclaim d i"
  have l: "layout_ok d" using assms(1) by (simp add: md_wf_def)
  note same = unclaim_same_layout [OF l assms(2)]
  have used: "page_used ?d' j = (j \<noteq> i \<and> page_used d j)" for j
    using page_used_unclaim [OF l assms(2)] .
  have len: "length (md_pages d) = md_bits_size d" using l by (simp add: layout_ok_def)
  have st: "page_state d i" using assms(1,2) by (simp add: md_wf_def)
  show ?thesis
  proof (rule change_page_wf [OF assms(1) same assms(2)])
    show "page_state ?d' i" using used [of i] assms(2,4) len by (simp add: page_state_def)
    fix z
    show "md_zones ?d' ! z = md_zones d ! z" if "pg_zone (md_pages d ! i) \<noteq> Some z"
      using that by (auto simp: unclaim_def Let_def nth_update_if split: option.splits)
    assume z: "z < md_zones_size d" "pg_zone (md_pages d ! i) = Some z" "in_zone d z i" and c: "zone_counts d z"
    have zl: "z < length (md_zones d)" using l z by (simp add: layout_ok_def)
    have isused: "page_used d i" and rc: "pg_reference_count (md_pages d ! i) = 1"
      using st z(2) assms(3) by (simp_all add: page_state_def)
    have zn: "md_zones ?d' ! z = (md_zones d ! z)\<lparr>
        zn_page_using_count := zn_page_using_count (md_zones d ! z) - 1,
        zn_page_free_count := zn_page_free_count (md_zones d ! z) + 1,
        zn_total_pages_ref_count := zn_total_pages_ref_count (md_zones d ! z) - 1\<rparr>"
      using z(2) zl by (simp add: unclaim_def Let_def)
    have "zone_first (md_zones ?d' ! z) = zone_first (md_zones d ! z)"
      "zone_last (md_zones ?d' ! z) = zone_last (md_zones d ! z)"
      by (simp_all add: zn zone_first_def zone_last_def)
    note ch = counts_inside [of i ?d' d, OF _ _ this]
    have "free_in ?d' (md_zones ?d' ! z) = free_in d (md_zones d ! z) + 1"
      "used_in ?d' (md_zones ?d' ! z) + 1 = used_in d (md_zones d ! z)"
      "refs_in ?d' (md_zones ?d' ! z) + 1 = refs_in d (md_zones d ! z)"
      using ch used isused rc z(3) assms(2) len by (simp_all add: in_zone_def)
    then have "free_in ?d' (md_zones ?d' ! z) = free_in d (md_zones d ! z) + 1"
      "used_in ?d' (md_zones ?d' ! z) = used_in d (md_zones d ! z) - 1"
      "refs_in ?d' (md_zones ?d' ! z) = refs_in d (md_zones d ! z) - 1"
      by linarith+
    with c show "zone_counts ?d' z" by (simp add: zone_counts_def zn Let_def)
  qed (use used in simp_all)
qed

section \<open>The transitions of the code\<close>

lemma zone_counts_bound:
  assumes "md_wf d" "in_zone d z i"
  shows "zn_page_using_count (md_zones d ! z) < usize_range - 1"
    "zn_page_free_count (md_zones d ! z) < usize_range - 1"
    "zn_total_pages_ref_count (md_zones d ! z) < usize_range - 1"
proof -
  have l: "layout_ok d" and z: "z < md_zones_size d" and c: "zone_counts d z"
    using assms by (simp_all add: md_wf_def in_zone_def)
  have "zone_shape d z" using l z by (simp add: layout_ok_def)
  then have "zone_last (md_zones d ! z) \<le> md_bits_size d"
    by (simp add: zone_shape_def Let_def)
  moreover have "md_bits_size d * 2 \<le> md_bits_size d * PAGE_2M_SIZE"
    by (rule mult_le_mono2) (simp add: PAGE_2M_SIZE_def)
  moreover have "md_bits_size d * PAGE_2M_SIZE < usize_range" using l by (simp add: layout_ok_def)
  ultimately have "zone_last (md_zones d ! z) * 2 < usize_range" by linarith
  then have "zone_last (md_zones d ! z) < usize_range - 1" by simp
  with free_plus_used [of d "md_zones d ! z"] refs_eq_used [OF assms(1) z] c
  show "zn_page_using_count (md_zones d ! z) < usize_range - 1"
    "zn_page_free_count (md_zones d ! z) < usize_range - 1"
    "zn_total_pages_ref_count (md_zones d ! z) < usize_range - 1"
    by (auto simp: zone_counts_def Let_def)
qed

lemma zone_free_pos:
  assumes "md_wf d" "in_zone d z i" "\<not> page_used d i"
  shows "0 < zn_page_free_count (md_zones d ! z)"
proof -
  have "zone_counts d z" using assms by (simp add: md_wf_def in_zone_def)
  moreover have "of_bool (\<not> page_used d i) \<le> free_in d (md_zones d ! z)"
    unfolding free_in_def
    by (rule sum_upt_ge [of _ i _ "\<lambda>j. of_bool (\<not> page_used d j)"]) (use assms in \<open>simp_all add: in_zone_def\<close>)
  ultimately show ?thesis using assms(3) by (simp add: zone_counts_def Let_def)
qed

lemma zone_used_pos:
  assumes "md_wf d" "in_zone d z i" "page_used d i"
  shows "0 < zn_page_using_count (md_zones d ! z)" "0 < zn_total_pages_ref_count (md_zones d ! z)"
proof -
  have c: "zone_counts d z" and z: "z < md_zones_size d"
    using assms by (simp_all add: md_wf_def in_zone_def)
  have "of_bool (page_used d i) \<le> used_in d (md_zones d ! z)"
    unfolding used_in_def
    by (rule sum_upt_ge [of _ i _ "\<lambda>j. of_bool (page_used d j)"]) (use assms in \<open>simp_all add: in_zone_def\<close>)
  then show "0 < zn_page_using_count (md_zones d ! z)" "0 < zn_total_pages_ref_count (md_zones d ! z)"
    using assms(3) c refs_eq_used [OF assms(1) z] by (simp_all add: zone_counts_def Let_def)
qed

lemma init_page_fresh:
  assumes "md_wf d" "i < md_bits_size d" "pg_attribute (md_pages d ! i) = 0"
  shows "init_page d i a = Inr (claim d i a)"
proof (cases "pg_zone (md_pages d ! i)")
  case None
  with assms show ?thesis
    by (simp add: init_page_def set_used_eq claim_def Let_def)
next
  case (Some z)
  have l: "layout_ok d" and st: "page_state d i" using assms by (simp_all add: md_wf_def)
  have z: "in_zone d z i" using zone_of_page [OF l assms(2), of z] Some by simp
  have "\<not> page_used d i" using st Some assms(3) by (simp add: page_state_def)
  then have "0 < zn_page_free_count (md_zones d ! z)" by (rule zone_free_pos [OF assms(1) z])
  with zone_counts_bound [OF assms(1) z] assms Some show ?thesis
    by (simp add: init_page_def set_used_eq claim_def Let_def uadd_exact usub_exact)
qed

lemma clean_page_owned:
  assumes "md_wf d" "i < md_bits_size d" "pg_attribute (md_pages d ! i) \<noteq> 0"
    and "pg_zone (md_pages d ! i) \<noteq> None" "pg_attribute (md_pages d ! i) AND KERNEL_INIT = 0"
  shows "clean_page d i = Inr (unclaim d i)"
proof -
  obtain z where Some: "pg_zone (md_pages d ! i) = Some z" using assms(4) by auto
  have l: "layout_ok d" and st: "page_state d i" using assms by (simp_all add: md_wf_def)
  have z: "in_zone d z i" using zone_of_page [OF l assms(2), of z] Some by simp
  have "page_used d i" and rc: "pg_reference_count (md_pages d ! i) = 1"
    using st Some assms(3) by (simp_all add: page_state_def)
  then show ?thesis
    using zone_used_pos [OF assms(1) z] zone_counts_bound [OF assms(1) z] assms Some
    by (simp add: clean_page_def set_used_eq unclaim_def Let_def uadd_exact usub_exact)
qed

section \<open>Claiming a range of pages\<close>

definition claimed_page :: "u64 \<Rightarrow> page \<Rightarrow> page" where
  "claimed_page a p = p\<lparr>pg_attribute := a, pg_reference_count := 1\<rparr>"

text \<open>The state after the pages \<open>f, \<dots>, k - 1\<close> have been claimed, page \<open>i\<close> with attribute \<open>att i\<close>.\<close>

definition claimed_upto :: "(nat \<Rightarrow> u64) \<Rightarrow> memory_descriptor \<Rightarrow> nat \<Rightarrow> nat \<Rightarrow> memory_descriptor \<Rightarrow> bool" where
  "claimed_upto att d f k d' \<longleftrightarrow> md_wf d' \<and> same_layout d d'
     \<and> (\<forall>j. page_used d' j \<longleftrightarrow> page_used d j \<or> f \<le> j \<and> j < k)
     \<and> (\<forall>j < md_bits_size d. md_pages d' ! j =
          (if f \<le> j \<and> j < k then claimed_page (att j) (md_pages d ! j) else md_pages d ! j))"

lemma claimed_upto_refl [simp]: "claimed_upto att d f f d = md_wf d"
  by (auto simp: claimed_upto_def)

lemma claimed_upto_step:
  assumes "claimed_upto att d f i d'" "f \<le> i" "i < md_bits_size d"
    and "pg_attribute (md_pages d ! i) = 0" "att i \<noteq> 0"
  shows "init_page d' i (att i) = Inr (claim d' i (att i))
    \<and> claimed_upto att d f (Suc i) (claim d' i (att i))"
proof -
  have wf: "md_wf d'" and same: "same_layout d d'" using assms(1) by (simp_all add: claimed_upto_def)
  note sz = same_layout_sizes [OF same]
  have i: "i < md_bits_size d'" using assms(3) sz by simp
  have here: "md_pages d' ! i = md_pages d ! i" using assms(1,3) by (simp add: claimed_upto_def)
  have attr: "pg_attribute (md_pages d' ! i) = 0" using here assms(4) by simp
  have l: "layout_ok d'" using wf by (simp add: md_wf_def)
  have len: "length (md_pages d') = md_bits_size d" using l sz by (simp add: layout_ok_def)
  have "md_wf (claim d' i (att i))" by (rule claim_wf [OF wf i attr assms(5)])
  moreover have "same_layout d (claim d' i (att i))"
    by (rule same_layout_trans [OF same claim_same_layout [OF l i]])
  moreover have "page_used (claim d' i (att i)) j \<longleftrightarrow> page_used d j \<or> f \<le> j \<and> j < Suc i" for j
    using page_used_claim [OF l i] assms(1,2) by (auto simp: claimed_upto_def)
  moreover have "md_pages (claim d' i (att i)) ! j =
      (if f \<le> j \<and> j < Suc i then claimed_page (att j) (md_pages d ! j) else md_pages d ! j)"
    if "j < md_bits_size d" for j
  proof (cases "j = i")
    case True
    with here assms(2,3) len show ?thesis by (simp add: claimed_page_def)
  next
    case False
    with assms(1) that show ?thesis by (auto simp: claimed_upto_def)
  qed
  ultimately show ?thesis
    using init_page_fresh [OF wf i attr] by (simp add: claimed_upto_def)
qed

lemma claim_range_total:
  assumes "md_wf d" "f \<le> k" "k \<le> md_bits_size d"
    and "\<And>i. f \<le> i \<Longrightarrow> i < k \<Longrightarrow> pg_attribute (md_pages d ! i) = 0 \<and> att i \<noteq> 0"
  shows "\<exists>d'. for_res [f..<k] (\<lambda>i d. init_page d i (att i)) d = Inr d' \<and> claimed_upto att d f k d'"
proof (rule for_range_total)
  fix i s assume "f \<le> i" "i < k" "claimed_upto att d f i s"
  then show "\<exists>s'. init_page s i (att i) = Inr s' \<and> claimed_upto att d f (Suc i) s'"
    using claimed_upto_step [of att d f i s] assms(3,4) by auto
qed (use assms in simp_all)

section \<open>A descriptor is determined by its layout, bits and pages\<close>

lemma bitmap_eqI:
  assumes "length bm' = length bm" "\<And>j. get_bit bm' j = get_bit bm j"
  shows "bm' = bm"
proof (rule nth_equalityI)
  fix w assume "w < length bm'"
  show "bm' ! w = bm ! w"
  proof (rule bit_word_eqI)
    fix k assume "k < LENGTH(64)"
    then show "bit (bm' ! w) k = bit (bm ! w) k"
      using assms(2) [of "64 * w + k"] by (simp add: get_bit_def)
  qed
qed (rule assms(1))

lemma zone_eqI:
  assumes "same_zone_shape a b" "zn_page_free_count a = zn_page_free_count b"
    "zn_page_using_count a = zn_page_using_count b"
    "zn_total_pages_ref_count a = zn_total_pages_ref_count b"
  shows "a = (b :: zone)"
  using assms by (cases a, cases b) (simp add: same_zone_shape_def)

lemma md_wf_ext:
  assumes "md_wf d" "md_wf d'" "same_layout d d'"
    and "md_pages d' = md_pages d" and "\<And>j. page_used d' j = page_used d j"
  shows "d' = d"
proof -
  note sz = same_layout_sizes [OF assms(3)]
  have bm: "md_bits_map d' = md_bits_map d"
    using assms(5) sz by (intro bitmap_eqI) auto
  have "md_zones d' ! z = md_zones d ! z" if z: "z < length (md_zones d)" for z
  proof (cases "z < md_zones_size d")
    case True
    then have c: "zone_counts d z" "zone_counts d' z"
      using assms(1,2) sz by (simp_all add: md_wf_def)
    have s: "same_zone_shape (md_zones d' ! z) (md_zones d ! z)"
      by (rule same_layout_zone [OF assms(3) z])
    show ?thesis
      using c same_zone_bounds [OF s] assms(4) bm
      by (intro zone_eqI [OF s]) (simp_all add: zone_counts_def free_in_def used_in_def refs_in_def Let_def)
  next
    case False
    have "md_zones d' ! z = drop (md_zones_size d) (md_zones d') ! (z - md_zones_size d)"
      using False z sz by simp
    also have "\<dots> = md_zones d ! z"
      using False z assms(3) by (simp add: same_layout_def)
    finally show ?thesis .
  qed
  then have "md_zones d' = md_zones d" using sz by (intro nth_equalityI) auto
  with bm assms(3,4) show ?thesis
    by (cases d, cases d') (simp add: same_layout_def)
qed

section \<open>An example machine\<close>

text \<open>
  16 MiB of RAM: page 0 is reserved for the kernel, pages 1 to 7 form the one zone and are free.
\<close>

definition example_pages :: "page list" where
  "example_pages =
     \<lparr>pg_zone = None, pg_physical_address = 0, pg_attribute = 0x93, pg_reference_count = 1,
       pg_create_time = 0\<rparr>
     # map (\<lambda>i. \<lparr>pg_zone = Some 0, pg_physical_address = i * PAGE_2M_SIZE, pg_attribute = 0,
         pg_reference_count = 0, pg_create_time = 0\<rparr>) [1..<8]"

definition zero_zone :: zone where
  "zero_zone = \<lparr>zn_pages = None, zn_number_pages = 0, zn_start_address = 0, zn_end_address = 0,
     zn_attribute = 0, zn_length = 0, zn_descriptor = Null_Descriptor, zn_page_using_count = 0,
     zn_page_free_count = 0, zn_total_pages_ref_count = 0\<rparr>"

definition example_zone :: zone where
  "example_zone = \<lparr>zn_pages = Some 1, zn_number_pages = 7, zn_start_address = 0x200000,
     zn_end_address = 0x1000000, zn_attribute = 0, zn_length = 0xe00000, zn_descriptor = MEMORY,
     zn_page_using_count = 0, zn_page_free_count = 7, zn_total_pages_ref_count = 0\<rparr>"

definition example_descriptor :: memory_descriptor where
  "example_descriptor = \<lparr>md_e820 = [], md_number_entries = 0,
     md_bits_map = [0xffffffffffffff01], md_bits_map_addr = 0, md_bits_size = 8, md_bits_length = 8,
     md_pages = example_pages, md_pages_addr = 0, md_pages_length = 320,
     md_zones = example_zone # replicate 31 zero_zone, md_zones_addr = 0, md_zones_size = 1,
     md_end_of_struct = 0, md_global_cr3 = 0\<rparr>"

lemma example_page_used: "page_used example_descriptor i = (i = 0)" if "i < 8"
proof -
  have "bit (0xffffffffffffff01 :: u64) i = (i = 0)"
    using that by (auto simp: less_Suc_eq numeral_eq_Suc)
  with that show ?thesis by (simp add: get_bit_def example_descriptor_def)
qed

lemma example_page_nth: "i < 8 \<Longrightarrow> md_pages example_descriptor ! i =
  (if i = 0 then \<lparr>pg_zone = None, pg_physical_address = 0, pg_attribute = 0x93,
      pg_reference_count = 1, pg_create_time = 0\<rparr>
   else \<lparr>pg_zone = Some 0, pg_physical_address = i * PAGE_2M_SIZE, pg_attribute = 0,
      pg_reference_count = 0, pg_create_time = 0\<rparr>)"
  by (cases i) (simp_all add: example_descriptor_def example_pages_def del: upt_Suc)

lemma example_zone_bounds: "zone_first example_zone = 1" "zone_last example_zone = 8"
  by (simp_all add: zone_first_def zone_last_def example_zone_def PAGE_2M_SIZE_def)

lemma example_sizes: "md_bits_size example_descriptor = 8" "md_zones_size example_descriptor = 1"
  "md_zones example_descriptor ! 0 = example_zone"
  "md_zones example_descriptor ! Suc 0 = zero_zone" "length (md_zones example_descriptor) = MAX_ZONES"
  "length (md_pages example_descriptor) = 8" "length (md_bits_map example_descriptor) = 1"
  by (simp_all add: example_descriptor_def MAX_ZONES_def MAX_ENTRIES_def example_pages_def)

lemma example_wf: "md_wf example_descriptor"
proof -
  have shape: "page_shape example_descriptor i" if "i < 8" for i
    using that by (auto simp: page_shape_def in_zone_def example_page_nth example_sizes
        example_zone_bounds)
  have zone: "zone_shape example_descriptor 0"
    unfolding zone_shape_def Let_def example_sizes example_zone_bounds
    by (simp add: example_zone_def PAGE_2M_SIZE_def)
  have state: "page_state example_descriptor i" if "i < 8" for i
    using that by (simp add: page_state_def example_page_nth example_page_used)
  have "free_in example_descriptor example_zone = 7"
    "used_in example_descriptor example_zone = 0" "refs_in example_descriptor example_zone = 0"
    by (simp_all add: free_in_def used_in_def refs_in_def example_zone_bounds example_page_used
        example_page_nth upt_rec)
  then have counts: "zone_counts example_descriptor 0"
    unfolding zone_counts_def Let_def example_sizes by (simp add: example_zone_def)
  show ?thesis
    using shape zone state counts
    by (simp add: md_wf_def layout_ok_def example_sizes div_ceil_def MAX_ZONES_def
        MAX_ENTRIES_def PAGE_2M_SIZE_def)
qed

end
