(* ===== verification/Memory_Init.thy ===== *)
theory Memory_Init
  imports Memory_Invariant
begin

text \<open>
  Initialisation of physical memory management (\<^verbatim>\<open>memory::init\<close> of \<^verbatim>\<open>src/kernel/memory.rs\<close>):
  the RAM statistics, the placement of the metadata behind the kernel image, the zones, the
  reserved pages, the run-time consistency check and the removal of the identity mapping.
  The symbols of the linker script are the parameters \<open>text\<close> and \<open>kernel_end\<close>; the memory the
  loader wrote and the page tables are functions from addresses. The lines it prints are in
  \<open>Memory_Report\<close>; the two numbers of the final message are returned.
\<close>

section \<open>Operations\<close>

definition zero_page :: page where
  "zero_page = \<lparr>pg_zone = None, pg_physical_address = 0, pg_attribute = 0,
     pg_reference_count = 0, pg_create_time = 0\<rparr>"

text \<open>The static \<^verbatim>\<open>MEMORY\<close> before \<^verbatim>\<open>init\<close>.\<close>

definition MEMORY_INITIAL :: memory_descriptor where
  "MEMORY_INITIAL = \<lparr>md_e820 = replicate MAX_ENTRIES EMPTY, md_number_entries = 0,
     md_bits_map = [], md_bits_map_addr = 0, md_bits_size = 0, md_bits_length = 0,
     md_pages = [], md_pages_addr = 0, md_pages_length = 0,
     md_zones = [], md_zones_addr = 0, md_zones_size = 0,
     md_end_of_struct = 0, md_global_cr3 = 0\<rparr>"

definition e820_at :: "memory_descriptor \<Rightarrow> usize \<Rightarrow> e820_entry res" where
  "e820_at d i = (if i < length (md_e820 d) then Inr (md_e820 d ! i)
     else Inl (Panic ''index out of bounds''))"

record ram_stats =
  physical_end :: usize
  total_ram :: u64
  total_pages :: usize

definition account_entry :: "e820_entry \<Rightarrow> ram_stats \<Rightarrow> ram_stats res" where
  "account_entry e st =
     (if e820_length e = 0 then Inr st
      else
        bind_res (entry_end e) (\<lambda>end.
        let st1 = st\<lparr>physical_end := max (physical_end st) end\<rparr> in
        bind_res (if e820_kind e = 1
            then expect (checked_add_u64 (total_ram st1) (e820_length e)) ''RAM sum overflow''
            else Inr (total_ram st1)) (\<lambda>ram.
        let st2 = st1\<lparr>total_ram := ram\<rparr> in
        bind_res (usable_range e) (\<lambda>range.
        Inr (case range of None \<Rightarrow> st2
          | Some (start, end) \<Rightarrow> st2\<lparr>total_pages :=
              uadd (total_pages st2) (usub end start div PAGE_2M_SIZE)\<rparr>)))))"

text \<open>The stretches of the metadata behind the kernel image.\<close>

record metadata_layout =
  lo_bits_size :: usize
  lo_bits_length :: usize
  lo_pages_length :: usize
  lo_bitmap :: usize
  lo_pages :: usize
  lo_zones :: usize
  lo_end :: usize

definition layout_metadata :: "usize \<Rightarrow> usize \<Rightarrow> metadata_layout res" where
  "layout_metadata phys_end kernel_end =
     bind_res (align_up phys_end PAGE_2M_SIZE) (\<lambda>top.
     let bits_size = top div PAGE_2M_SIZE in
     bind_res (expect (checked_mul (div_ceil bits_size 64) 8) ''bitmap overflow'') (\<lambda>bits_length.
     bind_res (expect (checked_mul bits_size SIZEOF_PAGE) ''Page array overflow'') (\<lambda>pages_length.
     bind_res (align_up kernel_end PAGE_4K_SIZE) (\<lambda>bitmap.
     bind_res (expect (checked_add bitmap bits_length) ''bitmap end overflow'') (\<lambda>bitmap_end.
     bind_res (align_up bitmap_end PAGE_4K_SIZE) (\<lambda>pages.
     bind_res (expect (checked_add pages pages_length) ''Page end overflow'') (\<lambda>pages_end.
     bind_res (align_up pages_end PAGE_4K_SIZE) (\<lambda>zones.
     bind_res (expect (checked_add zones (umul MAX_ZONES SIZEOF_ZONE)) ''Zone end overflow'') (\<lambda>zones_end.
     bind_res (align_up zones_end 256) (\<lambda>metadata_end.
     Inr \<lparr>lo_bits_size = bits_size, lo_bits_length = bits_length, lo_pages_length = pages_length,
       lo_bitmap = bitmap, lo_pages = pages, lo_zones = zones, lo_end = metadata_end\<rparr>))))))))))"

text \<open>The metadata arrays: all bits set, zeroed pages that know their address, zeroed zones.\<close>

definition place_metadata :: "metadata_layout \<Rightarrow> memory_descriptor \<Rightarrow> memory_descriptor" where
  "place_metadata lo d = d\<lparr>
     md_bits_size := lo_bits_size lo, md_bits_length := lo_bits_length lo,
     md_pages_length := lo_pages_length lo,
     md_bits_map_addr := lo_bitmap lo, md_pages_addr := lo_pages lo, md_zones_addr := lo_zones lo,
     md_end_of_struct := lo_end lo,
     md_bits_map := replicate (lo_bits_length lo div 8) 0xffffffffffffffff,
     md_pages := map (\<lambda>i. zero_page\<lparr>pg_physical_address := umul i PAGE_2M_SIZE\<rparr>)
       [0..<lo_bits_size lo],
     md_zones := replicate MAX_ZONES zero_zone\<rparr>"

definition mark_page :: "usize \<Rightarrow> usize \<Rightarrow> memory_descriptor \<Rightarrow> memory_descriptor res" where
  "mark_page z j d =
     bind_res (ensure (pg_zone (md_pages d ! j) = None) ''overlapping E820 RAM zones'') (\<lambda>_.
     set_used (d\<lparr>md_pages := (md_pages d)[j := (md_pages d ! j)\<lparr>pg_zone := Some z\<rparr>]\<rparr>) j False)"

definition new_zone :: "usize \<Rightarrow> usize \<Rightarrow> zone" where
  "new_zone start end = \<lparr>zn_pages = Some (start div PAGE_2M_SIZE),
     zn_number_pages = usub end start div PAGE_2M_SIZE,
     zn_start_address = start, zn_end_address = end, zn_attribute = 0,
     zn_length = usub end start, zn_descriptor = MEMORY,
     zn_page_using_count = 0, zn_page_free_count = usub end start div PAGE_2M_SIZE,
     zn_total_pages_ref_count = 0\<rparr>"

definition add_zone :: "e820_entry \<Rightarrow> memory_descriptor \<Rightarrow> memory_descriptor res" where
  "add_zone e d =
     bind_res (usable_range e) (\<lambda>range. case range of
       None \<Rightarrow> Inr d
     | Some (start, end) \<Rightarrow>
         bind_res (ensure (md_zones_size d < MAX_ZONES) ''memory.zones_size < MAX_ZONES'') (\<lambda>_.
         let z = md_zones_size d;
             first = start div PAGE_2M_SIZE;
             number = usub end start div PAGE_2M_SIZE
         in for_res [first..<uadd first number] (mark_page z)
              (d\<lparr>md_zones_size := uadd z 1, md_zones := (md_zones d)[z := new_zone start end]\<rparr>)))"

definition reserved_attributes :: u64 where
  "reserved_attributes = PAGE_TABLE_MAPPED OR KERNEL_INIT OR ACTIVE OR KERNEL"

text \<open>The consistency check of one zone; its free count is returned for the final message.\<close>

definition check_zone :: "memory_descriptor \<Rightarrow> usize \<Rightarrow> usize res" where
  "check_zone d i =
     (let zn = md_zones d ! i in
      bind_res (for_res [zn_start_address zn div PAGE_2M_SIZE..<zn_end_address zn div PAGE_2M_SIZE]
          (\<lambda>j (free, references).
            let used = md_bits_map d ! (j div 64) AND push_bit (j mod 64) 1 \<noteq> 0;
                p = md_pages d ! j
            in bind_res (ensure (used = (pg_attribute p \<noteq> 0)) ''used == (page.attribute != 0)'')
                 (\<lambda>_. Inr (if used then free else uadd free 1, uadd references (pg_reference_count p))))
          (0, 0)) (\<lambda>(free, references).
      bind_res (ensure (free = zn_page_free_count zn) ''free == zone.page_free_count'') (\<lambda>_.
      bind_res (ensure (uadd (zn_page_using_count zn) free = zn_number_pages zn)
        ''zone.page_using_count + free == zone.number_pages'') (\<lambda>_.
      bind_res (ensure (references = zn_total_pages_ref_count zn)
        ''references == zone.total_pages_ref_count'') (\<lambda>_.
      Inr free)))))"

definition check_zones :: "memory_descriptor \<Rightarrow> usize res" where
  "check_zones d = for_res [0..<md_zones_size d]
     (\<lambda>i free_total. bind_res (check_zone d i) (\<lambda>free. Inr (uadd free_total free))) 0"

text \<open>Clearing PML4[0]; \<open>tables\<close> holds the 8-byte words at the linear addresses of the tables.\<close>

definition remove_identity :: "u64 \<Rightarrow> (usize \<Rightarrow> u64) \<Rightarrow> (usize \<Rightarrow> u64) res" where
  "remove_identity cr3 tables =
     (let pml4 = uadd PAGE_OFFSET (unat cr3);
          tables' = tables(pml4 := 0)
      in bind_res (ensure (tables' pml4 = 0) ''pml4.read() == 0'') (\<lambda>_.
         bind_res (ensure (tables' (uadd pml4 (256 * 8)) \<noteq> 0) ''pml4.add(256).read() != 0'') (\<lambda>_.
         Inr tables')))"

text \<open>Everything between the validated map and the consistency check.\<close>

definition build_metadata :: "usize \<Rightarrow> usize \<Rightarrow> memory_map \<Rightarrow> (memory_descriptor \<times> usize) res" where
  "build_metadata text kernel_end m =
     (let count = map_count m;
          d0 = MEMORY_INITIAL\<lparr>md_e820 := map_entries m, md_number_entries := count\<rparr>
      in
      bind_res (for_res [0..<count] (\<lambda>i st. bind_res (e820_at d0 i) (\<lambda>e. account_entry e st))
        \<lparr>physical_end = 0, total_ram = 0, total_pages = 0\<rparr>) (\<lambda>stats.
      bind_res (ensure (0 < total_pages stats) ''no usable 2 MiB pages'') (\<lambda>_.
      bind_res (layout_metadata (physical_end stats) kernel_end) (\<lambda>lo.
      let physical_metadata_end = usub (lo_end lo) PAGE_OFFSET in
      bind_res (ensure (physical_metadata_end \<le> DIRECT_RAM_END)
        ''metadata exceeds initial 10 MiB RAM mapping'') (\<lambda>_.
      bind_res (contains_usable m (usub text PAGE_OFFSET) physical_metadata_end) (\<lambda>contained.
      bind_res (ensure contained ''kernel and metadata are not contained in usable RAM'') (\<lambda>_.
      bind_res (for_res [0..<count] (\<lambda>i d. bind_res (e820_at d i) (\<lambda>e. add_zone e d))
        (place_metadata lo d0)) (\<lambda>d1.
      let reserved_pages = div_ceil physical_metadata_end PAGE_2M_SIZE in
      bind_res (for_res [0..<reserved_pages] (\<lambda>i d. init_page d i reserved_attributes) d1) (\<lambda>d2.
      Inr (d2, reserved_pages))))))))))"

definition memory_init :: "usize \<Rightarrow> usize \<Rightarrow> (nat \<Rightarrow> u8) \<Rightarrow> u64 \<Rightarrow> (usize \<Rightarrow> u64)
    \<Rightarrow> (memory_descriptor \<times> (usize \<Rightarrow> u64) \<times> usize \<times> usize) res" where
  "memory_init text kernel_end handoff cr3 tables =
     bind_res (read_memory_map handoff) (\<lambda>m.
     bind_res (build_metadata text kernel_end m) (\<lambda>(d, reserved_pages).
     bind_res (check_zones d) (\<lambda>free_pages.
     let d' = d\<lparr>md_global_cr3 := cr3\<rparr> in
     bind_res (remove_identity cr3 tables) (\<lambda>tables'.
     Inr (d', tables', free_pages, reserved_pages)))))"

section \<open>Marking the pages of a zone\<close>

text \<open>The descriptor after the pages \<open>f, \<dots>, k - 1\<close> have been given to zone \<open>z\<close>.\<close>

definition marked_upto :: "usize \<Rightarrow> memory_descriptor \<Rightarrow> nat \<Rightarrow> nat \<Rightarrow> memory_descriptor \<Rightarrow> bool" where
  "marked_upto z d f k d' \<longleftrightarrow> d' = d\<lparr>md_bits_map := md_bits_map d', md_pages := md_pages d'\<rparr>
     \<and> length (md_bits_map d') = length (md_bits_map d)
     \<and> length (md_pages d') = length (md_pages d)
     \<and> (\<forall>j. page_used d' j \<longleftrightarrow> page_used d j \<and> \<not> (f \<le> j \<and> j < k))
     \<and> (\<forall>j < md_bits_size d. md_pages d' ! j =
          (if f \<le> j \<and> j < k then (md_pages d ! j)\<lparr>pg_zone := Some z\<rparr> else md_pages d ! j))"

lemma marked_upto_refl [simp]: "marked_upto z d f f d"
  by (auto simp: marked_upto_def)

lemma marked_upto_fields:
  assumes "marked_upto z d f k d'"
  shows "md_bits_size d' = md_bits_size d" "md_zones_size d' = md_zones_size d"
    "md_zones d' = md_zones d" "md_e820 d' = md_e820 d" "md_end_of_struct d' = md_end_of_struct d"
proof -
  let ?m = "\<lambda>d'. d\<lparr>md_bits_map := md_bits_map d', md_pages := md_pages d'\<rparr>"
  have eq: "d' = ?m d'" using assms by (simp add: marked_upto_def)
  show "md_bits_size d' = md_bits_size d" "md_zones_size d' = md_zones_size d"
    "md_zones d' = md_zones d" "md_e820 d' = md_e820 d" "md_end_of_struct d' = md_end_of_struct d"
    by (subst eq, simp)+
qed

lemma mark_page_iff:
  assumes "marked_upto z d f j d'" "f \<le> j" "md_bits_size d \<le> 64 * length (md_bits_map d)"
    "length (md_pages d) = md_bits_size d" "j < md_bits_size d"
  shows "mark_page z j d' = Inr d'' \<Longrightarrow> marked_upto z d f (Suc j) d'' \<and> pg_zone (md_pages d ! j) = None"
    and "pg_zone (md_pages d ! j) = None \<Longrightarrow> \<exists>d''. mark_page z j d' = Inr d''"
proof -
  note fields = marked_upto_fields [OF assms(1)]
  have len: "length (md_pages d') = md_bits_size d" "j < 64 * length (md_bits_map d')"
    using assms by (simp_all add: marked_upto_def)
  have here: "md_pages d' ! j = md_pages d ! j" using assms(1,5) by (simp add: marked_upto_def)
  let ?n = "d'\<lparr>md_bits_map := put_bit (md_bits_map d') j False,
    md_pages := (md_pages d')[j := (md_pages d ! j)\<lparr>pg_zone := Some z\<rparr>]\<rparr>"
  have eq: "mark_page z j d' = (if pg_zone (md_pages d ! j) = None then Inr ?n
      else Inl (Panic ''overlapping E820 RAM zones''))"
    using assms(5) fields by (simp add: mark_page_def set_used_eq here ensure_def)
  have d': "d' = d\<lparr>md_bits_map := md_bits_map d', md_pages := md_pages d'\<rparr>"
    using assms(1) by (simp add: marked_upto_def)
  have shape: "?n = d\<lparr>md_bits_map := md_bits_map ?n, md_pages := md_pages ?n\<rparr>"
    by (subst d') simp
  have pages: "md_pages ?n ! i = (if f \<le> i \<and> i < Suc j then (md_pages d ! i)\<lparr>pg_zone := Some z\<rparr>
      else md_pages d ! i)" if "i < md_bits_size d" for i
    using assms(1,2) that len by (auto simp: marked_upto_def nth_update_if less_Suc_eq)
  have used: "page_used ?n i \<longleftrightarrow> page_used d i \<and> \<not> (f \<le> i \<and> i < Suc j)" for i
    using assms(1,2) len by (auto simp: marked_upto_def get_put_bit less_Suc_eq)
  have "marked_upto z d f (Suc j) ?n"
    unfolding marked_upto_def using shape pages used assms(1) by (simp add: marked_upto_def)
  then show "mark_page z j d' = Inr d'' \<Longrightarrow> marked_upto z d f (Suc j) d'' \<and> pg_zone (md_pages d ! j) = None"
    using eq by (auto split: if_splits)
  show "pg_zone (md_pages d ! j) = None \<Longrightarrow> \<exists>d''. mark_page z j d' = Inr d''"
    using eq by simp
qed

section \<open>Adding a zone keeps the invariant\<close>

text \<open>A descriptor whose zones are all unused: what the zone loop works on.\<close>

definition fresh :: "memory_descriptor \<Rightarrow> bool" where
  "fresh d \<longleftrightarrow> (\<forall>i < md_bits_size d. pg_attribute (md_pages d ! i) = 0)"

definition zoned :: "memory_descriptor \<Rightarrow> nat set" where
  "zoned d = {i. i < md_bits_size d \<and> pg_zone (md_pages d ! i) \<noteq> None}"

lemma mark_range:
  assumes "f \<le> k" "md_bits_size d \<le> 64 * length (md_bits_map d)"
    "length (md_pages d) = md_bits_size d" "k \<le> md_bits_size d"
  shows "for_res [f..<k] (mark_page z) d = Inr d' \<Longrightarrow>
      marked_upto z d f k d' \<and> (\<forall>j. f \<le> j \<and> j < k \<longrightarrow> pg_zone (md_pages d ! j) = None)"
    and "(\<And>j. f \<le> j \<Longrightarrow> j < k \<Longrightarrow> pg_zone (md_pages d ! j) = None) \<Longrightarrow>
      \<exists>d'. for_res [f..<k] (mark_page z) d = Inr d'"
proof -
  let ?I = "\<lambda>k' d'. marked_upto z d f k' d' \<and> (\<forall>j. f \<le> j \<and> j < k' \<longrightarrow> pg_zone (md_pages d ! j) = None)"
  show "for_res [f..<k] (mark_page z) d = Inr d' \<Longrightarrow> ?I k d'"
  proof (erule for_range_partial [OF _ assms(1), where I = ?I])
    fix i s s' assume "f \<le> i" "i < k" "?I i s" "mark_page z i s = Inr s'"
    then show "?I (Suc i) s'"
      using mark_page_iff(1) [of z d f i s s'] assms(2-4) by (auto simp: less_Suc_eq)
  qed auto
  assume none: "\<And>j. f \<le> j \<Longrightarrow> j < k \<Longrightarrow> pg_zone (md_pages d ! j) = None"
  have "\<exists>d'. for_res [f..<k] (mark_page z) d = Inr d' \<and> marked_upto z d f k d'"
  proof (rule for_range_total [OF assms(1)])
    fix i s assume i: "f \<le> i" "i < k" "marked_upto z d f i s"
    then obtain s' where "mark_page z i s = Inr s'"
      using mark_page_iff(2) [of z d f i s] assms(2-4) none by auto
    with i show "\<exists>s'. mark_page z i s = Inr s' \<and> marked_upto z d f (Suc i) s'"
      using mark_page_iff(1) [of z d f i s s'] assms(2-4) by auto
  qed simp
  then show "\<exists>d'. for_res [f..<k] (mark_page z) d = Inr d'" by blast
qed

definition with_zone :: "memory_descriptor \<Rightarrow> usize \<Rightarrow> usize \<Rightarrow> memory_descriptor" where
  "with_zone d start end = d\<lparr>md_zones_size := md_zones_size d + 1,
     md_zones := (md_zones d)[md_zones_size d := new_zone start end]\<rparr>"

lemma new_zone_bounds:
  assumes "f < l"
  shows "zone_first (new_zone (f * PAGE_2M_SIZE) (l * PAGE_2M_SIZE)) = f"
    "zone_last (new_zone (f * PAGE_2M_SIZE) (l * PAGE_2M_SIZE)) = l"
    "zn_number_pages (new_zone (f * PAGE_2M_SIZE) (l * PAGE_2M_SIZE)) = l - f"
    "zn_page_free_count (new_zone (f * PAGE_2M_SIZE) (l * PAGE_2M_SIZE)) = l - f"
proof -
  have "usub (l * PAGE_2M_SIZE) (f * PAGE_2M_SIZE) = (l - f) * PAGE_2M_SIZE"
    using assms by (simp add: usub_exact diff_mult_distrib)
  then show "zone_first (new_zone (f * PAGE_2M_SIZE) (l * PAGE_2M_SIZE)) = f"
    "zone_last (new_zone (f * PAGE_2M_SIZE) (l * PAGE_2M_SIZE)) = l"
    "zn_number_pages (new_zone (f * PAGE_2M_SIZE) (l * PAGE_2M_SIZE)) = l - f"
    "zn_page_free_count (new_zone (f * PAGE_2M_SIZE) (l * PAGE_2M_SIZE)) = l - f"
    by (simp_all add: zone_first_def zone_last_def new_zone_def)
qed

lemma with_zone_fields:
  assumes l: "layout_ok d" and f: "f < l" and room: "md_zones_size d < MAX_ZONES"
    and m: "marked_upto (md_zones_size d) (with_zone d (f * PAGE_2M_SIZE) (l * PAGE_2M_SIZE)) f l d'"
  shows "md_bits_size d' = md_bits_size d" "md_zones_size d' = Suc (md_zones_size d)"
    "length (md_zones d') = length (md_zones d)" "length (md_bits_map d') = length (md_bits_map d)"
    "length (md_pages d') = length (md_pages d)"
    "z \<noteq> md_zones_size d \<Longrightarrow> md_zones d' ! z = md_zones d ! z"
    "md_zones d' ! md_zones_size d = new_zone (f * PAGE_2M_SIZE) (l * PAGE_2M_SIZE)"
    "j < md_bits_size d \<Longrightarrow> md_pages d' ! j = (if f \<le> j \<and> j < l then (md_pages d ! j)\<lparr>pg_zone := Some (md_zones_size d)\<rparr>
      else md_pages d ! j)"
    "page_used d' j \<longleftrightarrow> page_used d j \<and> \<not> (f \<le> j \<and> j < l)"
    "z \<noteq> md_zones_size d \<Longrightarrow> in_zone d' z i = in_zone d z i"
    "in_zone d' (md_zones_size d) i \<longleftrightarrow> f \<le> i \<and> i < l"
proof -
  let ?z = "md_zones_size d" and ?zn = "new_zone (f * PAGE_2M_SIZE) (l * PAGE_2M_SIZE)"
  have sizes: "md_bits_size d' = md_bits_size d" "md_zones_size d' = Suc ?z" "md_zones d' = (md_zones d)[?z := ?zn]"
      "length (md_zones d) = MAX_ZONES" "length (md_pages d) = md_bits_size d"
    using marked_upto_fields [OF m] l by (simp_all add: with_zone_def layout_ok_def)
  then show "md_bits_size d' = md_bits_size d" "md_zones_size d' = Suc ?z" "length (md_zones d') = length (md_zones d)"
    and old: "\<And>z. z \<noteq> ?z \<Longrightarrow> md_zones d' ! z = md_zones d ! z" and new: "md_zones d' ! ?z = ?zn"
    using room by simp_all
  show "length (md_bits_map d') = length (md_bits_map d)" "length (md_pages d') = length (md_pages d)"
    using m by (simp_all add: marked_upto_def with_zone_def)
  show "j < md_bits_size d \<Longrightarrow> md_pages d' ! j = (if f \<le> j \<and> j < l then (md_pages d ! j)\<lparr>pg_zone := Some ?z\<rparr>
      else md_pages d ! j)" "page_used d' j \<longleftrightarrow> page_used d j \<and> \<not> (f \<le> j \<and> j < l)"
    using m sizes by (simp_all add: marked_upto_def with_zone_def)
  show "z \<noteq> ?z \<Longrightarrow> in_zone d' z i = in_zone d z i"
    using sizes old by (auto simp: in_zone_def less_Suc_eq)
  show "in_zone d' ?z i \<longleftrightarrow> f \<le> i \<and> i < l"
    using sizes new new_zone_bounds [OF f] by (simp add: in_zone_def)
qed

lemma with_zone_layout:
  assumes l: "layout_ok d" and f: "f < l" "l \<le> md_bits_size d" and room: "md_zones_size d < MAX_ZONES"
    and none: "\<And>j. f \<le> j \<Longrightarrow> j < l \<Longrightarrow> pg_zone (md_pages d ! j) = None"
    and m: "marked_upto (md_zones_size d) (with_zone d (f * PAGE_2M_SIZE) (l * PAGE_2M_SIZE)) f l d'"
  shows "layout_ok d'"
proof -
  let ?z = "md_zones_size d"
  note F = with_zone_fields [OF l f(1) room m] and bounds = new_zone_bounds [OF f(1)]
  have old_none: "\<not> in_zone d ?z i" for i by (simp add: in_zone_def)
  have shape: "page_shape d' i" if i: "i < md_bits_size d" for i
  proof -
    have s: "page_shape d i" using l i by (simp add: layout_ok_def)
    show ?thesis
      unfolding page_shape_def
    proof (intro conjI allI)
      show "pg_physical_address (md_pages d' ! i) = i * PAGE_2M_SIZE"
        using s F(8) [OF i] by (simp add: page_shape_def)
      fix z show "pg_zone (md_pages d' ! i) = Some z \<longleftrightarrow> in_zone d' z i"
        using s F(8) [OF i] F(10,11) old_none none [of i]
        by (cases "z = ?z") (auto simp: page_shape_def split: if_splits)
    qed
  qed
  have zshape: "zone_shape d' z" if "z < Suc ?z" for z
  proof (cases "z = ?z")
    case True
    have "usub (l * PAGE_2M_SIZE) (f * PAGE_2M_SIZE) = l * PAGE_2M_SIZE - f * PAGE_2M_SIZE"
      using f by (simp add: usub_exact)
    with True F(7) bounds f F(1) show ?thesis
      by (simp add: zone_shape_def Let_def) (simp add: new_zone_def)
  next
    case False
    then have "zone_shape d z" using l that by (simp add: layout_ok_def)
    with False F(1,6) show ?thesis by (simp add: zone_shape_def)
  qed
  show ?thesis using l shape zshape F(1-5) room by (simp add: layout_ok_def)
qed

lemma with_zone_counts:
  assumes wf: "md_wf d" and fresh: "fresh d" and f: "f < l" "l \<le> md_bits_size d" and room: "md_zones_size d < MAX_ZONES"
    and none: "\<And>j. f \<le> j \<Longrightarrow> j < l \<Longrightarrow> pg_zone (md_pages d ! j) = None"
    and m: "marked_upto (md_zones_size d) (with_zone d (f * PAGE_2M_SIZE) (l * PAGE_2M_SIZE)) f l d'"
    and z: "z < Suc (md_zones_size d)"
  shows "zone_counts d' z"
proof -
  let ?z = "md_zones_size d" and ?zn = "new_zone (f * PAGE_2M_SIZE) (l * PAGE_2M_SIZE)"
  have l: "layout_ok d" using wf by (simp add: md_wf_def)
  have state: "page_state d j" if "j < md_bits_size d" for j using wf that by (simp add: md_wf_def)
  note F = with_zone_fields [OF l f(1) room m] and bounds = new_zone_bounds [OF f(1)]
  show ?thesis
  proof (cases "z = ?z")
    case True
    have "free_in d' ?zn = l - f" "used_in d' ?zn = 0"
      using sum_upt_cong [of f l "\<lambda>j. of_bool (\<not> page_used d' j)" "\<lambda>j. 1 :: nat"]
        sum_upt_cong [of f l "\<lambda>j. of_bool (page_used d' j)" "\<lambda>j. 0 :: nat"]
      by (simp_all add: free_in_def used_in_def bounds F(9) sum_list_triv)
    moreover have "refs_in d' ?zn = 0"
      using sum_upt_cong [of f l "\<lambda>j. pg_reference_count (md_pages d' ! j)" "\<lambda>j. 0"] F(8) f state fresh
      by (simp add: refs_in_def bounds page_state_def fresh_def Let_def)
    ultimately show ?thesis
      using True F(7) by (simp add: zone_counts_def bounds) (simp add: new_zone_def)
  next
    case False
    with z have zd: "z < ?z" by simp
    have c: "zone_counts d z" using wf zd by (simp add: md_wf_def)
    have same: "page_used d' j = page_used d j \<and> md_pages d' ! j = md_pages d ! j"
      if "zone_first (md_zones d ! z) \<le> j" "j < zone_last (md_zones d ! z)" for j
    proof -
      have iz: "in_zone d z j" using that zd by (simp add: in_zone_def)
      have j: "j < md_bits_size d" by (rule zone_pages_in_range [OF l iz])
      then have "pg_zone (md_pages d ! j) = Some z" using zone_of_page [OF l j] iz by blast
      then have "\<not> (f \<le> j \<and> j < l)" using none [of j] by auto
      with F(9) F(8) [OF j] show ?thesis by simp
    qed
    have "free_in d' (md_zones d ! z) = free_in d (md_zones d ! z)"
      "used_in d' (md_zones d ! z) = used_in d (md_zones d ! z)"
      "refs_in d' (md_zones d ! z) = refs_in d (md_zones d ! z)"
      unfolding free_in_def used_in_def refs_in_def by (intro sum_upt_cong; simp add: same)+
    with c F(6) [OF False] show ?thesis by (simp add: zone_counts_def)
  qed
qed

lemma with_zone_marked_wf:
  assumes wf: "md_wf d" and fresh: "fresh d" and f: "f < l" "l \<le> md_bits_size d"
    and room: "md_zones_size d < MAX_ZONES"
    and none: "\<And>j. f \<le> j \<Longrightarrow> j < l \<Longrightarrow> pg_zone (md_pages d ! j) = None"
    and m: "marked_upto (md_zones_size d) (with_zone d (f * PAGE_2M_SIZE) (l * PAGE_2M_SIZE)) f l d'"
  shows "md_wf d' \<and> fresh d' \<and> zoned d' = zoned d \<union> {f..<l}"
proof -
  have l: "layout_ok d" using wf by (simp add: md_wf_def)
  note F = with_zone_fields [OF l f(1) room m]
  have "page_state d' i" if i: "i < md_bits_size d" for i
  proof -
    have "page_state d i" using wf i by (simp add: md_wf_def)
    then show ?thesis using F(8) [OF i] F(9) [of i] fresh none [of i] i by (auto simp: page_state_def fresh_def Let_def)
  qed
  moreover have "fresh d'" using fresh F(1,8) by (simp add: fresh_def)
  moreover have "zoned d' = zoned d \<union> {f..<l}"
    using F(1,8) f by (auto simp: zoned_def split: if_splits)
  ultimately show ?thesis
    using with_zone_layout [OF l f room none m] with_zone_counts [OF wf fresh f room none m] F(1,2)
    by (simp add: md_wf_def)
qed

section \<open>The zone loop\<close>

definition usable_pages :: "e820_entry \<Rightarrow> nat set" where
  "usable_pages e = {i. e820_kind e = 1 \<and> page_bytes i \<subseteq> entry_span e}"

lemma usable_range_pages: "usable_range e = Inr r \<Longrightarrow> range_pages r = usable_pages e"
  by (simp add: usable_pages_def range_pages_usable)

lemma usable_pages_disjoint:
  assumes "span_disjoint e f"
  shows "usable_pages e \<inter> usable_pages f = {}"
proof -
  have "i * PAGE_2M_SIZE \<in> page_bytes i" for i by (simp add: page_bytes_def)
  then show ?thesis using assms by (fastforce simp: usable_pages_def)
qed

lemma add_zone_unfold:
  assumes "usable_range e = Inr (Some (s, t))" "md_wf d" "md_zones_size d < MAX_ZONES"
  shows "add_zone e d = for_res [s div PAGE_2M_SIZE..<t div PAGE_2M_SIZE] (mark_page (md_zones_size d))
    (with_zone d s t)"
proof -
  note r = usable_range_Some [OF assms(1)]
  let ?f = "s div PAGE_2M_SIZE" and ?l = "t div PAGE_2M_SIZE"
  have st: "s = ?f * PAGE_2M_SIZE" "t = ?l * PAGE_2M_SIZE" "s < t" using r by blast+
  have "usub t s = t - s" using st(3) by (simp add: usub_exact)
  also have "\<dots> = (?l - ?f) * PAGE_2M_SIZE" using st(1,2) by (metis diff_mult_distrib)
  finally have n: "usub t s div PAGE_2M_SIZE = ?l - ?f" by simp
  have le: "?f \<le> ?l" using st(3) by (simp add: div_le_mono)
  have "?l * 1 \<le> ?l * PAGE_2M_SIZE" by (intro mult_le_mono2) (simp add: PAGE_2M_SIZE_def)
  also have "\<dots> = t" using st(2) by simp
  also have "\<dots> = ?l * PAGE_2M_SIZE" using st(2) by simp
  also have "\<dots> < usize_range"
  proof -
    have "?l * PAGE_2M_SIZE \<le> unat (e820_address e) + unat (e820_length e)"
      using r by (metis div_times_less_eq_dividend)
    also have "\<dots> < usize_range" using r by (simp add: entry_fits_def)
    finally show ?thesis .
  qed
  finally have "uadd ?f (?l - ?f) = ?l" using le by (simp add: uadd_exact)
  moreover have "uadd (md_zones_size d) 1 = md_zones_size d + 1"
    using assms(3) by (simp add: uadd_exact MAX_ZONES_def MAX_ENTRIES_def)
  ultimately show ?thesis
    using assms(1,3) n by (simp add: add_zone_def with_zone_def Let_def)
qed

lemma usable_range_run:
  assumes u: "usable_range e = Inr r" and top: "range_pages r \<subseteq> {..<n}" and nn: "r \<noteq> None"
  shows "\<exists>f l. r = Some (f * PAGE_2M_SIZE, l * PAGE_2M_SIZE) \<and> f < l \<and> l \<le> n \<and> range_pages r = {f..<l}"
proof -
  obtain s t where r: "r = Some (s, t)" using nn by auto
  note us = usable_range_Some [OF u [unfolded r]]
  have st: "s = s div PAGE_2M_SIZE * PAGE_2M_SIZE" "t = t div PAGE_2M_SIZE * PAGE_2M_SIZE" "s < t"
    using us by blast+
  then have lt: "s div PAGE_2M_SIZE < t div PAGE_2M_SIZE"
    by (metis mult_less_cancel2)
  then have "t div PAGE_2M_SIZE - 1 \<in> range_pages r" using r by (auto simp: range_pages_def)
  then have "t div PAGE_2M_SIZE - 1 < n" using top by auto
  with lt st r show ?thesis
    by (intro exI [of _ "s div PAGE_2M_SIZE"] exI [of _ "t div PAGE_2M_SIZE"])
      (auto simp: range_pages_def)
qed

lemma add_zone_wf:
  assumes wf: "md_wf d" "fresh d" and u: "usable_range e = Inr r"
    and top: "range_pages r \<subseteq> {..<md_bits_size d}"
  shows "add_zone e d = Inr d' \<Longrightarrow> md_wf d' \<and> fresh d' \<and> zoned d' = zoned d \<union> usable_pages e
      \<and> md_zones_size d' \<le> Suc (md_zones_size d) \<and> md_bits_size d' = md_bits_size d
      \<and> md_e820 d' = md_e820 d \<and> md_end_of_struct d' = md_end_of_struct d"
    and "md_zones_size d < MAX_ZONES \<Longrightarrow> zoned d \<inter> usable_pages e = {} \<Longrightarrow> \<exists>d'. add_zone e d = Inr d'"
proof -
  note up = usable_range_pages [OF u, symmetric]
  have l: "layout_ok d" using wf(1) by (simp add: md_wf_def)
  have len: "length (md_pages d) = md_bits_size d" "md_bits_size d \<le> 64 * length (md_bits_map d)"
    using l div_ceil_le_iff [of 64 "md_bits_size d" "length (md_bits_map d)"]
    by (simp_all add: layout_ok_def)
  note some = usable_range_run [OF u top]
  show "add_zone e d = Inr d' \<Longrightarrow> md_wf d' \<and> fresh d' \<and> zoned d' = zoned d \<union> usable_pages e
      \<and> md_zones_size d' \<le> Suc (md_zones_size d) \<and> md_bits_size d' = md_bits_size d
      \<and> md_e820 d' = md_e820 d \<and> md_end_of_struct d' = md_end_of_struct d"
  proof (cases r)
    case None
    then show "add_zone e d = Inr d' \<Longrightarrow> ?thesis"
      using u wf by (auto simp: add_zone_def up range_pages_def)
  next
    case (Some p)
    then obtain f l where r: "r = Some (f * PAGE_2M_SIZE, l * PAGE_2M_SIZE)" "f < l"
        "l \<le> md_bits_size d" "range_pages r = {f..<l}" using some by blast
    assume a: "add_zone e d = Inr d'"
    then have room: "md_zones_size d < MAX_ZONES" using u r by (auto simp: add_zone_def res_Inr)
    let ?d = "with_zone d (f * PAGE_2M_SIZE) (l * PAGE_2M_SIZE)"
    have "for_res [f..<l] (mark_page (md_zones_size d)) ?d = Inr d'"
      using a add_zone_unfold [OF u [unfolded r(1)] wf(1) room] by simp
    then have m: "marked_upto (md_zones_size d) ?d f l d'"
      and none: "\<And>j. f \<le> j \<Longrightarrow> j < l \<Longrightarrow> pg_zone (md_pages d ! j) = None"
      using mark_range(1) [of f l ?d "md_zones_size d" d'] r(2,3) len by (auto simp: with_zone_def)
    note w = with_zone_marked_wf [OF wf r(2,3) room none m] and fl = marked_upto_fields [OF m]
    show ?thesis using w fl r(4) up by (simp add: with_zone_def)
  qed
  assume room: "md_zones_size d < MAX_ZONES" and disj: "zoned d \<inter> usable_pages e = {}"
  show "\<exists>d'. add_zone e d = Inr d'"
  proof (cases r)
    case None
    then show ?thesis using u by (simp add: add_zone_def)
  next
    case (Some p)
    then obtain f l where r: "r = Some (f * PAGE_2M_SIZE, l * PAGE_2M_SIZE)" "f < l"
        "l \<le> md_bits_size d" "range_pages r = {f..<l}" using some by blast
    have none: "pg_zone (md_pages d ! j) = None" if "f \<le> j" "j < l" for j
    proof -
      have "j \<in> usable_pages e" using that r(4) up by simp
      then have "j \<notin> zoned d" using disj by blast
      then show ?thesis using that r(3) by (simp add: zoned_def)
    qed
    have "\<exists>d'. for_res [f..<l] (mark_page (md_zones_size d))
        (with_zone d (f * PAGE_2M_SIZE) (l * PAGE_2M_SIZE)) = Inr d'"
      by (intro mark_range(2)) (use r(2,3) len in \<open>simp_all add: with_zone_def none\<close>)
    then show ?thesis
      unfolding add_zone_unfold [OF u [unfolded r(1)] wf(1) room] by simp
  qed
qed

section \<open>The statistics loop\<close>

definition entry_top :: "e820_entry \<Rightarrow> nat" where
  "entry_top e = (if e820_length e = 0 then 0 else unat (e820_address e) + unat (e820_length e))"

lemma account_entry_Inr:
  assumes "account_entry e st = Inr st'"
  shows "physical_end st' = max (physical_end st) (entry_top e) \<and> (\<exists>r. usable_range e = Inr r)"
  using assms
  by (auto simp: account_entry_def entry_top_def res_Inr entry_end_Inr Let_def usable_range_def
      split: if_splits option.splits)

definition stats_loop :: "e820_entry list \<Rightarrow> usize \<Rightarrow> ram_stats res" where
  "stats_loop es n = for_res [0..<n]
     (\<lambda>i st. bind_res (if i < length es then Inr (es ! i) else Inl (Panic ''index out of bounds''))
       (\<lambda>e. account_entry e st))
     \<lparr>physical_end = 0, total_ram = 0, total_pages = 0\<rparr>"

lemma stats_loop_sound:
  assumes "stats_loop es n = Inr st"
  shows "\<forall>i < n. i < length es \<and> entry_top (es ! i) \<le> physical_end st \<and> (\<exists>r. usable_range (es ! i) = Inr r)"
proof -
  let ?I = "\<lambda>k st. \<forall>i < k. i < length es \<and> entry_top (es ! i) \<le> physical_end st
    \<and> (\<exists>r. usable_range (es ! i) = Inr r)"
  show ?thesis
  proof (rule for_range_partial [where I = ?I, OF assms [unfolded stats_loop_def]])
    fix i s s'
    assume I: "?I i s" and b: "bind_res (if i < length es then Inr (es ! i)
        else Inl (Panic ''index out of bounds'')) (\<lambda>e. account_entry e s) = Inr s'"
    then have i: "i < length es" and a: "account_entry (es ! i) s = Inr s'"
      by (auto split: if_splits)
    note p = account_entry_Inr [OF a]
    show "?I (Suc i) s'"
    proof (intro allI impI)
      fix k assume "k < Suc i"
      then consider "k < i" | "k = i" by linarith
      then show "k < length es \<and> entry_top (es ! k) \<le> physical_end s' \<and> (\<exists>r. usable_range (es ! k) = Inr r)"
        using I i p by cases auto
    qed
  qed auto
qed

lemma usable_pages_below:
  assumes "i \<in> usable_pages e" "entry_top e \<le> n * PAGE_2M_SIZE"
  shows "i < n"
proof -
  have p: "page_bytes i \<subseteq> entry_span e" using assms(1) by (simp add: usable_pages_def)
  have "i * PAGE_2M_SIZE \<in> entry_span e" using p by (auto simp: page_bytes_def)
  then have "i * PAGE_2M_SIZE < entry_top e" by (auto simp: entry_span_def entry_top_def)
  with assms(2) have "i * PAGE_2M_SIZE < n * PAGE_2M_SIZE" by linarith
  then show ?thesis by simp
qed

section \<open>The metadata layout\<close>

lemma layout_metadata_Inr:
  assumes "layout_metadata t k = Inr lo"
  shows "t \<le> lo_bits_size lo * PAGE_2M_SIZE \<and> lo_bits_size lo * PAGE_2M_SIZE < usize_range
    \<and> lo_bits_length lo = div_ceil (lo_bits_size lo) 64 * 8
    \<and> lo_pages_length lo = lo_bits_size lo * SIZEOF_PAGE
    \<and> k \<le> lo_bitmap lo \<and> lo_bitmap lo + lo_bits_length lo \<le> lo_pages lo
    \<and> lo_pages lo + lo_pages_length lo \<le> lo_zones lo
    \<and> lo_zones lo + MAX_ZONES * SIZEOF_ZONE \<le> lo_end lo \<and> lo_end lo < usize_range
    \<and> lo_bitmap lo mod PAGE_4K_SIZE = 0 \<and> lo_pages lo mod PAGE_4K_SIZE = 0
    \<and> lo_zones lo mod PAGE_4K_SIZE = 0"
proof -
  have up: "a \<le> div_ceil a b * b" if "0 < b" for a b :: nat using div_ceil_le_iff [OF that] by blast
  have below: "div_ceil a b * b < m" if "0 < b" "a + (b - 1) < m" for a b m :: nat
    using round_up_eq [OF that(1), of a] that(2) by linarith
  have z: "umul MAX_ZONES SIZEOF_ZONE = MAX_ZONES * SIZEOF_ZONE"
    by (simp add: umul_def MAX_ZONES_def MAX_ENTRIES_def SIZEOF_ZONE_def)
  have "0 < PAGE_4K_SIZE" by (simp add: PAGE_4K_SIZE_def)
  note up4 = up [OF this]
  show ?thesis
    using assms below [of PAGE_2M_SIZE t usize_range] below [of 256 _ usize_range] up4
      up [of PAGE_2M_SIZE] up [of 256]
    by (auto simp: layout_metadata_def res_Inr align_up_2M align_up_4K align_up_256 z Let_def)
qed

section \<open>The zones of a descriptor\<close>

lemma all_ones_bit: "k < 64 \<Longrightarrow> bit (0xffffffffffffffff :: u64) k"
proof -
  assume "k < 64"
  moreover have "(0xffffffffffffffff :: u64) = mask 64" by (simp add: mask_eq_exp_minus_1)
  ultimately show ?thesis by (simp only: bit_mask_iff) simp
qed

lemma place_metadata_wf:
  assumes "layout_metadata t k = Inr lo" "md_zones_size d = 0"
  shows "md_wf (place_metadata lo d) \<and> fresh (place_metadata lo d) \<and> zoned (place_metadata lo d) = {}"
proof -
  let ?d = "place_metadata lo d" and ?n = "lo_bits_size lo"
  note lo = layout_metadata_Inr [OF assms(1)]
  have small: "umul i PAGE_2M_SIZE = i * PAGE_2M_SIZE" if "i < ?n" for i
  proof -
    have "i * PAGE_2M_SIZE \<le> ?n * PAGE_2M_SIZE" using that by (intro mult_le_mono1) simp
    with lo show ?thesis by (intro umul_exact) linarith
  qed
  have used: "page_used ?d i" if i: "i < ?n" for i
  proof -
    have "i div 64 < div_ceil ?n 64"
      using i div_times_less_eq_dividend [of i 64] by (simp add: less_div_ceil_iff)
    then show ?thesis
      using lo all_ones_bit by (simp add: get_bit_def place_metadata_def)
  qed
  have sizes: "md_bits_size ?d = ?n" "md_zones_size ?d = 0" "length (md_zones ?d) = MAX_ZONES"
      "length (md_bits_map ?d) = div_ceil ?n 64" "length (md_pages ?d) = ?n"
    using lo assms(2) by (simp_all add: place_metadata_def)
  have pages: "md_pages ?d ! i = zero_page\<lparr>pg_physical_address := i * PAGE_2M_SIZE\<rparr>" if "i < ?n" for i
    using that small by (simp add: place_metadata_def)
  have "layout_ok ?d"
    using lo pages by (simp add: layout_ok_def sizes page_shape_def in_zone_def zero_page_def)
  moreover have "page_state ?d i" if "i < ?n" for i
    using used [OF that] pages [OF that] by (simp add: page_state_def zero_page_def)
  ultimately show ?thesis
    using pages by (auto simp: md_wf_def sizes fresh_def zoned_def zero_page_def)
qed

definition zone_loop :: "usize \<Rightarrow> memory_descriptor \<Rightarrow> memory_descriptor res" where
  "zone_loop n d = for_res [0..<n] (\<lambda>i d. bind_res (e820_at d i) (\<lambda>e. add_zone e d)) d"

definition zones_upto :: "memory_descriptor \<Rightarrow> nat \<Rightarrow> memory_descriptor \<Rightarrow> bool" where
  "zones_upto d0 k d \<longleftrightarrow> md_wf d \<and> fresh d \<and> md_zones_size d \<le> k \<and> md_bits_size d = md_bits_size d0
     \<and> md_e820 d = md_e820 d0 \<and> md_end_of_struct d = md_end_of_struct d0
     \<and> zoned d = (\<Union>i<k. usable_pages (md_e820 d0 ! i))"

lemma zones_upto_step:
  assumes u: "zones_upto d0 i d" "i < length (md_e820 d0)" "usable_range (md_e820 d0 ! i) = Inr r"
    and top: "entry_top (md_e820 d0 ! i) \<le> md_bits_size d0 * PAGE_2M_SIZE"
  shows "add_zone (md_e820 d0 ! i) d = Inr d' \<Longrightarrow> zones_upto d0 (Suc i) d'"
    and "i < MAX_ZONES \<Longrightarrow> \<forall>j < i. span_disjoint (md_e820 d0 ! j) (md_e820 d0 ! i) \<Longrightarrow>
      \<exists>d'. add_zone (md_e820 d0 ! i) d = Inr d'"
proof -
  let ?e = "md_e820 d0 ! i"
  have wf: "md_wf d" "fresh d" using u(1) by (simp_all add: zones_upto_def)
  have "range_pages r \<subseteq> {..<md_bits_size d}"
    using u(1) usable_pages_below [OF _ top] usable_range_pages [OF u(3)]
    by (auto simp: zones_upto_def)
  note az = add_zone_wf [OF wf u(3) this]
  show "add_zone ?e d = Inr d' \<Longrightarrow> zones_upto d0 (Suc i) d'"
    using az(1) u(1) by (auto simp: zones_upto_def lessThan_Suc)
  assume "i < MAX_ZONES" and dis: "\<forall>j < i. span_disjoint (md_e820 d0 ! j) ?e"
  then have "md_zones_size d < MAX_ZONES" using u(1) by (simp add: zones_upto_def)
  moreover have "zoned d \<inter> usable_pages ?e = {}"
    using u(1) dis usable_pages_disjoint [of _ ?e] by (fastforce simp: zones_upto_def)
  ultimately show "\<exists>d'. add_zone ?e d = Inr d'" by (rule az(2))
qed

lemma zone_loop_sound:
  assumes "zone_loop n d0 = Inr d" "zones_upto d0 0 d0"
    and "\<forall>i < n. i < length (md_e820 d0) \<and> entry_top (md_e820 d0 ! i) \<le> md_bits_size d0 * PAGE_2M_SIZE
      \<and> (\<exists>r. usable_range (md_e820 d0 ! i) = Inr r)"
  shows "zones_upto d0 n d"
proof (rule for_range_partial [where I = "zones_upto d0", OF assms(1) [unfolded zone_loop_def]])
  fix i s s'
  assume i: "i < n" and I: "zones_upto d0 i s"
    and b: "bind_res (e820_at s i) (\<lambda>e. add_zone e s) = Inr s'"
  have a: "add_zone (md_e820 d0 ! i) s = Inr s'"
    using b I by (auto simp: e820_at_def zones_upto_def split: if_splits)
  obtain r where "usable_range (md_e820 d0 ! i) = Inr r" using assms(3) i by blast
  then show "zones_upto d0 (Suc i) s'"
    using zones_upto_step(1) [OF I _ _ _ a] assms(3) i by blast
qed (use assms(2) in auto)

lemma zone_loop_total:
  assumes "zones_upto d0 0 d0" "n \<le> MAX_ZONES"
    and "\<forall>i < n. i < length (md_e820 d0) \<and> entry_top (md_e820 d0 ! i) \<le> md_bits_size d0 * PAGE_2M_SIZE
      \<and> (\<exists>r. usable_range (md_e820 d0 ! i) = Inr r)"
    and "\<forall>i < n. \<forall>j < i. span_disjoint (md_e820 d0 ! j) (md_e820 d0 ! i)"
  shows "\<exists>d. zone_loop n d0 = Inr d \<and> zones_upto d0 n d"
  unfolding zone_loop_def
proof (rule for_range_total)
  fix i s assume i: "i < n" and I: "zones_upto d0 i s"
  obtain r where r: "usable_range (md_e820 d0 ! i) = Inr r" using assms(3) i by blast
  have top: "entry_top (md_e820 d0 ! i) \<le> md_bits_size d0 * PAGE_2M_SIZE"
    and len: "i < length (md_e820 d0)" using assms(3) i by auto
  note step = zones_upto_step [OF I len r top]
  obtain s' where s': "add_zone (md_e820 d0 ! i) s = Inr s'"
    using step(2) assms(2,4) i by force
  have "e820_at s i = Inr (md_e820 d0 ! i)" using I len by (simp add: e820_at_def zones_upto_def)
  with s' step(1) [OF s'] show "\<exists>s'. bind_res (e820_at s i) (\<lambda>e. add_zone e s) = Inr s'
      \<and> zones_upto d0 (Suc i) s'" by simp
qed (use assms in auto)

section \<open>The consistency check\<close>

lemma sum_upt_Suc: "a \<le> b \<Longrightarrow> sum_list (map f [a..<Suc b]) = sum_list (map f [a..<b]) + (f b :: nat)"
  by simp

lemma sum_upt_mono: "b \<le> c \<Longrightarrow> sum_list (map f [a..<b]) \<le> (sum_list (map f [a..<c]) :: nat)"
proof (cases "a \<le> b")
  case True
  assume "b \<le> c"
  then show ?thesis using True upt_add_eq_append [of a b "c - b"] by simp
qed simp

lemma check_zone_ok:
  assumes wf: "md_wf d" and z: "z < md_zones_size d"
  shows "check_zone d z = Inr (free_in d (md_zones d ! z))"
proof -
  let ?zn = "md_zones d ! z" and ?f = "zone_first (md_zones d ! z)" and ?l = "zone_last (md_zones d ! z)"
  have l: "layout_ok d" and c: "zone_counts d z" using wf z by (simp_all add: md_wf_def)
  then have s: "zone_shape d z" using z by (simp add: layout_ok_def)
  have fl: "?f \<le> ?l" "?l \<le> md_bits_size d" using s by (simp_all add: zone_shape_def Let_def)
  have size: "md_bits_size d < usize_range" using l by (rule bits_size_bound)
  let ?free = "\<lambda>k. sum_list (map (\<lambda>j. of_bool (\<not> page_used d j)) [?f..<k]) :: nat"
  let ?refs = "\<lambda>k. sum_list (map (\<lambda>j. pg_reference_count (md_pages d ! j)) [?f..<k])"
  have free_le: "?free k \<le> k - ?f" for k by (rule sum_upt_le) simp
  have refs_le: "?refs ?l \<le> ?l - ?f"
    using refs_eq_used [OF wf z] free_plus_used [of d ?zn] by (simp add: refs_in_def)
  let ?body = "\<lambda>j (free, references).
      let used = md_bits_map d ! (j div 64) AND push_bit (j mod 64) 1 \<noteq> 0; p = md_pages d ! j
      in bind_res (ensure (used = (pg_attribute p \<noteq> 0)) ''used == (page.attribute != 0)'')
           (\<lambda>_. Inr (if used then free else uadd free 1, uadd references (pg_reference_count p)))"
  have "\<exists>t. for_res [?f..<?l] ?body (0, 0) = Inr t \<and> t = (?free ?l, ?refs ?l)"
  proof (rule for_range_total [OF fl(1)])
    fix i t assume i: "?f \<le> i" "i < ?l" and t: "t = (?free i, ?refs i)"
    have zi: "in_zone d z i" using i z by (simp add: in_zone_def)
    have ib: "i < md_bits_size d" by (rule zone_pages_in_range [OF l zi])
    then have "pg_zone (md_pages d ! i) = Some z" using zone_of_page [OF l ib] zi by blast
    then have st: "page_used d i \<longleftrightarrow> pg_attribute (md_pages d ! i) \<noteq> 0"
      using wf ib by (simp add: md_wf_def page_state_def Let_def)
    have used: "(md_bits_map d ! (i div 64) AND push_bit (i mod 64) 1 \<noteq> 0) = page_used d i"
      by (simp add: get_bit_def mask_test_exp)
    have "uadd (?free i) 1 = ?free i + 1"
      using free_le [of i] ib size by (intro uadd_exact) linarith
    moreover have "?refs (Suc i) \<le> ?refs ?l" using i by (intro sum_upt_mono) simp
    then have "uadd (?refs i) (pg_reference_count (md_pages d ! i)) = ?refs (Suc i)"
      using refs_le fl size sum_upt_Suc [OF i(1)] by (simp add: uadd_exact)
    ultimately show "\<exists>t'. ?body i t = Inr t' \<and> t' = (?free (Suc i), ?refs (Suc i))"
      unfolding t prod.case Let_def used using st sum_upt_Suc [OF i(1)] by simp
  qed simp
  then have loop: "for_res [zn_start_address ?zn div PAGE_2M_SIZE..<zn_end_address ?zn div PAGE_2M_SIZE]
      ?body (0, 0) = Inr (free_in d ?zn, refs_in d ?zn)"
    by (simp add: zone_first_def zone_last_def free_in_def refs_in_def)
  have "uadd (zn_page_using_count ?zn) (free_in d ?zn) = zn_number_pages ?zn"
    using s c free_plus_used [of d ?zn] fl size
    by (simp add: zone_shape_def zone_counts_def Let_def uadd_exact)
  then show ?thesis
    using c unfolding check_zone_def Let_def [of ?zn] loop bind_res_simps prod.case
    by (simp add: zone_counts_def Let_def)
qed

lemma sum_upt_card: "sum_list (map (\<lambda>j. of_bool (P j)) [a..<b]) = card {j. a \<le> j \<and> j < b \<and> P j}"
proof (induction b)
  case (Suc b)
  have fin: "finite {j. a \<le> j \<and> j < b \<and> P j}" by (rule finite_subset [of _ "{..<b}"]) auto
  show ?case
  proof (cases "a \<le> b \<and> P b")
    case True
    then have "{j. a \<le> j \<and> j < Suc b \<and> P j} = insert b {j. a \<le> j \<and> j < b \<and> P j}"
      by (auto simp: less_Suc_eq)
    with True Suc fin show ?thesis by simp
  next
    case False
    then have "{j. a \<le> j \<and> j < Suc b \<and> P j} = {j. a \<le> j \<and> j < b \<and> P j}"
      by (auto simp: less_Suc_eq)
    with False Suc show ?thesis by (cases "a \<le> b") auto
  qed
qed simp

lemma free_in_card: "z < md_zones_size d \<Longrightarrow>
    free_in d (md_zones d ! z) = card {i. in_zone d z i \<and> \<not> page_used d i}"
  by (simp add: free_in_def sum_upt_card in_zone_def conj_assoc)

lemma check_zones_ok:
  assumes wf: "md_wf d"
  shows "check_zones d = Inr (card (free_pages d))"
proof -
  have l: "layout_ok d" using wf by (simp add: md_wf_def)
  have size: "md_bits_size d < usize_range" using l by (rule bits_size_bound)
  let ?S = "\<lambda>k. {i. \<not> page_used d i \<and> (\<exists>z < k. in_zone d z i)}"
  have sub: "?S k \<subseteq> {..<md_bits_size d}" for k
    using zone_pages_in_range [OF l] by blast
  have fin: "finite (?S k)" for k by (rule finite_subset [OF sub]) simp
  have card: "card (?S k) \<le> md_bits_size d" for k using card_mono [OF _ sub [of k]] by simp
  have "\<exists>t. check_zones d = Inr t \<and> t = card (?S (md_zones_size d))"
    unfolding check_zones_def
  proof (rule for_range_total)
    fix i t assume i: "i < md_zones_size d" and t: "t = card (?S i)"
    let ?Z = "{j. in_zone d i j \<and> \<not> page_used d j}"
    have S: "?S (Suc i) = ?S i \<union> ?Z" by (auto simp: less_Suc_eq)
    have "?S i \<inter> ?Z = {}" using in_zone_unique [OF l, of _ _ i] by fastforce
    moreover have "finite ?Z" by (rule finite_subset [OF _ fin [of "Suc i"]]) auto
    ultimately have c: "card (?S (Suc i)) = card (?S i) + card ?Z"
      unfolding S by (intro card_Un_disjoint fin)
    then have "uadd t (free_in d (md_zones d ! i)) = card (?S (Suc i))"
      using card [of "Suc i"] size t free_in_card [OF i] by (simp add: uadd_exact)
    then show "\<exists>s'. bind_res (check_zone d i) (\<lambda>free. Inr (uadd t free)) = Inr s'
        \<and> s' = card (?S (Suc i))"
      using check_zone_ok [OF wf i] by simp
  qed simp_all
  moreover have "?S (md_zones_size d) = free_pages d"
  proof -
    have "\<exists>z < md_zones_size d. in_zone d z i" if i: "i < md_bits_size d" "\<not> page_used d i" for i
    proof -
      have "page_state d i" using wf i(1) by (simp add: md_wf_def)
      then have "pg_zone (md_pages d ! i) \<noteq> None" using i(2) by (simp add: page_state_def Let_def)
      then obtain z where "pg_zone (md_pages d ! i) = Some z" by blast
      then have "in_zone d z i" using zone_of_page [OF l i(1)] by blast
      then show ?thesis unfolding in_zone_def by blast
    qed
    then show ?thesis using sub [of "md_zones_size d"] by (auto simp: free_pages_def)
  qed
  ultimately show ?thesis by simp
qed

section \<open>Reserving the start of memory\<close>

lemma reserved_attributes_nonzero [simp]: "reserved_attributes \<noteq> 0"
  by (simp add: reserved_attributes_def flag_defs)

lemma reserved_kernel_init [simp]: "reserved_attributes AND KERNEL_INIT \<noteq> 0"
  by (simp add: reserved_attributes_def flag_defs)

lemma reserve_loop_sound:
  assumes "for_res [0..<n] (\<lambda>i d. init_page d i reserved_attributes) d = Inr d'" "md_wf d" "fresh d"
  shows "n \<le> md_bits_size d \<and> claimed_upto (\<lambda>_. reserved_attributes) d 0 n d'"
proof -
  let ?I = "\<lambda>k d'. k \<le> md_bits_size d \<and> claimed_upto (\<lambda>_. reserved_attributes) d 0 k d'"
  show ?thesis
  proof (rule for_range_partial [where I = ?I, OF assms(1)])
    fix i s s' assume I: "?I i s" and b: "init_page s i reserved_attributes = Inr s'"
    have sz: "md_bits_size s = md_bits_size d"
      using I same_layout_sizes(1) by (auto simp: claimed_upto_def)
    have i: "i < md_bits_size d" using b sz by (auto simp: init_page_def res_Inr)
    then have "pg_attribute (md_pages d ! i) = 0" using assms(3) by (simp add: fresh_def)
    with I i b show "?I (Suc i) s'"
      using claimed_upto_step [of "\<lambda>_. reserved_attributes" d 0 i s] by auto
  qed (use assms(2) in auto)
qed

lemma zones_reserved:
  assumes z: "zones_upto d0 n d" and c: "claimed_upto (\<lambda>_. reserved_attributes) d 0 k d'"
    and "k \<le> md_bits_size d"
  shows "md_wf d'" "free_pages d' = (\<Union>i<n. usable_pages (md_e820 d0 ! i)) - {..<k}"
    "\<And>i. i < k \<Longrightarrow> page_used d' i \<and> pg_attribute (md_pages d' ! i) = reserved_attributes"
proof -
  have wf: "md_wf d" and fr: "fresh d" and zd: "zoned d = (\<Union>i<n. usable_pages (md_e820 d0 ! i))"
    using z by (simp_all add: zones_upto_def)
  have sz: "md_bits_size d' = md_bits_size d"
    using c same_layout_sizes(1) by (auto simp: claimed_upto_def)
  have "page_used d i \<longleftrightarrow> i \<notin> zoned d" if "i < md_bits_size d" for i
    using wf fr that by (auto simp: md_wf_def page_state_def fresh_def zoned_def Let_def)
  then have "free_pages d' = zoned d - {..<k}"
    using c sz by (auto simp: free_pages_def claimed_upto_def zoned_def)
  with zd show "free_pages d' = (\<Union>i<n. usable_pages (md_e820 d0 ! i)) - {..<k}" by simp
  show "md_wf d'" using c by (simp add: claimed_upto_def)
  show "page_used d' i \<and> pg_attribute (md_pages d' ! i) = reserved_attributes" if "i < k" for i
    using c that assms(3) by (simp add: claimed_upto_def claimed_page_def)
qed

section \<open>What initialisation establishes\<close>

lemma md_wf_cr3 [simp]: "md_wf (d\<lparr>md_global_cr3 := x\<rparr>) = md_wf d"
  by (simp add: md_wf_def layout_ok_def page_shape_def in_zone_def zone_shape_def page_state_def
      zone_counts_def free_in_def used_in_def refs_in_def)

lemma free_pages_cr3 [simp]: "free_pages (d\<lparr>md_global_cr3 := x\<rparr>) = free_pages d"
  by (simp add: free_pages_def)

definition entries :: "memory_map \<Rightarrow> e820_entry list" where
  "entries m = take (map_count m) (map_entries m)"

lemma stats_loop_e820:
  "for_res [0..<n] (\<lambda>i st. bind_res (e820_at (MEMORY_INITIAL\<lparr>md_e820 := es, md_number_entries := c\<rparr>) i)
     (\<lambda>e. account_entry e st)) \<lparr>physical_end = 0, total_ram = 0, total_pages = 0\<rparr> = stats_loop es n"
  by (simp add: stats_loop_def e820_at_def cong: if_cong)

text \<open>The reserved stretch ends at or behind the metadata, and nothing wraps.\<close>

lemma reserved_covers:
  assumes "usub e PAGE_OFFSET \<le> DIRECT_RAM_END" "e < usize_range"
  shows "PAGE_OFFSET \<le> e" "e - PAGE_OFFSET \<le> div_ceil (usub e PAGE_OFFSET) PAGE_2M_SIZE * PAGE_2M_SIZE"
    "usub e PAGE_OFFSET = e - PAGE_OFFSET"
proof -
  show le: "PAGE_OFFSET \<le> e"
    using assms by (simp add: usub_def PAGE_OFFSET_def DIRECT_RAM_END_def split: if_splits)
  then show eq: "usub e PAGE_OFFSET = e - PAGE_OFFSET" by (rule usub_exact)
  show "e - PAGE_OFFSET \<le> div_ceil (usub e PAGE_OFFSET) PAGE_2M_SIZE * PAGE_2M_SIZE"
    unfolding eq
    using div_ceil_le_iff [of PAGE_2M_SIZE "e - PAGE_OFFSET" "div_ceil (e - PAGE_OFFSET) PAGE_2M_SIZE"]
    by simp
qed

lemma build_metadata_sound:
  assumes "build_metadata text kernel_end m = Inr (d, reserved)" "map_count m \<le> length (map_entries m)"
  shows "md_wf d \<and> free_pages d = (\<Union>e \<in> set (entries m). usable_pages e) - {..<reserved}
    \<and> (\<forall>i < reserved. page_used d i \<and> pg_attribute (md_pages d ! i) = reserved_attributes)
    \<and> kernel_end \<le> md_end_of_struct d \<and> PAGE_OFFSET \<le> md_end_of_struct d
    \<and> md_end_of_struct d - PAGE_OFFSET \<le> reserved * PAGE_2M_SIZE
    \<and> md_end_of_struct d - PAGE_OFFSET \<le> DIRECT_RAM_END"
proof -
  let ?n = "map_count m" and ?es = "map_entries m"
  let ?d0 = "MEMORY_INITIAL\<lparr>md_e820 := ?es, md_number_entries := ?n\<rparr>"
  obtain st lo d1 where st: "stats_loop ?es ?n = Inr st"
    and lo: "layout_metadata (physical_end st) kernel_end = Inr lo"
    and small: "usub (lo_end lo) PAGE_OFFSET \<le> DIRECT_RAM_END"
    and zones: "zone_loop ?n (place_metadata lo ?d0) = Inr d1"
    and res: "for_res [0..<reserved] (\<lambda>i d. init_page d i reserved_attributes) d1 = Inr d"
    and reserved: "reserved = div_ceil (usub (lo_end lo) PAGE_OFFSET) PAGE_2M_SIZE"
    using assms(1)
    unfolding build_metadata_def Let_def stats_loop_e820 zone_loop_def [symmetric]
    by (auto simp only: bind_res_Inr ensure_simps sum.inject prod.inject)
  let ?p = "place_metadata lo ?d0"
  note lay = layout_metadata_Inr [OF lo]
  have p: "md_e820 ?p = ?es" "md_bits_size ?p = lo_bits_size lo" "md_zones_size ?p = 0"
      "md_end_of_struct ?p = lo_end lo"
    by (simp_all add: place_metadata_def MEMORY_INITIAL_def)
  have start: "zones_upto ?p 0 ?p"
    using place_metadata_wf [OF lo, of ?d0] p by (simp add: zones_upto_def MEMORY_INITIAL_def)
  have "\<forall>i < ?n. i < length ?es \<and> entry_top (?es ! i) \<le> lo_bits_size lo * PAGE_2M_SIZE
      \<and> (\<exists>r. usable_range (?es ! i) = Inr r)"
    using stats_loop_sound [OF st] lay by (meson le_trans)
  then have z: "zones_upto ?p ?n d1" using zone_loop_sound [OF zones start] p by simp
  then have wf: "md_wf d1" "fresh d1" by (simp_all add: zones_upto_def)
  note rs = reserve_loop_sound [OF res wf]
  note zr = zones_reserved [OF z conjunct2 [OF rs] conjunct1 [OF rs]]
  have "md_end_of_struct d = md_end_of_struct d1"
    using rs unfolding claimed_upto_def same_layout_def
    by (metis (no_types, lifting) memory_descriptor.select_convs(13) memory_descriptor.surjective
        memory_descriptor.update_convs(3,7,10))
  then have end_eq: "md_end_of_struct d = lo_end lo" using z p by (simp add: zones_upto_def)
  have "(\<Union>i<?n. usable_pages (?es ! i)) = (\<Union>e \<in> set (entries m). usable_pages e)"
    using assms(2) by (force simp: entries_def in_set_conv_nth)
  then show ?thesis
    using zr p end_eq lay reserved_covers [OF small] small reserved by simp
qed

lemma uadd_shift: "p < usize_range \<Longrightarrow> uadd p 2048 \<noteq> p"
  by (cases "p + 2048 < usize_range") (simp_all add: uadd_def le_mod_geq)

lemma remove_identity_Inr:
  "remove_identity cr3 tables = Inr tables' \<longleftrightarrow>
     tables' = tables(uadd PAGE_OFFSET (unat cr3) := 0)
     \<and> tables (uadd (uadd PAGE_OFFSET (unat cr3)) 2048) \<noteq> 0"
proof -
  let ?p = "uadd PAGE_OFFSET (unat cr3)"
  have "uadd ?p 2048 \<noteq> ?p" by (rule uadd_shift) (simp add: uadd_def)
  then show ?thesis by (auto simp: remove_identity_def Let_def res_Inr)
qed

lemma memory_init_Inr:
  "memory_init text kernel_end handoff cr3 tables = Inr (d, tables', free, reserved) \<longleftrightarrow>
     (\<exists>m d1. read_memory_map handoff = Inr m \<and> build_metadata text kernel_end m = Inr (d1, reserved)
       \<and> check_zones d1 = Inr free \<and> d = d1\<lparr>md_global_cr3 := cr3\<rparr>
       \<and> remove_identity cr3 tables = Inr tables')"
  by (auto simp: memory_init_def bind_res_Inr Let_def)

lemma map_valid_count: "map_valid m \<Longrightarrow> map_count m \<le> length (map_entries m)"
  by (simp add: map_valid_def)

lemma memory_init_facts:
  assumes "memory_init text kernel_end handoff cr3 tables = Inr (d, tables', free, reserved)"
  shows "\<exists>m. read_memory_map handoff = Inr m \<and> map_valid m \<and> md_wf d
    \<and> free_pages d = (\<Union>e \<in> set (entries m). usable_pages e) - {..<reserved}
    \<and> free = card (free_pages d)
    \<and> (\<forall>i < reserved. page_used d i \<and> pg_attribute (md_pages d ! i) = reserved_attributes)
    \<and> kernel_end \<le> md_end_of_struct d \<and> PAGE_OFFSET \<le> md_end_of_struct d
    \<and> md_end_of_struct d - PAGE_OFFSET \<le> reserved * PAGE_2M_SIZE
    \<and> md_end_of_struct d - PAGE_OFFSET \<le> DIRECT_RAM_END"
proof -
  obtain m d1 where m: "read_memory_map handoff = Inr m" and d: "d = d1\<lparr>md_global_cr3 := cr3\<rparr>"
    and b: "build_metadata text kernel_end m = Inr (d1, reserved)" and c: "check_zones d1 = Inr free"
    using assms by (auto simp: memory_init_Inr)
  have v: "map_valid m" by (rule read_memory_map_valid [OF m])
  note bs = build_metadata_sound [OF b map_valid_count [OF v]]
  have "free = card (free_pages d1)" using c check_zones_ok bs by simp
  then show ?thesis using m v bs d by simp
qed

text \<open>
  C7. When initialisation returns, the descriptor is consistent and the pages it offers are
  exactly the 2 MiB pages that lie completely inside a RAM entry of the firmware map and not in
  the reserved stretch; the free count it reports is their number.
\<close>

theorem memory_init_free_pages:
  assumes "memory_init text kernel_end handoff cr3 tables = Inr (d, tables', free, reserved)"
  shows "\<exists>m. read_memory_map handoff = Inr m \<and> md_wf d \<and> free = card (free_pages d)
    \<and> free_pages d = {i. reserved \<le> i \<and> (\<exists>e. e \<in> set (take (map_count m) (map_entries m))
        \<and> e820_kind e = 1 \<and> page_bytes i \<subseteq> entry_span e)}"
proof -
  obtain m where m: "read_memory_map handoff = Inr m" "md_wf d" "free = card (free_pages d)"
    and f: "free_pages d = (\<Union>e \<in> set (entries m). usable_pages e) - {..<reserved}"
    using memory_init_facts [OF assms] by blast
  have "free_pages d = {i. reserved \<le> i \<and> (\<exists>e. e \<in> set (take (map_count m) (map_entries m))
        \<and> e820_kind e = 1 \<and> page_bytes i \<subseteq> entry_span e)}"
    unfolding f by (auto simp: entries_def usable_pages_def)
  with m show ?thesis by blast
qed

text \<open>
  C8. Initialisation protects everything that is already in use: each page that shares a byte
  with the memory below the end of the metadata (BIOS area, loader, kernel image, stack and the
  allocator's own records) is marked used and carries the kernel flag that release refuses, the
  metadata lies behind the kernel image and below the end of the initial mapping.
\<close>

theorem memory_init_protects:
  assumes "memory_init text kernel_end handoff cr3 tables = Inr (d, tables', free, reserved)"
    and "a \<in> page_bytes i" "a < md_end_of_struct d - PAGE_OFFSET"
  shows "i \<notin> free_pages d \<and> page_used d i \<and> pg_attribute (md_pages d ! i) AND KERNEL_INIT \<noteq> 0
    \<and> kernel_end \<le> md_end_of_struct d
    \<and> PAGE_OFFSET \<le> md_end_of_struct d \<and> md_end_of_struct d \<le> PAGE_OFFSET + DIRECT_RAM_END"
proof -
  obtain m where f: "\<forall>i < reserved. page_used d i \<and> pg_attribute (md_pages d ! i) = reserved_attributes"
    and e: "kernel_end \<le> md_end_of_struct d" "PAGE_OFFSET \<le> md_end_of_struct d"
      "md_end_of_struct d - PAGE_OFFSET \<le> reserved * PAGE_2M_SIZE"
      "md_end_of_struct d - PAGE_OFFSET \<le> DIRECT_RAM_END"
    using memory_init_facts [OF assms(1)] by blast
  have "i * PAGE_2M_SIZE \<le> a" using assms(2) by (simp add: page_bytes_def)
  also have "a < reserved * PAGE_2M_SIZE" using assms(3) e(3) by linarith
  finally have "i < reserved" by simp
  then show ?thesis using f e by (simp add: free_pages_def)
qed

section \<open>Initialisation succeeds\<close>

definition map_top :: "e820_entry list \<Rightarrow> nat" where
  "map_top es = fold max (map entry_top es) 0"

lemma map_top_snoc: "map_top (es @ [e]) = max (entry_top e) (map_top es)"
  by (simp add: map_top_def)

lemma entry_top_le: "e \<in> set es \<Longrightarrow> entry_top e \<le> map_top es"
  by (induction es rule: rev_induct) (auto simp: map_top_snoc)

definition ram_bytes :: "e820_entry list \<Rightarrow> nat set" where
  "ram_bytes es = (\<Union>e \<in> {e \<in> set es. e820_kind e = 1}. entry_span e)"

definition stats_ok :: "e820_entry list \<Rightarrow> ram_stats \<Rightarrow> bool" where
  "stats_ok es st \<longleftrightarrow> physical_end st = map_top es \<and> unat (total_ram st) = card (ram_bytes es)
     \<and> total_pages st \<le> length es * 2 ^ 43
     \<and> (total_pages st = 0 \<longrightarrow> (\<forall>e \<in> set es. usable_pages e = {}))"

lemma ram_bytes_bound: "\<forall>e \<in> set es. entry_fits e \<Longrightarrow> finite (ram_bytes es) \<and> card (ram_bytes es) < 2 ^ 64"
proof -
  assume "\<forall>e \<in> set es. entry_fits e"
  then have "ram_bytes es \<subseteq> {..<2 ^ 64 - 1}"
    by (auto simp: ram_bytes_def entry_span_def entry_fits_def)
  then show ?thesis
    using finite_subset [of "ram_bytes es" "{..<2 ^ 64 - 1}"] card_mono [of "{..<2 ^ 64 - 1}" "ram_bytes es"]
    by simp
qed

lemma usable_range_total:
  assumes "entry_fits e" "entry_top e + PAGE_2M_SIZE \<le> usize_range"
  shows "\<exists>r. usable_range e = Inr r"
proof -
  have "unat (e820_address e) + (PAGE_2M_SIZE - 1) < usize_range" if "e820_length e \<noteq> 0"
    using assms(2) that unat_gt_0 [of "e820_length e"] page_2M_pos
    by (simp add: entry_top_def del: page_2M_pos)
  then show ?thesis using assms(1) by (cases "e820_length e = 0") (auto simp: usable_range_Inr)
qed

lemma usable_range_size:
  assumes "usable_range e = Inr (Some (s, t))"
  shows "0 < usub t s div PAGE_2M_SIZE" "usub t s div PAGE_2M_SIZE < 2 ^ 43"
    "s div PAGE_2M_SIZE < t div PAGE_2M_SIZE"
proof -
  note r = usable_range_Some [OF assms]
  have t: "t < usize_range"
  proof -
    have "t div PAGE_2M_SIZE * PAGE_2M_SIZE \<le> unat (e820_address e) + unat (e820_length e)"
      using r by (metis div_times_less_eq_dividend)
    with r show ?thesis unfolding entry_fits_def by linarith
  qed
  have "usub t s = (t div PAGE_2M_SIZE - s div PAGE_2M_SIZE) * PAGE_2M_SIZE"
    using r by (metis diff_mult_distrib less_imp_le usub_exact)
  moreover show lt: "s div PAGE_2M_SIZE < t div PAGE_2M_SIZE" using r by (metis mult_less_cancel2)
  ultimately show "0 < usub t s div PAGE_2M_SIZE" by simp
  have "usub t s \<le> t" using r by (simp add: usub_exact)
  then have "usub t s < 2 ^ 43 * PAGE_2M_SIZE" using t by (simp add: PAGE_2M_SIZE_def)
  then show "usub t s div PAGE_2M_SIZE < 2 ^ 43" by (simp add: div_less_iff_less_mult)
qed

lemma account_entry_total:
  assumes ok: "stats_ok es st" and fits: "\<forall>x \<in> set (es @ [e]). entry_fits x"
    and dis: "\<forall>x \<in> set es. span_disjoint x e" and len: "length es < 32"
    and top: "entry_top e + PAGE_2M_SIZE \<le> usize_range"
  shows "\<exists>st'. account_entry e st = Inr st' \<and> stats_ok (es @ [e]) st'"
proof (cases "e820_length e = 0")
  case True
  then have "entry_span e = {}" by (simp add: entry_span_empty_iff)
  then have "ram_bytes (es @ [e]) = ram_bytes es" "usable_pages e = {}"
    by (auto simp: ram_bytes_def usable_pages_def page_bytes_def)
  then have "stats_ok (es @ [e]) st"
    using ok True by (auto simp: stats_ok_def map_top_snoc entry_top_def)
  then show ?thesis using True by (simp add: account_entry_def)
next
  case False
  obtain r where r: "usable_range e = Inr r" using usable_range_total [of e] fits top by auto
  have fin: "finite (ram_bytes es)" and small: "card (ram_bytes (es @ [e])) < 2 ^ 64"
    using ram_bytes_bound [of es] ram_bytes_bound [of "es @ [e]"] fits by auto
  have ram: "ram_bytes (es @ [e]) = (if e820_kind e = 1 then ram_bytes es \<union> entry_span e else ram_bytes es)"
    by (auto simp: ram_bytes_def)
  have "ram_bytes es \<inter> entry_span e = {}" using dis by (auto simp: ram_bytes_def)
  then have card: "card (ram_bytes (es @ [e])) = card (ram_bytes es)
      + (if e820_kind e = 1 then unat (e820_length e) else 0)"
    using fin ram card_Un_disjoint [of "ram_bytes es" "entry_span e"]
    by (simp add: entry_span_def)
  have sum: "unat (total_ram st + e820_length e) = unat (total_ram st) + unat (e820_length e)
      \<and> checked_add_u64 (total_ram st) (e820_length e) = Some (total_ram st + e820_length e)"
    if "e820_kind e = 1"
    using card that small ok by (simp add: stats_ok_def unat_add_u64 checked_add_u64_def)
  define ram' where "ram' = (if e820_kind e = 1 then total_ram st + e820_length e else total_ram st)"
  define n where "n = (case r of None \<Rightarrow> 0 | Some (s, t) \<Rightarrow> usub t s div PAGE_2M_SIZE)"
  have n: "n < 2 ^ 43" "n = 0 \<longleftrightarrow> usable_pages e = {}"
    using usable_range_size [of e] r usable_range_pages [OF r]
    by (auto simp: n_def range_pages_def split: option.splits)
  have "total_pages st + n < usize_range"
  proof -
    have "total_pages st \<le> 32 * 2 ^ 43" using ok len by (auto simp: stats_ok_def)
    with n(1) show ?thesis by simp
  qed
  then have add: "uadd (total_pages st) n = total_pages st + n" by (rule uadd_exact)
  let ?st = "st\<lparr>physical_end := max (physical_end st) (entry_top e), total_ram := ram',
    total_pages := total_pages st + n\<rparr>"
  have "entry_end e = Inr (entry_top e)"
    using fits False by (simp add: entry_end_Inr entry_top_def)
  then have "account_entry e st = Inr ?st"
    using False sum r add
    by (cases r; cases st) (auto simp: account_entry_def ram'_def n_def Let_def)
  moreover have "stats_ok (es @ [e]) ?st"
    using ok card sum n by (auto simp: stats_ok_def map_top_snoc ram'_def)
  ultimately show ?thesis by blast
qed

lemma stats_loop_total:
  assumes "n \<le> length es" "n \<le> 32" "validate_entries (take n es) = Inr ()"
    and "list_all (\<lambda>e. entry_top e + PAGE_2M_SIZE \<le> usize_range) (take n es)"
  shows "\<exists>st. stats_loop es n = Inr st \<and> stats_ok (take n es) st"
  unfolding stats_loop_def
proof (rule for_range_total [where I = "\<lambda>k. stats_ok (take k es)"])
  show "stats_ok (take 0 es) \<lparr>physical_end = 0, total_ram = 0, total_pages = 0\<rparr>"
    by (simp add: stats_ok_def map_top_def ram_bytes_def)
next
  fix i st assume i: "i < n" and ok: "stats_ok (take i es) st"
  have v: "sorted_wrt span_disjoint (take n es)" "\<forall>e \<in> set (take n es). entry_fits e"
    using assms(3) by (simp_all add: validate_entries_iff)
  have snoc: "take (Suc i) es = take i es @ [es ! i]" using i assms(1) by (simp add: take_Suc_conv_app_nth)
  have sub: "set (take (Suc i) es) \<subseteq> set (take n es)" by (rule set_take_subset_set_take) (use i in simp)
  have "take n es ! j = es ! j" if "j \<le> i" for j using that i by simp
  then have dis: "\<forall>x \<in> set (take i es). span_disjoint x (es ! i)"
    using v(1) i assms(1) by (fastforce simp: sorted_wrt_iff_nth_less in_set_conv_nth)
  have "\<exists>st'. account_entry (es ! i) st = Inr st' \<and> stats_ok (take i es @ [es ! i]) st'"
  proof (rule account_entry_total [OF ok _ dis])
    show "\<forall>x \<in> set (take i es @ [es ! i]). entry_fits x" using v(2) sub snoc by auto
    show "length (take i es) < 32" using i assms(2) by simp
    show "entry_top (es ! i) + PAGE_2M_SIZE \<le> usize_range"
      using assms(4) sub snoc by (auto simp: list_all_iff)
  qed
  then show "\<exists>s'. bind_res (if i < length es then Inr (es ! i) else Inl (Panic ''index out of bounds''))
      (\<lambda>e. account_entry e st) = Inr s' \<and> stats_ok (take (Suc i) es) s'"
    using i assms(1) snoc by simp
qed (use assms in simp)

lemma build_metadata_total:
  assumes v: "map_valid m" and top: "list_all (\<lambda>e. entry_top e + PAGE_2M_SIZE \<le> usize_range) (entries m)"
    and some: "i \<in> usable_pages e" "e \<in> set (entries m)"
    and lo: "layout_metadata (map_top (entries m)) kernel_end = Inr lo"
    and small: "lo_end lo \<le> PAGE_OFFSET + DIRECT_RAM_END" "PAGE_OFFSET \<le> lo_end lo"
    and cont: "contains_usable m (usub text PAGE_OFFSET) (usub (lo_end lo) PAGE_OFFSET) = Inr True"
  shows "\<exists>d. build_metadata text kernel_end m =
    Inr (d, div_ceil (lo_end lo - PAGE_OFFSET) PAGE_2M_SIZE)"
proof -
  let ?n = "map_count m" and ?es = "map_entries m"
  let ?d0 = "MEMORY_INITIAL\<lparr>md_e820 := ?es, md_number_entries := ?n\<rparr>"
  let ?p = "place_metadata lo ?d0" and ?k = "div_ceil (lo_end lo - PAGE_OFFSET) PAGE_2M_SIZE"
  have n: "?n \<le> length ?es" "?n \<le> 32" using v by (simp_all add: map_valid_def MAX_ENTRIES_def)
  have val: "validate_entries (take ?n ?es) = Inr ()" using v by (simp add: map_valid_def)
  obtain st where st: "stats_loop ?es ?n = Inr st" and ok: "stats_ok (entries m) st"
    using stats_loop_total [OF n val] top by (auto simp: entries_def)
  have pos: "0 < total_pages st" using ok some by (auto simp: stats_ok_def)
  have lo': "layout_metadata (physical_end st) kernel_end = Inr lo" using lo ok by (simp add: stats_ok_def)
  note lay = layout_metadata_Inr [OF lo']
  have eo: "usub (lo_end lo) PAGE_OFFSET = lo_end lo - PAGE_OFFSET" using small(2) by (rule usub_exact)
  have p: "md_e820 ?p = ?es" "md_bits_size ?p = lo_bits_size lo" "md_zones_size ?p = 0"
    by (simp_all add: place_metadata_def MEMORY_INITIAL_def)
  have start: "zones_upto ?p 0 ?p"
    using place_metadata_wf [OF lo', of ?d0] p by (simp add: zones_upto_def MEMORY_INITIAL_def)
  have sound: "\<forall>i < ?n. i < length ?es \<and> entry_top (?es ! i) \<le> lo_bits_size lo * PAGE_2M_SIZE
      \<and> (\<exists>r. usable_range (?es ! i) = Inr r)"
    using stats_loop_sound [OF st] lay by (meson le_trans)
  have dis: "\<forall>i < ?n. \<forall>j < i. span_disjoint (?es ! j) (?es ! i)"
    using val n(1) by (simp add: validate_entries_iff sorted_wrt_iff_nth_less)
  obtain d1 where z: "zone_loop ?n ?p = Inr d1" and zu: "zones_upto ?p ?n d1"
    using zone_loop_total [OF start _ _ _, of ?n] sound dis n p
    by (auto simp: MAX_ZONES_def MAX_ENTRIES_def)
  have wf: "md_wf d1" "fresh d1" "md_bits_size d1 = lo_bits_size lo"
    using zu p by (simp_all add: zones_upto_def)
  have "lo_end lo - PAGE_OFFSET \<le> lo_bits_size lo * PAGE_2M_SIZE"
  proof -
    have "lo_end lo - PAGE_OFFSET < 2 ^ 64" using lay by linarith
    then obtain f where f: "f \<in> set (entries m)" "usub text PAGE_OFFSET < lo_end lo - PAGE_OFFSET"
        "{usub text PAGE_OFFSET..<lo_end lo - PAGE_OFFSET} \<subseteq> entry_span f"
      using contains_usable_spec [OF v, of "lo_end lo - PAGE_OFFSET" "usub text PAGE_OFFSET"] cont eo
      by (auto simp: entries_def)
    then have "lo_end lo - PAGE_OFFSET \<le> entry_top f"
      by (auto simp: entry_span_def entry_top_def atLeastLessThan_subset_iff)
    also have "\<dots> \<le> map_top (entries m)" using f(1) by (rule entry_top_le)
    also have "\<dots> \<le> lo_bits_size lo * PAGE_2M_SIZE" using lay ok by (simp add: stats_ok_def)
    finally show ?thesis .
  qed
  then have k: "?k \<le> md_bits_size d1" using wf(3) by (simp add: div_ceil_le_iff)
  obtain d where d: "for_res [0..<?k] (\<lambda>i d. init_page d i reserved_attributes) d1 = Inr d"
    using claim_range_total [OF wf(1) _ k, of 0 "\<lambda>_. reserved_attributes"] wf(2) k
    by (auto simp: fresh_def)
  have "build_metadata text kernel_end m = Inr (d, ?k)"
    using st pos lo' cont small eo z d
    unfolding build_metadata_def Let_def stats_loop_e820 zone_loop_def [symmetric]
    by simp
  then show ?thesis by blast
qed

lemma memory_init_total:
  assumes "read_memory_map handoff = Inr m"
    and "list_all (\<lambda>e. entry_top e + PAGE_2M_SIZE \<le> usize_range) (entries m)"
    and "i \<in> usable_pages e" "e \<in> set (entries m)"
    and "layout_metadata (map_top (entries m)) kernel_end = Inr lo"
    and "PAGE_OFFSET \<le> lo_end lo" "lo_end lo \<le> PAGE_OFFSET + DIRECT_RAM_END"
    and "contains_usable m (usub text PAGE_OFFSET) (usub (lo_end lo) PAGE_OFFSET) = Inr True"
    and "tables (uadd (uadd PAGE_OFFSET (unat cr3)) (256 * 8)) \<noteq> 0"
  shows "\<exists>d free. memory_init text kernel_end handoff cr3 tables =
      Inr (d, tables(uadd PAGE_OFFSET (unat cr3) := 0), free,
        div_ceil (lo_end lo - PAGE_OFFSET) PAGE_2M_SIZE)"
proof -
  have v: "map_valid m" by (rule read_memory_map_valid [OF assms(1)])
  let ?k = "div_ceil (lo_end lo - PAGE_OFFSET) PAGE_2M_SIZE"
  obtain d where d: "build_metadata text kernel_end m = Inr (d, ?k)"
    using build_metadata_total [OF v assms(2-5,7,6,8)] by blast
  have "check_zones d = Inr (card (free_pages d))"
    using build_metadata_sound [OF d map_valid_count [OF v]] check_zones_ok by blast
  moreover have "remove_identity cr3 tables = Inr (tables(uadd PAGE_OFFSET (unat cr3) := 0))"
    using assms(9) by (simp add: remove_identity_Inr)
  ultimately show ?thesis unfolding memory_init_Inr using assms(1) d by blast
qed


section \<open>The example machine\<close>

text \<open>A kernel image from 1 MiB to 1.5 MiB on the machine with 16 MiB of RAM.\<close>

definition example_text :: usize where "example_text = 0xffff800000100000"
definition example_end :: usize where "example_end = 0xffff800000180000"

definition example_tables :: "usize \<Rightarrow> u64" where
  "example_tables a = (if a = 0xffff800000001000 \<or> a = 0xffff800000001800 then 0x2007 else 0)"

definition example_layout :: metadata_layout where
  "example_layout = \<lparr>lo_bits_size = 8, lo_bits_length = 8, lo_pages_length = 320,
     lo_bitmap = 0xffff800000180000, lo_pages = 0xffff800000181000,
     lo_zones = 0xffff800000182000, lo_end = 0xffff800000182a00\<rparr>"

lemma example_entries_of: "entries example_handoff = example_entries"
  by (simp add: entries_def example_handoff_entries)

lemma example_layout_metadata:
  "layout_metadata (map_top (entries example_handoff)) example_end = Inr example_layout"
proof -
  have t: "map_top (entries example_handoff) = 0x1000000"
    by (simp add: example_entries_of example_entries_def map_top_def entry_top_def)
  have a: "align_up 0x1000000 PAGE_2M_SIZE = Inr 0x1000000"
    unfolding align_up_2M by (simp add: PAGE_2M_SIZE_def div_ceil_def)
  have b: "align_up 0xffff800000180000 PAGE_4K_SIZE = Inr 0xffff800000180000"
    "align_up 0xffff800000180008 PAGE_4K_SIZE = Inr 0xffff800000181000"
    "align_up 0xffff800000181140 PAGE_4K_SIZE = Inr 0xffff800000182000"
    unfolding align_up_4K by (simp_all add: PAGE_4K_SIZE_def div_ceil_def)
  have c: "align_up 0xffff800000182a00 256 = Inr 0xffff800000182a00"
    by (simp add: align_up_256 div_ceil_def)
  show ?thesis
    unfolding layout_metadata_def t a example_end_def bind_res_simps
    by (simp add: PAGE_2M_SIZE_def div_ceil_def checked_mul_def checked_add_def SIZEOF_PAGE_def
        SIZEOF_ZONE_def MAX_ZONES_def MAX_ENTRIES_def umul_def b c example_layout_def)
qed

lemma example_contains:
  "contains_usable example_handoff (usub example_text PAGE_OFFSET)
     (usub (lo_end example_layout) PAGE_OFFSET) = Inr True"
  by (simp add: example_text_def example_layout_def PAGE_OFFSET_def usub_def contains_usable_def
      example_handoff_def example_entries_def)

lemma example_usable: "1 \<in> usable_pages \<lparr>e820_address = 0x100000, e820_length = 0xf00000, e820_kind = 1\<rparr>"
  by (auto simp: usable_pages_def page_bytes_def entry_span_def PAGE_2M_SIZE_def)


lemma example_init:
  "\<exists>d t free reserved. memory_init example_text example_end example_memory 0x1000 example_tables =
     Inr (d, t, free, reserved) \<and> 0 < md_end_of_struct d - PAGE_OFFSET"
proof -
  have top: "list_all (\<lambda>e. entry_top e + PAGE_2M_SIZE \<le> usize_range) (entries example_handoff)"
    and e: "\<lparr>e820_address = 0x100000, e820_length = 0xf00000, e820_kind = 1\<rparr> \<in> set (entries example_handoff)"
    and lo: "PAGE_OFFSET \<le> lo_end example_layout" "lo_end example_layout \<le> PAGE_OFFSET + DIRECT_RAM_END"
    by (simp_all add: example_entries_of example_entries_def entry_top_def PAGE_2M_SIZE_def
        PAGE_OFFSET_def example_layout_def DIRECT_RAM_END_def)
  obtain d r where d: "build_metadata example_text example_end example_handoff = Inr (d, r)"
    using build_metadata_total [OF example_handoff_valid top example_usable e example_layout_metadata
        lo(2,1) example_contains] by blast
  note bs = build_metadata_sound [OF d map_valid_count [OF example_handoff_valid]]
  have "remove_identity 0x1000 example_tables = Inr (example_tables(0xffff800000001000 := 0))"
    by (simp add: remove_identity_Inr PAGE_OFFSET_def uadd_def example_tables_def)
  moreover have "check_zones d = Inr (card (free_pages d))" using bs check_zones_ok by blast
  ultimately have "memory_init example_text example_end example_memory 0x1000 example_tables =
      Inr (d\<lparr>md_global_cr3 := 0x1000\<rparr>, example_tables(0xffff800000001000 := 0), card (free_pages d), r)"
    using example_read d unfolding memory_init_Inr by blast
  moreover have "0 < md_end_of_struct (d\<lparr>md_global_cr3 := 0x1000\<rparr>) - PAGE_OFFSET"
    using bs by (simp add: example_end_def PAGE_OFFSET_def)
  ultimately show ?thesis by blast
qed

theorem memory_init_free_pages_witness:
  "\<exists>d t free reserved m. memory_init example_text example_end example_memory 0x1000 example_tables =
     Inr (d, t, free, reserved) \<and> read_memory_map example_memory = Inr m \<and> md_wf d
     \<and> free = card (free_pages d)"
proof -
  obtain d t free reserved where "memory_init example_text example_end example_memory 0x1000
      example_tables = Inr (d, t, free, reserved)" using example_init by blast
  then show ?thesis using memory_init_free_pages [of example_text example_end example_memory] by blast
qed

theorem memory_init_protects_witness:
  "\<exists>d t free reserved. memory_init example_text example_end example_memory 0x1000 example_tables =
     Inr (d, t, free, reserved) \<and> 0 \<notin> free_pages d"
proof -
  obtain d t free reserved where i: "memory_init example_text example_end example_memory 0x1000
      example_tables = Inr (d, t, free, reserved)" and e: "0 < md_end_of_struct d - PAGE_OFFSET"
    using example_init by blast
  have "(0 :: nat) \<in> page_bytes 0" by (simp add: page_bytes_def)
  then show ?thesis using i memory_init_protects [OF i _ e] by blast
qed

end
