(* ===== verification/Page_Interface.thy ===== *)
theory Page_Interface
  imports Kernel_Prelude
begin

text \<open>
  The contract between the page allocator and the code that owns page runs (the start-up
  demonstration of \<^verbatim>\<open>main.rs\<close>, the task stacks, the user program), and what every such client
  gets from it: its live runs stay pairwise disjoint and owned, no page is lost, and no
  sequence of requests panics.
\<close>

section \<open>Clients\<close>

text \<open>
  A client asks for runs and gives back runs it holds. It keeps its live runs in a list, newest
  first; a request that fails leaves it with what it had, and an index that is no live run is
  no request.
\<close>

datatype 'q client_op = Take 'q | Give nat

definition drop_nth :: "nat \<Rightarrow> 'a list \<Rightarrow> 'a list" where
  "drop_nth k xs = take k xs @ drop (Suc k) xs"

fun client_step :: "('q \<Rightarrow> 's \<Rightarrow> ('r option \<times> 's) res) \<Rightarrow> ('r \<Rightarrow> 's \<Rightarrow> 's res)
    \<Rightarrow> 'q client_op \<Rightarrow> 's \<times> 'r list \<Rightarrow> ('s \<times> 'r list) res" where
  "client_step alloc dealloc (Take q) (s, live) =
     bind_res (alloc q s) (\<lambda>(r, s'). Inr (s', (case r of None \<Rightarrow> live | Some x \<Rightarrow> x # live)))"
| "client_step alloc dealloc (Give k) (s, live) =
     (if k < length live
      then bind_res (dealloc (live ! k) s) (\<lambda>s'. Inr (s', drop_nth k live))
      else Inr (s, live))"

definition client_run :: "('q \<Rightarrow> 's \<Rightarrow> ('r option \<times> 's) res) \<Rightarrow> ('r \<Rightarrow> 's \<Rightarrow> 's res)
    \<Rightarrow> 'q client_op list \<Rightarrow> 's \<times> 'r list \<Rightarrow> ('s \<times> 'r list) res" where
  "client_run alloc dealloc ops st = for_res ops (client_step alloc dealloc) st"

lemma set_drop_nth: "k < length xs \<Longrightarrow> set xs = insert (xs ! k) (set (drop_nth k xs))"
  by (metis drop_nth_def id_take_nth_drop list.simps(15) set_append Un_insert_right)

lemma drop_nth_pairs:
  assumes "k < length xs" "sorted_wrt R xs" "\<And>x y. R x y \<Longrightarrow> R y x"
  shows "sorted_wrt R (drop_nth k xs) \<and> (\<forall>y \<in> set (drop_nth k xs). R (xs ! k) y)"
proof -
  have "xs = take k xs @ xs ! k # drop (Suc k) xs" by (rule id_take_nth_drop [OF assms(1)])
  with assms(2) have "sorted_wrt R (take k xs @ xs ! k # drop (Suc k) xs)" by simp
  with assms(3) show ?thesis by (auto simp: sorted_wrt_append drop_nth_def)
qed

section \<open>The allocator contract\<close>

locale page_allocator =
  fixes inv :: "'s \<Rightarrow> bool" and free :: "'s \<Rightarrow> nat set"
    and alloc :: "'q \<Rightarrow> 's \<Rightarrow> ('r option \<times> 's) res" and dealloc :: "'r \<Rightarrow> 's \<Rightarrow> 's res"
    and pages :: "'r \<Rightarrow> nat set" and owns :: "'s \<Rightarrow> 'r \<Rightarrow> bool"
  assumes alloc_total: "inv s \<Longrightarrow> \<exists>x. alloc q s = Inr x"
    and alloc_none: "inv s \<Longrightarrow> alloc q s = Inr (None, s') \<Longrightarrow> s' = s"
    and alloc_some: "inv s \<Longrightarrow> alloc q s = Inr (Some r, s') \<Longrightarrow>
      inv s' \<and> owns s' r \<and> pages r \<subseteq> free s \<and> free s' = free s - pages r"
    and alloc_frame: "inv s \<Longrightarrow> alloc q s = Inr (Some r, s') \<Longrightarrow> owns s x \<Longrightarrow> owns s' x"
    and dealloc_total: "inv s \<Longrightarrow> owns s r \<Longrightarrow> \<exists>s'. dealloc r s = Inr s'"
    and dealloc_law: "inv s \<Longrightarrow> dealloc r s = Inr s' \<Longrightarrow>
      owns s r \<and> inv s' \<and> free s' = free s \<union> pages r"
    and dealloc_frame: "inv s \<Longrightarrow> dealloc r s = Inr s' \<Longrightarrow> owns s x \<Longrightarrow>
      pages r \<inter> pages x = {} \<Longrightarrow> owns s' x"
    and owned_not_free: "inv s \<Longrightarrow> owns s r \<Longrightarrow> pages r \<inter> free s = {}"
    and run_not_empty: "owns s r \<Longrightarrow> pages r \<noteq> {}"
begin

definition disjoint_runs :: "'r list \<Rightarrow> bool" where
  "disjoint_runs rs \<longleftrightarrow> sorted_wrt (\<lambda>r x. pages r \<inter> pages x = {}) rs"

definition client_ok :: "nat set \<Rightarrow> 's \<times> 'r list \<Rightarrow> bool" where
  "client_ok ram = (\<lambda>(s, live). inv s \<and> list_all (owns s) live \<and> disjoint_runs live
     \<and> free s \<union> \<Union> (pages ` set live) = ram)"

lemma take_ok:
  assumes "client_ok ram (s, live)"
  shows "\<exists>st'. client_step alloc dealloc (Take q) (s, live) = Inr st' \<and> client_ok ram st'"
proof -
  have i: "inv s" using assms by (simp add: client_ok_def)
  obtain x s' where a: "alloc q s = Inr (x, s')" using alloc_total [OF i, of q] by auto
  show ?thesis
  proof (cases x)
    case None
    with a alloc_none [OF i] assms show ?thesis by auto
  next
    case (Some r)
    note law = alloc_some [OF i a [unfolded Some]]
    have "pages r \<inter> pages y = {}" if "y \<in> set live" for y
      using owned_not_free [OF i, of y] law assms that by (auto simp: client_ok_def list_all_iff)
    then have "client_ok ram (s', r # live)"
      using assms law alloc_frame [OF i a [unfolded Some]]
      by (auto simp: client_ok_def disjoint_runs_def list_all_iff)
    with a Some show ?thesis by simp
  qed
qed

lemma give_ok:
  assumes "client_ok ram (s, live)"
  shows "\<exists>st'. client_step alloc dealloc (Give k) (s, live) = Inr st' \<and> client_ok ram st'"
proof (cases "k < length live")
  case True
  let ?r = "live ! k" and ?rest = "drop_nth k live"
  have i: "inv s" and o: "owns s ?r" and d: "sorted_wrt (\<lambda>r x. pages r \<inter> pages x = {}) live"
    using assms True by (simp_all add: client_ok_def list_all_iff disjoint_runs_def)
  obtain s' where s': "dealloc ?r s = Inr s'" using dealloc_total [OF i o] by blast
  note law = dealloc_law [OF i s'] and live = set_drop_nth [OF True]
  have rest: "sorted_wrt (\<lambda>r x. pages r \<inter> pages x = {}) ?rest"
      "\<forall>y \<in> set ?rest. pages ?r \<inter> pages y = {}"
    using drop_nth_pairs [OF True d] by blast+
  have "client_ok ram (s', ?rest)"
    using assms law live rest dealloc_frame [OF i s']
    by (auto simp: client_ok_def disjoint_runs_def list_all_iff)
  with True s' show ?thesis by simp
next
  case False
  with assms show ?thesis by simp
qed

lemma client_step_ok:
  "client_ok ram st \<Longrightarrow> \<exists>st'. client_step alloc dealloc op st = Inr st' \<and> client_ok ram st'"
  by (cases op; cases st) (use take_ok give_ok in blast)+

lemma client_run_ok:
  "client_ok ram st \<Longrightarrow> \<exists>st'. client_run alloc dealloc ops st = Inr st' \<and> client_ok ram st'"
proof (induction ops arbitrary: st)
  case Nil
  then show ?case by (simp add: client_run_def)
next
  case (Cons op ops)
  then show ?case
    using client_step_ok [of ram st op] by (fastforce simp: client_run_def)
qed

text \<open>A run that was given back cannot be given back again, in whole or in part.\<close>

lemma no_overlapping_dealloc:
  assumes "inv s" "dealloc r s = Inr s'" "pages r \<inter> pages x \<noteq> {}"
  shows "\<exists>p. dealloc x s' = Inl p"
proof (cases "dealloc x s'")
  case (Inr s'')
  have law: "inv s'" "free s' = free s \<union> pages r" using dealloc_law [OF assms(1,2)] by auto
  have "owns s' x" using dealloc_law [OF law(1) Inr] by blast
  then show ?thesis using owned_not_free [OF law(1)] law(2) assms(3) by blast
qed simp

end

end
