(* ===== verification/Allocator.thy ===== *)
theory Allocator
  imports Memory_Invariant
begin

text \<open>
  Contiguous page allocation (\<^verbatim>\<open>src/kernel/memory/allocator.rs\<close>): first fit over the zones,
  bit by bit, committing only when a whole run is found; release of a run after checking all
  of its pages.
\<close>

section \<open>Operations\<close>

datatype allocation_area = Mapped | Any

datatype allocation_error = InvalidCount | OutOfMemory

record page_run =
  run_first :: usize
  run_count :: usize

definition physical_address :: "page_run \<Rightarrow> usize" where
  "physical_address run = umul (run_first run) PAGE_2M_SIZE"

definition is_used :: "memory_descriptor \<Rightarrow> usize \<Rightarrow> bool res" where
  "is_used d index =
     bind_res (ensure (index < md_bits_size d) ''index < self.bits_size'') (\<lambda>_.
     Inr (md_bits_map d ! (index div 64) AND push_bit (index mod 64) 1 \<noteq> 0))"

definition page_attributes :: "usize \<Rightarrow> u64" where
  "page_attributes i =
     (let attributes = ACTIVE OR KERNEL in
      if i < DIRECT_RAM_END div PAGE_2M_SIZE then attributes OR PAGE_TABLE_MAPPED else attributes)"

text \<open>The commit loop of a found run.\<close>

definition commit_run :: "memory_descriptor \<Rightarrow> usize \<Rightarrow> usize \<Rightarrow> memory_descriptor res" where
  "commit_run d first index =
     for_res [first..<Suc index] (\<lambda>i d. init_page d i (page_attributes i)) d"

text \<open>The bit scan of one zone: the remaining indices and the length of the current free run.\<close>

fun scan_zone :: "memory_descriptor \<Rightarrow> usize \<Rightarrow> usize list \<Rightarrow> usize
    \<Rightarrow> (page_run \<times> memory_descriptor) option res" where
  "scan_zone d n [] consecutive = Inr None"
| "scan_zone d n (index # rest) consecutive =
     bind_res (is_used d index) (\<lambda>used.
     if used then scan_zone d n rest 0
     else
       let consecutive' = uadd consecutive 1 in
       if consecutive' \<noteq> n then scan_zone d n rest consecutive'
       else
         let first = usub (uadd index 1) n in
         bind_res (commit_run d first index) (\<lambda>d'.
         Inr (Some (\<lparr>run_first = first, run_count = n\<rparr>, d'))))"

definition zone_end_address :: "allocation_area \<Rightarrow> zone \<Rightarrow> usize" where
  "zone_end_address area zn = (case area of
     Mapped \<Rightarrow> min (zn_end_address zn) DIRECT_RAM_END
   | Any \<Rightarrow> zn_end_address zn)"

fun allocate_from :: "memory_descriptor \<Rightarrow> allocation_area \<Rightarrow> usize \<Rightarrow> usize list
    \<Rightarrow> ((allocation_error + page_run) \<times> memory_descriptor) res" where
  "allocate_from d area n [] = Inr (Inl OutOfMemory, d)"
| "allocate_from d area n (i # rest) =
     (let zn = md_zones d ! i;
          start = zn_start_address zn div PAGE_2M_SIZE;
          end = zone_end_address area zn div PAGE_2M_SIZE
      in if end - start < n \<or> zn_page_free_count zn < n
         then allocate_from d area n rest
         else bind_res (scan_zone d n [start..<end] 0) (\<lambda>found.
           case found of None \<Rightarrow> allocate_from d area n rest
           | Some (run, d') \<Rightarrow> Inr (Inr run, d')))"

definition allocate :: "memory_descriptor \<Rightarrow> allocation_area \<Rightarrow> usize
    \<Rightarrow> ((allocation_error + page_run) \<times> memory_descriptor) res" where
  "allocate d area n =
     (if n = 0 then Inr (Inl InvalidCount, d)
      else allocate_from d area n [0..<md_zones_size d])"

definition release :: "memory_descriptor \<Rightarrow> page_run \<Rightarrow> memory_descriptor res" where
  "release d run =
     bind_res (expect (checked_add (run_first run) (run_count run)) ''page range overflow'') (\<lambda>end.
     bind_res (ensure (0 < run_count run \<and> end \<le> md_bits_size d)
       ''run.count > 0 && end <= self.bits_size'') (\<lambda>_.
     let zn = pg_zone (md_pages d ! run_first run) in
     bind_res (ensure (zn \<noteq> None) ''!zone.is_null()'') (\<lambda>_.
     bind_res (for_res [run_first run..<end] (\<lambda>index u.
         let p = md_pages d ! index in
         bind_res (ensure (pg_zone p = zn) ''page.zone == zone'') (\<lambda>_.
         bind_res (is_used d index) (\<lambda>used.
         bind_res (ensure used ''self.is_used(index)'') (\<lambda>_.
         bind_res (ensure (pg_attribute p \<noteq> 0 \<and> pg_attribute p AND KERNEL_INIT = 0)
           ''page.attribute != 0 && page.attribute & flags::KERNEL_INIT == 0'') (\<lambda>_.
         ensure (pg_reference_count p = 1) ''page.reference_count == 1''))))) ()) (\<lambda>_.
     for_res [run_first run..<end] (\<lambda>index d. clean_page d index) d))))"

section \<open>Runs\<close>

definition run_pages :: "page_run \<Rightarrow> nat set" where
  "run_pages r = {run_first r ..< run_first r + run_count r}"

text \<open>A run the caller owns: in one zone, every page held, none of them kernel-reserved.\<close>

definition owned_run :: "memory_descriptor \<Rightarrow> page_run \<Rightarrow> bool" where
  "owned_run d r \<longleftrightarrow> 0 < run_count r \<and> run_first r + run_count r \<le> md_bits_size d
     \<and> (\<exists>z. \<forall>i \<in> run_pages r. in_zone d z i \<and> pg_attribute (md_pages d ! i) \<noteq> 0
         \<and> pg_attribute (md_pages d ! i) AND KERNEL_INIT = 0)"

lemma is_used_eq:
  "is_used d i = (if i < md_bits_size d then Inr (page_used d i)
     else Inl (Panic ''index < self.bits_size''))"
  by (simp add: is_used_def mask_test_exp get_bit_def)

lemma page_attributes_nonzero [simp]: "page_attributes i \<noteq> 0"
  by (simp add: page_attributes_def flag_defs Let_def)

lemma page_attributes_kernel_init [simp]: "page_attributes i AND KERNEL_INIT = 0"
  by (simp add: page_attributes_def flag_defs Let_def)

text \<open>A free page of a well-formed descriptor lies in a zone and has no attribute.\<close>

lemma free_page_state:
  assumes "md_wf d" "i < md_bits_size d" "\<not> page_used d i"
  shows "pg_attribute (md_pages d ! i) = 0" "pg_reference_count (md_pages d ! i) = 0"
    "\<exists>z. pg_zone (md_pages d ! i) = Some z"
  using assms by (auto simp: md_wf_def page_state_def Let_def)

section \<open>Committing a run\<close>

lemma commit_run_total:
  assumes "md_wf d" "f + n \<le> md_bits_size d" "0 < n"
    and "\<forall>j. f \<le> j \<and> j < f + n \<longrightarrow> \<not> page_used d j"
  shows "\<exists>d'. commit_run d f (f + n - 1) = Inr d' \<and> claimed_upto page_attributes d f (f + n) d'"
proof -
  have "\<exists>d'. for_res [f..<f + n] (\<lambda>i d. init_page d i (page_attributes i)) d = Inr d'
      \<and> claimed_upto page_attributes d f (f + n) d'"
    by (rule claim_range_total [OF assms(1)]) (use assms free_page_state(1) [OF assms(1)] in auto)
  moreover have "Suc (f + n - 1) = f + n" using assms(3) by simp
  ultimately show ?thesis unfolding commit_run_def by (simp only:)
qed

section \<open>First fit\<close>

definition fits :: "memory_descriptor \<Rightarrow> nat \<Rightarrow> nat \<Rightarrow> bool" where
  "fits d f n \<longleftrightarrow> (\<forall>j. f \<le> j \<and> j < f + n \<longrightarrow> \<not> page_used d j)"

definition least_fit :: "memory_descriptor \<Rightarrow> nat \<Rightarrow> nat \<Rightarrow> nat \<Rightarrow> nat \<Rightarrow> bool" where
  "least_fit d s e n f \<longleftrightarrow> s \<le> f \<and> f + n \<le> e \<and> fits d f n \<and> (\<forall>g. s \<le> g \<and> g < f \<longrightarrow> \<not> fits d g n)"

definition no_fit :: "memory_descriptor \<Rightarrow> nat \<Rightarrow> nat \<Rightarrow> nat \<Rightarrow> bool" where
  "no_fit d s e n \<longleftrightarrow> (\<forall>g. s \<le> g \<and> g + n \<le> e \<longrightarrow> \<not> fits d g n)"

lemma scan_zone_first_fit:
  assumes "e \<le> md_bits_size d" "e < usize_range" "c < n" "c \<le> k" "k \<le> e"
    and "\<forall>j. k - c \<le> j \<and> j < k \<longrightarrow> \<not> page_used d j"
  shows "(\<exists>f. least_fit d (k - c) e n f \<and> scan_zone d n [k..<e] c =
        bind_res (commit_run d f (f + n - 1)) (\<lambda>d'.
          Inr (Some (\<lparr>run_first = f, run_count = n\<rparr>, d'))))
    \<or> no_fit d (k - c) e n \<and> scan_zone d n [k..<e] c = Inr None"
  using assms
proof (induction "e - k" arbitrary: k c)
  case 0
  then have "no_fit d (k - c) e n" by (auto simp: no_fit_def)
  with 0 show ?case by simp
next
  case (Suc m)
  then have k: "k < e" by simp
  then have upt: "[k..<e] = k # [Suc k..<e]" by (simp add: upt_conv_Cons)
  show ?case
  proof (cases "page_used d k")
    case True
    have step: "scan_zone d n [k..<e] c = scan_zone d n [Suc k..<e] 0"
      using True k Suc.prems(1) by (simp add: upt is_used_eq)
    have skip: "\<not> fits d g n" if "k - c \<le> g" "g < Suc k" for g
      using True that Suc.prems(3) by (auto simp: fits_def intro!: exI [of _ k])
    have "(\<exists>f. least_fit d (Suc k) e n f \<and> scan_zone d n [Suc k..<e] 0 =
        bind_res (commit_run d f (f + n - 1)) (\<lambda>d'.
          Inr (Some (\<lparr>run_first = f, run_count = n\<rparr>, d'))))
      \<or> no_fit d (Suc k) e n \<and> scan_zone d n [Suc k..<e] 0 = Inr None"
      using Suc.hyps(1) [of "Suc k" 0] Suc.hyps(2) Suc.prems k by simp
    moreover have "least_fit d (k - c) e n f" if "least_fit d (Suc k) e n f" for f
      using that skip by (auto simp: least_fit_def) (meson not_less_eq_eq not_le)
    moreover have "no_fit d (k - c) e n" if "no_fit d (Suc k) e n"
      using that skip by (auto simp: no_fit_def) (meson not_less_eq_eq not_le)
    ultimately show ?thesis unfolding step by blast
  next
    case False
    have c: "uadd c 1 = Suc c" using Suc.prems k by (simp add: uadd_exact)
    have run: "\<forall>j. k - c \<le> j \<and> j < Suc k \<longrightarrow> \<not> page_used d j"
      using False Suc.prems(6) by (auto simp: less_Suc_eq)
    show ?thesis
    proof (cases "Suc c = n")
      case True
      have "usub (uadd k 1) n = k - c"
        using True Suc.prems(2,4) k by (simp add: uadd_exact usub_exact)
      then have "scan_zone d n [k..<e] c =
          bind_res (commit_run d (k - c) k) (\<lambda>d'.
            Inr (Some (\<lparr>run_first = k - c, run_count = n\<rparr>, d')))"
        using False True c k Suc.prems(1) by (simp add: upt is_used_eq Let_def)
      moreover have "k - c + n - 1 = k" using True Suc.prems(4) by simp
      moreover have "least_fit d (k - c) e n (k - c)"
        using run True k Suc.prems(4) by (auto simp: least_fit_def fits_def)
      ultimately show ?thesis by auto
    next
      case noteq: False
      have "scan_zone d n [k..<e] c = scan_zone d n [Suc k..<e] (Suc c)"
        using False noteq c k Suc.prems(1) by (simp add: upt is_used_eq Let_def)
      then show ?thesis
        using Suc.hyps(1) [of "Suc k" "Suc c"] Suc.hyps(2) Suc.prems k noteq run by simp
    qed
  qed
qed

section \<open>The allocation specification\<close>

text \<open>
  A naive executable specification: try every start position of every zone, in order, and take
  the first one whose whole run is free. It knows no running lengths and no free counters.
\<close>

definition spec_fit :: "memory_descriptor \<Rightarrow> nat \<Rightarrow> nat \<times> nat \<Rightarrow> nat option" where
  "spec_fit d n w = List.find (\<lambda>f. list_all (\<lambda>j. \<not> page_used d j) [f..<f + n])
     [fst w..<Suc (snd w) - n]"

fun spec_first_fit :: "memory_descriptor \<Rightarrow> nat \<Rightarrow> (nat \<times> nat) list \<Rightarrow> nat option" where
  "spec_first_fit d n [] = None"
| "spec_first_fit d n (w # ws) =
     (case spec_fit d n w of None \<Rightarrow> spec_first_fit d n ws | Some f \<Rightarrow> Some f)"

definition zone_window :: "allocation_area \<Rightarrow> zone \<Rightarrow> nat \<times> nat" where
  "zone_window area zn = (zone_first zn, zone_end_address area zn div PAGE_2M_SIZE)"

definition zone_windows :: "memory_descriptor \<Rightarrow> allocation_area \<Rightarrow> (nat \<times> nat) list" where
  "zone_windows d area = map (zone_window area) (take (md_zones_size d) (md_zones d))"

lemma spec_fit_Some:
  assumes "least_fit d s e n f" "0 < n"
  shows "spec_fit d n (s, e) = Some f"
proof -
  have "\<not> list_all (\<lambda>j. \<not> page_used d j) [g..<g + n]" if "s \<le> g" "g < f" for g
    using assms(1) that by (auto simp: least_fit_def fits_def list_all_iff Bex_def)
  with assms show ?thesis
    unfolding spec_fit_def find_Some_iff
    by (intro exI [of _ "f - s"]) (auto simp: least_fit_def fits_def list_all_iff)
qed

lemma spec_fit_None:
  assumes "no_fit d s e n" "0 < n"
  shows "spec_fit d n (s, e) = None"
  unfolding spec_fit_def find_None_iff
  using assms by (auto simp: no_fit_def fits_def list_all_iff Bex_def)

lemma spec_first_fit_least:
  "spec_first_fit d n ws = Some f \<Longrightarrow> \<exists>w \<in> set ws. spec_fit d n w = Some f"
  by (induction ws) (auto split: option.splits)

lemma zone_window_bounds:
  assumes "layout_ok d" "z < md_zones_size d" "zone_window area (md_zones d ! z) = (s, e)"
  shows "s = zone_first (md_zones d ! z)" "e \<le> zone_last (md_zones d ! z)" "e \<le> md_bits_size d"
    "e < usize_range" "area = Mapped \<Longrightarrow> e * PAGE_2M_SIZE \<le> DIRECT_RAM_END"
proof -
  let ?zn = "md_zones d ! z"
  have "zone_shape d z" using assms by (simp add: layout_ok_def)
  then have last: "zone_last ?zn \<le> md_bits_size d" by (simp add: zone_shape_def Let_def)
  have "zone_end_address area ?zn \<le> zn_end_address ?zn"
    by (cases area) (simp_all add: zone_end_address_def)
  moreover have e: "e = zone_end_address area ?zn div PAGE_2M_SIZE"
    using assms(3) by (simp add: zone_window_def)
  ultimately show le: "e \<le> zone_last ?zn" by (simp add: zone_last_def div_le_mono)
  with last show "e \<le> md_bits_size d" by simp
  with bits_size_bound [OF assms(1)] show "e < usize_range" by simp
  show "s = zone_first ?zn" using assms(3) by (simp add: zone_window_def)
  show "e * PAGE_2M_SIZE \<le> DIRECT_RAM_END" if "area = Mapped"
  proof -
    have "e * PAGE_2M_SIZE \<le> zone_end_address area ?zn" by (simp add: e)
    also have "\<dots> \<le> DIRECT_RAM_END" using that by (simp add: zone_end_address_def)
    finally show ?thesis .
  qed
qed

text \<open>The two shortcuts of the code never skip a zone with a fitting run.\<close>

lemma shortcut_sound:
  assumes "md_wf d" "z < md_zones_size d" "zone_window area (md_zones d ! z) = (s, e)"
    and "e - s < n \<or> zn_page_free_count (md_zones d ! z) < n"
  shows "no_fit d s e n"
  unfolding no_fit_def
proof (intro allI impI notI)
  fix g assume g: "s \<le> g \<and> g + n \<le> e" and f: "fits d g n"
  have l: "layout_ok d" and c: "zone_counts d z" using assms(1,2) by (simp_all add: md_wf_def)
  note w = zone_window_bounds [OF l assms(2,3)]
  have "n \<le> free_in d (md_zones d ! z)"
    unfolding free_in_def by (rule sum_upt_block [of _ g]) (use g f w in \<open>auto simp: fits_def\<close>)
  then have "n \<le> zn_page_free_count (md_zones d ! z)" using c by (simp add: zone_counts_def Let_def)
  with assms(4) g show False by linarith
qed

lemma allocate_from_spec:
  assumes "md_wf d" "0 < n" "\<forall>z \<in> set zs. z < md_zones_size d"
  shows "case spec_first_fit d n (map (\<lambda>z. zone_window area (md_zones d ! z)) zs) of
      None \<Rightarrow> allocate_from d area n zs = Inr (Inl OutOfMemory, d)
    | Some f \<Rightarrow> \<exists>d' z. allocate_from d area n zs = Inr (Inr \<lparr>run_first = f, run_count = n\<rparr>, d')
        \<and> claimed_upto page_attributes d f (f + n) d' \<and> z < md_zones_size d
        \<and> least_fit d (fst (zone_window area (md_zones d ! z)))
             (snd (zone_window area (md_zones d ! z))) n f"
  using assms(3)
proof (induction zs)
  case Nil
  then show ?case by simp
next
  case (Cons z zs)
  have l: "layout_ok d" using assms(1) by (simp add: md_wf_def)
  have z: "z < md_zones_size d" using Cons.prems by simp
  obtain s e where w: "zone_window area (md_zones d ! z) = (s, e)" by fastforce
  note b = zone_window_bounds [OF l z w]
  have unfold: "allocate_from d area n (z # zs) =
      (if e - s < n \<or> zn_page_free_count (md_zones d ! z) < n then allocate_from d area n zs
       else bind_res (scan_zone d n [s..<e] 0) (\<lambda>found.
         case found of None \<Rightarrow> allocate_from d area n zs
         | Some (run, d') \<Rightarrow> Inr (Inr run, d')))"
    using w by (simp add: zone_window_def zone_first_def Let_def)
  have IH: "?case" if "no_fit d s e n" "allocate_from d area n (z # zs) = allocate_from d area n zs"
    unfolding that(2) using Cons spec_fit_None [OF that(1) assms(2)] by (simp add: w)
  show ?case
  proof (cases "e - s < n \<or> zn_page_free_count (md_zones d ! z) < n")
    case True
    show ?thesis
      by (rule IH [OF shortcut_sound [OF assms(1) z w True]]) (simp only: unfold True if_True)
  next
    case False
    then have se: "s \<le> e" using assms(2) by linarith
    have vac: "\<forall>j. s - 0 \<le> j \<and> j < s \<longrightarrow> \<not> page_used d j" by auto
    consider f where "least_fit d s e n f" "scan_zone d n [s..<e] 0 =
        bind_res (commit_run d f (f + n - 1)) (\<lambda>d'.
          Inr (Some (\<lparr>run_first = f, run_count = n\<rparr>, d')))"
      | "no_fit d s e n" "scan_zone d n [s..<e] 0 = Inr None"
      using scan_zone_first_fit [OF b(3) b(4) assms(2) _ se vac] by auto
    then show ?thesis
    proof cases
      case (1 f)
      have fit: "f + n \<le> md_bits_size d" "\<forall>j. f \<le> j \<and> j < f + n \<longrightarrow> \<not> page_used d j"
        using 1(1) b(3) by (auto simp: least_fit_def fits_def)
      obtain d' where "commit_run d f (f + n - 1) = Inr d'" "claimed_upto page_attributes d f (f + n) d'"
        using commit_run_total [OF assms(1) fit(1) assms(2) fit(2)] by blast
      then show ?thesis
        using 1 z w spec_fit_Some [OF 1(1) assms(2)] False
        by (auto simp del: allocate_from.simps simp: unfold)
    next
      case 2
      show ?thesis by (rule IH [OF 2(1)]) (use 2 False in \<open>simp add: unfold del: allocate_from.simps\<close>)
    qed
  qed
qed

end
