(* ===== verification/Allocation.thy ===== *)
theory Allocation
  imports Allocator Page_Interface
begin

text \<open>
  What allocation and release (\<^verbatim>\<open>src/kernel/memory/allocator.rs\<close>) promise: allocation takes
  exactly the first free run and nothing else, release accepts exactly the runs that are
  owned and undoes allocation, and every client of the two keeps its runs apart.
\<close>

section \<open>Release\<close>

definition freed_page :: "page \<Rightarrow> page" where
  "freed_page p = p\<lparr>pg_attribute := 0, pg_reference_count := 0\<rparr>"

definition released_upto :: "memory_descriptor \<Rightarrow> nat \<Rightarrow> nat \<Rightarrow> memory_descriptor \<Rightarrow> bool" where
  "released_upto d f k d' \<longleftrightarrow> md_wf d' \<and> same_layout d d'
     \<and> (\<forall>j. page_used d' j \<longleftrightarrow> page_used d j \<and> \<not> (f \<le> j \<and> j < k))
     \<and> (\<forall>j < md_bits_size d. md_pages d' ! j =
          (if f \<le> j \<and> j < k then freed_page (md_pages d ! j) else md_pages d ! j))"

lemma released_upto_step:
  assumes "released_upto d f i d'" "f \<le> i" "i < md_bits_size d"
    and attr: "pg_attribute (md_pages d ! i) \<noteq> 0" "pg_zone (md_pages d ! i) \<noteq> None"
      "pg_attribute (md_pages d ! i) AND KERNEL_INIT = 0"
  shows "clean_page d' i = Inr (unclaim d' i) \<and> released_upto d f (Suc i) (unclaim d' i)"
proof -
  have wf: "md_wf d'" and same: "same_layout d d'" using assms(1) by (simp_all add: released_upto_def)
  note sz = same_layout_sizes [OF same]
  have i: "i < md_bits_size d'" using assms(3) sz by simp
  have l: "layout_ok d'" using wf by (simp add: md_wf_def)
  have len: "length (md_pages d') = md_bits_size d" using l sz by (simp add: layout_ok_def)
  have here: "md_pages d' ! i = md_pages d ! i" using assms(1,3) by (simp add: released_upto_def)
  note attr' = attr [folded here]
  have "md_wf (unclaim d' i)" by (rule unclaim_wf [OF wf i attr'(1,2)])
  moreover have "same_layout d (unclaim d' i)"
    by (rule same_layout_trans [OF same unclaim_same_layout [OF l i]])
  moreover have "page_used (unclaim d' i) j \<longleftrightarrow> page_used d j \<and> \<not> (f \<le> j \<and> j < Suc i)" for j
    using page_used_unclaim [OF l i] assms(1,2) by (auto simp: released_upto_def)
  moreover have "md_pages (unclaim d' i) ! j =
      (if f \<le> j \<and> j < Suc i then freed_page (md_pages d ! j) else md_pages d ! j)"
    if "j < md_bits_size d" for j
  proof (cases "j = i")
    case True
    with here assms(2,3) len show ?thesis by (simp add: freed_page_def)
  next
    case False
    with assms(1) that show ?thesis by (auto simp: released_upto_def)
  qed
  ultimately show ?thesis using clean_page_owned [OF wf i attr'] by (simp add: released_upto_def)
qed

lemma release_loop_total:
  assumes "md_wf d" "f + n \<le> md_bits_size d"
    and "\<And>i. f \<le> i \<Longrightarrow> i < f + n \<Longrightarrow> pg_attribute (md_pages d ! i) \<noteq> 0
      \<and> pg_zone (md_pages d ! i) \<noteq> None \<and> pg_attribute (md_pages d ! i) AND KERNEL_INIT = 0"
  shows "\<exists>d'. for_res [f..<f + n] (\<lambda>index d. clean_page d index) d = Inr d'
    \<and> released_upto d f (f + n) d'"
proof (rule for_range_total)
  show "released_upto d f f d" using assms(1) by (auto simp: released_upto_def)
next
  fix i s assume "f \<le> i" "i < f + n" "released_upto d f i s"
  then show "\<exists>s'. clean_page s i = Inr s' \<and> released_upto d f (Suc i) s'"
    using released_upto_step [of d f i s] assms(2,3) by auto
qed simp

text \<open>The verification loop of the code decides ownership.\<close>

lemma owned_page_checks:
  assumes "md_wf d" "i < md_bits_size d"
  shows "page_used d i \<and> pg_attribute (md_pages d ! i) \<noteq> 0
      \<and> pg_attribute (md_pages d ! i) AND KERNEL_INIT = 0 \<and> pg_reference_count (md_pages d ! i) = 1
    \<longleftrightarrow> pg_attribute (md_pages d ! i) \<noteq> 0 \<and> pg_attribute (md_pages d ! i) AND KERNEL_INIT = 0"
  using assms by (auto simp: md_wf_def page_state_def Let_def)

lemma owned_run_iff:
  assumes "md_wf d"
  shows "owned_run d r \<longleftrightarrow> 0 < run_count r \<and> run_first r + run_count r \<le> md_bits_size d
    \<and> pg_zone (md_pages d ! run_first r) \<noteq> None
    \<and> (\<forall>i. run_first r \<le> i \<and> i < run_first r + run_count r \<longrightarrow>
        pg_zone (md_pages d ! i) = pg_zone (md_pages d ! run_first r)
        \<and> pg_attribute (md_pages d ! i) \<noteq> 0 \<and> pg_attribute (md_pages d ! i) AND KERNEL_INIT = 0)"
    (is "?l \<longleftrightarrow> ?r")
proof
  have l: "layout_ok d" using assms by (simp add: md_wf_def)
  note zone = zone_of_page [OF l]
  show "?l \<Longrightarrow> ?r"
  proof -
    assume o: ?l
    then obtain z where b: "0 < run_count r" "run_first r + run_count r \<le> md_bits_size d"
      and p: "\<forall>i \<in> run_pages r. in_zone d z i \<and> pg_attribute (md_pages d ! i) \<noteq> 0
        \<and> pg_attribute (md_pages d ! i) AND KERNEL_INIT = 0" by (auto simp: owned_run_def)
    have "pg_zone (md_pages d ! i) = Some z" if "run_first r \<le> i" "i < run_first r + run_count r" for i
      using p that b zone [of i z] by (simp add: run_pages_def)
    with b p show ?r by (simp add: run_pages_def)
  qed
  show "?r \<Longrightarrow> ?l"
  proof -
    assume rr: ?r
    then obtain z where "pg_zone (md_pages d ! run_first r) = Some z" by blast
    moreover have "i < md_bits_size d \<and> pg_zone (md_pages d ! i) = pg_zone (md_pages d ! run_first r)"
      if "i \<in> run_pages r" for i
      using rr that unfolding run_pages_def atLeastLessThan_iff by (metis order_less_le_trans)
    ultimately have "in_zone d z i" if "i \<in> run_pages r" for i
      using that zone [of i z] by metis
    moreover have "pg_attribute (md_pages d ! i) \<noteq> 0 \<and> pg_attribute (md_pages d ! i) AND KERNEL_INIT = 0"
      if "i \<in> run_pages r" for i
      using rr that unfolding run_pages_def atLeastLessThan_iff by blast
    ultimately show ?l
      using rr unfolding owned_run_def by blast
  qed
qed

lemma release_steps:
  assumes "md_wf d"
  shows "release d r = (if owned_run d r
      then for_res [run_first r..<run_first r + run_count r] (\<lambda>index d. clean_page d index) d
      else release d r)"
    and "release d r = Inr d' \<Longrightarrow> owned_run d r"
proof -
  let ?f = "run_first r" and ?e = "run_first r + run_count r"
  let ?z = "pg_zone (md_pages d ! ?f)"
  have size: "md_bits_size d < usize_range"
    using assms bits_size_bound by (simp add: md_wf_def)
  define check where "check = (\<lambda>index (u :: unit).
         let p = md_pages d ! index in
         bind_res (ensure (pg_zone p = ?z) ''page.zone == zone'') (\<lambda>_.
         bind_res (is_used d index) (\<lambda>used.
         bind_res (ensure used ''self.is_used(index)'') (\<lambda>_.
         bind_res (ensure (pg_attribute p \<noteq> 0 \<and> pg_attribute p AND KERNEL_INIT = 0)
           ''page.attribute != 0 && page.attribute & flags::KERNEL_INIT == 0'') (\<lambda>_.
         ensure (pg_reference_count p = 1) ''page.reference_count == 1'')))))"
  have check: "check i () = Inr () \<longleftrightarrow> pg_zone (md_pages d ! i) = ?z
      \<and> pg_attribute (md_pages d ! i) \<noteq> 0 \<and> pg_attribute (md_pages d ! i) AND KERNEL_INIT = 0"
    if "i < md_bits_size d" for i
    using owned_page_checks [OF assms that] that
    by (auto simp: check_def Let_def res_Inr is_used_eq)
  have unfold: "release d r =
      bind_res (expect (checked_add ?f (run_count r)) ''page range overflow'') (\<lambda>end.
      bind_res (ensure (0 < run_count r \<and> end \<le> md_bits_size d)
        ''run.count > 0 && end <= self.bits_size'') (\<lambda>_.
      bind_res (ensure (?z \<noteq> None) ''!zone.is_null()'') (\<lambda>_.
      bind_res (for_res [?f..<end] check ()) (\<lambda>_.
      for_res [?f..<end] (\<lambda>index d. clean_page d index) d))))"
    by (simp add: release_def check_def Let_def)
  have loop: "for_res [?f..<?e] check () = Inr () \<longleftrightarrow> (\<forall>i. ?f \<le> i \<and> i < ?e \<longrightarrow>
      pg_zone (md_pages d ! i) = ?z \<and> pg_attribute (md_pages d ! i) \<noteq> 0
      \<and> pg_attribute (md_pages d ! i) AND KERNEL_INIT = 0)" if "?e \<le> md_bits_size d"
    unfolding for_res_unit list_all_iff set_upt Ball_def atLeastLessThan_iff
    using check that by (meson order_less_le_trans)
  show "owned_run d r" if "release d r = Inr d'" for d'
  proof -
    have e: "0 < run_count r" "?e \<le> md_bits_size d" "?z \<noteq> None" "for_res [?f..<?e] check () = Inr ()"
      using that unfolding unfold by (simp_all only: res_Inr checked_add_Some) (elim exE conjE; simp)+
    with loop show ?thesis unfolding owned_run_iff [OF assms] by blast
  qed
  show "release d r = (if owned_run d r
      then for_res [?f..<?e] (\<lambda>index d. clean_page d index) d else release d r)"
  proof (cases "owned_run d r")
    case True
    note o = True [unfolded owned_run_iff [OF assms]]
    have "checked_add ?f (run_count r) = Some ?e" using conjunct2 [OF o] size by (simp add: checked_add_def)
    moreover have "for_res [?f..<?e] check () = Inr ()" using loop o by blast
    ultimately have "release d r = for_res [?f..<?e] (\<lambda>index d. clean_page d index) d"
      using conjunct1 [OF o] conjunct1 [OF conjunct2 [OF o]]
        conjunct1 [OF conjunct2 [OF conjunct2 [OF o]]]
      by (simp add: unfold del: checked_add_Some)
    with True show ?thesis by simp
  qed simp
qed

lemma release_owned:
  assumes "md_wf d" "owned_run d r"
  shows "\<exists>d'. release d r = Inr d' \<and> released_upto d (run_first r) (run_first r + run_count r) d'"
proof -
  note o = assms(2) [unfolded owned_run_iff [OF assms(1)]]
  have "\<exists>d'. for_res [run_first r..<run_first r + run_count r] (\<lambda>index d. clean_page d index) d = Inr d'
      \<and> released_upto d (run_first r) (run_first r + run_count r) d'"
  proof (rule release_loop_total [OF assms(1)])
    show "run_first r + run_count r \<le> md_bits_size d" using o by blast
  next
    fix i assume "run_first r \<le> i" "i < run_first r + run_count r"
    with o show "pg_attribute (md_pages d ! i) \<noteq> 0 \<and> pg_zone (md_pages d ! i) \<noteq> None
      \<and> pg_attribute (md_pages d ! i) AND KERNEL_INIT = 0" by metis
  qed
  then show ?thesis using release_steps(1) [OF assms(1), of r] assms(2) by simp
qed

lemma release_Inr:
  assumes "md_wf d"
  shows "release d r = Inr d' \<Longrightarrow> owned_run d r
    \<and> released_upto d (run_first r) (run_first r + run_count r) d'"
  using release_owned [OF assms] release_steps(2) [OF assms] by fastforce

section \<open>Allocation\<close>

lemma allocate_spec:
  assumes "md_wf d"
  shows "if n = 0 then allocate d area n = Inr (Inl InvalidCount, d)
    else case spec_first_fit d n (zone_windows d area) of
      None \<Rightarrow> allocate d area n = Inr (Inl OutOfMemory, d)
    | Some f \<Rightarrow> \<exists>d'. allocate d area n = Inr (Inr \<lparr>run_first = f, run_count = n\<rparr>, d')
        \<and> claimed_upto page_attributes d f (f + n) d'"
proof (cases "n = 0")
  case True
  then show ?thesis by (simp add: allocate_def)
next
  case False
  have l: "md_zones_size d \<le> length (md_zones d)" using assms by (simp add: md_wf_def layout_ok_def)
  have "take (md_zones_size d) (md_zones d) = map (\<lambda>z. md_zones d ! z) [0..<md_zones_size d]"
    using l by (intro nth_equalityI) auto
  then have "zone_windows d area = map (\<lambda>z. zone_window area (md_zones d ! z)) [0..<md_zones_size d]"
    by (simp add: zone_windows_def comp_def)
  moreover have "\<forall>z \<in> set [0..<md_zones_size d]. z < md_zones_size d" by simp
  ultimately show ?thesis
    using allocate_from_spec [OF assms, of n "[0..<md_zones_size d]" area] False
    by (auto simp: allocate_def split: option.splits)
qed

text \<open>
  C3. Allocation is the naive first fit: on a well-formed descriptor \<^verbatim>\<open>allocate\<close>, with its
  running length and its two shortcuts, never panics, answers exactly what trying every start
  position of every zone in order answers, and leaves the descriptor untouched on an error.
\<close>

theorem allocate_first_fit:
  assumes "md_wf d"
  shows "if n = 0 then allocate d area n = Inr (Inl InvalidCount, d)
    else case spec_first_fit d n (zone_windows d area) of
      None \<Rightarrow> allocate d area n = Inr (Inl OutOfMemory, d)
    | Some f \<Rightarrow> \<exists>d'. allocate d area n = Inr (Inr \<lparr>run_first = f, run_count = n\<rparr>, d')
        \<and> claimed_upto page_attributes d f (f + n) d'"
  by (rule allocate_spec [OF assms])

text \<open>The outcome of a successful allocation, in the form the other proofs use.\<close>

lemma allocate_outcome:
  assumes "md_wf d" "allocate d area n = Inr (Inr r, d')"
  shows "0 < n" "run_count r = n" "claimed_upto page_attributes d (run_first r) (run_first r + n) d'"
    "\<exists>z < md_zones_size d. least_fit d (fst (zone_window area (md_zones d ! z)))
       (snd (zone_window area (md_zones d ! z))) n (run_first r)"
proof -
  show n: "0 < n" using assms(2) by (auto simp: allocate_def split: if_splits)
  have "\<forall>z \<in> set [0..<md_zones_size d]. z < md_zones_size d" by simp
  note spec = allocate_from_spec [OF assms(1) n this, of area]
  have a: "allocate_from d area n [0..<md_zones_size d] = Inr (Inr r, d')"
    using assms(2) n by (simp add: allocate_def)
  show "run_count r = n" "claimed_upto page_attributes d (run_first r) (run_first r + n) d'"
    "\<exists>z < md_zones_size d. least_fit d (fst (zone_window area (md_zones d ! z)))
       (snd (zone_window area (md_zones d ! z))) n (run_first r)"
    using spec a by (auto split: option.splits)
qed

lemma allocate_fit:
  assumes "md_wf d" "allocate d area n = Inr (Inr r, d')"
  shows "\<exists>z < md_zones_size d.
    (\<forall>i \<in> run_pages r. in_zone d z i \<and> i < md_bits_size d \<and> \<not> page_used d i)
    \<and> (area = Mapped \<longrightarrow> (run_first r + n) * PAGE_2M_SIZE \<le> DIRECT_RAM_END)"
proof -
  note o = allocate_outcome [OF assms]
  obtain z s e where z: "z < md_zones_size d" and w: "zone_window area (md_zones d ! z) = (s, e)"
    and f: "least_fit d s e n (run_first r)" using o(4) by (metis prod.collapse)
  have l: "layout_ok d" using assms(1) by (simp add: md_wf_def)
  note b = zone_window_bounds [OF l z w]
  have "in_zone d z i \<and> i < md_bits_size d \<and> \<not> page_used d i" if "i \<in> run_pages r" for i
    using f b z o(2) that by (auto simp: least_fit_def fits_def in_zone_def run_pages_def)
  moreover have "(run_first r + n) * PAGE_2M_SIZE \<le> DIRECT_RAM_END" if "area = Mapped"
  proof -
    have "(run_first r + n) * PAGE_2M_SIZE \<le> e * PAGE_2M_SIZE"
      using f by (intro mult_le_mono1) (simp add: least_fit_def)
    then show ?thesis using b(5) [OF that] by (rule order_trans)
  qed
  ultimately show ?thesis using z by blast
qed

lemma allocate_result:
  assumes "md_wf d" "allocate d area n = Inr (Inr r, d')"
  shows "md_wf d' \<and> run_count r = n \<and> owned_run d' r
    \<and> run_pages r \<subseteq> free_pages d \<and> free_pages d' = free_pages d - run_pages r
    \<and> list_all (\<lambda>i. i \<in> run_pages r \<or> md_pages d' ! i = md_pages d ! i) [0..<md_bits_size d]
    \<and> (area = Mapped \<longrightarrow> physical_address r + n * PAGE_2M_SIZE \<le> DIRECT_RAM_END)"
proof -
  note o = allocate_outcome [OF assms]
  obtain z where z: "z < md_zones_size d"
    and fit: "\<And>i. i \<in> run_pages r \<Longrightarrow> in_zone d z i \<and> i < md_bits_size d \<and> \<not> page_used d i"
    and mapped: "area = Mapped \<Longrightarrow> (run_first r + n) * PAGE_2M_SIZE \<le> DIRECT_RAM_END"
    using allocate_fit [OF assms] by blast
  have l: "layout_ok d" using assms(1) by (simp add: md_wf_def)
  have wf: "md_wf d'" and same: "same_layout d d'" using o(3) by (simp_all add: claimed_upto_def)
  note sz = same_layout_sizes [OF same]
  have bound: "run_first r + n \<le> md_bits_size d"
    using fit [of "run_first r + n - 1"] o(1,2) by (simp add: run_pages_def) linarith
  have page: "md_pages d' ! i = claimed_page (page_attributes i) (md_pages d ! i)" if "i \<in> run_pages r" for i
    using o(2,3) fit [OF that] that by (auto simp: claimed_upto_def run_pages_def)
  have "owned_run d' r"
    unfolding owned_run_def
    using o(1,2) bound sz fit page same_layout_in_zone [OF same l]
    by (intro conjI exI [of _ z]) (auto simp: claimed_page_def)
  moreover have "run_pages r \<subseteq> free_pages d" using fit by (auto simp: free_pages_def)
  moreover have "free_pages d' = free_pages d - run_pages r"
    using o(2,3) sz by (auto simp: free_pages_def claimed_upto_def run_pages_def)
  moreover have "list_all (\<lambda>i. i \<in> run_pages r \<or> md_pages d' ! i = md_pages d ! i) [0..<md_bits_size d]"
    using o(2,3) by (auto simp: list_all_iff claimed_upto_def run_pages_def)
  moreover have "physical_address r + n * PAGE_2M_SIZE \<le> DIRECT_RAM_END" if "area = Mapped"
  proof -
    have le: "run_first r * PAGE_2M_SIZE + n * PAGE_2M_SIZE \<le> DIRECT_RAM_END"
      using mapped [OF that] by (simp add: add_mult_distrib)
    then have "run_first r * PAGE_2M_SIZE < usize_range" by (simp add: DIRECT_RAM_END_def)
    with le show ?thesis by (simp add: physical_address_def umul_exact)
  qed
  ultimately show ?thesis using wf o(2) by blast
qed

text \<open>
  C4. A successful allocation takes a run of free pages of one zone and nothing else: it has the
  requested length, its pages were free and are now owned by the caller, every other page keeps
  its state, the descriptor stays consistent, and a run asked for in the mapped area lies
  completely below the end of the direct mapping.
\<close>

theorem allocate_sound:
  assumes "md_wf d" "allocate d area n = Inr (Inr r, d')"
  shows "md_wf d' \<and> run_count r = n \<and> owned_run d' r
    \<and> run_pages r \<subseteq> free_pages d \<and> free_pages d' = free_pages d - run_pages r
    \<and> list_all (\<lambda>i. i \<in> run_pages r \<or> md_pages d' ! i = md_pages d ! i) [0..<md_bits_size d]
    \<and> (area = Mapped \<longrightarrow> physical_address r + n * PAGE_2M_SIZE \<le> DIRECT_RAM_END)"
  by (rule allocate_result [OF assms])

text \<open>The example machine: two mapped pages are taken at page 1.\<close>

lemma example_windows:
  "zone_windows example_descriptor Mapped = [(1, 5)]" "zone_windows example_descriptor Any = [(1, 8)]"
  by (simp_all add: zone_windows_def zone_window_def example_sizes example_zone_bounds
      zone_end_address_def DIRECT_RAM_END_def PAGE_2M_SIZE_def take_Suc hd_conv_nth
      example_descriptor_def example_zone_def zone_first_def)

lemma example_spec:
  "spec_first_fit example_descriptor 2 (zone_windows example_descriptor Mapped) = Some 1"
  "spec_first_fit example_descriptor 9 (zone_windows example_descriptor Any) = None"
  by (simp_all add: example_windows spec_fit_def upt_rec example_page_used)

theorem allocate_first_fit_witness:
  "(\<exists>d'. allocate example_descriptor Mapped 2 = Inr (Inr \<lparr>run_first = 1, run_count = 2\<rparr>, d'))
   \<and> allocate example_descriptor Any 9 = Inr (Inl OutOfMemory, example_descriptor)
   \<and> allocate example_descriptor Any 0 = Inr (Inl InvalidCount, example_descriptor)"
  using allocate_first_fit [OF example_wf, of 2 Mapped] allocate_first_fit [OF example_wf, of 9 Any]
    allocate_first_fit [OF example_wf, of 0 Any]
  unfolding example_spec by auto

lemma example_allocate:
  "\<exists>r d'. allocate example_descriptor Mapped 2 = Inr (Inr r, d')"
proof -
  have "map (\<lambda>z. zone_window Mapped (md_zones example_descriptor ! z))
      [0..<md_zones_size example_descriptor] = zone_windows example_descriptor Mapped"
    by (simp add: zone_windows_def example_descriptor_def)
  then show ?thesis
    using allocate_from_spec [OF example_wf, of 2 "[0..<md_zones_size example_descriptor]" Mapped]
      example_spec(1)
    by (auto simp: allocate_def)
qed

lemma example_allocate_single: "\<exists>r d. allocate example_descriptor Mapped 1 = Inr (Inr r, d)"
proof -
  have "map (\<lambda>z. zone_window Mapped (md_zones example_descriptor ! z))
      [0..<md_zones_size example_descriptor] = zone_windows example_descriptor Mapped"
    by (simp add: zone_windows_def example_descriptor_def)
  moreover have "spec_first_fit example_descriptor 1 (zone_windows example_descriptor Mapped) = Some 1"
    by (simp add: example_windows spec_fit_def upt_rec example_page_used)
  ultimately show ?thesis
    using allocate_from_spec [OF example_wf, of 1 "[0..<md_zones_size example_descriptor]" Mapped]
    by (auto simp: allocate_def)
qed

theorem allocate_sound_witness:
  "\<exists>r d'. allocate example_descriptor Mapped 2 = Inr (Inr r, d') \<and> md_wf d' \<and> run_count r = 2
    \<and> owned_run d' r \<and> free_pages d' = free_pages example_descriptor - run_pages r"
  using example_allocate allocate_sound [OF example_wf] by blast

text \<open>A run of \<open>n\<close> pages from \<open>f\<close> on that the code may hand out: inside one zone's window, all free.\<close>

definition available :: "memory_descriptor \<Rightarrow> allocation_area \<Rightarrow> nat \<Rightarrow> nat \<Rightarrow> bool" where
  "available d area n f \<longleftrightarrow> (\<exists>(s, e) \<in> set (zone_windows d area). s \<le> f \<and> f + n \<le> e)
     \<and> {f..<f + n} \<subseteq> free_pages d"

lemma window_fits:
  assumes "md_wf d" "(s, e) \<in> set (zone_windows d area)" "s \<le> f" "f + n \<le> e"
  shows "fits d f n \<longleftrightarrow> {f..<f + n} \<subseteq> free_pages d"
proof -
  have l: "layout_ok d" using assms(1) by (simp add: md_wf_def)
  then have "md_zones_size d \<le> length (md_zones d)" by (simp add: layout_ok_def)
  with assms(2) obtain z where "z < md_zones_size d" "zone_window area (md_zones d ! z) = (s, e)"
    by (auto simp: zone_windows_def in_set_conv_nth)
  then have "e \<le> md_bits_size d" using zone_window_bounds [OF l] by blast
  with assms(4) show ?thesis by (auto simp: fits_def free_pages_def)
qed

lemma spec_fit_None_iff:
  assumes "0 < n"
  shows "spec_fit d n (s, e) = None \<longleftrightarrow> no_fit d s e n"
proof -
  have "g < Suc e - n \<longleftrightarrow> g + n \<le> e" for g using assms by auto
  then show ?thesis
    unfolding spec_fit_def find_None_iff no_fit_def fits_def list_all_iff
    by (auto simp: Bex_def)
qed

lemma spec_first_fit_None_iff:
  "spec_first_fit d n ws = None \<longleftrightarrow> list_all (\<lambda>w. spec_fit d n w = None) ws"
  by (induction ws) (auto split: option.splits)

lemma allocate_exhausted:
  assumes "md_wf d"
  shows "allocate d area n = Inr (Inl OutOfMemory, d) \<longleftrightarrow> n \<noteq> 0 \<and> (\<forall>f. \<not> available d area n f)"
proof (cases "n = 0")
  case True
  then show ?thesis by (simp add: allocate_def)
next
  case False
  have "map (\<lambda>z. zone_window area (md_zones d ! z)) [0..<md_zones_size d] = zone_windows d area"
    using assms by (intro nth_equalityI) (auto simp: zone_windows_def md_wf_def layout_ok_def)
  then have "allocate d area n = Inr (Inl OutOfMemory, d) \<longleftrightarrow>
      spec_first_fit d n (zone_windows d area) = None"
    using allocate_from_spec [OF assms, of n "[0..<md_zones_size d]" area] False
    by (auto simp: allocate_def split: option.splits)
  also have "\<dots> \<longleftrightarrow> (\<forall>(s, e) \<in> set (zone_windows d area). no_fit d s e n)"
    using False by (auto simp: spec_first_fit_None_iff list_all_iff spec_fit_None_iff)
  also have "\<dots> \<longleftrightarrow> (\<forall>f. \<not> available d area n f)"
    using window_fits [OF assms] by (fastforce simp: available_def no_fit_def)
  finally show ?thesis using False by simp
qed

text \<open>
  C14. The allocator is complete: on a well-formed descriptor it reports that memory is
  exhausted exactly when no run of the requested length is available in any zone, so neither
  the free-counter shortcut nor the running length ever misses a fitting run.
\<close>

theorem allocate_complete:
  assumes "md_wf d"
  shows "allocate d area n = Inr (Inl OutOfMemory, d) \<longleftrightarrow> n \<noteq> 0 \<and> (\<forall>f. \<not> available d area n f)"
  by (rule allocate_exhausted [OF assms])

theorem allocate_complete_witness:
  "allocate example_descriptor Any 9 = Inr (Inl OutOfMemory, example_descriptor)"
  using allocate_complete [OF example_wf, of Any 9]
  by (auto simp: available_def example_windows)

section \<open>What release promises\<close>

lemma owned_run_not_free:
  assumes "md_wf d" "owned_run d x"
  shows "run_pages x \<inter> free_pages d = {}"
proof -
  have "page_used d i" if "i \<in> run_pages x" for i
  proof -
    have "i < md_bits_size d" "pg_attribute (md_pages d ! i) \<noteq> 0"
      using assms(2) that by (auto simp: owned_run_def run_pages_def)
    then show ?thesis using assms(1) by (simp add: md_wf_def page_state_def Let_def)
  qed
  then show ?thesis by (auto simp: free_pages_def)
qed

lemma owned_in_range: "owned_run d x \<Longrightarrow> i \<in> run_pages x \<Longrightarrow> i < md_bits_size d"
  by (auto simp: owned_run_def run_pages_def)

lemma release_result:
  assumes "md_wf d" "release d r = Inr d'"
  shows "owned_run d r \<and> md_wf d' \<and> same_layout d d' \<and> free_pages d' = free_pages d \<union> run_pages r
    \<and> (\<forall>i < md_bits_size d. i \<notin> run_pages r \<longrightarrow> md_pages d' ! i = md_pages d ! i)"
proof -
  have o: "owned_run d r" and u: "released_upto d (run_first r) (run_first r + run_count r) d'"
    using release_Inr [OF assms] by auto
  have sz: "md_bits_size d' = md_bits_size d"
    using u same_layout_sizes by (simp add: released_upto_def)
  have "run_pages r \<inter> free_pages d = {}" by (rule owned_run_not_free [OF assms(1) o])
  moreover have "run_pages r \<subseteq> {..<md_bits_size d}" using owned_in_range [OF o] by auto
  ultimately have "free_pages d' = free_pages d \<union> run_pages r"
    using u sz by (auto simp: free_pages_def released_upto_def run_pages_def)
  then show ?thesis using o u by (auto simp: released_upto_def run_pages_def)
qed

text \<open>
  C5. Release accepts exactly the runs the caller owns: any other run (empty, past the end,
  partly free, across zones, or kernel-reserved) panics; an owned run is given back whole, the
  free set grows by exactly its pages, every other page keeps its state, and the descriptor
  stays consistent.
\<close>

theorem release_exact:
  assumes "md_wf d"
  shows "case release d r of
      Inl p \<Rightarrow> \<not> owned_run d r
    | Inr d' \<Rightarrow> owned_run d r \<and> md_wf d' \<and> free_pages d' = free_pages d \<union> run_pages r
        \<and> run_pages r \<inter> free_pages d = {}
        \<and> list_all (\<lambda>i. i \<in> run_pages r \<or> md_pages d' ! i = md_pages d ! i) [0..<md_bits_size d]"
proof (cases "release d r")
  case (Inl p)
  then show ?thesis using release_owned [OF assms] by fastforce
next
  case (Inr d')
  then show ?thesis
    using release_result [OF assms Inr] owned_run_not_free [OF assms] by (auto simp: list_all_iff)
qed

theorem release_exact_witness:
  "\<exists>p. release example_descriptor \<lparr>run_first = 0, run_count = 1\<rparr> = Inl p"
proof -
  have "\<not> owned_run example_descriptor \<lparr>run_first = 0, run_count = 1\<rparr>"
    by (auto simp: owned_run_def run_pages_def example_page_nth KERNEL_INIT_def in_zone_def
        example_sizes example_zone_bounds)
  then show ?thesis
    using release_exact [OF example_wf, of "\<lparr>run_first = 0, run_count = 1\<rparr>"]
    by (auto split: sum.splits)
qed

lemma claimed_then_released:
  assumes "md_wf d" "layout_ok d" "claimed_upto page_attributes d f k d'" "released_upto d' f k d''"
    and "\<And>i. f \<le> i \<Longrightarrow> i < k \<Longrightarrow> i < md_bits_size d \<and> \<not> page_used d i"
  shows "d'' = d"
proof -
  have same: "same_layout d d'" "same_layout d' d''"
    using assms(3,4) by (simp_all add: claimed_upto_def released_upto_def)
  note sz = same_layout_sizes [OF same(1)] and sz' = same_layout_sizes [OF same(2)]
  have "md_pages d'' = md_pages d"
  proof (rule nth_equalityI)
    show "length (md_pages d'') = length (md_pages d)" using sz sz' by simp
    fix i assume "i < length (md_pages d'')"
    then have i: "i < md_bits_size d" using sz sz' assms(2) by (simp add: layout_ok_def)
    have "pg_attribute (md_pages d ! i) = 0" "pg_reference_count (md_pages d ! i) = 0"
      if "f \<le> i" "i < k"
      using free_page_state [OF assms(1) i] assms(5) [OF that] by auto
    then have "freed_page (claimed_page (page_attributes i) (md_pages d ! i)) = md_pages d ! i" if "f \<le> i" "i < k"
      using that by (cases "md_pages d ! i") (simp add: freed_page_def claimed_page_def)
    then show "md_pages d'' ! i = md_pages d ! i"
      using assms(3,4) i sz by (auto simp: claimed_upto_def released_upto_def)
  qed
  moreover have "page_used d'' j = page_used d j" for j
    using assms(3-5) by (auto simp: claimed_upto_def released_upto_def)
  moreover have "md_wf d''" using assms(4) by (simp add: released_upto_def)
  ultimately show ?thesis by (intro md_wf_ext [OF assms(1) _ same_layout_trans [OF same]])
qed

lemma allocated_released:
  assumes "md_wf d" "allocate d area n = Inr (Inr r, d')"
  shows "release d' r = Inr d"
proof -
  note o = allocate_outcome [OF assms]
  have wf: "md_wf d'" using o(3) by (simp add: claimed_upto_def)
  have "owned_run d' r"
    using allocate_result [OF assms] by blast
  then obtain d'' where d'': "release d' r = Inr d''"
    "released_upto d' (run_first r) (run_first r + run_count r) d''"
    using release_owned [OF wf] by blast
  have "d'' = d"
  proof (rule claimed_then_released [OF assms(1) _ o(3)])
    show "layout_ok d" using assms(1) by (simp add: md_wf_def)
    show "released_upto d' (run_first r) (run_first r + n) d''" using d''(2) o(2) by simp
    show "i < md_bits_size d \<and> \<not> page_used d i"
      if "run_first r \<le> i" "i < run_first r + n" for i
      using allocate_fit [OF assms] that o(2) by (auto simp: run_pages_def)
  qed
  with d'' show ?thesis by simp
qed

text \<open>
  C13. Allocating a run and releasing it restores the descriptor exactly: bitmap, pages, zone
  counters and every other field are those from before the allocation.
\<close>

theorem allocate_release_roundtrip:
  assumes "md_wf d" "allocate d area n = Inr (Inr r, d')"
  shows "release d' r = Inr d"
  by (rule allocated_released [OF assms])

theorem allocate_release_roundtrip_witness:
  "\<exists>r d'. allocate example_descriptor Mapped 2 = Inr (Inr r, d')
     \<and> release d' r = Inr example_descriptor"
  using example_allocate allocate_release_roundtrip [OF example_wf] by blast

section \<open>The contract of the allocator\<close>

text \<open>The allocator as its clients call it: a request is an area and a page count.\<close>

definition request :: "allocation_area \<times> usize \<Rightarrow> memory_descriptor
    \<Rightarrow> (page_run option \<times> memory_descriptor) res" where
  "request q d = bind_res (allocate d (fst q) (snd q)) (\<lambda>(result, d').
     Inr (case result of Inl e \<Rightarrow> None | Inr r \<Rightarrow> Some r, d'))"

lemma request_simps:
  assumes "md_wf d"
  shows "request q d = Inr (Some r, d') \<longleftrightarrow> allocate d (fst q) (snd q) = Inr (Inr r, d')"
    and "request q d = Inr (None, d') \<Longrightarrow> d' = d" and "\<exists>x. request q d = Inr x"
proof -
  have "zs = [0..<md_zones_size d] \<Longrightarrow> n \<noteq> 0 \<Longrightarrow> allocate_from d area n zs = Inr (Inl OutOfMemory, d)
      \<or> (\<exists>x. allocate_from d area n zs = Inr (Inr (fst x), snd x))" for area n zs
    using allocate_from_spec [OF assms, of n zs area] by (auto split: option.splits)
  then have a: "allocate d (fst q) (snd q) = Inr (Inl InvalidCount, d)
      \<or> allocate d (fst q) (snd q) = Inr (Inl OutOfMemory, d)
      \<or> (\<exists>r d'. allocate d (fst q) (snd q) = Inr (Inr r, d'))"
    by (auto simp: allocate_def)
  show "request q d = Inr (Some r, d') \<longleftrightarrow> allocate d (fst q) (snd q) = Inr (Inr r, d')"
    "request q d = Inr (None, d') \<Longrightarrow> d' = d" "\<exists>x. request q d = Inr x"
    using a by (auto simp: request_def)
qed

lemma owned_run_transfer:
  assumes "layout_ok d" "same_layout d d'" "owned_run d x"
    and "\<And>i. i \<in> run_pages x \<Longrightarrow> md_pages d' ! i = md_pages d ! i"
  shows "owned_run d' x"
proof -
  note in_zone = same_layout_in_zone [OF assms(2,1)] and sz = same_layout_sizes [OF assms(2)]
  show ?thesis
    using assms(3,4) in_zone sz by (fastforce simp: owned_run_def)
qed

lemma allocate_keeps_owned:
  assumes "md_wf d" "allocate d area n = Inr (Inr r, d')" "owned_run d x"
  shows "owned_run d' x"
proof (rule owned_run_transfer [OF _ _ assms(3)])
  note ar = allocate_result [OF assms(1,2)]
  show "layout_ok d" using assms(1) by (simp add: md_wf_def)
  show "same_layout d d'" using allocate_outcome [OF assms(1,2)] by (simp add: claimed_upto_def)
  fix i assume "i \<in> run_pages x"
  then have "i < md_bits_size d" "i \<notin> run_pages r"
    using ar owned_run_not_free [OF assms(1,3)] owned_in_range [OF assms(3)] by auto
  with ar show "md_pages d' ! i = md_pages d ! i" by (auto simp: list_all_iff)
qed

lemma release_keeps_owned:
  assumes "md_wf d" "release d r = Inr d'" "owned_run d x" "run_pages r \<inter> run_pages x = {}"
  shows "owned_run d' x"
proof (rule owned_run_transfer [OF _ _ assms(3)])
  show "layout_ok d" using assms(1) by (simp add: md_wf_def)
  show "same_layout d d'" using release_result [OF assms(1,2)] by blast
  show "md_pages d' ! i = md_pages d ! i" if "i \<in> run_pages x" for i
    using release_result [OF assms(1,2)] owned_in_range [OF assms(3) that] assms(4) that by blast
qed

interpretation pages: page_allocator md_wf free_pages request "\<lambda>r d. release d r" run_pages owned_run
proof unfold_locales
  fix s s' :: memory_descriptor and q :: "allocation_area \<times> usize" and r x :: page_run
  show "md_wf s \<Longrightarrow> \<exists>x. request q s = Inr x" by (rule request_simps(3))
  show "md_wf s \<Longrightarrow> request q s = Inr (None, s') \<Longrightarrow> s' = s" by (rule request_simps(2))
  show "md_wf s \<Longrightarrow> request q s = Inr (Some r, s') \<Longrightarrow> md_wf s' \<and> owned_run s' r
      \<and> run_pages r \<subseteq> free_pages s \<and> free_pages s' = free_pages s - run_pages r"
    using allocate_result [of s "fst q" "snd q" r s'] by (simp add: request_simps)
  show "md_wf s \<Longrightarrow> request q s = Inr (Some r, s') \<Longrightarrow> owned_run s x \<Longrightarrow> owned_run s' x"
    using allocate_keeps_owned by (simp add: request_simps)
  show "md_wf s \<Longrightarrow> owned_run s r \<Longrightarrow> \<exists>s'. release s r = Inr s'"
    using release_owned by blast
  show "md_wf s \<Longrightarrow> release s r = Inr s' \<Longrightarrow>
      owned_run s r \<and> md_wf s' \<and> free_pages s' = free_pages s \<union> run_pages r"
    using release_result by blast
  show "md_wf s \<Longrightarrow> release s r = Inr s' \<Longrightarrow> owned_run s x \<Longrightarrow> run_pages r \<inter> run_pages x = {} \<Longrightarrow>
      owned_run s' x" by (rule release_keeps_owned)
  show "md_wf s \<Longrightarrow> owned_run s r \<Longrightarrow> run_pages r \<inter> free_pages s = {}"
    by (rule owned_run_not_free)
  show "owned_run s r \<Longrightarrow> run_pages r \<noteq> {}" by (auto simp: owned_run_def run_pages_def)
qed

text \<open>
  C6. Any sequence of allocations and releases by a client that gives back only runs it holds
  succeeds without a panic; afterwards its live runs are pairwise disjoint, none of their pages
  is free, and free pages and live runs together are exactly the pages that were free at the
  start: no page is handed out twice and none is lost.
\<close>

theorem allocation_sequences_safe:
  assumes "md_wf d"
  shows "\<exists>d' live. client_run request (\<lambda>r d. release d r) ops (d, []) = Inr (d', live)
    \<and> md_wf d' \<and> sorted_wrt (\<lambda>r x. run_pages r \<inter> run_pages x = {}) live
    \<and> list_all (\<lambda>r. owned_run d' r \<and> run_pages r \<inter> free_pages d' = {}) live
    \<and> free_pages d' \<union> \<Union> (run_pages ` set live) = free_pages d"
proof -
  have "pages.client_ok (free_pages d) (d, [])"
    using assms by (simp add: pages.client_ok_def pages.disjoint_runs_def)
  then obtain d' live where r: "client_run request (\<lambda>r d. release d r) ops (d, []) = Inr (d', live)"
    and ok: "pages.client_ok (free_pages d) (d', live)"
    using pages.client_run_ok [of "free_pages d" "(d, [])" ops] by force
  have "list_all (\<lambda>r. owned_run d' r \<and> run_pages r \<inter> free_pages d' = {}) live"
    using ok owned_run_not_free [of d'] by (auto simp: pages.client_ok_def list_all_iff)
  with r ok show ?thesis
    by (auto simp: pages.client_ok_def pages.disjoint_runs_def)
qed

theorem allocation_sequences_safe_witness:
  "\<exists>d' live. client_run request (\<lambda>r d. release d r) [Take (Any, 3), Take (Mapped, 1), Give 1]
     (example_descriptor, []) = Inr (d', live) \<and> md_wf d'"
  using allocation_sequences_safe [OF example_wf, of "[Take (Any, 3), Take (Mapped, 1), Give 1]"]
  by blast

text \<open>
  A run cannot be released twice: once a release has succeeded, releasing any run that
  shares a page with it panics, until the page has been allocated again.
\<close>

theorem release_twice_panics:
  assumes "md_wf d" "release d r = Inr d'" "run_pages r \<inter> run_pages x \<noteq> {}"
  shows "\<exists>p. release d' x = Inl p"
  by (rule pages.no_overlapping_dealloc [OF assms])

theorem release_twice_panics_witness:
  "\<exists>r d1 d2 p. allocate example_descriptor Mapped 2 = Inr (Inr r, d1) \<and> release d1 r = Inr d2
     \<and> release d2 r = Inl p"
proof -
  obtain r d1 where a: "allocate example_descriptor Mapped 2 = Inr (Inr r, d1)"
    using example_allocate by blast
  have w: "md_wf d1" "owned_run d1 r" using allocate_result [OF example_wf a] by auto
  obtain d2 where d2: "release d1 r = Inr d2" using release_owned [OF w] by blast
  have "run_pages r \<inter> run_pages r \<noteq> {}" using pages.run_not_empty [OF w(2)] by simp
  with release_twice_panics [OF w(1) d2] a d2 show ?thesis by blast
qed

end
