(* ===== verification/Text_Format.thy ===== *)
theory Text_Format
  imports Kernel_Prelude
begin

text \<open>
  The part of Rust's formatting the kernel's messages use: unsigned decimal numbers (\<^verbatim>\<open>{}\<close>),
  zero-padded hexadecimal numbers (\<^verbatim>\<open>{:#018x}\<close>), truth values, and a printed piece of text
  with its colour (\<^verbatim>\<open>kprint!\<close>). Reading a number back gives the number.
\<close>

type_synonym message = "u32 \<times> string"

definition RED :: u32 where "RED = 0x00ff0000"
definition ORANGE :: u32 where "ORANGE = 0x00ff8000"
definition YELLOW :: u32 where "YELLOW = 0x00ffff00"
definition GREEN :: u32 where "GREEN = 0x0000ff00"
definition BLUE :: u32 where "BLUE = 0x000000ff"
definition INDIGO :: u32 where "INDIGO = 0x0000ffff"
definition PURPLE :: u32 where "PURPLE = 0x008000ff"

definition digit :: "nat \<Rightarrow> char" where
  "digit d = ''0123456789abcdef'' ! d"

function digits_text :: "nat \<Rightarrow> nat \<Rightarrow> string" where
  "digits_text base n =
     (if n < base \<or> base < 2 then [digit n] else digits_text base (n div base) @ [digit (n mod base)])"
  by auto
termination by (relation "measure snd") auto

declare digits_text.simps [simp del]

definition decimal :: "nat \<Rightarrow> string" where
  "decimal n = digits_text 10 n"

definition hexadecimal :: "nat \<Rightarrow> nat \<Rightarrow> string" where
  "hexadecimal width n =
     (let ds = digits_text 16 n in ''0x'' @ replicate (width - 2 - length ds) (CHR ''0'') @ ds)"

definition truth_text :: "bool \<Rightarrow> string" where
  "truth_text b = (if b then ''true'' else ''false'')"

text \<open>Reading numbers.\<close>

definition digit_value :: "char \<Rightarrow> nat" where
  "digit_value c = length (takeWhile (\<lambda>d. d \<noteq> c) ''0123456789abcdef'')"

definition text_value :: "nat \<Rightarrow> string \<Rightarrow> nat" where
  "text_value base s = foldl (\<lambda>v c. v * base + digit_value c) 0 s"

lemma digit_cases: "d < 16 \<Longrightarrow> d \<in> set [0, 1, 2, 3, 4, 5, 6, 7, 8, 9, 10, 11, 12, 13, 14, 15 :: nat]"
  unfolding list.set insert_iff empty_iff by presburger

lemma digit_value_digit: "d < 16 \<Longrightarrow> digit_value (digit d) = d"
  using digit_cases [of d] by (auto simp: digit_value_def digit_def)

lemma digit_in: "d < 16 \<Longrightarrow> digit d \<in> set ''0123456789abcdef''"
  unfolding digit_def by (rule nth_mem) simp

lemma digit_value_zero: "digit_value (CHR ''0'') = 0"
  by (simp add: digit_value_def)

lemma text_value_snoc: "text_value base (s @ [c]) = text_value base s * base + digit_value c"
  by (simp add: text_value_def)

lemma text_value_digits:
  "2 \<le> base \<Longrightarrow> base \<le> 16 \<Longrightarrow> text_value base (digits_text base n) = n"
proof (induction base n rule: digits_text.induct)
  case (1 base n)
  show ?case
  proof (cases "n < base")
    case True
    then show ?thesis
      using 1 by (subst digits_text.simps) (simp add: text_value_def digit_value_digit)
  next
    case False
    then have "text_value base (digits_text base (n div base)) = n div base" using 1 by simp
    moreover have "n mod base < 16" using 1(2,3) by (metis less_le_trans mod_less_divisor zero_less_numeral)
    ultimately show ?thesis
      using 1 False by (subst digits_text.simps) (simp add: text_value_snoc digit_value_digit)
  qed
qed

lemma text_value_padded: "text_value base (replicate k (CHR ''0'') @ s) = text_value base s"
  by (induction k) (simp_all add: text_value_def digit_value_zero)

lemma digits_text_set: "2 \<le> base \<Longrightarrow> base \<le> 16 \<Longrightarrow> set (digits_text base n) \<subseteq> set ''0123456789abcdef''"
proof (induction base n rule: digits_text.induct)
  case (1 base n)
  have m: "n mod base < 16" using 1(2,3) by (metis less_le_trans mod_less_divisor zero_less_numeral)
  show ?case
  proof (cases "n < base")
    case True
    then show ?thesis using 1 digit_in [of n] by (subst digits_text.simps) simp
  next
    case False
    then have "set (digits_text base (n div base)) \<subseteq> set ''0123456789abcdef''" using 1 by simp
    then show ?thesis using 1 False digit_in [OF m] by (subst digits_text.simps) simp
  qed
qed

lemma decimal_value: "text_value 10 (decimal n) = n"
  by (simp add: decimal_def text_value_digits)

lemma hexadecimal_value: "text_value 16 (drop 2 (hexadecimal width n)) = n"
  by (simp add: hexadecimal_def Let_def text_value_padded text_value_digits)

lemma length_digits_text:
  "2 \<le> base \<Longrightarrow> n < base ^ k \<Longrightarrow> 0 < k \<Longrightarrow> length (digits_text base n) \<le> k"
proof (induction base n arbitrary: k rule: digits_text.induct)
  case (1 base n)
  show ?case
  proof (cases "n < base")
    case True
    then show ?thesis using 1 by (subst digits_text.simps) simp
  next
    case False
    then obtain j where j: "k = Suc j" "0 < j" using 1(3,4) by (cases k; cases "k - 1") auto
    have "n div base < base ^ j" using 1(2,3) j by (simp add: div_less_iff_less_mult mult.commute)
    then have "length (digits_text base (n div base)) \<le> j" using 1 False j by simp
    then show ?thesis using 1(2) False j by (subst digits_text.simps) simp
  qed
qed

text \<open>A 64-bit number printed with \<^verbatim>\<open>{:#018x}\<close> is always 18 characters.\<close>

lemma length_hexadecimal_u64: "length (hexadecimal 18 (unat (x :: u64))) = 18"
proof -
  have "length (digits_text 16 (unat x)) \<le> 16"
    using unsigned_less [of x] by (intro length_digits_text) simp_all
  then show ?thesis by (simp add: hexadecimal_def Let_def)
qed

end
