(* ===== verification/Allocator_Check.thy ===== *)
theory Allocator_Check
  imports Allocation Memory_Init Text_Format
begin

text \<open>
  The self-test of the page allocator (\<^verbatim>\<open>check_allocation_state\<close> and \<^verbatim>\<open>verify\<close> of
  \<^verbatim>\<open>src/kernel/memory/allocator.rs\<close>, built with the \<^verbatim>\<open>memory-check\<close> feature). The check accepts
  exactly the descriptors whose bitmap, pages and counters agree; the self-test passes on every
  machine of the kind it is written for and restores the descriptor.
\<close>

section \<open>Operations\<close>

type_synonym page_counts = "usize \<times> usize \<times> usize"

definition check_zone_page :: "memory_descriptor \<Rightarrow> nat \<Rightarrow> nat \<Rightarrow> page_counts \<Rightarrow> page_counts res" where
  "check_zone_page d z index = (\<lambda>(used, free, refs).
     let p = md_pages d ! index in
     bind_res (ensure (pg_zone p = Some z) ''page.zone == zone_ptr'') (\<lambda>_.
     bind_res (ensure (pg_physical_address p = umul index PAGE_2M_SIZE) ''page.physical_address == index * PAGE_2M_SIZE'') (\<lambda>_.
     bind_res (is_used d index) (\<lambda>u.
     bind_res (ensure (u = (pg_attribute p \<noteq> 0)) ''self.is_used(index) == (page.attribute != 0)'') (\<lambda>_.
     bind_res (ensure ((pg_attribute p \<noteq> 0) = (pg_reference_count p > 0)) ''(page.attribute != 0) == (page.reference_count > 0)'') (\<lambda>_.
     bind_res (is_used d index) (\<lambda>u.
     Inr (if u then uadd used 1 else used, if u then free else uadd free 1, uadd refs (pg_reference_count p)))))))))"

definition check_zone_state :: "memory_descriptor \<Rightarrow> nat \<Rightarrow> page_counts res" where
  "check_zone_state d z =
     (let zn = md_zones d ! z in
      bind_res (for_res [zn_start_address zn div PAGE_2M_SIZE..<zn_end_address zn div PAGE_2M_SIZE]
        (check_zone_page d z) (0, 0, 0)) (\<lambda>counts.
      bind_res (ensure (counts = (zn_page_using_count zn, zn_page_free_count zn, zn_total_pages_ref_count zn))
        ''counts == zone counters'') (\<lambda>_.
      bind_res (ensure (uadd (fst counts) (fst (snd counts)) = zn_number_pages zn)
        ''counts.0 + counts.1 == zone.number_pages'') (\<lambda>_.
      Inr counts))))"

definition check_reserved_page :: "memory_descriptor \<Rightarrow> nat \<Rightarrow> unit res" where
  "check_reserved_page d index =
     (let p = md_pages d ! index in
      if pg_zone p = None \<or> pg_attribute p AND KERNEL_INIT \<noteq> 0
      then bind_res (is_used d index) (\<lambda>u. ensure u ''reserved page became free'')
      else Inr ())"

fun add_counts :: "page_counts \<Rightarrow> page_counts \<Rightarrow> page_counts" where
  "add_counts (used, free, refs) (u, f, r) = (uadd used u, uadd free f, uadd refs r)"

definition check_allocation_state :: "memory_descriptor \<Rightarrow> page_counts res" where
  "check_allocation_state d =
     bind_res (for_res [0..<md_zones_size d] (\<lambda>i totals.
         bind_res (check_zone_state d i) (\<lambda>counts. Inr (add_counts totals counts))) (0, 0, 0)) (\<lambda>totals.
     bind_res (for_res [0..<md_bits_size d] (\<lambda>index _. check_reserved_page d index) ()) (\<lambda>_.
     Inr totals))"

text \<open>The self-test, in the four parts of the source.\<close>

definition require_error :: "allocation_error + page_run \<Rightarrow> allocation_error \<Rightarrow> unit res" where
  "require_error r e = (case r of
     Inl e' \<Rightarrow> ensure (e' = e) ''unwrap_err() == error''
   | Inr _ \<Rightarrow> Inl (Panic ''called unwrap_err on an Ok value''))"

definition verify_refusals :: "memory_descriptor \<Rightarrow> (page_counts \<times> memory_descriptor) res" where
  "verify_refusals d =
     bind_res (check_allocation_state d) (\<lambda>baseline.
     bind_res (allocate d Any 0) (\<lambda>(r, d1).
     bind_res (require_error r InvalidCount) (\<lambda>_.
     bind_res (allocate d1 Any (usize_range - 1)) (\<lambda>(r, d2).
     bind_res (require_error r OutOfMemory) (\<lambda>_.
     bind_res (check_allocation_state d2) (\<lambda>c.
     bind_res (ensure (c = baseline) ''memory.check_allocation_state() == baseline'') (\<lambda>_.
     Inr (baseline, d2))))))))"

definition verify_large :: "page_counts \<Rightarrow> memory_descriptor \<Rightarrow> memory_descriptor res" where
  "verify_large baseline d =
     bind_res (allocate d Any 65) (\<lambda>(r, d1).
     bind_res (expect_ok r ''verification needs 65 contiguous pages'') (\<lambda>large.
     bind_res (ensure (run_count large = 65) ''large.page_count() == 65'') (\<lambda>_.
     bind_res (check_allocation_state d1) (\<lambda>c.
     bind_res (ensure (fst (snd c) = usub (fst (snd baseline)) 65) ''baseline.1 - 65'') (\<lambda>_.
     bind_res (allocate d1 Any 1) (\<lambda>(r, d2).
     bind_res (expect_ok r ''called unwrap on an Err value'') (\<lambda>other.
     bind_res (ensure (run_first other < run_first large
         \<or> run_first other \<ge> uadd (run_first large) (run_count large)) ''other.first < large.first'') (\<lambda>_.
     bind_res (check_allocation_state d2) (\<lambda>_.
     bind_res (release d2 large) (\<lambda>d3.
     bind_res (check_allocation_state d3) (\<lambda>_.
     bind_res (allocate d3 Any 65) (\<lambda>(r, d4).
     bind_res (expect_ok r ''called unwrap on an Err value'') (\<lambda>reused.
     bind_res (ensure (run_first reused = run_first large) ''reused.first == first'') (\<lambda>_.
     bind_res (release d4 reused) (\<lambda>d5.
     bind_res (release d5 other) (\<lambda>d6.
     bind_res (check_allocation_state d6) (\<lambda>c.
     bind_res (ensure (c = baseline) ''memory.check_allocation_state() == baseline'') (\<lambda>_.
     Inr d6))))))))))))))))))"

function hold_mapped :: "page_run option list \<Rightarrow> nat \<Rightarrow> memory_descriptor \<Rightarrow> (page_run option list \<times> nat \<times> memory_descriptor) res" where
  "hold_mapped held number d =
     bind_res (allocate d Mapped 1) (\<lambda>(r, d'). case r of
       Inl _ \<Rightarrow> Inr (held, number, d')
     | Inr run \<Rightarrow>
         bind_res (ensure (uadd (physical_address run) PAGE_2M_SIZE \<le> DIRECT_RAM_END)
           ''run.physical_address() + PAGE_2M_SIZE <= DIRECT_RAM_END'') (\<lambda>_.
         if number < length held then hold_mapped (held[number := Some run]) (number + 1) d'
         else Inl (Panic ''index out of bounds'')))"
  by auto
termination by (relation "measure (\<lambda>(held, number, _). length held - number)") auto

declare hold_mapped.simps [simp del]

definition release_held :: "page_run option list \<Rightarrow> memory_descriptor \<Rightarrow> memory_descriptor res" where
  "release_held held d = for_res (List.map_filter id held)
     (\<lambda>run d. bind_res (release d run) (\<lambda>d'. bind_res (check_allocation_state d') (\<lambda>_. Inr d'))) d"

definition verify_fragments :: "page_counts \<Rightarrow> memory_descriptor \<Rightarrow> memory_descriptor res" where
  "verify_fragments baseline d =
     bind_res (hold_mapped (replicate (DIRECT_RAM_END div PAGE_2M_SIZE) None) 0 d) (\<lambda>(held, number, d1).
     bind_res (ensure (number \<ge> 2) ''verification needs two mapped free pages'') (\<lambda>_.
     bind_res (expect (held ! 0) ''called unwrap on a None value'') (\<lambda>hole.
     bind_res (release d1 hole) (\<lambda>d2.
     bind_res (check_allocation_state d2) (\<lambda>fragmented.
     bind_res (allocate d2 Mapped 2) (\<lambda>(r, d3).
     bind_res (require_error r OutOfMemory) (\<lambda>_.
     bind_res (check_allocation_state d3) (\<lambda>c.
     bind_res (ensure (c = fragmented) ''memory.check_allocation_state() == fragmented'') (\<lambda>_.
     bind_res (allocate d3 Mapped 1) (\<lambda>(r, d4).
     bind_res (expect_ok r ''called unwrap on an Err value'') (\<lambda>run.
     bind_res (ensure (run_first run = run_first hole) ''held[0].first == hole_first'') (\<lambda>_.
     bind_res (release_held (held[0 := Some run]) d4) (\<lambda>d5.
     bind_res (check_allocation_state d5) (\<lambda>c.
     bind_res (ensure (c = baseline) ''memory.check_allocation_state() == baseline'') (\<lambda>_.
     Inr d5)))))))))))))))"

definition verify_exhaustion :: "page_counts \<Rightarrow> memory_descriptor \<Rightarrow> memory_descriptor res" where
  "verify_exhaustion baseline d =
     bind_res (ensure (md_zones_size d = 1) ''exhaustion verification requires the default single RAM zone'') (\<lambda>_.
     bind_res (ensure (fst baseline = 0) ''exhaustion verification requires an unreserved RAM zone'') (\<lambda>_.
     bind_res (allocate d Any (fst (snd baseline))) (\<lambda>(r, d1).
     bind_res (expect_ok r ''called unwrap on an Err value'') (\<lambda>entire.
     bind_res (check_allocation_state d1) (\<lambda>exhausted.
     bind_res (ensure (fst (snd exhausted) = 0) ''exhausted.1 == 0'') (\<lambda>_.
     bind_res (allocate d1 Any 1) (\<lambda>(r, d2).
     bind_res (require_error r OutOfMemory) (\<lambda>_.
     bind_res (check_allocation_state d2) (\<lambda>c.
     bind_res (ensure (c = exhausted) ''memory.check_allocation_state() == exhausted'') (\<lambda>_.
     bind_res (release d2 entire) (\<lambda>d3.
     bind_res (check_allocation_state d3) (\<lambda>c.
     bind_res (ensure (c = baseline) ''memory.check_allocation_state() == baseline'') (\<lambda>_.
     Inr d3)))))))))))))"

definition check_message :: "usize \<Rightarrow> message" where
  "check_message free = (GREEN, ''Page allocator checks OK: cross-word, reuse, fragmentation, exhaustion; free=''
     @ decimal free @ [CHR 0x0a])"

definition verify_allocator :: "memory_descriptor \<Rightarrow> (message \<times> memory_descriptor) res" where
  "verify_allocator d =
     bind_res (verify_refusals d) (\<lambda>(baseline, d1).
     bind_res (verify_large baseline d1) (\<lambda>d2.
     bind_res (verify_fragments baseline d2) (\<lambda>d3.
     bind_res (verify_exhaustion baseline d3) (\<lambda>d4.
     Inr (check_message (fst (snd baseline)), d4)))))"

section \<open>What the check accepts\<close>

definition page_checked :: "memory_descriptor \<Rightarrow> nat \<Rightarrow> bool" where
  "page_checked d i \<longleftrightarrow> (page_used d i \<longleftrightarrow> pg_attribute (md_pages d ! i) \<noteq> 0)
     \<and> (pg_attribute (md_pages d ! i) \<noteq> 0 \<longleftrightarrow> 0 < pg_reference_count (md_pages d ! i))"

lemma check_zone_page_eq:
  assumes l: "layout_ok d" and z: "in_zone d z i"
  shows "check_zone_page d z i (u, f, r) = Inr c \<longleftrightarrow> page_checked d i
    \<and> c = (if page_used d i then uadd u 1 else u, if page_used d i then f else uadd f 1,
           uadd r (pg_reference_count (md_pages d ! i)))"
proof -
  have i: "i < md_bits_size d" by (rule zone_pages_in_range [OF l z])
  have p: "pg_zone (md_pages d ! i) = Some z" "pg_physical_address (md_pages d ! i) = i * PAGE_2M_SIZE"
    using l i z by (simp_all add: layout_ok_def page_shape_def)
  have "i * PAGE_2M_SIZE < md_bits_size d * PAGE_2M_SIZE" using i by (simp add: PAGE_2M_SIZE_def)
  also have "\<dots> < usize_range" using l by (simp add: layout_ok_def)
  finally have "umul i PAGE_2M_SIZE = i * PAGE_2M_SIZE" by (rule umul_exact)
  then show ?thesis
    using p i by (auto simp: check_zone_page_def is_used_eq page_checked_def Let_def bind_res_Inr)
qed

text \<open>The loop over the pages of a zone: what it counts if every page passes, and that it stops at the first that does not.\<close>

lemma zone_loop_checks:
  assumes l: "layout_ok d" and z: "z < md_zones_size d" and refs: "refs_in d (md_zones d ! z) < usize_range"
  defines "loop \<equiv> for_res [zone_first (md_zones d ! z)..<zone_last (md_zones d ! z)] (check_zone_page d z) (0, 0, 0)"
  shows "\<forall>i. in_zone d z i \<longrightarrow> page_checked d i \<Longrightarrow>
      loop = Inr (used_in d (md_zones d ! z), free_in d (md_zones d ! z), refs_in d (md_zones d ! z))"
    and "loop = Inr t \<Longrightarrow> \<forall>i. in_zone d z i \<longrightarrow> page_checked d i"
proof -
  let ?zn = "md_zones d ! z"
  let ?f = "zone_first ?zn" and ?l = "zone_last ?zn"
  have s: "zone_shape d z" using l z by (simp add: layout_ok_def)
  then have fl: "?f \<le> ?l" "?l \<le> md_bits_size d" by (simp_all add: zone_shape_def Let_def)
  have size: "md_bits_size d < usize_range" by (rule bits_size_bound [OF l])
  have iz: "in_zone d z i" if "?f \<le> i" "i < ?l" for i using that z by (simp add: in_zone_def)
  let ?U = "\<lambda>k. sum_list (map (\<lambda>j. of_bool (page_used d j)) [?f..<k]) :: nat"
  let ?F = "\<lambda>k. sum_list (map (\<lambda>j. of_bool (\<not> page_used d j)) [?f..<k]) :: nat"
  let ?R = "\<lambda>k. sum_list (map (\<lambda>j. pg_reference_count (md_pages d ! j)) [?f..<k])"
  have le: "?U k \<le> k - ?f" "?F k \<le> k - ?f" for k by (rule sum_upt_le; simp)+
  have sums: "?U ?l = used_in d ?zn" "?F ?l = free_in d ?zn" "?R ?l = refs_in d ?zn"
    by (simp_all add: used_in_def free_in_def refs_in_def)
  show "loop = Inr (used_in d ?zn, free_in d ?zn, refs_in d ?zn)" if all: "\<forall>i. in_zone d z i \<longrightarrow> page_checked d i"
  proof -
    have "\<exists>t. loop = Inr t \<and> t = (?U ?l, ?F ?l, ?R ?l mod usize_range)"
      unfolding loop_def
    proof (rule for_range_total [OF fl(1)])
      fix i t assume i: "?f \<le> i" "i < ?l" and t: "t = (?U i, ?F i, ?R i mod usize_range)"
      have u: "uadd (?U i) 1 = ?U i + 1" "uadd (?F i) 1 = ?F i + 1"
        using le [of i] i fl(2) size by (simp_all add: uadd_exact)
      have r: "uadd (?R i mod usize_range) x = (?R i + x) mod usize_range" for x
        by (simp add: uadd_def mod_simps)
      have "check_zone_page d z i t = Inr (?U (Suc i), ?F (Suc i), ?R (Suc i) mod usize_range)"
        unfolding t check_zone_page_eq [OF l iz [OF i]] using all iz [OF i] i(1) by (simp add: u [simplified] r [simplified])
      then show "\<exists>s'. check_zone_page d z i t = Inr s' \<and> s' = (?U (Suc i), ?F (Suc i), ?R (Suc i) mod usize_range)"
        by blast
    qed simp
    then show ?thesis using refs unfolding sums by simp
  qed
  show "\<forall>i. in_zone d z i \<longrightarrow> page_checked d i" if "loop = Inr t"
  proof -
    have "\<forall>i. ?f \<le> i \<and> i < ?l \<longrightarrow> page_checked d i"
    proof (rule for_range_partial [OF that [unfolded loop_def] fl(1), where I = "\<lambda>k _. \<forall>i. ?f \<le> i \<and> i < k \<longrightarrow> page_checked d i"])
      fix i s s' assume i: "?f \<le> i" "i < ?l" "\<forall>j. ?f \<le> j \<and> j < i \<longrightarrow> page_checked d j"
        and b: "check_zone_page d z i s = Inr s'"
      obtain u f r where "s = (u, f, r)" by (metis prod_cases3)
      with b have "page_checked d i" using check_zone_page_eq [OF l iz [OF i(1,2)]] by simp
      with i(3) show "\<forall>j. ?f \<le> j \<and> j < Suc i \<longrightarrow> page_checked d j" by (auto simp: less_Suc_eq)
    qed auto
    then show ?thesis by (auto simp: in_zone_def)
  qed
qed

lemma check_zone_state_iff:
  assumes l: "layout_ok d" and z: "z < md_zones_size d" and refs: "refs_in d (md_zones d ! z) < usize_range"
  shows "check_zone_state d z = Inr c \<longleftrightarrow> (\<forall>i. in_zone d z i \<longrightarrow> page_checked d i) \<and> zone_counts d z
    \<and> c = (used_in d (md_zones d ! z), free_in d (md_zones d ! z), refs_in d (md_zones d ! z))"
proof -
  let ?zn = "md_zones d ! z"
  let ?f = "zone_first ?zn" and ?l = "zone_last ?zn"
  have s: "zone_shape d z" using l z by (simp add: layout_ok_def)
  then have fl: "?f \<le> ?l" "?l \<le> md_bits_size d" "zn_number_pages ?zn = ?l - ?f"
    by (simp_all add: zone_shape_def Let_def)
  have size: "md_bits_size d < usize_range" by (rule bits_size_bound [OF l])
  let ?loop = "for_res [?f..<?l] (check_zone_page d z) (0, 0, 0)"
  note pass = zone_loop_checks(1) [OF l z refs] and fail = zone_loop_checks(2) [OF l z refs]
  have number: "uadd (used_in d ?zn) (free_in d ?zn) = zn_number_pages ?zn"
    using free_plus_used [of d ?zn] fl size by (simp add: uadd_exact add.commute)
  show ?thesis
  proof
    assume c: "check_zone_state d z = Inr c"
    then obtain t where t: "?loop = Inr t"
      unfolding check_zone_state_def Let_def zone_first_def [symmetric] zone_last_def [symmetric]
      by (auto simp: bind_res_Inr)
    have "?loop = Inr (used_in d ?zn, free_in d ?zn, refs_in d ?zn)" by (rule pass [OF fail [OF t]])
    with c fail [OF t] show "(\<forall>i. in_zone d z i \<longrightarrow> page_checked d i) \<and> zone_counts d z
        \<and> c = (used_in d ?zn, free_in d ?zn, refs_in d ?zn)"
      unfolding check_zone_state_def Let_def zone_first_def [symmetric] zone_last_def [symmetric]
      by (auto simp: bind_res_Inr zone_counts_def)
  next
    assume "(\<forall>i. in_zone d z i \<longrightarrow> page_checked d i) \<and> zone_counts d z
        \<and> c = (used_in d ?zn, free_in d ?zn, refs_in d ?zn)"
    then show "check_zone_state d z = Inr c"
      unfolding check_zone_state_def Let_def zone_first_def [symmetric] zone_last_def [symmetric]
      using pass number by (simp add: zone_counts_def Let_def)
  qed
qed

lemma check_reserved_page_iff:
  "i < md_bits_size d \<Longrightarrow> check_reserved_page d i = Inr () \<longleftrightarrow>
     (pg_zone (md_pages d ! i) = None \<or> pg_attribute (md_pages d ! i) AND KERNEL_INIT \<noteq> 0 \<longrightarrow> page_used d i)"
  by (auto simp: check_reserved_page_def Let_def is_used_eq)

text \<open>Bookkeeping without a contradiction.\<close>

definition bookkeeping_consistent :: "memory_descriptor \<Rightarrow> bool" where
  "bookkeeping_consistent d \<longleftrightarrow>
     (\<forall>i < md_bits_size d. (pg_zone (md_pages d ! i) \<noteq> None \<longrightarrow> page_checked d i)
        \<and> (pg_zone (md_pages d ! i) = None \<or> pg_attribute (md_pages d ! i) AND KERNEL_INIT \<noteq> 0 \<longrightarrow> page_used d i))
     \<and> (\<forall>z < md_zones_size d. zone_counts d z)"

lemma zone_pages_checked:
  assumes "layout_ok d"
  shows "(\<forall>z < md_zones_size d. \<forall>i. in_zone d z i \<longrightarrow> page_checked d i)
    \<longleftrightarrow> (\<forall>i < md_bits_size d. pg_zone (md_pages d ! i) \<noteq> None \<longrightarrow> page_checked d i)"
proof -
  have "in_zone d z i \<longleftrightarrow> pg_zone (md_pages d ! i) = Some z" if "i < md_bits_size d" for i z
    using assms that by (simp add: layout_ok_def page_shape_def)
  moreover have "z < md_zones_size d \<and> i < md_bits_size d" if "in_zone d z i" for i z
    using that zone_pages_in_range [OF assms that] by (simp add: in_zone_def)
  ultimately show ?thesis by (metis not_None_eq)
qed

lemma for_res_passes:
  "(\<exists>t. for_res xs (\<lambda>i s. bind_res (chk i) (\<lambda>c. Inr (g s c))) s = Inr t) \<longleftrightarrow> (\<forall>i \<in> set xs. \<exists>c. chk i = Inr c)"
proof (induction xs arbitrary: s)
  case (Cons x xs)
  then show ?case by (cases "chk x") auto
qed simp

lemma check_reserved_iff:
  "for_res [0..<md_bits_size d] (\<lambda>index _. check_reserved_page d index) () = Inr () \<longleftrightarrow>
     (\<forall>i < md_bits_size d. pg_zone (md_pages d ! i) = None \<or> pg_attribute (md_pages d ! i) AND KERNEL_INIT \<noteq> 0 \<longrightarrow> page_used d i)"
  unfolding for_res_unit by (auto simp: list_all_iff check_reserved_page_iff)

text \<open>
  C38. The check finds every contradiction: as long as the sizes are right and no sum of reference
  counts wraps around, it passes exactly when each page of a zone has its bit, its attribute and a
  reference count in agreement, no reserved page is free, and the counters of every zone are the true
  numbers of used and free pages and of references.
\<close>

theorem allocation_check_exact:
  assumes "layout_ok d" "\<forall>z < md_zones_size d. refs_in d (md_zones d ! z) < usize_range"
  shows "(\<exists>t. check_allocation_state d = Inr t) \<longleftrightarrow> bookkeeping_consistent d"
proof -
  have "(\<exists>t. check_allocation_state d = Inr t) \<longleftrightarrow> (\<forall>z < md_zones_size d. \<exists>c. check_zone_state d z = Inr c)
      \<and> for_res [0..<md_bits_size d] (\<lambda>index _. check_reserved_page d index) () = Inr ()"
    using for_res_passes [of "[0..<md_zones_size d]" "check_zone_state d" add_counts "(0, 0, 0)"]
    unfolding check_allocation_state_def by (auto simp: bind_res_Inr)
  also have "(\<forall>z < md_zones_size d. \<exists>c. check_zone_state d z = Inr c) \<longleftrightarrow>
      (\<forall>z < md_zones_size d. \<forall>i. in_zone d z i \<longrightarrow> page_checked d i) \<and> (\<forall>z < md_zones_size d. zone_counts d z)"
    using check_zone_state_iff [OF assms(1)] assms(2) by auto
  finally show ?thesis
    unfolding zone_pages_checked [OF assms(1)] check_reserved_iff bookkeeping_consistent_def by blast
qed

lemma wf_consistent:
  assumes "md_wf d"
  shows "bookkeeping_consistent d" "z < md_zones_size d \<Longrightarrow> refs_in d (md_zones d ! z) < usize_range"
proof -
  have l: "layout_ok d" using assms by (simp add: md_wf_def)
  show "bookkeeping_consistent d"
    using assms by (auto simp: bookkeeping_consistent_def md_wf_def page_state_def page_checked_def Let_def)
  assume z: "z < md_zones_size d"
  have "refs_in d (md_zones d ! z) \<le> zone_last (md_zones d ! z) - zone_first (md_zones d ! z)"
    using refs_eq_used [OF assms z] free_plus_used [of d "md_zones d ! z"] by simp
  moreover have "zone_last (md_zones d ! z) \<le> md_bits_size d"
    using l z by (simp add: layout_ok_def zone_shape_def Let_def)
  ultimately show "refs_in d (md_zones d ! z) < usize_range" using bits_size_bound [OF l] by linarith
qed

theorem allocation_check_exact_witness:
  "\<exists>t. check_allocation_state example_descriptor = Inr t"
  using allocation_check_exact [of example_descriptor] example_wf wf_consistent [OF example_wf]
  by (auto simp: md_wf_def)

section \<open>The totals\<close>

definition zoned_pages :: "memory_descriptor \<Rightarrow> (nat \<Rightarrow> bool) \<Rightarrow> nat \<Rightarrow> nat set" where
  "zoned_pages d P k = {i. P i \<and> (\<exists>z < k. in_zone d z i)}"

lemma zoned_pages_Suc:
  assumes "layout_ok d" "k \<le> md_zones_size d"
  shows "card (zoned_pages d P (Suc k)) = card (zoned_pages d P k) + card {i. in_zone d k i \<and> P i}"
    and "card (zoned_pages d P k) \<le> md_bits_size d"
proof -
  have sub: "zoned_pages d P j \<subseteq> {..<md_bits_size d}" for j
    using zone_pages_in_range [OF assms(1)] by (auto simp: zoned_pages_def)
  then have fin: "finite (zoned_pages d P j)" for j by (rule finite_subset) simp
  show "card (zoned_pages d P k) \<le> md_bits_size d" using card_mono [OF _ sub [of k]] by simp
  have "zoned_pages d P (Suc k) = zoned_pages d P k \<union> {i. in_zone d k i \<and> P i}"
    by (auto simp: zoned_pages_def less_Suc_eq)
  moreover have "zoned_pages d P k \<inter> {i. in_zone d k i \<and> P i} = {}"
    using in_zone_unique [OF assms(1)] by (fastforce simp: zoned_pages_def)
  moreover have "finite {i. in_zone d k i \<and> P i}"
    by (rule finite_subset [of _ "{..<md_bits_size d}"]) (use zone_pages_in_range [OF assms(1)] in auto)
  ultimately show "card (zoned_pages d P (Suc k)) = card (zoned_pages d P k) + card {i. in_zone d k i \<and> P i}"
    using fin by (simp add: card_Un_disjoint)
qed

definition held_pages :: "memory_descriptor \<Rightarrow> nat set" where
  "held_pages d = {i. i < md_bits_size d \<and> page_used d i \<and> pg_zone (md_pages d ! i) \<noteq> None}"

definition allocation_totals :: "memory_descriptor \<Rightarrow> page_counts" where
  "allocation_totals d = (card (held_pages d), card (free_pages d), card (held_pages d))"

lemma check_allocation_state_ok:
  assumes wf: "md_wf d"
  shows "check_allocation_state d = Inr (allocation_totals d)"
proof -
  have l: "layout_ok d" using wf by (simp add: md_wf_def)
  have size: "md_bits_size d < usize_range" by (rule bits_size_bound [OF l])
  let ?Z = "zoned_pages d"
  let ?U = "page_used d" and ?F = "\<lambda>i. \<not> page_used d i"
  have loop: "\<exists>t. for_res [0..<md_zones_size d] (\<lambda>i totals. bind_res (check_zone_state d i)
      (\<lambda>counts. Inr (add_counts totals counts))) (0, 0, 0) = Inr t
    \<and> t = (card (?Z ?U (md_zones_size d)), card (?Z ?F (md_zones_size d)), card (?Z ?U (md_zones_size d)))"
  proof (rule for_range_total)
    fix z t assume z: "z < md_zones_size d" and t: "t = (card (?Z ?U z), card (?Z ?F z), card (?Z ?U z))"
    have "\<forall>i. in_zone d z i \<longrightarrow> page_checked d i"
      using wf_consistent(1) [OF wf] zone_pages_checked [OF l] z by (auto simp: bookkeeping_consistent_def)
    moreover have "zone_counts d z" using wf z by (simp add: md_wf_def)
    ultimately have c: "check_zone_state d z = Inr (used_in d (md_zones d ! z), free_in d (md_zones d ! z), used_in d (md_zones d ! z))"
      using check_zone_state_iff [OF l z wf_consistent(2) [OF wf z]] refs_eq_used [OF wf z] by simp
    have n: "used_in d (md_zones d ! z) = card {i. in_zone d z i \<and> ?U i}"
        "free_in d (md_zones d ! z) = card {i. in_zone d z i \<and> ?F i}"
      using z by (simp_all add: used_in_def free_in_def sum_upt_card in_zone_def conj_assoc)
    have add: "uadd (card (?Z P z)) (card {i. in_zone d z i \<and> P i}) = card (?Z P (Suc z))" for P
      using zoned_pages_Suc [OF l, of z P] zoned_pages_Suc(2) [OF l, of "Suc z" P] z size
      by (simp add: uadd_exact)
    show "\<exists>s'. bind_res (check_zone_state d z) (\<lambda>counts. Inr (add_counts t counts)) = Inr s'
        \<and> s' = (card (?Z ?U (Suc z)), card (?Z ?F (Suc z)), card (?Z ?U (Suc z)))"
      unfolding c n t by (simp add: add)
  qed (simp_all add: zoned_pages_def)
  have in_some: "i < md_bits_size d \<and> pg_zone (md_pages d ! i) \<noteq> None \<longleftrightarrow> (\<exists>z < md_zones_size d. in_zone d z i)" for i
  proof -
    have "in_zone d z i \<longleftrightarrow> pg_zone (md_pages d ! i) = Some z" if "i < md_bits_size d" for z
      using l that by (simp add: layout_ok_def page_shape_def)
    then show ?thesis using zone_pages_in_range [OF l] by (auto simp: in_zone_def)
  qed
  have held: "?Z ?U (md_zones_size d) = held_pages d"
    unfolding zoned_pages_def held_pages_def in_some [symmetric] by auto
  have free: "?Z ?F (md_zones_size d) = free_pages d"
    unfolding zoned_pages_def free_pages_def in_some [symmetric] using free_page_state(3) [OF wf] by auto
  have "for_res [0..<md_bits_size d] (\<lambda>index _. check_reserved_page d index) () = Inr ()"
    using wf_consistent(1) [OF wf] unfolding check_reserved_iff bookkeeping_consistent_def by blast
  then show ?thesis
    using loop unfolding held free check_allocation_state_def allocation_totals_def by simp
qed

section \<open>Holding pages of a free zone\<close>

text \<open>The state in which exactly the pages of \<open>S\<close> have been taken since \<open>d\<close>.\<close>

definition holding :: "memory_descriptor \<Rightarrow> nat set \<Rightarrow> memory_descriptor \<Rightarrow> bool" where
  "holding d S d' \<longleftrightarrow> md_wf d' \<and> same_layout d d'
     \<and> (\<forall>j. page_used d' j \<longleftrightarrow> page_used d j \<or> j \<in> S)
     \<and> (\<forall>j < md_bits_size d. md_pages d' ! j =
          (if j \<in> S then claimed_page (page_attributes j) (md_pages d ! j) else md_pages d ! j))"

text \<open>A machine with one zone, pages \<open>s\<close> to \<open>e - 1\<close>, all of them free.\<close>

definition one_free_zone :: "memory_descriptor \<Rightarrow> nat \<Rightarrow> nat \<Rightarrow> bool" where
  "one_free_zone d s e \<longleftrightarrow> md_wf d \<and> md_zones_size d = 1
     \<and> zone_first (md_zones d ! 0) = s \<and> zone_last (md_zones d ! 0) = e
     \<and> (\<forall>i. s \<le> i \<and> i < e \<longrightarrow> \<not> page_used d i)"

definition area_end :: "allocation_area \<Rightarrow> nat \<Rightarrow> nat" where
  "area_end area e = (case area of Mapped \<Rightarrow> min e 5 | Any \<Rightarrow> e)"

lemma one_free_zoneD:
  assumes "one_free_zone d s e"
  shows "md_wf d" "layout_ok d" "in_zone d 0 i \<longleftrightarrow> s \<le> i \<and> i < e" "s < e" "e \<le> md_bits_size d"
    "e * PAGE_2M_SIZE < usize_range" "zn_end_address (md_zones d ! 0) = e * PAGE_2M_SIZE"
    "free_pages d = {s..<e}"
proof -
  show wf: "md_wf d" using assms by (simp add: one_free_zone_def)
  then show l: "layout_ok d" by (simp add: md_wf_def)
  have z: "zone_shape d 0" using l assms by (simp add: layout_ok_def one_free_zone_def)
  show iz: "in_zone d 0 i \<longleftrightarrow> s \<le> i \<and> i < e" for i using assms by (simp add: in_zone_def one_free_zone_def)
  show "s < e" and e: "e \<le> md_bits_size d" and "zn_end_address (md_zones d ! 0) = e * PAGE_2M_SIZE"
    using z assms by (simp_all add: zone_shape_def one_free_zone_def Let_def)
  have "e * PAGE_2M_SIZE \<le> md_bits_size d * PAGE_2M_SIZE" using e by (rule mult_le_mono1)
  also have "\<dots> < usize_range" using l by (simp add: layout_ok_def)
  finally show "e * PAGE_2M_SIZE < usize_range" .
  have "s \<le> i \<and> i < e" if i: "i < md_bits_size d" "\<not> page_used d i" for i
  proof -
    obtain z where "pg_zone (md_pages d ! i) = Some z" using free_page_state(3) [OF wf i] by blast
    then have "in_zone d z i" using zone_of_page [OF l i(1)] by blast
    moreover from this have "z = 0" using assms by (simp add: in_zone_def one_free_zone_def)
    ultimately show ?thesis using iz by simp
  qed
  moreover have "i < md_bits_size d \<and> \<not> page_used d i" if "s \<le> i" "i < e" for i
    using that e assms unfolding one_free_zone_def by (meson less_le_trans)
  ultimately show "free_pages d = {s..<e}" unfolding free_pages_def atLeastLessThan_def by blast
qed

lemma holding_empty: "md_wf d \<Longrightarrow> holding d {} d"
  by (simp add: holding_def)

lemma holding_none:
  assumes "md_wf d" "holding d {} d'"
  shows "d' = d"
proof (rule md_wf_ext [OF assms(1)])
  have l: "layout_ok d" using assms(1) by (simp add: md_wf_def)
  show "md_wf d'" "same_layout d d'" using assms(2) by (simp_all add: holding_def)
  then show "md_pages d' = md_pages d"
    using assms(2) l same_layout_sizes [of d d'] by (intro nth_equalityI) (simp_all add: holding_def layout_ok_def)
  show "page_used d' j = page_used d j" for j using assms(2) by (simp add: holding_def)
qed

lemma holding_window:
  assumes o: "one_free_zone d s e" and h: "holding d S d'"
  shows "zone_windows d' area = [(s, area_end area e)]"
proof -
  have same: "same_layout d d'" using h by (simp add: holding_def)
  note D = one_free_zoneD [OF o] and sz = same_layout_sizes [OF same]
  have len: "0 < length (md_zones d)" using D(2) by (simp add: layout_ok_def MAX_ZONES_def MAX_ENTRIES_def)
  have z: "same_zone_shape (md_zones d' ! 0) (md_zones d ! 0)" by (rule same_layout_zone [OF same len])
  have ea: "zn_end_address (md_zones d' ! 0) = e * PAGE_2M_SIZE" and zf: "zone_first (md_zones d' ! 0) = s"
    using z D(7) same_zone_bounds [OF z] o by (simp_all add: same_zone_shape_def one_free_zone_def)
  have "zone_end_address area (md_zones d' ! 0) div PAGE_2M_SIZE = area_end area e"
  proof (cases area)
    case Mapped
    have "min (e * PAGE_2M_SIZE) DIRECT_RAM_END = min e 5 * PAGE_2M_SIZE"
      by (simp add: min_def DIRECT_RAM_END_def PAGE_2M_SIZE_def)
    then show ?thesis using Mapped ea by (simp add: zone_end_address_def area_end_def page_2M_pos)
  qed (simp add: zone_end_address_def area_end_def ea page_2M_pos)
  moreover have "take 1 (md_zones d') = [md_zones d' ! 0]"
    using len sz by (cases "md_zones d'") simp_all
  moreover have "md_zones_size d' = 1" using o sz by (simp add: one_free_zone_def)
  ultimately show ?thesis by (simp add: zone_windows_def zone_window_def zf)
qed

lemma area_end_le: "area_end area e \<le> e"
  by (cases area) (simp_all add: area_end_def)

lemma holding_used:
  "one_free_zone d s e \<Longrightarrow> holding d S d' \<Longrightarrow> s \<le> j \<Longrightarrow> j < e \<Longrightarrow> page_used d' j \<longleftrightarrow> j \<in> S"
  by (simp add: holding_def one_free_zone_def)

lemma holding_allocate:
  assumes o: "one_free_zone d s e" and h: "holding d S d'" and n: "0 < n"
    and f: "s \<le> f" "f + n \<le> area_end area e" "{f..<f + n} \<inter> S = {}"
    and least: "\<And>g. s \<le> g \<Longrightarrow> g < f \<Longrightarrow> {g..<g + n} \<inter> S \<noteq> {}"
  shows "\<exists>d''. allocate d' area n = Inr (Inr \<lparr>run_first = f, run_count = n\<rparr>, d'') \<and> holding d (S \<union> {f..<f + n}) d''"
proof -
  have wf: "md_wf d'" and same: "same_layout d d'" using h by (simp_all add: holding_def)
  have le: "f + n \<le> e" using f(2) area_end_le [of area e] by linarith
  have fit: "fits d' g n \<longleftrightarrow> {g..<g + n} \<inter> S = {}" if "s \<le> g" "g + n \<le> e" for g
  proof -
    have "page_used d' j \<longleftrightarrow> j \<in> S" if "g \<le> j" "j < g + n" for j
      by (rule holding_used [OF o h]) (use that \<open>s \<le> g\<close> \<open>g + n \<le> e\<close> in linarith)+
    then show ?thesis by (auto simp: fits_def)
  qed
  have "least_fit d' s (area_end area e) n f"
    unfolding least_fit_def using f least fit [of f] fit le by auto
  then have "spec_first_fit d' n (zone_windows d' area) = Some f"
    using spec_fit_Some [of d' s "area_end area e" n f] n by (simp add: holding_window [OF o h])
  then obtain d'' where a: "allocate d' area n = Inr (Inr \<lparr>run_first = f, run_count = n\<rparr>, d'')"
      and c: "claimed_upto page_attributes d' f (f + n) d''"
    using allocate_spec [OF wf, of n area] n by auto
  have "holding d (S \<union> {f..<f + n}) d''"
    unfolding holding_def
  proof (intro conjI allI impI)
    note sz = same_layout_sizes [OF same]
    show "md_wf d''" using c by (simp add: claimed_upto_def)
    show "same_layout d d''" using c same_layout_trans [OF same] by (simp add: claimed_upto_def)
    show "page_used d'' j \<longleftrightarrow> page_used d j \<or> j \<in> S \<union> {f..<f + n}" for j
      using c h by (auto simp: claimed_upto_def holding_def)
    fix j assume j: "j < md_bits_size d"
    show "md_pages d'' ! j = (if j \<in> S \<union> {f..<f + n} then claimed_page (page_attributes j) (md_pages d ! j) else md_pages d ! j)"
      using c h j sz f(3) by (auto simp: claimed_upto_def holding_def)
  qed
  with a show ?thesis by blast
qed

lemma holding_no_room:
  assumes o: "one_free_zone d s e" and h: "holding d S d'" and n: "0 < n"
    and none: "\<And>g. s \<le> g \<Longrightarrow> g + n \<le> area_end area e \<Longrightarrow> {g..<g + n} \<inter> S \<noteq> {}"
  shows "allocate d' area n = Inr (Inl OutOfMemory, d')"
proof -
  have wf: "md_wf d'" using h by (simp add: holding_def)
  have "no_fit d' s (area_end area e) n"
    unfolding no_fit_def
  proof (intro allI impI notI)
    fix g assume g: "s \<le> g \<and> g + n \<le> area_end area e" and f: "fits d' g n"
    then obtain j where j: "g \<le> j" "j < g + n" "j \<in> S" using none [of g] by auto
    then have "page_used d' j" using h by (simp add: holding_def)
    with f j show False by (simp add: fits_def)
  qed
  then have "spec_first_fit d' n (zone_windows d' area) = None"
    using spec_fit_None n by (simp add: holding_window [OF o h])
  then show ?thesis using allocate_spec [OF wf, of n area] n by simp
qed

lemma holding_release:
  assumes o: "one_free_zone d s e" and h: "holding d S d'" and S: "S \<subseteq> {s..<e}"
    and r: "run_pages r \<subseteq> S" "0 < run_count r"
  shows "\<exists>d''. release d' r = Inr d'' \<and> holding d (S - run_pages r) d''"
proof -
  have wf: "md_wf d'" and same: "same_layout d d'" using h by (simp_all add: holding_def)
  note D = one_free_zoneD [OF o] and sz = same_layout_sizes [OF same]
  have R: "run_pages r = {run_first r..<run_first r + run_count r}" by (simp add: run_pages_def)
  have pages: "i < md_bits_size d \<and> in_zone d' 0 i \<and> md_pages d' ! i = claimed_page (page_attributes i) (md_pages d ! i)"
    if "i \<in> run_pages r" for i
  proof -
    have i: "i \<in> S" "s \<le> i" "i < e" using that r(1) S by auto
    then have "i < md_bits_size d" using D(5) by simp
    then show ?thesis using i h D(3) same_layout_in_zone [OF same D(2)] by (simp add: holding_def)
  qed
  have "run_first r + run_count r - 1 \<in> run_pages r" using r(2) by (simp add: R)
  then have "run_first r + run_count r \<le> md_bits_size d" using pages by fastforce
  then have "owned_run d' r"
    unfolding owned_run_def using pages r(2) sz by (auto simp: claimed_page_def)
  then obtain d'' where rel: "release d' r = Inr d''"
      and u: "released_upto d' (run_first r) (run_first r + run_count r) d''"
    using release_owned [OF wf] by blast
  have "holding d (S - run_pages r) d''"
    unfolding holding_def
  proof (intro conjI allI impI)
    show "md_wf d''" using u by (simp add: released_upto_def)
    show "same_layout d d''" using u same_layout_trans [OF same] by (simp add: released_upto_def)
    show "page_used d'' j \<longleftrightarrow> page_used d j \<or> j \<in> S - run_pages r" for j
    proof -
      have "\<not> page_used d j" if "j \<in> run_pages r" using that r(1) S o by (auto simp: one_free_zone_def)
      then show ?thesis using u h by (auto simp: released_upto_def holding_def R)
    qed
    fix j assume j: "j < md_bits_size d"
    show "md_pages d'' ! j = (if j \<in> S - run_pages r then claimed_page (page_attributes j) (md_pages d ! j) else md_pages d ! j)"
    proof (cases "j \<in> run_pages r")
      case True
      have "\<not> page_used d j" using True r(1) S o by (auto simp: one_free_zone_def)
      note z = free_page_state [OF D(1) j this]
      have "md_pages d'' ! j = freed_page (md_pages d' ! j)" using u True j sz by (simp add: released_upto_def R)
      also have "\<dots> = freed_page (claimed_page (page_attributes j) (md_pages d ! j))" using pages [OF True] by simp
      also have "\<dots> = md_pages d ! j" using z by (cases "md_pages d ! j") (simp add: freed_page_def claimed_page_def)
      finally show ?thesis using True by simp
    next
      case False
      then have "md_pages d'' ! j = md_pages d' ! j" using u j sz by (auto simp: released_upto_def R)
      then show ?thesis using False h j by (simp add: holding_def)
    qed
  qed
  with rel show ?thesis by blast
qed

lemma holding_totals:
  assumes o: "one_free_zone d s e" and h: "holding d S d'" and S: "S \<subseteq> {s..<e}"
  shows "check_allocation_state d' = Inr (card S, e - s - card S, card S)"
proof -
  have wf: "md_wf d'" and same: "same_layout d d'" using h by (simp_all add: holding_def)
  note D = one_free_zoneD [OF o] and sz = same_layout_sizes [OF same]
  have "free_pages d' = free_pages d - S"
    using h sz by (auto simp: free_pages_def holding_def)
  then have "card (free_pages d') = e - s - card S"
    using S D(8) by (simp add: card_Diff_subset finite_subset)
  moreover have "held_pages d' = S"
  proof -
    have zone: "pg_zone (md_pages d' ! i) = pg_zone (md_pages d ! i)" if "i < md_bits_size d" for i
      using h that by (simp add: holding_def claimed_page_def)
    have iff: "pg_zone (md_pages d ! i) \<noteq> None \<longleftrightarrow> s \<le> i \<and> i < e" if "i < md_bits_size d" for i
    proof -
      have "in_zone d z i \<longleftrightarrow> pg_zone (md_pages d ! i) = Some z" for z
        using D(2) that by (simp add: layout_ok_def page_shape_def)
      moreover have "in_zone d z i \<longrightarrow> z = 0" for z using o by (simp add: in_zone_def one_free_zone_def)
      ultimately show ?thesis using D(3) [of i] by (metis not_None_eq)
    qed
    have "i \<in> held_pages d' \<longleftrightarrow> i \<in> S" for i
    proof (cases "i < md_bits_size d")
      case True
      then show ?thesis
        using zone iff holding_used [OF o h, of i] S sz by (auto simp: held_pages_def)
    next
      case False
      then show ?thesis using S D(5) sz by (auto simp: held_pages_def)
    qed
    then show ?thesis by blast
  qed
  ultimately show ?thesis
    by (simp add: check_allocation_state_ok [OF wf] allocation_totals_def)
qed

section \<open>The self-test passes\<close>

text \<open>The two forms the proofs use: a run of \<open>n\<close> pages at \<open>f\<close> is taken, or given back.\<close>

lemma take_run:
  assumes "one_free_zone d s e" "holding d S d'" "0 < n" "s \<le> f" "f + n \<le> area_end area e" "{f..<f + n} \<inter> S = {}"
    and "\<And>g. s \<le> g \<Longrightarrow> g < f \<Longrightarrow> {g..<g + n} \<inter> S \<noteq> {}" "S' = S \<union> {f..<f + n}"
  obtains d'' where "allocate d' area n = Inr (Inr \<lparr>run_first = f, run_count = n\<rparr>, d'')" "holding d S' d''"
  using holding_allocate [OF assms(1-6)] assms(7,8) by blast

lemma give_run:
  assumes "one_free_zone d s e" "holding d S d'" "S \<subseteq> {s..<e}" "{f..<f + n} \<subseteq> S" "0 < n" "S' = S - {f..<f + n}"
  obtains d'' where "release d' \<lparr>run_first = f, run_count = n\<rparr> = Inr d''" "holding d S' d''"
  using holding_release [OF assms(1-3), of "\<lparr>run_first = f, run_count = n\<rparr>"] assms(4-6) by (auto simp: run_pages_def)

lemma verify_refusals_ok:
  assumes o: "one_free_zone d s e"
  shows "verify_refusals d = Inr ((0, e - s, 0), d)"
proof -
  note D = one_free_zoneD [OF o]
  have h: "holding d {} d" by (rule holding_empty [OF D(1)])
  have t: "check_allocation_state d = Inr (0, e - s, 0)" using holding_totals [OF o h] by simp
  have "e * 2 \<le> e * PAGE_2M_SIZE" by (simp add: PAGE_2M_SIZE_def)
  then have "e * 2 < usize_range" using D(6) by (rule le_less_trans)
  then have e: "e < usize_range - 1" by simp
  have "allocate d Any (usize_range - 1) = Inr (Inl OutOfMemory, d)"
    by (rule holding_no_room [OF o h]) (use e in \<open>simp_all add: area_end_def\<close>)
  moreover have "allocate d Any 0 = Inr (Inl InvalidCount, d)" by (simp add: allocate_def)
  ultimately show ?thesis by (simp add: verify_refusals_def require_error_def t)
qed

lemma verify_large_ok:
  assumes o: "one_free_zone d s e" and room: "s + 66 \<le> e"
  shows "verify_large (0, e - s, 0) d = Inr d"
proof -
  note D = one_free_zoneD [OF o]
  let ?large = "\<lparr>run_first = s, run_count = 65\<rparr>" and ?other = "\<lparr>run_first = s + 65, run_count = 1\<rparr>"
  have h: "holding d {} d" by (rule holding_empty [OF D(1)])
  obtain d1 where a1: "allocate d Any 65 = Inr (Inr ?large, d1)" and h1: "holding d {s..<s + 65} d1"
    by (rule take_run [OF o h, of 65 s Any "{s..<s + 65}"]) (use room in \<open>auto simp: area_end_def\<close>)
  obtain d2 where a2: "allocate d1 Any 1 = Inr (Inr ?other, d2)" and h2: "holding d {s..<s + 66} d2"
    by (rule take_run [OF o h1, of 1 "s + 65" Any "{s..<s + 66}"]) (use room in \<open>auto simp: area_end_def\<close>)
  obtain d3 where r3: "release d2 ?large = Inr d3" and h3: "holding d {s + 65..<s + 66} d3"
    by (rule give_run [OF o h2, of s 65 "{s + 65..<s + 66}"]) (use room in auto)
  obtain d4 where a4: "allocate d3 Any 65 = Inr (Inr ?large, d4)" and h4: "holding d {s..<s + 66} d4"
    by (rule take_run [OF o h3, of 65 s Any "{s..<s + 66}"]) (use room in \<open>auto simp: area_end_def\<close>)
  obtain d5 where r5: "release d4 ?large = Inr d5" and h5: "holding d {s + 65..<s + 66} d5"
    by (rule give_run [OF o h4, of s 65 "{s + 65..<s + 66}"]) (use room in auto)
  obtain d6 where r6: "release d5 ?other = Inr d6" and h6: "holding d {} d6"
    by (rule give_run [OF o h5, of "s + 65" 1 "{}"]) (use room in auto)
  have d6: "d6 = d" by (rule holding_none [OF D(1) h6])
  have sub: "{s..<s + 65} \<subseteq> {s..<e}" "{s..<s + 66} \<subseteq> {s..<e}" "{s + 65..<s + 66} \<subseteq> {s..<e}" using room by auto
  have t: "check_allocation_state d = Inr (0, e - s, 0)" "check_allocation_state d1 = Inr (65, e - s - 65, 65)"
      "check_allocation_state d2 = Inr (66, e - s - 66, 66)" "check_allocation_state d3 = Inr (1, e - s - 1, 1)"
    using holding_totals [OF o h] holding_totals [OF o h1 sub(1)] holding_totals [OF o h2 sub(2)]
      holding_totals [OF o h3 sub(3)] by simp_all
  have u: "usub (e - s) 65 = e - s - 65" "uadd s 65 = s + 65"
    using room D(5) bits_size_bound [OF D(2)] by (simp_all add: usub_exact uadd_exact)
  show ?thesis
    unfolding verify_large_def
    by (simp add: a1 a2 r3 a4 r5 r6 t u d6 del: One_nat_def)
qed

text \<open>The held array after \<open>k\<close> mapped pages.\<close>

definition held_array :: "nat \<Rightarrow> nat \<Rightarrow> page_run option list" where
  "held_array s k = map (\<lambda>i. if i < k then Some \<lparr>run_first = s + i, run_count = 1\<rparr> else None) [0..<5]"

lemma held_array_simps:
  "length (held_array s k) = 5" "held_array s 0 = replicate 5 None"
  "k < 5 \<Longrightarrow> (held_array s k)[k := Some \<lparr>run_first = s + k, run_count = 1\<rparr>] = held_array s (k + 1)"
  "0 < k \<Longrightarrow> held_array s k ! 0 = Some \<lparr>run_first = s, run_count = 1\<rparr>"
  "0 < k \<Longrightarrow> (held_array s k)[0 := Some \<lparr>run_first = s, run_count = 1\<rparr>] = held_array s k"
  by (auto simp: held_array_def nth_list_update intro!: nth_equalityI)

lemma hold_mapped_ok:
  assumes o: "one_free_zone d s e" and e: "5 \<le> e"
  shows "k \<le> 5 - s \<Longrightarrow> s \<le> 5 \<Longrightarrow> holding d {s..<s + k} d' \<Longrightarrow>
    \<exists>d''. hold_mapped (held_array s k) k d' = Inr (held_array s (5 - s), 5 - s, d'') \<and> holding d {s..<5} d''"
proof (induction "5 - s - k" arbitrary: k d')
  case 0
  then have k: "k = 5 - s" by simp
  have "{g..<g + 1} \<inter> {s..<s + k} \<noteq> {}" if "s \<le> g" "g + 1 \<le> area_end Mapped e" for g
    using that k by (auto simp: area_end_def)
  from holding_no_room [OF o 0(4) _ this] have "allocate d' Mapped 1 = Inr (Inl OutOfMemory, d')" by simp
  then show ?case using 0 k by (subst hold_mapped.simps) simp
next
  case (Suc m)
  let ?run = "\<lparr>run_first = s + k, run_count = 1\<rparr>"
  have k: "s + k < 5" using Suc(2) by simp
  obtain d1 where a: "allocate d' Mapped 1 = Inr (Inr ?run, d1)" and h: "holding d {s..<s + (k + 1)} d1"
    by (rule take_run [OF o Suc(5), of 1 "s + k" Mapped "{s..<s + (k + 1)}"])
      (use k e in \<open>auto simp: area_end_def\<close>)
  have "uadd (physical_address ?run) PAGE_2M_SIZE = (s + k + 1) * PAGE_2M_SIZE"
    using k by (simp add: physical_address_def usize_simps PAGE_2M_SIZE_def)
  also have "\<dots> \<le> 5 * PAGE_2M_SIZE" by (rule mult_le_mono1) (use k in simp)
  finally have "uadd (physical_address ?run) PAGE_2M_SIZE \<le> DIRECT_RAM_END"
    by (simp add: DIRECT_RAM_END_def PAGE_2M_SIZE_def)
  moreover have "\<exists>d''. hold_mapped (held_array s (k + 1)) (k + 1) d1 = Inr (held_array s (5 - s), 5 - s, d'') \<and> holding d {s..<5} d''"
    by (rule Suc(1)) (use Suc.hyps(2) Suc.prems h k in auto)
  ultimately show ?case
    using k a by (subst hold_mapped.simps) (simp add: held_array_simps del: One_nat_def)
qed

lemma held_runs: "k \<le> 5 \<Longrightarrow> List.map_filter id (held_array s k) = map (\<lambda>i. \<lparr>run_first = s + i, run_count = 1\<rparr>) [0..<k]"
proof -
  assume k: "k \<le> 5"
  have "[0..<5] = [0..<k] @ [k..<5]" using k upt_add_eq_append [of 0 k "5 - k"] by simp
  then show ?thesis
    by (simp add: held_array_def List.map_filter_def comp_def filter_map cong: filter_cong)
qed

lemma for_res_map: "for_res (map f xs) body s = for_res xs (\<lambda>x. body (f x)) s"
proof (induction xs arbitrary: s)
  case (Cons x xs)
  then show ?case by (cases "body (f x) s") simp_all
qed simp

lemma release_held_ok:
  assumes o: "one_free_zone d s e" and e: "5 \<le> e" "s \<le> 5" and h: "holding d {s..<5} d'"
  shows "release_held (held_array s (5 - s)) d' = Inr d"
proof -
  have "\<exists>d''. for_res [0..<5 - s] (\<lambda>i d. bind_res (release d \<lparr>run_first = s + i, run_count = 1\<rparr>)
      (\<lambda>d'. bind_res (check_allocation_state d') (\<lambda>_. Inr d'))) d' = Inr d'' \<and> holding d {s + (5 - s)..<5} d''"
  proof (rule for_range_total)
    fix i x assume i: "i < 5 - s" and x: "holding d {s + i..<5} x"
    obtain y where y: "release x \<lparr>run_first = s + i, run_count = 1\<rparr> = Inr y" "holding d {s + Suc i..<5} y"
      by (rule give_run [OF o x, of "s + i" 1 "{s + Suc i..<5}"]) (use i e in auto)
    have "check_allocation_state y = Inr (allocation_totals y)"
      using check_allocation_state_ok y(2) by (simp add: holding_def)
    then show "\<exists>s'. bind_res (release x \<lparr>run_first = s + i, run_count = 1\<rparr>)
        (\<lambda>d'. bind_res (check_allocation_state d') (\<lambda>_. Inr d')) = Inr s' \<and> holding d {s + Suc i..<5} s'"
      using y by simp
  qed (use h in simp_all)
  then obtain d'' where r: "for_res [0..<5 - s] (\<lambda>i d. bind_res (release d \<lparr>run_first = s + i, run_count = 1\<rparr>)
      (\<lambda>d'. bind_res (check_allocation_state d') (\<lambda>_. Inr d'))) d' = Inr d''" and h'': "holding d {} d''"
    using e by auto
  have "d'' = d" by (rule holding_none [OF one_free_zoneD(1) [OF o] h''])
  then show ?thesis using r by (simp add: release_held_def held_runs for_res_map)
qed

lemma verify_fragments_ok:
  assumes o: "one_free_zone d s e" and e: "5 \<le> e" and s: "s \<le> 3"
  shows "verify_fragments (0, e - s, 0) d = Inr d"
proof -
  note D = one_free_zoneD [OF o]
  let ?hole = "\<lparr>run_first = s, run_count = 1\<rparr>"
  have h: "holding d {s..<s + 0} d" using holding_empty [OF D(1)] by simp
  obtain d1 where hm: "hold_mapped (held_array s 0) 0 d = Inr (held_array s (5 - s), 5 - s, d1)"
      and h1: "holding d {s..<5} d1"
    using hold_mapped_ok [OF o e _ _ h] s by auto
  obtain d2 where r2: "release d1 ?hole = Inr d2" and h2: "holding d {s + 1..<5} d2"
    by (rule give_run [OF o h1, of s 1 "{s + 1..<5}"]) (use e s in auto)
  have "{g..<g + 2} \<inter> {s + 1..<5} \<noteq> {}" if "s \<le> g" "g + 2 \<le> area_end Mapped e" for g
  proof -
    have "g + 1 \<in> {g..<g + 2} \<inter> {s + 1..<5}" using that by (auto simp: area_end_def)
    then show ?thesis by blast
  qed
  from holding_no_room [OF o h2 _ this] have a3: "allocate d2 Mapped 2 = Inr (Inl OutOfMemory, d2)" by simp
  obtain d4 where a4: "allocate d2 Mapped 1 = Inr (Inr ?hole, d4)" and h4: "holding d {s..<5} d4"
    by (rule take_run [OF o h2, of 1 s Mapped "{s..<5}"]) (use e s in \<open>auto simp: area_end_def\<close>)
  have t: "check_allocation_state d2 = Inr (allocation_totals d2)" "check_allocation_state d = Inr (0, e - s, 0)"
    using check_allocation_state_ok h2 holding_totals [OF o holding_empty [OF D(1)]] by (simp_all add: holding_def)
  have rh: "release_held (held_array s (5 - s)) d4 = Inr d" by (rule release_held_ok [OF o e _ h4]) (use s in simp)
  have five: "replicate (DIRECT_RAM_END div PAGE_2M_SIZE) None = held_array s 0"
    unfolding held_array_simps by (simp add: DIRECT_RAM_END_def PAGE_2M_SIZE_def)
  have two: "2 \<le> 5 - s" "0 < 5 - s" using s by simp_all
  show ?thesis
    unfolding verify_fragments_def five
    using two by (simp add: hm r2 a3 a4 rh t held_array_simps(4,5) [OF two(2)] require_error_def del: One_nat_def)
qed

lemma verify_exhaustion_ok:
  assumes o: "one_free_zone d s e"
  shows "verify_exhaustion (0, e - s, 0) d = Inr d"
proof -
  note D = one_free_zoneD [OF o]
  have h: "holding d {} d" by (rule holding_empty [OF D(1)])
  let ?all = "\<lparr>run_first = s, run_count = e - s\<rparr>"
  obtain d1 where a1: "allocate d Any (e - s) = Inr (Inr ?all, d1)" and h1: "holding d {s..<e} d1"
    by (rule take_run [OF o h, of "e - s" s Any "{s..<e}"]) (use D(4) in \<open>auto simp: area_end_def\<close>)
  have "{g..<g + 1} \<inter> {s..<e} \<noteq> {}" if "s \<le> g" "g + 1 \<le> area_end Any e" for g
    using that by (auto simp: area_end_def)
  from holding_no_room [OF o h1 _ this] have a2: "allocate d1 Any 1 = Inr (Inl OutOfMemory, d1)" by simp
  obtain d3 where r3: "release d1 ?all = Inr d3" and h3: "holding d {} d3"
    by (rule give_run [OF o h1, of s "e - s" "{}"]) (use D(4) in auto)
  have d3: "d3 = d" by (rule holding_none [OF D(1) h3])
  have t: "check_allocation_state d = Inr (0, e - s, 0)" "check_allocation_state d1 = Inr (e - s, 0, e - s)"
    using holding_totals [OF o h] holding_totals [OF o h1] by simp_all
  have z: "md_zones_size d = 1" using o by (simp add: one_free_zone_def)
  show ?thesis
    unfolding verify_exhaustion_def
    by (simp add: z a1 a2 r3 d3 t require_error_def del: One_nat_def)
qed

lemma self_test_passes:
  assumes "one_free_zone d s e" "s + 66 \<le> e" "s \<le> 3"
  shows "verify_allocator d = Inr (check_message (e - s), d)"
  using verify_refusals_ok [OF assms(1)] verify_large_ok [OF assms(1,2)] verify_exhaustion_ok [OF assms(1)]
    verify_fragments_ok [OF assms(1) _ assms(3)] assms(2)
  by (simp add: verify_allocator_def)

text \<open>
  The self-test of the allocator passes on every machine it is meant for, one zone of RAM, at least
  66 pages long, starting below 8 MiB, with no page in use, and leaves the descriptor exactly as it
  found it, reporting the number of free pages: first fit across a word boundary, reuse of the lowest hole,
  refusal of a fragmented request, and exhaustion behave as it expects.
\<close>

theorem verify_allocator_passes:
  assumes "one_free_zone d s e" "s + 66 \<le> e" "s \<le> 3"
  shows "verify_allocator d = Inr (check_message (e - s), d)"
  by (rule self_test_passes [OF assms])

text \<open>256 MiB of RAM: page 0 belongs to the kernel, pages 1 to 127 are the zone.\<close>

definition check_machine :: memory_descriptor where
  "check_machine = \<lparr>md_e820 = [], md_number_entries = 0,
     md_bits_map = [1, 0], md_bits_map_addr = 0, md_bits_size = 128, md_bits_length = 16,
     md_pages = map (\<lambda>i. if i = 0 then example_pages ! 0 else \<lparr>pg_zone = Some 0, pg_physical_address = i * PAGE_2M_SIZE,
       pg_attribute = 0, pg_reference_count = 0, pg_create_time = 0\<rparr>) [0..<128],
     md_pages_addr = 0, md_pages_length = 5120,
     md_zones = \<lparr>zn_pages = Some 1, zn_number_pages = 127, zn_start_address = 0x200000,
       zn_end_address = 0x10000000, zn_attribute = 0, zn_length = 0xfe00000, zn_descriptor = MEMORY,
       zn_page_using_count = 0, zn_page_free_count = 127, zn_total_pages_ref_count = 0\<rparr> # replicate 31 zero_zone,
     md_zones_addr = 0, md_zones_size = 1, md_end_of_struct = 0, md_global_cr3 = 0\<rparr>"

lemma check_machine_zone: "zone_first (md_zones check_machine ! 0) = 1" "zone_last (md_zones check_machine ! 0) = 128"
  by (simp_all add: check_machine_def zone_first_def zone_last_def PAGE_2M_SIZE_def)

lemma check_machine_page:
  "i < 128 \<Longrightarrow> md_pages check_machine ! i = (if i = 0 then example_pages ! 0 else
     \<lparr>pg_zone = Some 0, pg_physical_address = i * PAGE_2M_SIZE, pg_attribute = 0, pg_reference_count = 0, pg_create_time = 0\<rparr>)"
  by (simp add: check_machine_def del: upt_Suc)

lemma check_machine_used: "i < 128 \<Longrightarrow> page_used check_machine i \<longleftrightarrow> i = 0"
proof (cases "i < 64")
  case True
  then show ?thesis by (simp add: get_bit_def check_machine_def bit_1_iff)
next
  case False
  assume "i < 128"
  then have "i div 64 = 1" using False by (simp add: div_nat_eqI)
  then show ?thesis using False by (simp add: get_bit_def check_machine_def)
qed

lemma check_machine_free_zone: "one_free_zone check_machine 1 128"
proof -
  have sizes: "md_bits_size check_machine = 128" "md_zones_size check_machine = 1" "length (md_zones check_machine) = MAX_ZONES"
      "length (md_pages check_machine) = 128" "length (md_bits_map check_machine) = 2"
    by (simp_all add: check_machine_def MAX_ZONES_def MAX_ENTRIES_def)
  have p0: "example_pages ! 0 = \<lparr>pg_zone = None, pg_physical_address = 0, pg_attribute = 0x93, pg_reference_count = 1, pg_create_time = 0\<rparr>"
    by (simp add: example_pages_def)
  have shape: "page_shape check_machine i" if "i < 128" for i
    using that check_machine_zone by (auto simp: page_shape_def in_zone_def check_machine_page sizes p0)
  have zone: "zone_shape check_machine 0"
    unfolding zone_shape_def Let_def check_machine_zone sizes by (simp add: check_machine_def PAGE_2M_SIZE_def)
  have state: "page_state check_machine i" if "i < 128" for i
    using that by (simp add: page_state_def check_machine_page check_machine_used p0)
  have "free_in check_machine (md_zones check_machine ! 0) = sum_list (map (\<lambda>_. 1) [1..<128])"
    unfolding free_in_def check_machine_zone by (rule sum_upt_cong) (simp add: check_machine_used)
  moreover have "used_in check_machine (md_zones check_machine ! 0) = sum_list (map (\<lambda>_. 0) [1..<128])"
    unfolding used_in_def check_machine_zone by (rule sum_upt_cong) (simp add: check_machine_used)
  moreover have "refs_in check_machine (md_zones check_machine ! 0) = sum_list (map (\<lambda>_. 0) [1..<128])"
    unfolding refs_in_def check_machine_zone by (rule sum_upt_cong) (simp add: check_machine_page)
  ultimately have counts: "zone_counts check_machine 0"
    by (simp add: zone_counts_def Let_def sum_list_triv del: upt_Suc) (simp add: check_machine_def)
  have "md_wf check_machine"
    using shape zone state counts
    by (simp add: md_wf_def layout_ok_def sizes div_ceil_def MAX_ZONES_def MAX_ENTRIES_def PAGE_2M_SIZE_def)
  then show ?thesis using check_machine_used by (simp add: one_free_zone_def sizes check_machine_zone)
qed

theorem verify_allocator_passes_witness:
  "verify_allocator check_machine = Inr (check_message 127, check_machine)"
  using verify_allocator_passes [OF check_machine_free_zone] by simp

end
