(* ===== verification/Port_IO.thy ===== *)
theory Port_IO
  imports Kernel_Prelude
begin

text \<open>
  Port input and output (\<^verbatim>\<open>in8\<close> and \<^verbatim>\<open>out8\<close> of \<^verbatim>\<open>src/kernel/arch.rs\<close>). The devices are not part
  of the source: they are a parameter, two functions that read and write a port of an arbitrary
  device state. A driver is a computation on that state that may panic; a panic stops the kernel
  and leaves the device as it is. The wrapper \<open>traced\<close> adds a log of all accesses to any device,
  so that statements about the order of accesses hold for every device.
\<close>

section \<open>Computations\<close>

type_synonym ('w, 'a) io = "'w \<Rightarrow> 'a res \<times> 'w"

definition return_io :: "'a \<Rightarrow> ('w, 'a) io" where
  "return_io x = (\<lambda>w. (Inr x, w))"

definition panic_io :: "string \<Rightarrow> ('w, 'a) io" where
  "panic_io msg = (\<lambda>w. (Inl (Panic msg), w))"

definition bind_io :: "('w, 'a) io \<Rightarrow> ('a \<Rightarrow> ('w, 'b) io) \<Rightarrow> ('w, 'b) io" where
  "bind_io m f = (\<lambda>w. case m w of (Inl e, w') \<Rightarrow> (Inl e, w') | (Inr x, w') \<Rightarrow> f x w')"

definition then_io :: "('w, 'a) io \<Rightarrow> ('w, 'b) io \<Rightarrow> ('w, 'b) io" where
  "then_io m k = bind_io m (\<lambda>_. k)"

definition ensure_io :: "bool \<Rightarrow> string \<Rightarrow> ('w, unit) io" where
  "ensure_io b msg = (if b then return_io () else panic_io msg)"

fun sequence_io :: "('w, unit) io list \<Rightarrow> ('w, unit) io" where
  "sequence_io [] = return_io ()"
| "sequence_io (m # ms) = then_io m (sequence_io ms)"

named_theorems io_simps \<open>running a computation\<close>

lemma return_io_run [io_simps]: "return_io x w = (Inr x, w)"
  by (simp add: return_io_def)

lemma panic_io_run [io_simps]: "panic_io msg w = (Inl (Panic msg), w)"
  by (simp add: panic_io_def)

lemma bind_io_run [io_simps]:
  "bind_io m f w = (case m w of (Inl e, w') \<Rightarrow> (Inl e, w') | (Inr x, w') \<Rightarrow> f x w')"
  by (simp add: bind_io_def)

lemma then_io_run [io_simps]:
  "then_io m k w = (case m w of (Inl e, w') \<Rightarrow> (Inl e, w') | (Inr x, w') \<Rightarrow> k w')"
  by (simp add: then_io_def bind_io_def)

lemma ensure_io_run [io_simps]:
  "ensure_io b msg w = (if b then (Inr (), w) else (Inl (Panic msg), w))"
  by (simp add: ensure_io_def return_io_def panic_io_def)

lemma bind_io_Inr:
  "bind_io m f w = (Inr y, w'') \<longleftrightarrow> (\<exists>x w'. m w = (Inr x, w') \<and> f x w' = (Inr y, w''))"
  by (auto simp: bind_io_def split: prod.splits sum.splits)

lemma then_io_Inr:
  "then_io m k w = (Inr y, w'') \<longleftrightarrow> (\<exists>x w'. m w = (Inr x, w') \<and> k w' = (Inr y, w''))"
  by (simp add: then_io_def bind_io_Inr)

lemma ensure_io_Inr: "ensure_io b msg w = (Inr u, w') \<longleftrightarrow> b \<and> w' = w"
  by (auto simp: io_simps)

section \<open>Ports\<close>

record 'w ports =
  port_in :: "u16 \<Rightarrow> 'w \<Rightarrow> u8 \<times> 'w"
  port_out :: "u16 \<Rightarrow> u8 \<Rightarrow> 'w \<Rightarrow> 'w"

definition in8 :: "'w ports \<Rightarrow> u16 \<Rightarrow> ('w, u8) io" where
  "in8 p port = (\<lambda>w. case port_in p port w of (v, w') \<Rightarrow> (Inr v, w'))"

definition out8 :: "'w ports \<Rightarrow> u16 \<Rightarrow> u8 \<Rightarrow> ('w, unit) io" where
  "out8 p port v = (\<lambda>w. (Inr (), port_out p port v w))"

lemma in8_run [io_simps]: "in8 p port w = (Inr (fst (port_in p port w)), snd (port_in p port w))"
  by (simp add: in8_def split: prod.splits)

lemma out8_run [io_simps]: "out8 p port v w = (Inr (), port_out p port v w)"
  by (simp add: out8_def)

section \<open>Logs\<close>

datatype io_event = In u16 u8 | Out u16 u8

definition traced :: "'w ports \<Rightarrow> ('w \<times> io_event list) ports" where
  "traced p = \<lparr>port_in = (\<lambda>port (w, log). case port_in p port w of (v, w') \<Rightarrow> (v, (w', log @ [In port v]))),
     port_out = (\<lambda>port v (w, log). (port_out p port v w, log @ [Out port v]))\<rparr>"

lemma traced_in: "in8 (traced p) port (w, log) =
    (case port_in p port w of (v, w') \<Rightarrow> (Inr v, (w', log @ [In port v])))"
  by (simp add: in8_def traced_def split: prod.splits)

lemma traced_out: "out8 (traced p) port v (w, log) = (Inr (), (port_out p port v w, log @ [Out port v]))"
  by (simp add: out8_def traced_def)

definition writes :: "io_event list \<Rightarrow> (u16 \<times> u8) list" where
  "writes log = List.map_filter (\<lambda>e. case e of Out a v \<Rightarrow> Some (a, v) | In a v \<Rightarrow> None) log"

lemma writes_simps [simp]:
  "writes [] = []" "writes (In a v # l) = writes l" "writes (Out a v # l) = (a, v) # writes l"
  "writes (l @ l') = writes l @ writes l'"
  by (simp_all add: writes_def List.map_filter_def)

text \<open>The bytes a successful run writes, in order, as one of the sequences \<open>W\<close>.\<close>

definition emits :: "('w \<times> io_event list, 'a) io \<Rightarrow> ('a \<Rightarrow> (u16 \<times> u8) list \<Rightarrow> bool) \<Rightarrow> bool" where
  "emits m W \<longleftrightarrow> (\<forall>w log x w' log'. m (w, log) = (Inr x, (w', log')) \<longrightarrow>
     (\<exists>ws. W x ws \<and> writes log' = writes log @ ws))"

lemma emits_return: "emits (return_io x) (\<lambda>y ws. y = x \<and> ws = [])"
  by (auto simp: emits_def io_simps)

lemma emits_panic: "emits (panic_io msg) W"
  by (auto simp: emits_def io_simps)

lemma emits_in: "emits (in8 (traced p) port) (\<lambda>_ ws. ws = [])"
  by (auto simp: emits_def traced_in split: prod.splits)

lemma emits_out: "emits (out8 (traced p) port v) (\<lambda>_ ws. ws = [(port, v)])"
  by (auto simp: emits_def traced_out)

lemma emits_ensure: "emits (ensure_io b msg) (\<lambda>_ ws. b \<and> ws = [])"
  by (auto simp: emits_def io_simps split: if_splits)

lemma emits_bind:
  assumes "emits m W" and "\<And>x. emits (f x) (V x)"
  shows "emits (bind_io m f) (\<lambda>y ws. \<exists>x us vs. W x us \<and> V x y vs \<and> ws = us @ vs)"
  unfolding emits_def
proof (intro allI impI)
  fix w log y w'' log''
  assume "bind_io m f (w, log) = (Inr y, w'', log'')"
  then obtain x w' log' where m: "m (w, log) = (Inr x, (w', log'))"
    and f: "f x (w', log') = (Inr y, (w'', log''))"
    by (auto simp: bind_io_Inr)
  obtain us where us: "W x us" "writes log' = writes log @ us" using assms(1) m unfolding emits_def by blast
  obtain vs where vs: "V x y vs" "writes log'' = writes log' @ vs"
    using assms(2) f unfolding emits_def by blast
  show "\<exists>ws. (\<exists>x us vs. W x us \<and> V x y vs \<and> ws = us @ vs) \<and> writes log'' = writes log @ ws"
    using us vs by auto
qed

lemma emits_then:
  assumes "emits m W" and "emits k V"
  shows "emits (then_io m k) (\<lambda>y ws. \<exists>x us vs. W x us \<and> V y vs \<and> ws = us @ vs)"
  unfolding then_io_def by (rule emits_bind [OF assms])

lemma emits_mono: "emits m W \<Longrightarrow> (\<And>x ws. W x ws \<Longrightarrow> V x ws) \<Longrightarrow> emits m V"
  unfolding emits_def by blast

text \<open>The same rules read backwards from the sequence still to be written.\<close>

lemma emits_done: "V x [] \<Longrightarrow> emits (return_io x) V"
  by (rule emits_mono [OF emits_return]) simp

lemma emits_if: "(c \<Longrightarrow> emits m V) \<Longrightarrow> (\<not> c \<Longrightarrow> emits k V) \<Longrightarrow> emits (if c then m else k) V"
  by simp

lemma emits_silent: "emits m (\<lambda>_ ws. ws = []) \<Longrightarrow> (\<And>x. emits (f x) V) \<Longrightarrow> emits (bind_io m f) V"
  by (rule emits_mono [OF emits_bind]) auto

lemma emits_step:
  "emits m (\<lambda>_ ws. W ws) \<Longrightarrow> emits k (\<lambda>y ws. \<forall>us. W us \<longrightarrow> V y (us @ ws)) \<Longrightarrow> emits (then_io m k) V"
  by (rule emits_mono [OF emits_then]) auto

lemma emits_check: "(b \<Longrightarrow> emits k V) \<Longrightarrow> emits (then_io (ensure_io b msg) k) V"
  by (cases b) (auto simp: emits_def io_simps)

section \<open>Properties of the log that every access keeps\<close>

text \<open>
  A rule says which access may follow which; a log obeys it when every adjacent pair does (the
  first access has no predecessor). Whether a computation keeps a rule is decided access by access.
\<close>

fun obeys :: "(io_event option \<Rightarrow> io_event \<Rightarrow> bool) \<Rightarrow> io_event option \<Rightarrow> io_event list \<Rightarrow> bool" where
  "obeys rule prev [] = True"
| "obeys rule prev (e # log) = (rule prev e \<and> obeys rule (Some e) log)"

definition last_event :: "io_event option \<Rightarrow> io_event list \<Rightarrow> io_event option" where
  "last_event prev log = (if log = [] then prev else Some (last log))"

lemma obeys_snoc: "obeys rule prev (log @ [e]) \<longleftrightarrow> obeys rule prev log \<and> rule (last_event prev log) e"
  by (induction log arbitrary: prev) (auto simp: last_event_def)

lemma last_event_snoc [simp]: "last_event prev (log @ [e]) = Some e"
  by (simp add: last_event_def)

text \<open>\<open>keeps rule P m Q\<close>: started in a log that obeys the rule and whose last access satisfies \<open>P\<close>,
  \<open>m\<close> leaves such a log, panicking or not, and on success the last access satisfies \<open>Q\<close>.\<close>

definition keeps :: "(io_event option \<Rightarrow> io_event \<Rightarrow> bool) \<Rightarrow> (io_event option \<Rightarrow> bool)
    \<Rightarrow> ('w \<times> io_event list, 'a) io \<Rightarrow> ('a \<Rightarrow> io_event option \<Rightarrow> bool) \<Rightarrow> bool" where
  "keeps rule P m Q \<longleftrightarrow> (\<forall>w log r w' log'. obeys rule None log \<longrightarrow> P (last_event None log) \<longrightarrow>
     m (w, log) = (r, (w', log')) \<longrightarrow>
     obeys rule None log' \<and> (\<forall>x. r = Inr x \<longrightarrow> Q x (last_event None log')))"

lemma keeps_return: "(\<And>e. P e \<Longrightarrow> Q x e) \<Longrightarrow> keeps rule P (return_io x) Q"
  by (auto simp: keeps_def io_simps)

lemma keeps_panic: "keeps rule P (panic_io msg) Q"
  by (auto simp: keeps_def io_simps)

lemma keeps_ensure: "(\<And>e. b \<Longrightarrow> P e \<Longrightarrow> Q () e) \<Longrightarrow> keeps rule P (ensure_io b msg) Q"
  by (auto simp: keeps_def io_simps split: if_splits)

lemma keeps_in:
  assumes "\<And>e v. P e \<Longrightarrow> rule e (In port v)" "\<And>v. Q v (Some (In port v))"
  shows "keeps rule P (in8 (traced p) port) Q"
  using assms by (auto simp: keeps_def traced_in obeys_snoc split: prod.splits)

lemma keeps_out:
  assumes "\<And>e. P e \<Longrightarrow> rule e (Out port v)" "Q () (Some (Out port v))"
  shows "keeps rule P (out8 (traced p) port v) Q"
  using assms by (auto simp: keeps_def traced_out obeys_snoc)

lemma keeps_bind:
  assumes "keeps rule P m R" and "\<And>x. keeps rule (R x) (f x) Q"
  shows "keeps rule P (bind_io m f) Q"
  unfolding keeps_def
proof (intro allI impI)
  fix w log r w'' log''
  assume a: "obeys rule None log" "P (last_event None log)" "bind_io m f (w, log) = (r, w'', log'')"
  obtain s w' log' where m: "m (w, log) = (s, (w', log'))" by (metis prod.exhaust)
  have o: "obeys rule None log'" "\<And>x. s = Inr x \<Longrightarrow> R x (last_event None log')"
    using assms(1) a(1,2) m unfolding keeps_def by blast+
  show "obeys rule None log'' \<and> (\<forall>x. r = Inr x \<longrightarrow> Q x (last_event None log''))"
  proof (cases s)
    case (Inl e)
    with a(3) m o show ?thesis by (auto simp: bind_io_def)
  next
    case (Inr x)
    with a(3) m have "f x (w', log') = (r, w'', log'')" by (simp add: bind_io_def)
    with o Inr assms(2) [of x] show ?thesis unfolding keeps_def by blast
  qed
qed

lemma keeps_then:
  assumes "keeps rule P m R" and "\<And>x. keeps rule (R x) k Q"
  shows "keeps rule P (then_io m k) Q"
  unfolding then_io_def by (rule keeps_bind [OF assms])

lemma keeps_weaken:
  assumes "keeps rule P m Q" "\<And>e. P' e \<Longrightarrow> P e" "\<And>x e. Q x e \<Longrightarrow> Q' x e"
  shows "keeps rule P' m Q'"
  using assms unfolding keeps_def by blast

end
