(* ===== verification/Byte_Channel.thy ===== *)
theory Byte_Channel
  imports Kernel_Prelude "HOL-Library.Sublist"
begin

text \<open>
  The contract between a bounded queue filled by an interrupt handler and drained by the main
  flow, and what the two get from it under every interleaving: the bytes taken out and those
  still queued are, in order, the bytes that were let in; and only arrivals at a full queue are
  lost.
\<close>

text \<open>A schedule: arrivals, arrivals that carry no byte, and steps at which the main flow takes everything out.\<close>

datatype 'b channel_event = Arrive 'b | Fault | Drain

fun arrivals :: "'b channel_event list \<Rightarrow> 'b list" where
  "arrivals [] = []"
| "arrivals (Arrive b # es) = b # arrivals es"
| "arrivals (Fault # es) = arrivals es"
| "arrivals (Drain # es) = arrivals es"

fun channel_step :: "('q \<Rightarrow> 'b \<Rightarrow> 'q) \<Rightarrow> ('q \<Rightarrow> 'q) \<Rightarrow> ('q \<Rightarrow> 'b list \<times> 'q)
    \<Rightarrow> 'b channel_event \<Rightarrow> 'b list \<times> 'q \<Rightarrow> 'b list \<times> 'q" where
  "channel_step push fault drain (Arrive b) (out, q) = (out, push q b)"
| "channel_step push fault drain Fault (out, q) = (out, fault q)"
| "channel_step push fault drain Drain (out, q) = (case drain q of (bs, q') \<Rightarrow> (out @ bs, q'))"

text \<open>The longest burst: arrivals between two consecutive drains, counting from \<open>n\<close>.\<close>

fun bursts_within :: "nat \<Rightarrow> nat \<Rightarrow> 'b channel_event list \<Rightarrow> bool" where
  "bursts_within cap n [] = (n \<le> cap)"
| "bursts_within cap n (Arrive b # es) = bursts_within cap (Suc n) es"
| "bursts_within cap n (Fault # es) = bursts_within cap n es"
| "bursts_within cap n (Drain # es) = (n \<le> cap \<and> bursts_within cap 0 es)"

lemma bursts_within_le: "bursts_within cap n es \<Longrightarrow> n \<le> cap"
  by (induction es arbitrary: n rule: arrivals.induct) force+

locale byte_channel =
  fixes ok :: "'q \<Rightarrow> bool" and contents :: "'q \<Rightarrow> 'b list" and capacity :: nat
    and push :: "'q \<Rightarrow> 'b \<Rightarrow> 'q" and fault :: "'q \<Rightarrow> 'q" and drain :: "'q \<Rightarrow> 'b list \<times> 'q"
  assumes push_law: "ok q \<Longrightarrow> ok (push q b) \<and>
      contents (push q b) = (if length (contents q) < capacity then contents q @ [b] else contents q)"
    and fault_law: "ok q \<Longrightarrow> ok (fault q) \<and> contents (fault q) = contents q"
    and drain_law: "ok q \<Longrightarrow> drain q = (bs, q') \<Longrightarrow> ok q' \<and> bs = contents q \<and> contents q' = []"
begin

abbreviation runs :: "'b channel_event list \<Rightarrow> 'b list \<times> 'q \<Rightarrow> 'b list \<times> 'q" where
  "runs es st \<equiv> fold (channel_step push fault drain) es st"

lemma fifo:
  assumes "ok q" "runs es (out, q) = (out', q')"
  shows "ok q' \<and> (\<exists>bs. out' @ contents q' = out @ contents q @ bs \<and> subseq bs (arrivals es))"
  using assms
proof (induction es arbitrary: out q rule: arrivals.induct)
  case (2 b es)
  note p = push_law [OF 2(2), of b]
  have "ok q' \<and> (\<exists>bs. out' @ contents q' = out @ contents (push q b) @ bs \<and> subseq bs (arrivals es))"
    using 2(1) [of "push q b" out] 2(3) p by simp
  then show ?case
    using p by (cases "length (contents q) < capacity") (auto simp: subseq_Cons2)
next
  case (3 es)
  then show ?case using 3(1) [of "fault q" out] fault_law [OF 3(2)] by simp
next
  case (4 es)
  obtain bs q1 where d: "drain q = (bs, q1)" by (cases "drain q")
  note l = drain_law [OF 4(2) d]
  show ?case using 4(1) [of q1 "out @ bs"] 4(3) l d by simp
qed simp

lemma lossless:
  assumes "ok q" "runs es (out, q) = (out', q')" "bursts_within capacity (length (contents q)) es"
  shows "out' @ contents q' = out @ contents q @ arrivals es"
  using assms
proof (induction es arbitrary: out q rule: arrivals.induct)
  case (2 b es)
  have "length (contents q) < capacity"
    using 2(4) bursts_within_le by fastforce
  then show ?case using 2(1) [of "push q b" out] 2(3,4) push_law [OF 2(2), of b] by simp
next
  case (3 es)
  then show ?case using 3(1) [of "fault q" out] fault_law [OF 3(2)] by simp
next
  case (4 es)
  obtain bs q1 where d: "drain q = (bs, q1)" by (cases "drain q")
  note l = drain_law [OF 4(2) d]
  show ?case using 4(1) [of q1 "out @ bs"] 4(3,4) l d by simp
qed simp

end

end
