(* ===== verification/Keyboard.thy ===== *)
theory Keyboard
  imports Port_IO Byte_Channel
begin

text \<open>
  The PS/2 keyboard driver (\<^verbatim>\<open>src/kernel/keyboard.rs\<close>): the byte queue between the interrupt
  handler and the main loop, the 8042 initialisation protocol, the handler and one pass of the
  receive loop. The 8042 is the device parameter of the port functions. \<^verbatim>\<open>init\<close> ends with the
  unmasking of IRQ1, which belongs to the interrupt controller and is an argument here.
\<close>

section \<open>Constants\<close>

definition DATA :: u16 where "DATA = 0x60"
definition STATUS_COMMAND :: u16 where "STATUS_COMMAND = 0x64"
definition OUTPUT_FULL :: u8 where "OUTPUT_FULL = 1"
definition INPUT_FULL :: u8 where "INPUT_FULL = 2"
definition AUXILIARY :: u8 where "AUXILIARY = 0x20"
definition BAD_DATA :: u8 where "BAD_DATA = 0xc0"
definition POLL_BUDGET :: usize where "POLL_BUDGET = 100000"
definition QUEUE_CAPACITY :: usize where "QUEUE_CAPACITY = 64"

lemmas kbd_defs = DATA_def STATUS_COMMAND_def OUTPUT_FULL_def INPUT_FULL_def AUXILIARY_def BAD_DATA_def

section \<open>The byte queue\<close>

record byte_queue =
  bq_bytes :: "u8 list"
  bq_head :: usize
  bq_length :: usize
  bq_dropped :: usize
  bq_errors :: usize

definition new_queue :: byte_queue where
  "new_queue = \<lparr>bq_bytes = replicate QUEUE_CAPACITY 0, bq_head = 0, bq_length = 0, bq_dropped = 0,
     bq_errors = 0\<rparr>"

definition push :: "byte_queue \<Rightarrow> u8 \<Rightarrow> byte_queue" where
  "push q byte =
     (if bq_length q = QUEUE_CAPACITY then q\<lparr>bq_dropped := uadd (bq_dropped q) 1\<rparr>
      else q\<lparr>bq_bytes := (bq_bytes q)[uadd (bq_head q) (bq_length q) mod QUEUE_CAPACITY := byte],
             bq_length := uadd (bq_length q) 1\<rparr>)"

definition pop :: "byte_queue \<Rightarrow> u8 option \<times> byte_queue" where
  "pop q =
     (if bq_length q = 0 then (None, q)
      else (Some (bq_bytes q ! bq_head q),
        q\<lparr>bq_head := uadd (bq_head q) 1 mod QUEUE_CAPACITY, bq_length := usub (bq_length q) 1\<rparr>))"

section \<open>Talking to the controller\<close>

text \<open>The polling loops, with the number of polls left.\<close>

fun poll_input_empty :: "'w ports \<Rightarrow> nat \<Rightarrow> ('w, unit) io" where
  "poll_input_empty p 0 = panic_io ''8042 input buffer timeout''"
| "poll_input_empty p (Suc n) = bind_io (in8 p STATUS_COMMAND) (\<lambda>status.
     if status AND INPUT_FULL = 0 then return_io () else poll_input_empty p n)"

definition wait_for_input_empty :: "'w ports \<Rightarrow> ('w, unit) io" where
  "wait_for_input_empty p = poll_input_empty p POLL_BUDGET"

definition command :: "'w ports \<Rightarrow> u8 \<Rightarrow> ('w, unit) io" where
  "command p value = then_io (wait_for_input_empty p) (out8 p STATUS_COMMAND value)"

definition write_data :: "'w ports \<Rightarrow> u8 \<Rightarrow> ('w, unit) io" where
  "write_data p value = then_io (wait_for_input_empty p) (out8 p DATA value)"

fun poll_reply :: "'w ports \<Rightarrow> nat \<Rightarrow> ('w, u8) io" where
  "poll_reply p 0 = panic_io ''8042 output buffer timeout''"
| "poll_reply p (Suc n) = bind_io (in8 p STATUS_COMMAND) (\<lambda>status.
     if status AND OUTPUT_FULL \<noteq> 0
     then bind_io (in8 p DATA) (\<lambda>byte.
          then_io (ensure_io (status AND (AUXILIARY OR BAD_DATA) = 0) ''invalid 8042 reply'')
            (return_io byte))
     else poll_reply p n)"

definition read_reply :: "'w ports \<Rightarrow> ('w, u8) io" where
  "read_reply p = poll_reply p POLL_BUDGET"

fun keyboard_command_tries :: "'w ports \<Rightarrow> u8 \<Rightarrow> nat \<Rightarrow> ('w, unit) io" where
  "keyboard_command_tries p value 0 = panic_io ''PS/2 keyboard keeps requesting resend''"
| "keyboard_command_tries p value (Suc n) = then_io (write_data p value)
     (bind_io (read_reply p) (\<lambda>reply.
        if reply = 0xfa then return_io ()
        else if reply = 0xfe then keyboard_command_tries p value n
        else panic_io ''unexpected PS/2 ACK''))"

definition keyboard_command :: "'w ports \<Rightarrow> u8 \<Rightarrow> ('w, unit) io" where
  "keyboard_command p value = keyboard_command_tries p value 3"

text \<open>Discarding stale output, with the number of bytes still to be looked at.\<close>

fun drain_output :: "'w ports \<Rightarrow> nat \<Rightarrow> ('w, unit) io" where
  "drain_output p 0 = return_io ()"
| "drain_output p (Suc n) = bind_io (in8 p STATUS_COMMAND) (\<lambda>status.
     if status AND OUTPUT_FULL = 0 then return_io ()
     else bind_io (in8 p DATA) (\<lambda>_. drain_output p n))"

definition controller_configuration :: "u8 \<Rightarrow> u8" where
  "controller_configuration c = (c OR 0x40 OR 0x20) AND NOT (1 OR 2 OR 0x10)"

definition keyboard_init :: "'w ports \<Rightarrow> bool \<Rightarrow> ('w, unit) io \<Rightarrow> ('w, unit) io" where
  "keyboard_init p interrupts_enabled enable_keyboard =
     then_io (ensure_io (\<not> interrupts_enabled) ''!arch::interrupts_enabled()'')
    (then_io (command p 0xad)
    (then_io (command p 0xa7)
    (then_io (drain_output p QUEUE_CAPACITY)
    (bind_io (in8 p STATUS_COMMAND) (\<lambda>status.
     then_io (ensure_io (status AND OUTPUT_FULL = 0) ''8042 stale output did not drain'')
    (then_io (command p 0x20)
    (bind_io (read_reply p) (\<lambda>reply.
     let configuration = controller_configuration reply in
     sequence_io
       [command p 0x60, write_data p configuration, command p 0xae,
        keyboard_command p 0xf5, keyboard_command p 0xf0, keyboard_command p 0x02,
        keyboard_command p 0xf4,
        command p 0x60, write_data p (configuration OR 1),
        enable_keyboard]))))))))"

section \<open>Interrupt handler and receive loop\<close>

definition on_interrupt :: "'w ports \<Rightarrow> byte_queue \<Rightarrow> ('w, byte_queue) io" where
  "on_interrupt p q = bind_io (in8 p STATUS_COMMAND) (\<lambda>status.
     if status AND OUTPUT_FULL = 0
     then return_io (q\<lparr>bq_errors := uadd (bq_errors q) 1\<rparr>)
     else bind_io (in8 p DATA) (\<lambda>byte.
       if status AND (AUXILIARY OR BAD_DATA) \<noteq> 0
       then return_io (q\<lparr>bq_errors := uadd (bq_errors q) 1\<rparr>)
       else return_io (push q byte)))"

text \<open>The inner \<^verbatim>\<open>while let\<close>: all bytes printed in one pass, in order.\<close>

function drain_queue :: "byte_queue \<Rightarrow> u8 list \<times> byte_queue" where
  "drain_queue q = (case pop q of
     (None, q') \<Rightarrow> ([], q')
   | (Some byte, q') \<Rightarrow> (case drain_queue q' of (bs, q'') \<Rightarrow> (byte # bs, q'')))"
  by pat_completeness auto
termination
  by (relation "measure bq_length") (auto simp: pop_def usub_def split: if_splits)

declare drain_queue.simps [simp del]

text \<open>
  One pass of the receive loop up to the wait: the bytes it prints, the loss it reports
  (dropped and faulty bytes), and the queue it leaves.
\<close>

definition run_pass :: "byte_queue \<Rightarrow> u8 list \<times> (usize \<times> usize) option \<times> byte_queue" where
  "run_pass q = (case drain_queue q of (bs, q') \<Rightarrow>
     if bq_dropped q' \<noteq> 0 \<or> bq_errors q' \<noteq> 0
     then (bs, Some (bq_dropped q', bq_errors q'), q'\<lparr>bq_dropped := 0, bq_errors := 0\<rparr>)
     else (bs, None, q'))"

text \<open>
  The same pass in the keyboard-check build, which counts the expected bytes: it panics at the first wrong
  byte, stops the kernel after the last one, and otherwise waits as usual.
\<close>

definition EXPECTED :: "u8 list" where "EXPECTED = [0x1e, 0x9e, 0x30, 0xb0]"

datatype check_pass_end = Waiting usize "(usize \<times> usize) option" byte_queue | Check_Done byte_queue

function checked_pass :: "usize \<Rightarrow> byte_queue \<Rightarrow> check_pass_end res" where
  "checked_pass checked q = (case pop q of
     (None, q') \<Rightarrow>
       if bq_dropped q' \<noteq> 0 \<or> bq_errors q' \<noteq> 0
       then Inr (Waiting checked (Some (bq_dropped q', bq_errors q')) (q'\<lparr>bq_dropped := 0, bq_errors := 0\<rparr>))
       else Inr (Waiting checked None q')
   | (Some byte, q') \<Rightarrow>
       if \<not> checked < length EXPECTED then Inl (Panic ''index out of bounds'')
       else if byte \<noteq> EXPECTED ! checked then Inl (Panic ''byte == EXPECTED[checked]'')
       else if checked + 1 = length EXPECTED
       then bind_res (ensure ((bq_length q', bq_dropped q', bq_errors q') = (0, 0, 0)) ''(queue.length, queue.dropped, queue.errors)'')
         (\<lambda>_. Inr (Check_Done q'))
       else checked_pass (checked + 1) q')"
  by pat_completeness auto
termination
  by (relation "measure (\<lambda>(checked, q). bq_length q)") (auto simp: pop_def usub_def split: if_splits)

declare checked_pass.simps [simp del]

text \<open>The queue self-test of the checking build.\<close>

definition pop_expect :: "usize \<Rightarrow> byte_queue \<Rightarrow> byte_queue res" where
  "pop_expect b q = (case pop q of (r, q') \<Rightarrow>
     bind_res (ensure (r = Some (of_nat b)) ''queue.pop() == Some(byte as u8)'') (\<lambda>_. Inr q'))"

definition verify_queue :: "unit res" where
  "verify_queue =
     (let q1 = fold (\<lambda>b q. push q (of_nat b)) [0..<QUEUE_CAPACITY] new_queue;
          q2 = push q1 0xff
      in bind_res (ensure (bq_dropped q2 = 1) ''queue.dropped == 1'') (\<lambda>_.
         bind_res (for_res [0..<QUEUE_CAPACITY div 2] pop_expect q2) (\<lambda>q3.
         let q4 = fold (\<lambda>b q. push q (of_nat b)) [QUEUE_CAPACITY..<QUEUE_CAPACITY + QUEUE_CAPACITY div 2] q3
         in bind_res (for_res [QUEUE_CAPACITY div 2..<QUEUE_CAPACITY + QUEUE_CAPACITY div 2] pop_expect q4) (\<lambda>q5.
         ensure (fst (pop q5) = None) ''queue.pop() == None''))))"

section \<open>The queue is a bounded FIFO channel\<close>

definition queue_ok :: "byte_queue \<Rightarrow> bool" where
  "queue_ok q \<longleftrightarrow> length (bq_bytes q) = QUEUE_CAPACITY \<and> bq_head q < QUEUE_CAPACITY
     \<and> bq_length q \<le> QUEUE_CAPACITY"

definition queued :: "byte_queue \<Rightarrow> u8 list" where
  "queued q = map (\<lambda>k. bq_bytes q ! ((bq_head q + k) mod QUEUE_CAPACITY)) [0..<bq_length q]"

lemma length_queued [simp]: "length (queued q) = bq_length q"
  by (simp add: queued_def)

lemma queued_empty [simp]: "bq_length q = 0 \<Longrightarrow> queued q = []"
  by (simp add: queued_def)

lemma new_queue_ok [simp]: "queue_ok new_queue" "queued new_queue = []" "bq_length new_queue = 0"
  "bq_dropped new_queue = 0" "bq_errors new_queue = 0"
  by (simp_all add: queue_ok_def queued_def new_queue_def QUEUE_CAPACITY_def)

lemma slot_less: "i < j \<Longrightarrow> j < n \<Longrightarrow> (h + i) mod n \<noteq> (h + j) mod (n :: nat)"
proof
  assume "i < j" "j < n" "(h + i) mod n = (h + j) mod n"
  then have "n dvd (h + j) - (h + i)" using mod_eq_dvd_iff_nat [of "h + i" "h + j" n] by simp
  then have "n dvd j - i" by simp
  with \<open>i < j\<close> \<open>j < n\<close> show False by (auto dest: dvd_imp_le)
qed

lemma slot_inj: "(h + i) mod n = (h + j) mod n \<Longrightarrow> i < n \<Longrightarrow> j < n \<Longrightarrow> i = (j :: nat)"
  using slot_less [of i j n h] slot_less [of j i n h] by (metis linorder_neqE_nat)

lemma push_queued:
  assumes "queue_ok q"
  shows "queue_ok (push q b)"
    "queued (push q b) = (if bq_length q < QUEUE_CAPACITY then queued q @ [b] else queued q)"
    "bq_errors (push q b) = bq_errors q"
    "bq_dropped (push q b) = (if bq_length q < QUEUE_CAPACITY then bq_dropped q else uadd (bq_dropped q) 1)"
proof -
  let ?c = QUEUE_CAPACITY and ?n = "bq_length q" and ?h = "bq_head q"
  note ok = assms [unfolded queue_ok_def]
  show "bq_errors (push q b) = bq_errors q" by (simp add: push_def)
  show "bq_dropped (push q b) = (if ?n < ?c then bq_dropped q else uadd (bq_dropped q) 1)"
    using ok by (simp add: push_def)
  have add: "uadd ?h ?n = ?h + ?n" "uadd ?n 1 = Suc ?n"
    using ok by (simp_all add: uadd_exact QUEUE_CAPACITY_def)
  show "queue_ok (push q b)"
    using ok add by (auto simp: queue_ok_def push_def)
  show "queued (push q b) = (if ?n < ?c then queued q @ [b] else queued q)"
  proof (cases "?n < ?c")
    case True
    let ?s = "(?h + ?n) mod ?c"
    have push: "push q b = q\<lparr>bq_bytes := (bq_bytes q)[?s := b], bq_length := Suc ?n\<rparr>"
      using True add by (simp add: push_def)
    have "?s < length (bq_bytes q)" using ok by simp
    moreover have "?s \<noteq> (?h + k) mod ?c" if "k < ?n" for k using slot_less [OF that True] by metis
    ultimately show ?thesis
      using True by (auto simp: push queued_def nth_update_if)
  next
    case False
    then have "?n = ?c" using ok by simp
    then show ?thesis by (simp add: push_def queued_def)
  qed
qed

lemma push_length:
  "queue_ok q \<Longrightarrow> bq_length (push q b) = (if bq_length q < QUEUE_CAPACITY then Suc (bq_length q) else bq_length q)"
  by (simp add: push_def queue_ok_def uadd_exact QUEUE_CAPACITY_def)

lemma pop_queued:
  assumes "queue_ok q"
  shows "pop q = (case queued q of [] \<Rightarrow> (None, q)
    | b # bs \<Rightarrow> (Some b, q\<lparr>bq_head := Suc (bq_head q) mod QUEUE_CAPACITY, bq_length := bq_length q - 1\<rparr>))"
    and "snd (pop q) = q' \<Longrightarrow> queue_ok q' \<and> queued q' = tl (queued q)
      \<and> bq_dropped q' = bq_dropped q \<and> bq_errors q' = bq_errors q"
proof -
  let ?c = QUEUE_CAPACITY and ?n = "bq_length q" and ?h = "bq_head q"
  let ?q = "q\<lparr>bq_head := Suc ?h mod ?c, bq_length := ?n - 1\<rparr>"
  note ok = assms [unfolded queue_ok_def]
  have add: "uadd ?h 1 = Suc ?h" using ok by (simp add: uadd_exact QUEUE_CAPACITY_def)
  have cons: "queued q = bq_bytes q ! ?h # queued ?q" if "?n \<noteq> 0"
  proof -
    have "[0..<?n] = 0 # map Suc [0..<?n - 1]" using that by (cases ?n) (simp_all add: upt_conv_Cons map_Suc_upt del: upt_Suc)
    moreover have "(Suc ?h mod ?c + k) mod ?c = (?h + Suc k) mod ?c" for k by (simp add: mod_simps)
    ultimately show ?thesis using ok by (simp add: queued_def comp_def)
  qed
  show eq: "pop q = (case queued q of [] \<Rightarrow> (None, q) | b # bs \<Rightarrow> (Some b, ?q))"
  proof (cases "?n = 0")
    case True
    then show ?thesis by (simp add: pop_def queued_def)
  next
    case False
    then show ?thesis using cons add by (simp add: pop_def usub_exact)
  qed
  show "snd (pop q) = q' \<Longrightarrow> queue_ok q' \<and> queued q' = tl (queued q)
      \<and> bq_dropped q' = bq_dropped q \<and> bq_errors q' = bq_errors q"
    using ok cons unfolding eq
    by (cases "?n = 0") (auto simp: queue_ok_def queued_def [of q] QUEUE_CAPACITY_def)
qed

lemma drain_queue_queued:
  assumes "queue_ok q"
  shows "\<exists>q'. drain_queue q = (queued q, q') \<and> queue_ok q' \<and> queued q' = []
    \<and> bq_dropped q' = bq_dropped q \<and> bq_errors q' = bq_errors q"
  using assms
proof (induction "length (queued q)" arbitrary: q)
  case 0
  then have "queued q = []" by simp
  then show ?case using 0 pop_queued(1) [OF 0(2)] by (simp add: drain_queue.simps)
next
  case (Suc n)
  obtain b bs where q: "queued q = b # bs" using Suc(2) by (cases "queued q") auto
  obtain q1 where p: "pop q = (Some b, q1)" using pop_queued(1) [OF Suc(3)] q by simp
  then have q1: "queue_ok q1" "queued q1 = bs" "bq_dropped q1 = bq_dropped q" "bq_errors q1 = bq_errors q"
    using pop_queued(2) [OF Suc(3), of q1] q by auto
  have "n = length (queued q1)" using Suc(2) q q1 by (simp del: length_queued)
  then obtain q' where "drain_queue q1 = (bs, q')" "queue_ok q'" "queued q' = []"
      "bq_dropped q' = bq_dropped q" "bq_errors q' = bq_errors q"
    using Suc(1) [of q1] q1 by auto
  then show ?case using p q by (simp add: drain_queue.simps)
qed

text \<open>The checking pass accepts exactly the next expected bytes.\<close>

lemma checked_pass_exact:
  assumes "queue_ok q" "k < 4" "bq_dropped q = 0" "bq_errors q = 0"
  shows "if k + length (queued q) < 4 \<and> queued q = take (length (queued q)) (drop k EXPECTED)
       then \<exists>q'. checked_pass k q = Inr (Waiting (k + length (queued q)) None q') \<and> queue_ok q' \<and> queued q' = []
       else if queued q = drop k EXPECTED then \<exists>q'. checked_pass k q = Inr (Check_Done q') \<and> queued q' = []
       else \<exists>e. checked_pass k q = Inl e"
  using assms
proof (induction "queued q" arbitrary: q k)
  case Nil
  have "pop q = (None, q)" using pop_queued(1) [OF Nil.prems(1)] Nil.hyps [symmetric] by simp
  then have "checked_pass k q = Inr (Waiting k None q)" using Nil.prems by (subst checked_pass.simps) simp
  then show ?case using Nil by (simp del: length_queued)
next
  case (Cons b bs)
  obtain q1 where p: "pop q = (Some b, q1)" using pop_queued(1) [OF Cons.prems(1)] Cons.hyps(2) [symmetric] by simp
  then have q1: "queue_ok q1" "queued q1 = bs" "bq_dropped q1 = 0" "bq_errors q1 = 0"
    using pop_queued(2) [OF Cons.prems(1), of q1] Cons.hyps(2) [symmetric] Cons.prems(3,4) by auto
  have len: "length EXPECTED = 4" by (simp add: EXPECTED_def)
  have d: "drop k EXPECTED = EXPECTED ! k # drop (Suc k) EXPECTED" using Cons.prems(2) len by (simp add: Cons_nth_drop_Suc)
  have n: "bq_length q1 = length bs" using q1(2) length_queued [of q1] by simp
  have step: "checked_pass k q = (if b \<noteq> EXPECTED ! k then Inl (Panic ''byte == EXPECTED[checked]'')
      else if k + 1 = 4 then bind_res (ensure (bs = []) ''(queue.length, queue.dropped, queue.errors)'') (\<lambda>_. Inr (Check_Done q1))
      else checked_pass (k + 1) q1)"
    using Cons.prems(2) by (subst checked_pass.simps) (simp add: p len q1(3,4) n)
  show ?case
  proof (cases "b = EXPECTED ! k \<and> k + 1 \<noteq> 4")
    case True
    then show ?thesis
      using Cons.hyps(1) [of q1 "k + 1"] q1 Cons.prems(2) unfolding step Cons.hyps(2) [symmetric] d by (auto simp: len)
  next
    case False
    have "k + 1 = 4 \<Longrightarrow> drop (Suc k) EXPECTED = []" using len by simp
    with False show ?thesis
      using q1(2) Cons.prems(2) unfolding step Cons.hyps(2) [symmetric] d by (cases "bs = []") auto
  qed
qed

text \<open>One pass of the receive loop, without the report: what the main flow does to the queue.\<close>

definition consume :: "byte_queue \<Rightarrow> u8 list \<times> byte_queue" where
  "consume q = (case run_pass q of (bs, report, q') \<Rightarrow> (bs, q'))"

definition count_error :: "byte_queue \<Rightarrow> byte_queue" where
  "count_error q = q\<lparr>bq_errors := uadd (bq_errors q) 1\<rparr>"

lemma queued_counters [simp]:
  "queued (q\<lparr>bq_errors := e\<rparr>) = queued q" "queue_ok (q\<lparr>bq_errors := e\<rparr>) = queue_ok q"
  "queued (q\<lparr>bq_dropped := n\<rparr>) = queued q" "queue_ok (q\<lparr>bq_dropped := n\<rparr>) = queue_ok q"
  by (simp_all add: queued_def queue_ok_def)

lemma run_pass_queued:
  assumes "queue_ok q"
  shows "\<exists>report q'. run_pass q = (queued q, report, q') \<and> queue_ok q' \<and> queued q' = []
    \<and> bq_dropped q' = 0 \<and> bq_errors q' = 0
    \<and> (case report of None \<Rightarrow> (0, 0) | Some r \<Rightarrow> r) = (bq_dropped q, bq_errors q)"
proof -
  obtain q' where "drain_queue q = (queued q, q')" "queue_ok q'" "queued q' = []"
      "bq_dropped q' = bq_dropped q" "bq_errors q' = bq_errors q"
    using drain_queue_queued [OF assms] by blast
  then show ?thesis by (simp add: run_pass_def)
qed

interpretation queue: byte_channel queue_ok queued QUEUE_CAPACITY push count_error consume
proof unfold_locales
  fix q q' :: byte_queue and b :: u8 and bs
  show "queue_ok q \<Longrightarrow> queue_ok (push q b) \<and>
      queued (push q b) = (if length (queued q) < QUEUE_CAPACITY then queued q @ [b] else queued q)"
    using push_queued by simp
  show "queue_ok q \<Longrightarrow> queue_ok (count_error q) \<and> queued (count_error q) = queued q"
    by (simp add: count_error_def)
  show "queue_ok q \<Longrightarrow> consume q = (bs, q') \<Longrightarrow> queue_ok q' \<and> bs = queued q \<and> queued q' = []"
    using run_pass_queued [of q] by (auto simp: consume_def)
qed

section \<open>The interrupt handler\<close>

text \<open>
  The handler on the abstract queue (the bytes in order, the dropped count, the error count): a
  byte arrives when the controller has output that is neither auxiliary nor marked faulty.
\<close>

definition valid_status :: "u8 \<Rightarrow> bool" where
  "valid_status s \<longleftrightarrow> s AND OUTPUT_FULL \<noteq> 0 \<and> s AND (AUXILIARY OR BAD_DATA) = 0"

definition spec_interrupt :: "u8 \<Rightarrow> u8 \<Rightarrow> u8 list \<times> usize \<times> usize \<Rightarrow> u8 list \<times> usize \<times> usize" where
  "spec_interrupt status byte = (\<lambda>(bs, dropped, errors).
     if \<not> valid_status status then (bs, dropped, uadd errors 1)
     else if length bs < QUEUE_CAPACITY then (bs @ [byte], dropped, errors)
     else (bs, uadd dropped 1, errors))"

definition abstract_queue :: "byte_queue \<Rightarrow> u8 list \<times> usize \<times> usize" where
  "abstract_queue q = (queued q, bq_dropped q, bq_errors q)"

lemma on_interrupt_run:
  assumes "port_in p STATUS_COMMAND w = (status, w1)" "port_in p DATA w1 = (byte, w2)"
  shows "on_interrupt p q w = (Inr (if valid_status status then push q byte else count_error q),
    if status AND OUTPUT_FULL = 0 then w1 else w2)"
  using assms by (simp add: on_interrupt_def io_simps valid_status_def count_error_def)

text \<open>
  The keyboard interrupt handler implements the abstract bounded queue: whatever the status
  and data ports answer, it never panics, takes the data byte exactly when output is pending,
  appends it when it is valid and there is room, counts it as dropped when the queue is full,
  and counts anything else as an error; bytes already queued are never overwritten.
\<close>

theorem on_interrupt_refines:
  assumes "queue_ok q"
    and "port_in p STATUS_COMMAND w = (status, w1)" "port_in p DATA w1 = (byte, w2)"
  shows "\<exists>q'. on_interrupt p q w = (Inr q', if status AND OUTPUT_FULL = 0 then w1 else w2)
    \<and> queue_ok q' \<and> abstract_queue q' = spec_interrupt status byte (abstract_queue q)"
  unfolding on_interrupt_run [OF assms(2,3)]
  using push_queued [OF assms(1), of byte] assms(1)
  by (auto simp: abstract_queue_def spec_interrupt_def count_error_def)

text \<open>A controller that answers one status and one byte.\<close>

definition fixed_ports :: "u8 \<Rightarrow> u8 \<Rightarrow> unit ports" where
  "fixed_ports status byte = \<lparr>port_in = (\<lambda>port w. (if port = STATUS_COMMAND then status else byte, w)),
     port_out = (\<lambda>_ _ w. w)\<rparr>"

lemma fixed_ports_in [simp]:
  "port_in (fixed_ports s b) STATUS_COMMAND w = (s, w)" "port_in (fixed_ports s b) DATA w = (b, w)"
  by (simp_all add: fixed_ports_def STATUS_COMMAND_def DATA_def)

theorem on_interrupt_refines_witness:
  "\<exists>q'. on_interrupt (fixed_ports 0x15 0x1e) new_queue () = (Inr q', ())
     \<and> queue_ok q' \<and> abstract_queue q' = ([0x1e], 0, 0)"
proof -
  have "spec_interrupt 0x15 0x1e (abstract_queue new_queue) = ([0x1e], 0, 0)"
    by (simp add: abstract_queue_def spec_interrupt_def valid_status_def kbd_defs QUEUE_CAPACITY_def)
  then show ?thesis
    using on_interrupt_refines [of new_queue "fixed_ports 0x15 0x1e" "()" "0x15" "()" "0x1e" "()"] by simp
qed

section \<open>The stream of key bytes\<close>

text \<open>
  A run of the driver: interrupts, each with the status and the byte the controller answers, and
  passes of the receive loop. The state is what has been printed, the losses reported, the queue.
\<close>

datatype kbd_event = Irq u8 u8 | Pass

fun kbd_step :: "kbd_event \<Rightarrow> u8 list \<times> (usize \<times> usize) list \<times> byte_queue
    \<Rightarrow> u8 list \<times> (usize \<times> usize) list \<times> byte_queue" where
  "kbd_step (Irq status byte) (printed, reports, q) =
     (case on_interrupt (fixed_ports status byte) q () of
        (Inr q', _) \<Rightarrow> (printed, reports, q') | (Inl e, _) \<Rightarrow> (printed, reports, q))"
| "kbd_step Pass (printed, reports, q) =
     (case run_pass q of (bs, report, q') \<Rightarrow>
        (printed @ bs, reports @ (case report of None \<Rightarrow> [] | Some r \<Rightarrow> [r]), q'))"

definition channel_view :: "kbd_event \<Rightarrow> u8 channel_event" where
  "channel_view e = (case e of Irq s b \<Rightarrow> if valid_status s then Arrive b else Fault | Pass \<Rightarrow> Drain)"

text \<open>The valid bytes that arrived, in order.\<close>

definition received :: "kbd_event list \<Rightarrow> u8 list" where
  "received es = List.map_filter (\<lambda>e. case e of Irq s b \<Rightarrow> if valid_status s then Some b else None
     | Pass \<Rightarrow> None) es"

lemma received_arrivals: "received es = arrivals (map channel_view es)"
  by (induction es)
    (auto simp: received_def List.map_filter_def channel_view_def split: kbd_event.splits)

lemma kbd_step_channel:
  "kbd_step e (printed, reports, q) = (printed', reports', q') \<Longrightarrow>
     channel_step push count_error consume (channel_view e) (printed, q) = (printed', q')"
  by (cases e) (auto simp: channel_view_def consume_def
      on_interrupt_run [OF fixed_ports_in(1) fixed_ports_in(2)] split: prod.splits)

lemma kbd_run_channel:
  "fold kbd_step es (printed, reports, q) = (printed', reports', q') \<Longrightarrow>
     fold (channel_step push count_error consume) (map channel_view es) (printed, q) = (printed', q')"
proof (induction es arbitrary: printed reports q)
  case (Cons e es)
  obtain a b c where s: "kbd_step e (printed, reports, q) = (a, b, c)" by (metis prod.exhaust)
  show ?case using Cons.IH [of a b c] Cons.prems s kbd_step_channel [OF s] by simp
qed simp

text \<open>
  C21. Key bytes are delivered in order and without duplicates under every interleaving of
  interrupts and receive passes: the bytes printed so far followed by those still queued are a
  subsequence of the valid bytes that arrived, in their order.
\<close>

theorem keyboard_stream_in_order:
  "case fold kbd_step es ([], [], new_queue) of (printed, reports, q) \<Rightarrow>
     subseq (printed @ queued q) (received es)"
proof -
  obtain pr re q where r: "fold kbd_step es ([], [], new_queue) = (pr, re, q)" by (metis prod.exhaust)
  show ?thesis
    using queue.fifo [OF new_queue_ok(1) kbd_run_channel [OF r]] r by (auto simp: received_arrivals)
qed

text \<open>
  No key byte is lost as long as at most 64 arrive between two passes of the receive loop:
  then the bytes printed followed by those queued are all valid bytes that arrived, in order.
\<close>

theorem keyboard_stream_lossless:
  assumes "bursts_within QUEUE_CAPACITY 0 (map channel_view es)"
  shows "case fold kbd_step es ([], [], new_queue) of (printed, reports, q) \<Rightarrow>
    printed @ queued q = received es"
proof -
  obtain pr re q where r: "fold kbd_step es ([], [], new_queue) = (pr, re, q)" by (metis prod.exhaust)
  show ?thesis
    using queue.lossless [OF new_queue_ok(1) kbd_run_channel [OF r]] assms r
    by (simp add: received_arrivals)
qed

theorem keyboard_stream_lossless_witness:
  "case fold kbd_step [Irq 0x15 0x1e, Irq 0x15 0x9e, Pass, Irq 0x35 0x30] ([], [], new_queue) of
     (printed, reports, q) \<Rightarrow> printed @ queued q = [0x1e, 0x9e]"
proof -
  have "received [Irq 0x15 0x1e, Irq 0x15 0x9e, Pass, Irq 0x35 0x30] = [0x1e, 0x9e]"
    by (simp add: received_def List.map_filter_def valid_status_def kbd_defs)
  moreover have "bursts_within QUEUE_CAPACITY 0 (map channel_view [Irq 0x15 0x1e, Irq 0x15 0x9e, Pass, Irq 0x35 0x30])"
    by (simp add: channel_view_def valid_status_def kbd_defs QUEUE_CAPACITY_def)
  ultimately show ?thesis using keyboard_stream_lossless by metis
qed

definition faults :: "kbd_event list \<Rightarrow> nat" where
  "faults es = length (filter (\<lambda>e. case e of Irq s b \<Rightarrow> \<not> valid_status s | Pass \<Rightarrow> False) es)"

definition losses_exact :: "kbd_event list \<Rightarrow> u8 list \<times> (usize \<times> usize) list \<times> byte_queue \<Rightarrow> bool" where
  "losses_exact es = (\<lambda>(printed, reports, q). queue_ok q
     \<and> length (printed @ queued q) + sum_list (map fst reports) + bq_dropped q = length (received es)
     \<and> sum_list (map snd reports) + bq_errors q = faults es)"

lemma received_snoc: "received (es @ [e]) = received es @
    (case e of Irq s b \<Rightarrow> if valid_status s then [b] else [] | Pass \<Rightarrow> [])"
  by (auto simp: received_def List.map_filter_def split: kbd_event.splits)

lemma faults_snoc: "faults (es @ [e]) = faults es +
    (case e of Irq s b \<Rightarrow> of_bool (\<not> valid_status s) | Pass \<Rightarrow> 0)"
  by (cases e) (simp_all add: faults_def)

lemma stream_empty [simp]: "received [] = []" "faults [] = 0"
  by (simp_all add: received_def faults_def List.map_filter_def)

lemma received_length: "length (received es) + faults es \<le> length es"
proof (induction es rule: rev_induct)
  case (snoc e es)
  then show ?case by (cases e) (simp_all add: received_snoc faults_snoc)
qed simp

lemma losses_step:
  assumes l: "losses_exact es st" and len: "length (es @ [e]) < usize_range"
  shows "losses_exact (es @ [e]) (kbd_step e st)"
proof -
  obtain pr re q where st: "st = (pr, re, q)" by (metis prod.exhaust)
  have ok: "queue_ok q" and lx: "length pr + bq_length q + sum_list (map fst re) + bq_dropped q = length (received es)"
      "sum_list (map snd re) + bq_errors q = faults es"
    using l by (simp_all add: losses_exact_def st)
  then have small: "bq_dropped q + 1 < usize_range" "bq_errors q + 1 < usize_range"
    using received_length [of es] len by simp_all
  show ?thesis
  proof (cases e)
    case (Irq s b)
    have step: "kbd_step e st = (pr, re, if valid_status s then push q b else count_error q)"
      by (simp add: st Irq on_interrupt_run [OF fixed_ports_in(1) fixed_ports_in(2)])
    show ?thesis
    proof (cases "valid_status s")
      case True
      with step Irq show ?thesis
        using push_queued [OF ok, of b] push_length [OF ok, of b] lx small
        by (simp add: losses_exact_def received_snoc faults_snoc uadd_exact)
    next
      case False
      with step Irq show ?thesis
        using ok lx small
        by (simp add: losses_exact_def received_snoc faults_snoc count_error_def uadd_exact)
    qed
  next
    case Pass
    obtain report q' where p: "run_pass q = (queued q, report, q')" "queue_ok q'" "queued q' = []"
        "bq_dropped q' = 0" "bq_errors q' = 0"
        "(case report of None \<Rightarrow> (0, 0) | Some r \<Rightarrow> r) = (bq_dropped q, bq_errors q)"
      using run_pass_queued [OF ok] by blast
    then have "bq_length q' = 0" by (metis length_queued list.size(3))
    with p lx show ?thesis
      by (cases report) (auto simp: losses_exact_def st Pass received_snoc faults_snoc)
  qed
qed

text \<open>
  C27. Losses are counted exactly: the bytes printed and queued, plus the dropped bytes reported
  and not yet reported, are as many as the valid bytes that arrived, and the reported and
  pending errors are as many as the faulty interrupts.
\<close>

theorem keyboard_losses_reported:
  assumes "length es < usize_range"
  shows "case fold kbd_step es ([], [], new_queue) of (printed, reports, q) \<Rightarrow>
    length (printed @ queued q) + sum_list (map fst reports) + bq_dropped q = length (received es)
    \<and> sum_list (map snd reports) + bq_errors q
        = length (filter (\<lambda>e. case e of Irq s b \<Rightarrow> \<not> valid_status s | Pass \<Rightarrow> False) es)"
proof -
  have "losses_exact es (fold kbd_step es ([], [], new_queue))"
    using assms
  proof (induction es rule: rev_induct)
    case Nil
    then show ?case by (simp add: losses_exact_def faults_def)
  next
    case (snoc e es)
    then show ?case using losses_step [of es _ e] by simp
  qed
  then show ?thesis by (auto simp: losses_exact_def faults_def split: prod.splits)
qed

theorem keyboard_losses_reported_witness:
  "case fold kbd_step (replicate 70 (Irq 0x15 0x1e)) ([], [], new_queue) of (printed, reports, q) \<Rightarrow>
    length (printed @ queued q) + sum_list (map fst reports) + bq_dropped q
      = length (received (replicate 70 (Irq 0x15 0x1e)))"
  using keyboard_losses_reported [of "replicate 70 (Irq 0x15 0x1e)"] by (auto split: prod.splits)

section \<open>The queue self-test\<close>

lemma push_all:
  assumes "queue_ok q" "bq_length q + length xs \<le> QUEUE_CAPACITY"
  shows "queue_ok (fold (\<lambda>b q. push q (of_nat b)) xs q)
    \<and> queued (fold (\<lambda>b q. push q (of_nat b)) xs q) = queued q @ map of_nat xs
    \<and> bq_dropped (fold (\<lambda>b q. push q (of_nat b)) xs q) = bq_dropped q"
  using assms
proof (induction xs arbitrary: q)
  case (Cons x xs)
  note p = push_queued [OF Cons.prems(1), of "of_nat x"]
  have "bq_length (push q (of_nat x)) = Suc (bq_length q)"
    using Cons.prems p(2) by (metis length_append_singleton length_queued add_lessD1 length_Cons less_eq_Suc_le add_Suc_right)
  then show ?case using Cons.IH [of "push q (of_nat x)"] Cons.prems p by simp
qed simp

lemma pop_all:
  assumes "queue_ok q" "queued q = map of_nat [a..<b] @ ys" "a \<le> b"
  shows "\<exists>q'. for_res [a..<b] pop_expect q = Inr q' \<and> queue_ok q' \<and> queued q' = ys"
proof -
  have "\<exists>q'. for_res [a..<b] pop_expect q = Inr q' \<and> queue_ok q' \<and> queued q' = map of_nat [b..<b] @ ys"
  proof (rule for_range_total [OF assms(3), where I = "\<lambda>i q. queue_ok q \<and> queued q = map of_nat [i..<b] @ ys"])
    fix i s assume i: "a \<le> i" "i < b" and I: "queue_ok s \<and> queued s = map of_nat [i..<b] @ ys"
    obtain r s' where p: "pop s = (r, s')" by (cases "pop s")
    have q: "queued s = of_nat i # map of_nat [Suc i..<b] @ ys" using I i by (simp add: upt_conv_Cons)
    then have "r = Some (of_nat i)" using pop_queued(1) I p by fastforce
    moreover have "queue_ok s' \<and> queued s' = map of_nat [Suc i..<b] @ ys"
      using pop_queued(2) [OF conjunct1 [OF I], of s'] p unfolding q by simp
    ultimately show "\<exists>s'. pop_expect i s = Inr s' \<and> queue_ok s' \<and> queued s' = map of_nat [Suc i..<b] @ ys"
      using p by (simp add: pop_expect_def)
  qed (use assms in simp)
  then show ?thesis by simp
qed

text \<open>The self-test of the byte queue (fill, overflow, wrap-around, order, empty) passes.\<close>

theorem verify_queue_passes: "verify_queue = Inr ()"
proof -
  let ?fill = "\<lambda>xs q. fold (\<lambda>b q. push q (of_nat b)) xs q"
  define q1 where "q1 = ?fill [0..<64] new_queue"
  have q1: "queue_ok q1" "queued q1 = map of_nat [0..<64]" "bq_dropped q1 = 0"
    using push_all [of new_queue "[0..<64]"] by (simp_all add: q1_def QUEUE_CAPACITY_def)
  have l1: "bq_length q1 = 64" using q1(2) by (metis diff_zero length_map length_queued length_upt)
  define q2 where "q2 = push q1 0xff"
  have q2: "queue_ok q2" "queued q2 = map of_nat [0..<64]" "bq_dropped q2 = 1"
    using push_queued [OF q1(1), of "0xff"] q1 l1 by (simp_all add: q2_def QUEUE_CAPACITY_def uadd_exact)
  have "[0..<64] = [0..<32] @ [32..<64]" using upt_add_eq_append [of 0 32 32] by simp
  then obtain q3 where q3: "for_res [0..<32] pop_expect q2 = Inr q3" "queue_ok q3"
      "queued q3 = map of_nat [32..<64]"
    using pop_all [OF q2(1), of 0 32 "map of_nat [32..<64]"] q2(2) by (auto simp del: upt_Suc)
  have l3: "bq_length q3 = 32" using q3(3) by (metis length_map length_queued length_upt diff_numeral_special(1) Suc_numeral add_diff_cancel_left' numeral_Bit0)
  define q4 where "q4 = ?fill [64..<96] q3"
  have q4: "queue_ok q4" "queued q4 = map of_nat [32..<96]"
    using push_all [OF q3(2), of "[64..<96]"] l3 q3(3) upt_add_eq_append [of 32 64 32]
    by (simp_all add: q4_def QUEUE_CAPACITY_def)
  obtain q5 where q5: "for_res [32..<96] pop_expect q4 = Inr q5" "queue_ok q5" "queued q5 = []"
    using pop_all [OF q4(1), of 32 96 "[]"] q4(2) by auto
  have none: "(fst (pop q5) = None) = True" using pop_queued(1) [OF q5(2)] q5(3) by simp
  have n: "(64 :: nat) div 2 = 32" "(64 :: nat) + 32 = 96" by simp_all
  show ?thesis
    unfolding verify_queue_def Let_def QUEUE_CAPACITY_def n q1_def [symmetric] q2_def [symmetric]
    by (simp only: q2(3) q3(1) q4_def [symmetric] q5(1) none bind_res_simps ensure_simps refl)
qed

end
