(* ===== verification/Pic.thy ===== *)
theory Pic
  imports Port_IO
begin

text \<open>
  The two cascaded 8259A interrupt controllers (\<^verbatim>\<open>src/kernel/interrupt/pic.rs\<close>): initialisation,
  masks, the in-service register, spurious interrupts and the end-of-interrupt protocol. The
  chips are devices, not source: \<open>pic_ports\<close> states the documented effect of exactly the commands
  the driver sends, and the theorems take it as a hypothesis about the ports.
\<close>

section \<open>Constants\<close>

definition VECTOR_BASE :: usize where "VECTOR_BASE = 0x20"
definition IRQ_COUNT :: usize where "IRQ_COUNT = 16"
definition MASTER_COMMAND :: u16 where "MASTER_COMMAND = 0x20"
definition MASTER_DATA :: u16 where "MASTER_DATA = 0x21"
definition SLAVE_COMMAND :: u16 where "SLAVE_COMMAND = 0xa0"
definition SLAVE_DATA :: u16 where "SLAVE_DATA = 0xa1"

lemmas pic_ports_defs = MASTER_COMMAND_def MASTER_DATA_def SLAVE_COMMAND_def SLAVE_DATA_def

section \<open>Operations\<close>

definition write_initialization :: "'w ports \<Rightarrow> u16 \<Rightarrow> u8 \<Rightarrow> ('w, unit) io" where
  "write_initialization p port value = then_io (out8 p port value) (out8 p 0x80 0)"

definition mask_all :: "'w ports \<Rightarrow> ('w, unit) io" where
  "mask_all p = then_io (out8 p MASTER_DATA 0xff) (out8 p SLAVE_DATA 0xff)"

definition pic_init :: "'w ports \<Rightarrow> ('w, unit) io" where
  "pic_init p = then_io (sequence_io
     [mask_all p,
      write_initialization p MASTER_COMMAND 0x11,
      write_initialization p SLAVE_COMMAND 0x11,
      write_initialization p MASTER_DATA (of_nat VECTOR_BASE),
      write_initialization p SLAVE_DATA (of_nat (VECTOR_BASE + 8)),
      write_initialization p MASTER_DATA 4,
      write_initialization p SLAVE_DATA 2,
      write_initialization p MASTER_DATA 0x01,
      write_initialization p SLAVE_DATA 0x01,
      mask_all p])
     (bind_io (in8 p MASTER_DATA) (\<lambda>m.
      then_io (ensure_io (m = 0xff) ''arch::in8(MASTER_DATA) == 0xff'')
     (bind_io (in8 p SLAVE_DATA) (\<lambda>s.
      ensure_io (s = 0xff) ''arch::in8(SLAVE_DATA) == 0xff''))))"

definition unmask_timer :: "'w ports \<Rightarrow> ('w, unit) io" where
  "unmask_timer p = out8 p MASTER_DATA 0xfe"

definition unmask_keyboard :: "'w ports \<Rightarrow> ('w, unit) io" where
  "unmask_keyboard p = out8 p MASTER_DATA 0xfd"

definition in_service :: "'w ports \<Rightarrow> ('w, u16) io" where
  "in_service p = then_io (out8 p MASTER_COMMAND 0x0b) (then_io (out8 p SLAVE_COMMAND 0x0b)
     (bind_io (in8 p MASTER_COMMAND) (\<lambda>m. bind_io (in8 p SLAVE_COMMAND) (\<lambda>s.
      return_io (ucast m OR push_bit 8 (ucast s))))))"

definition is_spurious :: "'w ports \<Rightarrow> usize \<Rightarrow> ('w, bool) io" where
  "is_spurious p irq = then_io (ensure_io (irq < IRQ_COUNT) ''irq < IRQ_COUNT'')
     (if irq = 7 \<or> irq = 15
      then bind_io (in_service p) (\<lambda>service.
        if service AND push_bit irq 1 = 0
        then then_io (if irq = 15 then out8 p MASTER_COMMAND (0x60 OR 2) else return_io ())
               (return_io True)
        else return_io False)
      else return_io False)"

definition end_of_interrupt :: "'w ports \<Rightarrow> usize \<Rightarrow> ('w, unit) io" where
  "end_of_interrupt p irq = then_io (ensure_io (irq < IRQ_COUNT) ''irq < IRQ_COUNT'')
     (if 8 \<le> irq
      then then_io (out8 p SLAVE_COMMAND (0x60 OR (of_nat irq - 8))) (out8 p MASTER_COMMAND (0x60 OR 2))
      else out8 p MASTER_COMMAND (0x60 OR of_nat irq))"

section \<open>The documented chips\<close>

text \<open>
  One 8259A as the driver sees it: in-service and mask registers, whether a read of the command
  port yields the in-service register, the number of the initialisation word expected next
  (0 when operational), the vector base and the cascade word.
\<close>

record chip =
  in_service_register :: u8
  mask_register :: u8
  reads_service :: bool
  expects :: nat
  vector_base :: u8
  cascade :: u8

definition chip_command :: "u8 \<Rightarrow> chip \<Rightarrow> chip" where
  "chip_command v c =
     (if v = 0x11 then c\<lparr>expects := 2, mask_register := 0, reads_service := False\<rparr>
      else if v = 0x0b then c\<lparr>reads_service := True\<rparr>
      else c\<lparr>in_service_register := in_service_register c AND NOT (push_bit (unat (v AND 7)) 1)\<rparr>)"

definition chip_data :: "u8 \<Rightarrow> chip \<Rightarrow> chip" where
  "chip_data v c =
     (if expects c = 2 then c\<lparr>expects := 3, vector_base := v\<rparr>
      else if expects c = 3 then c\<lparr>expects := 4, cascade := v\<rparr>
      else if expects c = 4 then c\<lparr>expects := 0\<rparr>
      else c\<lparr>mask_register := v\<rparr>)"

text \<open>The commands of the driver: ICW1, the selection of the in-service register, specific EOI.\<close>

definition pic_commands :: "u8 list" where
  "pic_commands = [0x11, 0x0b, 0x60, 0x61, 0x62, 0x63, 0x64, 0x65, 0x66, 0x67]"

text \<open>The ports belong to a pair of chips; no other port touches them.\<close>

definition pic_ports :: "'w ports \<Rightarrow> ('w \<Rightarrow> chip \<times> chip) \<Rightarrow> bool" where
  "pic_ports p chips \<longleftrightarrow>
     (\<forall>w v. v \<in> set pic_commands \<longrightarrow>
        chips (port_out p MASTER_COMMAND v w) = (chip_command v (fst (chips w)), snd (chips w))
        \<and> chips (port_out p SLAVE_COMMAND v w) = (fst (chips w), chip_command v (snd (chips w))))
   \<and> (\<forall>w v. chips (port_out p MASTER_DATA v w) = (chip_data v (fst (chips w)), snd (chips w))
        \<and> chips (port_out p SLAVE_DATA v w) = (fst (chips w), chip_data v (snd (chips w))))
   \<and> (\<forall>w a v. a \<notin> {MASTER_COMMAND, MASTER_DATA, SLAVE_COMMAND, SLAVE_DATA} \<longrightarrow>
        chips (port_out p a v w) = chips w)
   \<and> (\<forall>w a. chips (snd (port_in p a w)) = chips w)
   \<and> (\<forall>w. reads_service (fst (chips w)) \<longrightarrow>
        fst (port_in p MASTER_COMMAND w) = in_service_register (fst (chips w)))
   \<and> (\<forall>w. reads_service (snd (chips w)) \<longrightarrow>
        fst (port_in p SLAVE_COMMAND w) = in_service_register (snd (chips w)))
   \<and> (\<forall>w. expects (fst (chips w)) = 0 \<longrightarrow>
        fst (port_in p MASTER_DATA w) = mask_register (fst (chips w)))
   \<and> (\<forall>w. expects (snd (chips w)) = 0 \<longrightarrow>
        fst (port_in p SLAVE_DATA w) = mask_register (snd (chips w)))"

lemma pic_laws:
  assumes "pic_ports p chips"
  shows "v \<in> set pic_commands \<Longrightarrow>
      chips (port_out p MASTER_COMMAND v w) = (chip_command v (fst (chips w)), snd (chips w))"
    and "v \<in> set pic_commands \<Longrightarrow>
      chips (port_out p SLAVE_COMMAND v w) = (fst (chips w), chip_command v (snd (chips w)))"
    and "chips (port_out p MASTER_DATA v w) = (chip_data v (fst (chips w)), snd (chips w))"
    and "chips (port_out p SLAVE_DATA v w) = (fst (chips w), chip_data v (snd (chips w)))"
    and "a \<notin> {MASTER_COMMAND, MASTER_DATA, SLAVE_COMMAND, SLAVE_DATA} \<Longrightarrow>
      chips (port_out p a v w) = chips w"
    and "chips (snd (port_in p a w)) = chips w"
    and "reads_service (fst (chips w)) \<Longrightarrow>
      fst (port_in p MASTER_COMMAND w) = in_service_register (fst (chips w))"
    and "reads_service (snd (chips w)) \<Longrightarrow>
      fst (port_in p SLAVE_COMMAND w) = in_service_register (snd (chips w))"
    and "expects (fst (chips w)) = 0 \<Longrightarrow> fst (port_in p MASTER_DATA w) = mask_register (fst (chips w))"
    and "expects (snd (chips w)) = 0 \<Longrightarrow> fst (port_in p SLAVE_DATA w) = mask_register (snd (chips w))"
  using assms unfolding pic_ports_def by blast+

text \<open>A pair of chips and nothing else satisfies the documentation.\<close>

definition chip_pair_ports :: "(chip \<times> chip) ports" where
  "chip_pair_ports = \<lparr>
     port_in = (\<lambda>a (m, s). (if a = MASTER_COMMAND then in_service_register m
         else if a = SLAVE_COMMAND then in_service_register s
         else if a = MASTER_DATA then mask_register m
         else if a = SLAVE_DATA then mask_register s else 0, (m, s))),
     port_out = (\<lambda>a v (m, s). if a = MASTER_COMMAND then (chip_command v m, s)
         else if a = SLAVE_COMMAND then (m, chip_command v s)
         else if a = MASTER_DATA then (chip_data v m, s)
         else if a = SLAVE_DATA then (m, chip_data v s) else (m, s))\<rparr>"

lemma chip_pair_documented: "pic_ports chip_pair_ports (\<lambda>w. w)"
  by (auto simp: pic_ports_def chip_pair_ports_def pic_ports_defs split: prod.splits)

definition idle_chip :: chip where
  "idle_chip = \<lparr>in_service_register = 0, mask_register = 0xff, reads_service = False, expects = 0,
     vector_base = 0, cascade = 0\<rparr>"

section \<open>Initialisation\<close>

text \<open>A piece of a driver on a device of which a part, here the pair of chips, is known.\<close>

definition runs_to :: "('w \<Rightarrow> 'c) \<Rightarrow> ('w, 'a) io \<Rightarrow> 'c \<Rightarrow> 'a \<Rightarrow> 'c \<Rightarrow> bool" where
  "runs_to chips m c x c' \<longleftrightarrow> (\<forall>w. chips w = c \<longrightarrow> (\<exists>w'. m w = (Inr x, w') \<and> chips w' = c'))"

lemma runs_to_return: "runs_to chips (return_io x) c x c"
  by (simp add: runs_to_def io_simps)

lemma runs_to_bind:
  "runs_to chips m c x c' \<Longrightarrow> runs_to chips (f x) c' y c'' \<Longrightarrow> runs_to chips (bind_io m f) c y c''"
  unfolding runs_to_def by (simp add: io_simps) fastforce

lemma runs_to_then:
  "runs_to chips m c x c' \<Longrightarrow> runs_to chips k c' y c'' \<Longrightarrow> runs_to chips (then_io m k) c y c''"
  unfolding then_io_def by (rule runs_to_bind)

lemma runs_to_ensure: "b \<Longrightarrow> runs_to chips (ensure_io b msg) c () c"
  by (simp add: runs_to_def io_simps)

lemma runs_to_sequence:
  "runs_to chips (sequence_io []) c () c"
  "runs_to chips m c () c' \<Longrightarrow> runs_to chips (sequence_io ms) c' () c'' \<Longrightarrow>
     runs_to chips (sequence_io (m # ms)) c () c''"
  by (auto intro: runs_to_return runs_to_then)

lemma runs_to_ports:
  assumes "pic_ports p chips"
  shows "v \<in> set pic_commands \<Longrightarrow> m' = chip_command v m \<Longrightarrow>
      runs_to chips (out8 p MASTER_COMMAND v) (m, s) () (m', s)"
    and "v \<in> set pic_commands \<Longrightarrow> s' = chip_command v s \<Longrightarrow>
      runs_to chips (out8 p SLAVE_COMMAND v) (m, s) () (m, s')"
    and "m' = chip_data v m \<Longrightarrow> runs_to chips (out8 p MASTER_DATA v) (m, s) () (m', s)"
    and "s' = chip_data v s \<Longrightarrow> runs_to chips (out8 p SLAVE_DATA v) (m, s) () (m, s')"
    and "a \<notin> {MASTER_COMMAND, MASTER_DATA, SLAVE_COMMAND, SLAVE_DATA} \<Longrightarrow>
      runs_to chips (out8 p a v) c () c"
    and "reads_service m \<Longrightarrow> runs_to chips (in8 p MASTER_COMMAND) (m, s) (in_service_register m) (m, s)"
    and "reads_service s \<Longrightarrow> runs_to chips (in8 p SLAVE_COMMAND) (m, s) (in_service_register s) (m, s)"
    and "expects m = 0 \<Longrightarrow> runs_to chips (in8 p MASTER_DATA) (m, s) (mask_register m) (m, s)"
    and "expects s = 0 \<Longrightarrow> runs_to chips (in8 p SLAVE_DATA) (m, s) (mask_register s) (m, s)"
  using pic_laws [OF assms] by (simp_all add: runs_to_def io_simps)

lemma runs_to_mask_all:
  assumes "pic_ports p chips" "expects m = 0" "expects s = 0"
  shows "runs_to chips (mask_all p) (m, s) () (m\<lparr>mask_register := 0xff\<rparr>, s\<lparr>mask_register := 0xff\<rparr>)"
  unfolding mask_all_def
  by (rule runs_to_then [OF runs_to_ports(3) [OF assms(1)] runs_to_ports(4) [OF assms(1)]])
    (simp_all add: chip_data_def assms)

lemma runs_to_initialization:
  assumes "pic_ports p chips"
  shows "m' = chip_command 0x11 m \<Longrightarrow> runs_to chips (write_initialization p MASTER_COMMAND 0x11) (m, s) () (m', s)"
    and "s' = chip_command 0x11 s \<Longrightarrow> runs_to chips (write_initialization p SLAVE_COMMAND 0x11) (m, s) () (m, s')"
    and "m' = chip_data v m \<Longrightarrow> runs_to chips (write_initialization p MASTER_DATA v) (m, s) () (m', s)"
    and "s' = chip_data v s \<Longrightarrow> runs_to chips (write_initialization p SLAVE_DATA v) (m, s) () (m, s')"
proof -
  have d: "runs_to chips (out8 p 0x80 0) c () c" for c
    by (rule runs_to_ports(5) [OF assms]) (simp add: pic_ports_defs)
  show "m' = chip_command 0x11 m \<Longrightarrow> runs_to chips (write_initialization p MASTER_COMMAND 0x11) (m, s) () (m', s)"
    "s' = chip_command 0x11 s \<Longrightarrow> runs_to chips (write_initialization p SLAVE_COMMAND 0x11) (m, s) () (m, s')"
    "m' = chip_data v m \<Longrightarrow> runs_to chips (write_initialization p MASTER_DATA v) (m, s) () (m', s)"
    "s' = chip_data v s \<Longrightarrow> runs_to chips (write_initialization p SLAVE_DATA v) (m, s) () (m, s')"
    unfolding write_initialization_def
    by (auto intro!: runs_to_then [OF _ d] runs_to_ports(1-4) [OF assms] simp: pic_commands_def)
qed

text \<open>
  Initialising two operational chips succeeds and leaves both operational with every line
  masked, the vectors of the master at 0x20 and of the slave at 0x28 (clear of the CPU
  exceptions 0 to 31), and the cascade on line 2; the in-service registers are untouched.
\<close>

lemma pic_init_runs:
  assumes "pic_ports p chips" "expects (fst (chips w)) = 0" "expects (snd (chips w)) = 0"
  shows "\<exists>w'. pic_init p w = (Inr (), w')
    \<and> (let m = fst (chips w'); s = snd (chips w') in
       expects m = 0 \<and> expects s = 0 \<and> mask_register m = 0xff \<and> mask_register s = 0xff
       \<and> vector_base m = 0x20 \<and> vector_base s = 0x28 \<and> cascade m = 4 \<and> cascade s = 2
       \<and> in_service_register m = in_service_register (fst (chips w))
       \<and> in_service_register s = in_service_register (snd (chips w)))"
proof -
  obtain m s where c: "chips w = (m, s)" by (metis prod.exhaust)
  have e: "expects m = 0" "expects s = 0" using assms(2,3) c by simp_all
  let ?done = "\<lambda>base cas c. c\<lparr>reads_service := False, vector_base := base, cascade := cas,
    expects := 0, mask_register := 0xff\<rparr>"
  note ini = runs_to_initialization [OF assms(1)]
  have "runs_to chips (pic_init p) (m, s) () (?done 0x20 4 m, ?done 0x28 2 s)"
    unfolding pic_init_def
    by (rule runs_to_then runs_to_sequence runs_to_mask_all [OF assms(1)] ini runs_to_bind
        runs_to_ports(8,9) [OF assms(1)] runs_to_ensure refl |
        simp add: e chip_command_def chip_data_def VECTOR_BASE_def)+
  then show ?thesis using c by (auto simp: runs_to_def Let_def)
qed

section \<open>Service and end of interrupt\<close>

text \<open>Whether a line is in service: lines 0 to 7 on the master, 8 to 15 on the slave.\<close>

definition line_in_service :: "chip \<times> chip \<Rightarrow> usize \<Rightarrow> bool" where
  "line_in_service c irq = (if irq < 8 then bit (in_service_register (fst c)) irq
     else bit (in_service_register (snd c)) (irq - 8))"

definition service_word :: "chip \<times> chip \<Rightarrow> u16" where
  "service_word c = ucast (in_service_register (fst c)) OR push_bit 8 (ucast (in_service_register (snd c)))"

definition select_service :: "chip \<times> chip \<Rightarrow> chip \<times> chip" where
  "select_service c = ((fst c)\<lparr>reads_service := True\<rparr>, (snd c)\<lparr>reads_service := True\<rparr>)"

lemma service_word_bit: "irq < 16 \<Longrightarrow> service_word c AND push_bit irq 1 \<noteq> 0 \<longleftrightarrow> line_in_service c irq"
proof -
  have "service_word c AND push_bit irq 1 \<noteq> 0 \<longleftrightarrow> bit (service_word c) irq"
    by (simp add: bit_iff_and_push_bit_not_eq_0)
  moreover assume "irq < 16"
  then have "bit (service_word c) irq \<longleftrightarrow> line_in_service c irq"
    by (auto simp: service_word_def line_in_service_def bit_simps dest: bit_imp_le_length)
  ultimately show ?thesis by simp
qed

lemmas service_word_exp = service_word_bit [simplified]

lemma line_in_service_select [simp]: "line_in_service (select_service c) irq = line_in_service c irq"
  by (simp add: line_in_service_def select_service_def)

lemma select_service_idem [simp]: "select_service (select_service c) = select_service c"
  by (simp add: select_service_def)

lemma service_word_select [simp]: "service_word (select_service c) = service_word c"
  by (simp add: service_word_def select_service_def)

lemma runs_to_in_service:
  assumes "pic_ports p chips"
  shows "runs_to chips (in_service p) c (service_word c) (select_service c)"
proof -
  obtain m s where c: "c = (m, s)" by (cases c)
  note ports = runs_to_ports [OF assms]
  have "runs_to chips (in_service p) (m, s)
      (ucast (in_service_register (m\<lparr>reads_service := True\<rparr>))
        OR push_bit 8 (ucast (in_service_register (s\<lparr>reads_service := True\<rparr>))))
      (m\<lparr>reads_service := True\<rparr>, s\<lparr>reads_service := True\<rparr>)"
    unfolding in_service_def
    by (rule runs_to_then runs_to_bind runs_to_return ports(1,2,6,7) |
        simp add: pic_commands_def chip_command_def)+
  then show ?thesis by (simp add: c service_word_def select_service_def)
qed

text \<open>The effect of a specific end-of-interrupt command for a line.\<close>

definition end_line :: "nat \<Rightarrow> chip \<Rightarrow> chip" where
  "end_line n c = c\<lparr>in_service_register := in_service_register c AND NOT (push_bit n 1)\<rparr>"

lemma specific_eoi:
  assumes "n < 8"
  shows "0x60 OR (of_nat n :: u8) \<in> set pic_commands" "chip_command (0x60 OR of_nat n) c = end_line n c"
proof -
  from assms have "n \<in> {0, 1, 2, 3, 4, 5, 6, 7}" by auto
  then show "0x60 OR (of_nat n :: u8) \<in> set pic_commands" "chip_command (0x60 OR of_nat n) c = end_line n c"
    by (auto simp: pic_commands_def chip_command_def end_line_def)
qed

lemma end_line_bit: "n < 8 \<Longrightarrow> j < 8 \<Longrightarrow>
    bit (in_service_register (end_line n c)) j \<longleftrightarrow> bit (in_service_register c) j \<and> j \<noteq> n"
  by (auto simp: end_line_def bit_simps)

definition ended :: "nat \<Rightarrow> chip \<times> chip \<Rightarrow> chip \<times> chip" where
  "ended irq c = (if 8 \<le> irq then (end_line 2 (fst c), end_line (irq - 8) (snd c))
     else (end_line irq (fst c), snd c))"

lemma runs_to_eoi:
  assumes "pic_ports p chips" "irq < 16"
  shows "runs_to chips (end_of_interrupt p irq) c () (ended irq c)"
proof -
  obtain m s where c: "c = (m, s)" by (cases c)
  note ports = runs_to_ports [OF assms(1)]
  have two: "0x60 OR 2 \<in> set pic_commands" "chip_command (0x60 OR 2) m = end_line 2 m"
    using specific_eoi(1) [of 2] specific_eoi(2) [of 2 m] by simp_all
  show ?thesis
  proof (cases "8 \<le> irq")
    case True
    then have sub: "(of_nat irq - 8 :: u8) = of_nat (irq - 8)" by (simp add: of_nat_diff)
    have eoi: "0x60 OR (of_nat (irq - 8) :: u8) \<in> set pic_commands"
        "chip_command (0x60 OR of_nat (irq - 8)) s = end_line (irq - 8) s"
      using specific_eoi(1) [of "irq - 8"] specific_eoi(2) [of "irq - 8"] assms(2) by simp_all
    have "runs_to chips (then_io (out8 p SLAVE_COMMAND (0x60 OR of_nat (irq - 8)))
        (out8 p MASTER_COMMAND (0x60 OR 2))) (m, s) () (end_line 2 m, end_line (irq - 8) s)"
      by (rule runs_to_then [OF ports(2) [OF eoi(1) eoi(2) [symmetric]]
            ports(1) [OF two(1) two(2) [symmetric]]])
    then have "runs_to chips (if 8 \<le> irq
        then then_io (out8 p SLAVE_COMMAND (0x60 OR (of_nat irq - 8))) (out8 p MASTER_COMMAND (0x60 OR 2))
        else out8 p MASTER_COMMAND (0x60 OR of_nat irq)) (m, s) () (ended irq c)"
      using True by (simp only: if_True sub) (simp add: c ended_def)
    then show ?thesis
      unfolding end_of_interrupt_def c
      by (intro runs_to_then [OF runs_to_ensure]) (use assms(2) in \<open>simp_all add: IRQ_COUNT_def\<close>)
  next
    case False
    then have eoi: "0x60 OR (of_nat irq :: u8) \<in> set pic_commands"
        "chip_command (0x60 OR of_nat irq) m = end_line irq m"
      using specific_eoi(1) [of irq] specific_eoi(2) [of irq] by simp_all
    have "runs_to chips (out8 p MASTER_COMMAND (0x60 OR of_nat irq)) (m, s) () (end_line irq m, s)"
      by (rule ports(1) [OF eoi(1) eoi(2) [symmetric]])
    then have "runs_to chips (if 8 \<le> irq
        then then_io (out8 p SLAVE_COMMAND (0x60 OR (of_nat irq - 8))) (out8 p MASTER_COMMAND (0x60 OR 2))
        else out8 p MASTER_COMMAND (0x60 OR of_nat irq)) (m, s) () (ended irq c)"
      using False by (simp add: c ended_def)
    then show ?thesis
      unfolding end_of_interrupt_def c
      by (intro runs_to_then [OF runs_to_ensure]) (use assms(2) in \<open>simp_all add: IRQ_COUNT_def\<close>)
  qed
qed

lemma ended_lines:
  assumes "irq < 16" "j < 16"
  shows "line_in_service (ended irq c) j \<longleftrightarrow>
    line_in_service c j \<and> j \<noteq> irq \<and> \<not> (8 \<le> irq \<and> j = 2)"
  using assms by (auto simp: line_in_service_def ended_def end_line_bit)

text \<open>
  The end-of-interrupt protocol is exact: for a line of the master it ends that line only;
  for a line of the slave it ends that line on the slave and the cascade line 2 on the master;
  every other line keeps its service state, and masks and vectors are untouched.
\<close>

theorem end_of_interrupt_exact:
  assumes "pic_ports p chips" "irq < 16"
  shows "\<exists>w'. end_of_interrupt p irq w = (Inr (), w')
    \<and> list_all (\<lambda>j. line_in_service (chips w') j \<longleftrightarrow>
        line_in_service (chips w) j \<and> j \<noteq> irq \<and> \<not> (8 \<le> irq \<and> j = 2)) [0..<16]
    \<and> mask_register (fst (chips w')) = mask_register (fst (chips w))
    \<and> mask_register (snd (chips w')) = mask_register (snd (chips w))"
proof -
  obtain w' where w': "end_of_interrupt p irq w = (Inr (), w')" "chips w' = ended irq (chips w)"
    using runs_to_eoi [OF assms, of "chips w"] by (auto simp: runs_to_def)
  then show ?thesis
    using ended_lines [OF assms(2)] by (auto simp: list_all_iff ended_def end_line_def)
qed

theorem end_of_interrupt_exact_witness:
  "\<exists>w'. end_of_interrupt chip_pair_ports 12
      (idle_chip\<lparr>in_service_register := 6\<rparr>, idle_chip\<lparr>in_service_register := 0x10\<rparr>) = (Inr (), w')
    \<and> \<not> line_in_service w' 12 \<and> \<not> line_in_service w' 2 \<and> line_in_service w' 1"
proof -
  let ?w = "(idle_chip\<lparr>in_service_register := 6\<rparr>, idle_chip\<lparr>in_service_register := 0x10\<rparr>)"
  have "(12 :: nat) < 16" "line_in_service ?w 1" by (simp_all add: line_in_service_def)
  then show ?thesis
    using end_of_interrupt_exact [OF chip_pair_documented, of 12 ?w] by (auto simp: list_all_iff)
qed

text \<open>What the spurious-interrupt test answers and does.\<close>

definition spurious_line :: "chip \<times> chip \<Rightarrow> usize \<Rightarrow> bool" where
  "spurious_line c irq \<longleftrightarrow> (irq = 7 \<or> irq = 15) \<and> \<not> line_in_service c irq"

definition after_spurious :: "usize \<Rightarrow> chip \<times> chip \<Rightarrow> chip \<times> chip" where
  "after_spurious irq c = (let c' = (if irq = 7 \<or> irq = 15 then select_service c else c) in
     if irq = 15 \<and> spurious_line c irq then (end_line 2 (fst c'), snd c') else c')"

lemma runs_to_is_spurious:
  assumes "pic_ports p chips" "irq < 16"
  shows "runs_to chips (is_spurious p irq) c (spurious_line c irq) (after_spurious irq c)"
proof (cases "irq = 7 \<or> irq = 15")
  case False
  then show ?thesis
    using assms(2) by (auto simp: is_spurious_def spurious_line_def after_spurious_def IRQ_COUNT_def
        intro!: runs_to_then [OF runs_to_ensure] runs_to_return)
next
  case True
  obtain m s where c: "select_service c = (m, s)" by (cases "select_service c")
  have two: "0x60 OR 2 \<in> set pic_commands" "chip_command (0x60 OR 2) m = end_line 2 m"
    using specific_eoi(1) [of 2] specific_eoi(2) [of 2 m] by simp_all
  note end_cascade = runs_to_ports(1) [OF assms(1) two(1) two(2) [symmetric], simplified]
  have test: "(service_word c AND push_bit irq 1 = 0) = (\<not> line_in_service c irq)"
    using service_word_bit [OF assms(2)] by blast
  have "runs_to chips (if service_word c AND push_bit irq 1 = 0
      then then_io (if irq = 15 then out8 p MASTER_COMMAND (0x60 OR 2) else return_io ()) (return_io True)
      else return_io False) (m, s) (spurious_line c irq) (after_spurious irq c)"
    unfolding test
    using True by (auto simp: spurious_line_def after_spurious_def c Let_def
        intro!: runs_to_then [OF end_cascade] runs_to_then [OF runs_to_return] runs_to_return)
  then have k: "runs_to chips (bind_io (in_service p) (\<lambda>service. if service AND push_bit irq 1 = 0
      then then_io (if irq = 15 then out8 p MASTER_COMMAND (0x60 OR 2) else return_io ()) (return_io True)
      else return_io False)) c (spurious_line c irq) (after_spurious irq c)"
    by (intro runs_to_bind [OF runs_to_in_service [OF assms(1)]]) (simp only: c)
  show ?thesis
    unfolding is_spurious_def if_P [OF True]
    by (rule runs_to_then [OF runs_to_ensure k]) (use assms(2) in \<open>simp add: IRQ_COUNT_def\<close>)
qed

lemma after_spurious_lines:
  assumes "irq < 16" "j < 16"
  shows "line_in_service (after_spurious irq c) j \<longleftrightarrow>
    line_in_service c j \<and> \<not> (spurious_line c irq \<and> irq = 15 \<and> j = 2)"
  using assms by (auto simp: after_spurious_def Let_def line_in_service_def select_service_def end_line_bit)

text \<open>
  A request is taken for spurious exactly when it is line 7 or 15 and that line is not in
  service; a spurious line 15 ends the cascade line on the master and nothing on the slave, and
  otherwise no service state changes.
\<close>

theorem is_spurious_exact:
  assumes "pic_ports p chips" "irq < 16"
  shows "\<exists>w' spurious. is_spurious p irq w = (Inr spurious, w')
    \<and> (spurious \<longleftrightarrow> (irq = 7 \<or> irq = 15) \<and> \<not> line_in_service (chips w) irq)
    \<and> list_all (\<lambda>j. line_in_service (chips w') j \<longleftrightarrow>
        line_in_service (chips w) j \<and> \<not> (spurious \<and> irq = 15 \<and> j = 2)) [0..<16]"
proof -
  obtain w' where w': "is_spurious p irq w = (Inr (spurious_line (chips w) irq), w')"
      "chips w' = after_spurious irq (chips w)"
    using runs_to_is_spurious [OF assms, of "chips w"] by (auto simp: runs_to_def)
  then show ?thesis
    using after_spurious_lines [OF assms(2)] by (auto simp: list_all_iff spurious_line_def)
qed

theorem is_spurious_exact_witness:
  "\<exists>w'. is_spurious chip_pair_ports 15 (idle_chip\<lparr>in_service_register := 4\<rparr>, idle_chip) = (Inr True, w')
    \<and> \<not> line_in_service w' 2"
proof -
  let ?w = "(idle_chip\<lparr>in_service_register := 4\<rparr>, idle_chip)"
  have "(15 :: nat) < 16" "\<not> line_in_service ?w 15" by (simp_all add: line_in_service_def idle_chip_def)
  then show ?thesis
    using is_spurious_exact [OF chip_pair_documented, of 15 ?w] by (auto simp: list_all_iff)
qed

end
