(* ===== verification/Keyboard_Init.thy ===== *)
theory Keyboard_Init
  imports Keyboard Pic
begin

text \<open>
  The initialisation protocol of the keyboard controller (\<^verbatim>\<open>keyboard::init\<close>): for every device,
  no command byte is written while the controller is busy, no data byte is read while there is
  none, and a successful initialisation has written exactly the documented command sequence.
\<close>

section \<open>The handshake\<close>

text \<open>
  A write to the command or data port directly follows a status read with the input buffer
  empty; a read of the data port directly follows a status read with the output buffer full.
\<close>

definition handshake :: "io_event option \<Rightarrow> io_event \<Rightarrow> bool" where
  "handshake prev e = (case e of
     Out a v \<Rightarrow> (a = DATA \<or> a = STATUS_COMMAND) \<longrightarrow>
       (case prev of Some (In b s) \<Rightarrow> b = STATUS_COMMAND \<and> s AND INPUT_FULL = 0 | _ \<Rightarrow> False)
   | In a v \<Rightarrow> a = DATA \<longrightarrow>
       (case prev of Some (In b s) \<Rightarrow> b = STATUS_COMMAND \<and> s AND OUTPUT_FULL \<noteq> 0 | _ \<Rightarrow> False))"

abbreviation any_event :: "io_event option \<Rightarrow> bool" where
  "any_event \<equiv> \<lambda>_. True"

lemma keeps_status: "keeps handshake any_event (in8 (traced p) STATUS_COMMAND)
    (\<lambda>s e. e = Some (In STATUS_COMMAND s))"
  by (rule keeps_in) (simp_all add: handshake_def kbd_defs)

lemma keeps_poll_input: "keeps handshake any_event (poll_input_empty (traced p) n)
    (\<lambda>_ e. \<exists>s. e = Some (In STATUS_COMMAND s) \<and> s AND INPUT_FULL = 0)"
proof (induction n)
  case 0
  then show ?case by (simp add: keeps_panic)
next
  case (Suc n)
  show ?case
    unfolding poll_input_empty.simps
  proof (rule keeps_bind [OF keeps_status])
    fix s
    show "keeps handshake (\<lambda>e. e = Some (In STATUS_COMMAND s))
        (if s AND INPUT_FULL = 0 then return_io () else poll_input_empty (traced p) n)
        (\<lambda>_ e. \<exists>s. e = Some (In STATUS_COMMAND s) \<and> s AND INPUT_FULL = 0)"
      by (auto intro: keeps_return keeps_weaken [OF Suc])
  qed
qed

lemma keeps_write:
  "port = DATA \<or> port = STATUS_COMMAND \<Longrightarrow>
     keeps handshake any_event (then_io (wait_for_input_empty (traced p)) (out8 (traced p) port v)) (\<lambda>_ _. True)"
  unfolding wait_for_input_empty_def
  by (rule keeps_then [OF keeps_poll_input keeps_out]) (auto simp: handshake_def)

lemma keeps_command: "keeps handshake any_event (command (traced p) v) (\<lambda>_ _. True)"
  unfolding command_def by (rule keeps_write) simp

lemma keeps_write_data: "keeps handshake any_event (write_data (traced p) v) (\<lambda>_ _. True)"
  unfolding write_data_def by (rule keeps_write) simp

lemma keeps_data:
  "s AND OUTPUT_FULL \<noteq> 0 \<Longrightarrow> keeps handshake (\<lambda>e. e = Some (In STATUS_COMMAND s))
     (in8 (traced p) DATA) (\<lambda>_ _. True)"
  by (rule keeps_in) (simp_all add: handshake_def)

lemma keeps_poll_reply: "keeps handshake any_event (poll_reply (traced p) n) (\<lambda>_ _. True)"
proof (induction n)
  case 0
  then show ?case by (simp add: keeps_panic)
next
  case (Suc n)
  show ?case
    unfolding poll_reply.simps
  proof (rule keeps_bind [OF keeps_status])
    fix s
    have "keeps handshake (\<lambda>e. e = Some (In STATUS_COMMAND s))
        (bind_io (in8 (traced p) DATA) (\<lambda>byte.
          then_io (ensure_io (s AND (AUXILIARY OR BAD_DATA) = 0) ''invalid 8042 reply'')
            (return_io byte))) (\<lambda>_ _. True)" if "s AND OUTPUT_FULL \<noteq> 0"
      by (rule keeps_bind [OF keeps_data [OF that]])
        (rule keeps_then [where R = "\<lambda>_ _. True"]; auto intro: keeps_ensure keeps_return)
    then show "keeps handshake (\<lambda>e. e = Some (In STATUS_COMMAND s))
        (if s AND OUTPUT_FULL \<noteq> 0
         then bind_io (in8 (traced p) DATA) (\<lambda>byte.
           then_io (ensure_io (s AND (AUXILIARY OR BAD_DATA) = 0) ''invalid 8042 reply'')
             (return_io byte))
         else poll_reply (traced p) n) (\<lambda>_ _. True)"
      by (auto intro: keeps_weaken [OF Suc])
  qed
qed

lemma keeps_drain: "keeps handshake any_event (drain_output (traced p) n) (\<lambda>_ _. True)"
proof (induction n)
  case 0
  then show ?case by (simp add: keeps_return)
next
  case (Suc n)
  show ?case
    unfolding drain_output.simps
  proof (rule keeps_bind [OF keeps_status])
    fix s
    have "keeps handshake (\<lambda>e. e = Some (In STATUS_COMMAND s))
        (bind_io (in8 (traced p) DATA) (\<lambda>_. drain_output (traced p) n)) (\<lambda>_ _. True)"
      if "s AND OUTPUT_FULL \<noteq> 0"
      by (rule keeps_bind [OF keeps_data [OF that] Suc])
    then show "keeps handshake (\<lambda>e. e = Some (In STATUS_COMMAND s))
        (if s AND OUTPUT_FULL = 0 then return_io ()
         else bind_io (in8 (traced p) DATA) (\<lambda>_. drain_output (traced p) n)) (\<lambda>_ _. True)"
      by (auto intro: keeps_return)
  qed
qed

lemma keeps_tries: "keeps handshake any_event (keyboard_command_tries (traced p) v n) (\<lambda>_ _. True)"
proof (induction n)
  case 0
  then show ?case by (simp add: keeps_panic)
next
  case (Suc n)
  show ?case
    unfolding keyboard_command_tries.simps read_reply_def
    by (rule keeps_then [OF keeps_write_data keeps_bind [OF keeps_poll_reply]])
      (auto intro: keeps_return keeps_panic Suc)
qed

lemma keeps_sequence:
  "list_all (\<lambda>m. keeps rule any_event m (\<lambda>_ _. True)) ms \<Longrightarrow>
     keeps rule any_event (sequence_io ms) (\<lambda>_ _. True)"
  by (induction ms) (auto intro: keeps_return keeps_then)

text \<open>\<^verbatim>\<open>interrupt::enable_keyboard\<close>.\<close>

definition enable_keyboard :: "'w ports \<Rightarrow> bool \<Rightarrow> ('w, unit) io" where
  "enable_keyboard p interrupts_enabled =
     then_io (ensure_io (\<not> interrupts_enabled) ''!arch::interrupts_enabled()'') (unmask_keyboard p)"

lemma keeps_enable: "keeps handshake any_event (enable_keyboard (traced p) f) (\<lambda>_ _. True)"
  unfolding enable_keyboard_def unmask_keyboard_def
  by (rule keeps_then [where R = "\<lambda>_ _. True"])
    (auto intro!: keeps_ensure keeps_out simp: handshake_def kbd_defs pic_ports_defs)

text \<open>
  C28. The controller handshake is never violated: whatever the device answers, and whether
  initialisation succeeds or panics half-way, every byte it writes to the controller follows a
  status read that showed the input buffer empty, and every byte it takes follows a status read
  that showed output pending.
\<close>

theorem keyboard_init_handshake:
  "case keyboard_init (traced p) interrupts_enabled (enable_keyboard (traced p) interrupts_enabled) (w, []) of
     (result, w', log) \<Rightarrow> obeys handshake None log"
proof -
  have k: "keeps handshake any_event (keyboard_init (traced p) f (enable_keyboard (traced p) f)) (\<lambda>_ _. True)" for f
    unfolding keyboard_init_def read_reply_def keyboard_command_def Let_def
    by (rule keeps_then [where R = "\<lambda>_ _. True"] keeps_bind [where R = "\<lambda>_ _. True"] keeps_command
        keeps_drain keeps_poll_reply keeps_sequence keeps_weaken [OF keeps_status] keeps_ensure |
        simp add: keeps_command keeps_write_data keeps_tries keeps_enable)+
  obtain r w' log where e: "keyboard_init (traced p) interrupts_enabled
      (enable_keyboard (traced p) interrupts_enabled) (w, []) = (r, w', log)" by (metis prod.exhaust)
  have "obeys handshake None []" by simp
  then have "obeys handshake None log"
    using k [of interrupts_enabled] e unfolding keeps_def by blast
  with e show ?thesis by simp
qed

section \<open>The command sequence\<close>

lemma emits_poll_input: "emits (poll_input_empty (traced p) n) (\<lambda>_ ws. ws = [])"
  by (induction n)
    (auto intro!: emits_silent [OF emits_in] emits_if emits_done emits_panic)

lemma emits_write: "emits (then_io (wait_for_input_empty (traced p)) (out8 (traced p) a v)) (\<lambda>_ ws. ws = [(a, v)])"
  unfolding wait_for_input_empty_def
  by (rule emits_mono [OF emits_then [OF emits_poll_input emits_out]]) auto

lemma emits_command: "emits (command (traced p) v) (\<lambda>_ ws. ws = [(0x64, v)])"
  unfolding command_def by (rule emits_mono [OF emits_write]) (simp add: STATUS_COMMAND_def)

lemma emits_write_data: "emits (write_data (traced p) v) (\<lambda>_ ws. ws = [(0x60, v)])"
  unfolding write_data_def by (rule emits_mono [OF emits_write]) (simp add: DATA_def)

lemma emits_poll_reply: "emits (poll_reply (traced p) n) (\<lambda>_ ws. ws = [])"
  by (induction n)
    (auto intro!: emits_silent [OF emits_in] emits_if emits_check emits_done emits_panic)

lemma emits_drain: "emits (drain_output (traced p) n) (\<lambda>_ ws. ws = [])"
  by (induction n) (auto intro!: emits_silent [OF emits_in] emits_if emits_done)

text \<open>A keyboard command is sent between one and three times, until it is acknowledged.\<close>

lemma emits_tries: "emits (keyboard_command_tries (traced p) v n)
    (\<lambda>_ ws. \<exists>k. 1 \<le> k \<and> k \<le> n \<and> ws = replicate k (0x60, v))"
proof (induction n)
  case (Suc n)
  have rep: "emits (if r = 0xfa then return_io () else if r = 0xfe then keyboard_command_tries (traced p) v n
      else panic_io ''unexpected PS/2 ACK'') (\<lambda>_ ws. \<exists>k \<le> n. ws = replicate k (0x60, v))" for r :: u8
    by (intro emits_if emits_done emits_panic emits_mono [OF Suc]) auto
  show ?case
    unfolding keyboard_command_tries.simps read_reply_def
  proof (rule emits_mono [OF emits_then [OF emits_write_data emits_bind [OF emits_poll_reply rep]]])
    fix ws :: "(u16 \<times> u8) list"
    assume "\<exists>x us vs. us = [(0x60, v)] \<and> (\<exists>x us' vs'. us' = [] \<and> (\<exists>k \<le> n. vs' = replicate k (0x60, v)) \<and> vs = us' @ vs')
      \<and> ws = us @ vs"
    then obtain k where "k \<le> n" "ws = replicate (Suc k) (0x60, v)" by auto
    then show "\<exists>k. 1 \<le> k \<and> k \<le> Suc n \<and> ws = replicate k (0x60, v)"
      by (intro exI [of _ "Suc k"]) simp
  qed
qed (simp add: emits_panic)

lemma emits_keyboard_command: "emits (keyboard_command (traced p) v)
    (\<lambda>_ ws. \<exists>k. 1 \<le> k \<and> k \<le> 3 \<and> ws = replicate k (0x60, v))"
  unfolding keyboard_command_def by (rule emits_tries)

lemma emits_enable: "emits (enable_keyboard (traced p) f) (\<lambda>_ ws. ws = [(0x21, 0xfd)])"
  unfolding enable_keyboard_def unmask_keyboard_def
  by (rule emits_check) (rule emits_mono [OF emits_out], simp add: MASTER_DATA_def)

lemma controller_configuration_bits: "controller_configuration c AND 0x73 = 0x60"
proof -
  have "bit (controller_configuration c AND 0x73) k = bit (0x60 :: u8) k" if "k < 8" for k
  proof -
    from that have "k \<in> {0, 1, 2, 3, 4, 5, 6, 7}" by auto
    then show ?thesis by (auto simp: controller_configuration_def bit_simps)
  qed
  then show ?thesis by (intro bit_word_eqI) simp
qed

definition init_writes :: "u8 \<Rightarrow> nat \<Rightarrow> nat \<Rightarrow> nat \<Rightarrow> nat \<Rightarrow> (u16 \<times> u8) list" where
  "init_writes cfg a b c d =
     [(0x64, 0xad), (0x64, 0xa7), (0x64, 0x20), (0x64, 0x60), (0x60, cfg), (0x64, 0xae)]
     @ replicate a (0x60, 0xf5) @ replicate b (0x60, 0xf0) @ replicate c (0x60, 0x02)
     @ replicate d (0x60, 0xf4) @ [(0x64, 0x60), (0x60, cfg OR 1), (0x21, 0xfd)]"

definition setup_sequence :: "(u16 \<times> u8) list \<Rightarrow> bool" where
  "setup_sequence ws \<longleftrightarrow> (\<exists>cfg a b c d. cfg AND 0x73 = 0x60 \<and> 1 \<le> a \<and> a \<le> 3 \<and> 1 \<le> b \<and> b \<le> 3
     \<and> 1 \<le> c \<and> c \<le> 3 \<and> 1 \<le> d \<and> d \<le> 3 \<and> ws = init_writes cfg a b c d)"

lemma emits_init: "emits (keyboard_init (traced p) f (enable_keyboard (traced p) f))
    (\<lambda>_ ws. \<not> f \<and> setup_sequence ws)"
  unfolding setup_sequence_def keyboard_init_def Let_def read_reply_def sequence_io.simps
  apply (rule emits_check)
  apply (rule emits_step [OF emits_command])
  apply (rule emits_step [OF emits_command])
  apply (rule emits_step [OF emits_drain])
  apply (rule emits_silent [OF emits_in])
  apply (rule emits_check)
  apply (rule emits_step [OF emits_command])
  apply (rule emits_silent [OF emits_poll_reply])
  apply (rule emits_step [OF emits_command])
  apply (rule emits_step [OF emits_write_data])
  apply (rule emits_step [OF emits_command])
  apply (rule emits_step [OF emits_keyboard_command])
  apply (rule emits_step [OF emits_keyboard_command])
  apply (rule emits_step [OF emits_keyboard_command])
  apply (rule emits_step [OF emits_keyboard_command])
  apply (rule emits_step [OF emits_command])
  apply (rule emits_step [OF emits_write_data])
  apply (rule emits_step [OF emits_enable])
  apply (rule emits_done)
  apply clarify
  subgoal for status reply u1 u2 u3 u4 d u5 c u6 b u7 a
    by (intro conjI exI [of _ "controller_configuration reply"] exI [of _ a] exI [of _ b] exI [of _ c]
        exI [of _ d]) (simp_all add: controller_configuration_bits init_writes_def)
  done

text \<open>
  C29. A successful initialisation has written exactly the 8042 set-up sequence, in order: both
  ports disabled, the configuration read, a configuration with translation on, the second clock
  off and both interrupts still off, the first port enabled, the four keyboard commands (each
  sent one to three times), the same configuration with only the first interrupt on, and last
  the unmasking of IRQ1 alone.
\<close>

theorem keyboard_init_sequence:
  assumes "keyboard_init (traced p) interrupts_enabled (enable_keyboard (traced p) interrupts_enabled) (w, [])
      = (Inr (), w', log)"
  shows "\<not> interrupts_enabled \<and> setup_sequence (writes log)"
  using emits_init [of p interrupts_enabled, unfolded emits_def, rule_format, OF assms] by auto

section \<open>A cooperative controller\<close>

text \<open>
  A controller that is never busy, answers the configuration request with 0x47 and acknowledges
  every byte sent to the keyboard. The driver sees of it whether the next data byte is the
  configuration, and the byte in the output buffer. Other devices may share the ports.
\<close>

definition cooperative_controller :: "'w ports \<Rightarrow> ('w \<Rightarrow> bool \<times> u8 option) \<Rightarrow> bool" where
  "cooperative_controller p view \<longleftrightarrow>
     (\<forall>w. fst (port_in p STATUS_COMMAND w) = (if snd (view w) = None then 0 else 1)
        \<and> view (snd (port_in p STATUS_COMMAND w)) = view w)
   \<and> (\<forall>w b. snd (view w) = Some b \<longrightarrow> fst (port_in p DATA w) = b
        \<and> view (snd (port_in p DATA w)) = (fst (view w), None))
   \<and> (\<forall>w v. view (port_out p STATUS_COMMAND v w) = (v = 0x60, if v = 0x20 then Some 0x47 else snd (view w)))
   \<and> (\<forall>w v. view (port_out p DATA v w) = (False, if fst (view w) then snd (view w) else Some 0xfa))
   \<and> (\<forall>w v. view (port_out p MASTER_DATA v w) = view w)"

lemma cooperative_ports:
  assumes "cooperative_controller p view"
  shows "runs_to view (in8 p STATUS_COMMAND) (cfg, out) (if out = None then 0 else 1) (cfg, out)"
    and "runs_to view (in8 p DATA) (cfg, Some b) b (cfg, None)"
    and "runs_to view (out8 p STATUS_COMMAND v) (cfg, out) () (v = 0x60, if v = 0x20 then Some 0x47 else out)"
    and "runs_to view (out8 p DATA v) (cfg, out) () (False, if cfg then out else Some 0xfa)"
    and "runs_to view (out8 p MASTER_DATA v) (cfg, out) () (cfg, out)"
  using assms by (simp_all add: runs_to_def io_simps cooperative_controller_def)

lemma budget_unfold:
  "wait_for_input_empty p = bind_io (in8 p STATUS_COMMAND) (\<lambda>status.
     if status AND INPUT_FULL = 0 then return_io () else poll_input_empty p 99999)"
  "read_reply p = bind_io (in8 p STATUS_COMMAND) (\<lambda>status.
     if status AND OUTPUT_FULL \<noteq> 0
     then bind_io (in8 p DATA) (\<lambda>byte.
          then_io (ensure_io (status AND (AUXILIARY OR BAD_DATA) = 0) ''invalid 8042 reply'')
            (return_io byte))
     else poll_reply p 99999)"
proof -
  have n: "POLL_BUDGET = Suc 99999" by (simp add: POLL_BUDGET_def)
  show "wait_for_input_empty p = bind_io (in8 p STATUS_COMMAND) (\<lambda>status.
      if status AND INPUT_FULL = 0 then return_io () else poll_input_empty p 99999)"
    unfolding wait_for_input_empty_def n by (simp only: poll_input_empty.simps)
  show "read_reply p = bind_io (in8 p STATUS_COMMAND) (\<lambda>status.
     if status AND OUTPUT_FULL \<noteq> 0
     then bind_io (in8 p DATA) (\<lambda>byte.
          then_io (ensure_io (status AND (AUXILIARY OR BAD_DATA) = 0) ''invalid 8042 reply'')
            (return_io byte))
     else poll_reply p 99999)"
    unfolding read_reply_def n by (simp only: poll_reply.simps)
qed

lemma cooperative_wait:
  assumes "cooperative_controller p view"
  shows "runs_to view (wait_for_input_empty p) c () c"
proof -
  obtain cfg out where c: "c = (cfg, out)" by (cases c)
  have "(if out = None then 0 else 1) AND INPUT_FULL = 0" by (simp add: INPUT_FULL_def)
  then show ?thesis
    unfolding budget_unfold c by (intro runs_to_bind [OF cooperative_ports(1) [OF assms]]) (simp add: runs_to_return)
qed

lemma cooperative_command:
  assumes "cooperative_controller p view" "c' = (v = 0x60, if v = 0x20 then Some 0x47 else out)"
  shows "runs_to view (command p v) (cfg, out) () c'"
  unfolding command_def assms(2)
  by (rule runs_to_then [OF cooperative_wait [OF assms(1)] cooperative_ports(3) [OF assms(1)]])

lemma cooperative_write:
  assumes "cooperative_controller p view" "c' = (False, if cfg then out else Some 0xfa)"
  shows "runs_to view (write_data p v) (cfg, out) () c'"
  unfolding write_data_def assms(2)
  by (rule runs_to_then [OF cooperative_wait [OF assms(1)] cooperative_ports(4) [OF assms(1)]])

lemma cooperative_reply:
  assumes "cooperative_controller p view"
  shows "runs_to view (read_reply p) (cfg, Some b) b (cfg, None)"
proof -
  have "runs_to view (bind_io (in8 p DATA) (\<lambda>byte.
      then_io (ensure_io (1 AND (AUXILIARY OR BAD_DATA) = 0) ''invalid 8042 reply'')
        (return_io byte))) (cfg, Some b) b (cfg, None)"
    by (rule runs_to_bind [OF cooperative_ports(2) [OF assms] runs_to_then [OF runs_to_ensure runs_to_return]])
      (simp add: kbd_defs)
  then show ?thesis
    unfolding budget_unfold
    by (intro runs_to_bind [OF cooperative_ports(1) [OF assms]]) (simp add: OUTPUT_FULL_def)
qed

lemma cooperative_keyboard_command:
  assumes "cooperative_controller p view"
  shows "runs_to view (keyboard_command p v) (False, None) () (False, None)"
proof -
  have w: "runs_to view (write_data p v) (False, None) () (False, Some 0xfa)"
    by (rule cooperative_write [OF assms]) simp
  show ?thesis
    unfolding keyboard_command_def numeral_3_eq_3 keyboard_command_tries.simps(2)
    by (rule runs_to_then [OF w runs_to_bind [OF cooperative_reply [OF assms]]]) (simp add: runs_to_return)
qed

lemma cooperative_drain:
  assumes "cooperative_controller p view"
  shows "runs_to view (drain_output p QUEUE_CAPACITY) (cfg, out) () (cfg, None)"
proof -
  have n: "QUEUE_CAPACITY = Suc (Suc 62)" by (simp add: QUEUE_CAPACITY_def)
  have empty: "runs_to view (drain_output p (Suc k)) (cfg, None) () (cfg, None)" for k
    unfolding drain_output.simps
    by (intro runs_to_bind [OF cooperative_ports(1) [OF assms]]) (simp add: runs_to_return)
  show ?thesis
  proof (cases out)
    case None
    show ?thesis unfolding n None by (rule empty)
  next
    case (Some b)
    have "runs_to view (bind_io (in8 p DATA) (\<lambda>_. drain_output p (Suc 62))) (cfg, Some b) () (cfg, None)"
      by (rule runs_to_bind [OF cooperative_ports(2) [OF assms] empty])
    then show ?thesis
      unfolding n Some drain_output.simps(2) [of p "Suc 62"]
      by (intro runs_to_bind [OF cooperative_ports(1) [OF assms]]) (simp add: OUTPUT_FULL_def)
  qed
qed

lemma cooperative_init:
  assumes "cooperative_controller p view"
  shows "runs_to view (keyboard_init p False (enable_keyboard p False)) (cfg, out) () (False, None)"
proof -
  note cmd = cooperative_command [OF assms] and coop = cooperative_ports [OF assms]
  have c: "runs_to view (command p 0xad) (cfg, out) () (False, out)" "runs_to view (command p 0xa7) (False, out) () (False, out)"
      "runs_to view (command p 0xae) (False, None) () (False, None)" "runs_to view (command p 0x60) (False, None) () (True, None)"
      "runs_to view (command p 0x20) (False, None) () (False, Some 0x47)"
    by (rule cmd; simp)+
  have s: "runs_to view (in8 p STATUS_COMMAND) (False, None) 0 (False, None)" using coop(1) [of False None] by simp
  have d: "runs_to view (write_data p v) (True, None) () (False, None)" for v
    by (rule cooperative_write [OF assms]) simp
  have e: "runs_to view (enable_keyboard p False) (False, None) () (False, None)"
    unfolding enable_keyboard_def unmask_keyboard_def
    by (rule runs_to_then [OF runs_to_ensure coop(5)]) simp
  show ?thesis
    unfolding keyboard_init_def Let_def sequence_io.simps
    by (intro runs_to_then [OF runs_to_ensure] runs_to_then [OF c(1)] runs_to_then [OF c(2)]
        runs_to_then [OF cooperative_drain [OF assms]] runs_to_bind [OF s] runs_to_then [OF c(5)]
        runs_to_bind [OF cooperative_reply [OF assms]] runs_to_then [OF c(4)] runs_to_then [OF d] runs_to_then [OF c(3)]
        runs_to_then [OF cooperative_keyboard_command [OF assms]] runs_to_then [OF e] runs_to_return) (simp_all add: kbd_defs)
qed

text \<open>
  The initialisation completes: on a controller that accepts its commands and a keyboard that
  acknowledges, no check fails and no polling budget runs out, whatever byte was still waiting in the
  output buffer, and the buffer is empty at the end.
\<close>

theorem keyboard_init_completes:
  assumes "cooperative_controller p view"
  shows "\<exists>w'. keyboard_init p False (enable_keyboard p False) w = (Inr (), w') \<and> view w' = (False, None)"
  using cooperative_init [OF assms, of "fst (view w)" "snd (view w)"] by (simp add: runs_to_def)

definition good_controller :: "(bool \<times> u8 option) ports" where
  "good_controller = \<lparr>
     port_in = (\<lambda>a (cfg, out). if a = STATUS_COMMAND then (if out = None then 0 else 1, (cfg, out))
       else if a = DATA \<and> out \<noteq> None then (the out, (cfg, None)) else (0, (cfg, out))),
     port_out = (\<lambda>a v (cfg, out).
       if a = STATUS_COMMAND then (v = 0x60, if v = 0x20 then Some 0x47 else out)
       else if a = DATA then (False, if cfg then out else Some 0xfa) else (cfg, out))\<rparr>"

lemma good_controller_cooperates: "cooperative_controller good_controller (\<lambda>w. w)"
  by (auto simp: cooperative_controller_def good_controller_def STATUS_COMMAND_def DATA_def MASTER_DATA_def)

lemma traced_cooperates:
  assumes "cooperative_controller p view"
  shows "cooperative_controller (traced p) (\<lambda>w. view (fst w))"
proof -
  have "fst (port_in (traced p) a w) = fst (port_in p a (fst w))"
    "fst (snd (port_in (traced p) a w)) = snd (port_in p a (fst w))"
    "fst (port_out (traced p) a v w) = port_out p a v (fst w)" for a v w
    by (cases w; simp add: traced_def split_def)+
  then show ?thesis using assms by (simp add: cooperative_controller_def)
qed

theorem keyboard_init_completes_witness:
  "\<exists>w'. keyboard_init good_controller False (enable_keyboard good_controller False) (False, Some 0x1c) = (Inr (), w')"
  using keyboard_init_completes [OF good_controller_cooperates] by blast

theorem keyboard_init_sequence_witness:
  "\<exists>w log. keyboard_init (traced good_controller) False (enable_keyboard (traced good_controller) False)
     ((False, None), []) = (Inr (), w, log) \<and> setup_sequence (writes log)"
proof -
  have "runs_to fst (keyboard_init (traced good_controller) False
      (enable_keyboard (traced good_controller) False)) (False, None) () (False, None)"
    using cooperative_init [OF traced_cooperates [OF good_controller_cooperates]] by simp
  then obtain w log where i: "keyboard_init (traced good_controller) False
      (enable_keyboard (traced good_controller) False) ((False, None), []) = (Inr (), w, log)"
    by (fastforce simp: runs_to_def)
  show ?thesis using i keyboard_init_sequence [OF i] by blast
qed

section \<open>The interrupt controllers during the initialisation\<close>

text \<open>A computation that never changes a part of the device, whether it succeeds or panics.\<close>

definition steady :: "('w \<Rightarrow> 'c) \<Rightarrow> ('w, 'a) io \<Rightarrow> bool" where
  "steady part m \<longleftrightarrow> (\<forall>w. part (snd (m w)) = part w)"

lemma steady_result: "steady part m \<Longrightarrow> m w = (r, w') \<Longrightarrow> part w' = part w"
  unfolding steady_def by (metis snd_conv)

lemma steady_bind: "steady part m \<Longrightarrow> (\<And>x. steady part (f x)) \<Longrightarrow> steady part (bind_io m f)"
  unfolding steady_def by (auto simp: bind_io_run split: prod.splits sum.splits) (metis snd_conv)+

lemma steady_then: "steady part m \<Longrightarrow> steady part k \<Longrightarrow> steady part (then_io m k)"
  unfolding then_io_def by (rule steady_bind)

lemma steady_basic: "steady part (return_io x)" "steady part (panic_io msg)" "steady part (ensure_io b msg)"
  by (simp_all add: steady_def io_simps)

text \<open>The keyboard controller's ports leave the interrupt controllers alone.\<close>

lemma steady_ports:
  assumes "pic_ports p chips"
  shows "steady chips (in8 p a)" "a \<in> {STATUS_COMMAND, DATA} \<Longrightarrow> steady chips (out8 p a v)"
  using pic_laws(5) [OF assms, of a] pic_laws(6) [OF assms, of a]
  by (auto simp: steady_def io_simps kbd_defs pic_ports_defs)

lemma steady_polls:
  assumes "pic_ports p chips"
  shows "steady chips (poll_input_empty p n)" "steady chips (poll_reply p n)" "steady chips (drain_output p n)"
  by (induction n) (auto intro!: steady_bind steady_then steady_ports [OF assms] simp: steady_basic)

lemma steady_commands:
  assumes "pic_ports p chips"
  shows "steady chips (command p v)" "steady chips (write_data p v)" "steady chips (read_reply p)"
    "steady chips (keyboard_command p v)"
proof -
  show c: "steady chips (command p v)" "steady chips (write_data p v)" "steady chips (read_reply p)" for v
    unfolding command_def write_data_def read_reply_def wait_for_input_empty_def
    by (auto intro!: steady_then steady_polls [OF assms] steady_ports [OF assms])
  have "steady chips (keyboard_command_tries p v n)" for n
    by (induction n) (auto intro!: steady_then steady_bind c simp: steady_basic)
  then show "steady chips (keyboard_command p v)" unfolding keyboard_command_def by simp
qed

text \<open>A successful initialisation changes one thing in them: the keyboard line alone is open on the master.\<close>

lemma keyboard_init_chips:
  assumes "pic_ports p chips" "expects (fst (chips w)) = 0"
    and "keyboard_init p f (enable_keyboard p f) w = (Inr (), w')"
  shows "chips w' = ((fst (chips w))\<lparr>mask_register := 0xfd\<rparr>, snd (chips w))"
proof -
  note st = steady_commands [OF assms(1)] steady_polls(3) [OF assms(1)] steady_ports(1) [OF assms(1)]
  have enable: "chips w2 = ((fst (chips w1))\<lparr>mask_register := 0xfd\<rparr>, snd (chips w1))"
    if "enable_keyboard p f w1 = (Inr (), w2)" "expects (fst (chips w1)) = 0" for w1 w2
    using that pic_laws(3) [OF assms(1)]
    by (auto simp: enable_keyboard_def unmask_keyboard_def io_simps chip_data_def split: if_splits)
  have seq: "chips w2 = ((fst (chips w1))\<lparr>mask_register := 0xfd\<rparr>, snd (chips w1))"
    if "sequence_io (ms @ [enable_keyboard p f]) w1 = (Inr (), w2)" "list_all (steady chips) ms" "expects (fst (chips w1)) = 0"
    for ms w1 w2
    using that
  proof (induction ms arbitrary: w1)
    case Nil
    then show ?case using enable by (auto simp: then_io_Inr return_io_run)
  next
    case (Cons m ms)
    then obtain w3 where "m w1 = (Inr (), w3)" "sequence_io (ms @ [enable_keyboard p f]) w3 = (Inr (), w2)"
      by (auto simp: then_io_Inr)
    then show ?case using Cons steady_result [of chips m w1] by auto
  qed
  let ?ms = "\<lambda>reply. [command p 0x60, write_data p (controller_configuration reply), command p 0xae,
    keyboard_command p 0xf5, keyboard_command p 0xf0, keyboard_command p 0x02, keyboard_command p 0xf4,
    command p 0x60, write_data p (controller_configuration reply OR 1)]"
  obtain w1 w2 w3 status w4 w5 reply w6 where run: "command p 0xad w = (Inr (), w1)" "command p 0xa7 w1 = (Inr (), w2)"
      "drain_output p QUEUE_CAPACITY w2 = (Inr (), w3)" "in8 p STATUS_COMMAND w3 = (Inr status, w4)"
      "command p 0x20 w4 = (Inr (), w5)" "read_reply p w5 = (Inr reply, w6)"
      "sequence_io (?ms reply @ [enable_keyboard p f]) w6 = (Inr (), w')"
    using assms(3) unfolding keyboard_init_def Let_def then_io_Inr bind_io_Inr ensure_io_Inr append.simps by auto
  have "chips w6 = chips w"
    using steady_result [OF st(1) run(1)] steady_result [OF st(1) run(2)] steady_result [OF st(5) run(3)]
      steady_result [OF st(6) run(4)] steady_result [OF st(1) run(5)] steady_result [OF st(3) run(6)] by simp
  then show ?thesis using seq [OF run(7)] st(1,2,4) assms(2) by simp
qed

end
