(* ===== verification/Gate.thy ===== *)
theory Gate
  imports Kernel_Prelude
begin

text \<open>
  IDT gates and the task state segment (\<^verbatim>\<open>src/kernel/gate.rs\<close>). The TSS is its 104 bytes; the
  addresses of the static stacks, of the TSS and of the boot stack are parameters. Loading the
  task register is left out.
\<close>

section \<open>Gates\<close>

record gate =
  offset_low :: u16
  selector :: u16
  ist :: u8
  attributes :: u8
  offset_middle :: u16
  offset_high :: u32
  reserved :: u32

definition EMPTY_GATE :: gate where
  "EMPTY_GATE = \<lparr>offset_low = 0, selector = 0, ist = 0, attributes = 0, offset_middle = 0,
     offset_high = 0, reserved = 0\<rparr>"

definition gate_new :: "u64 \<Rightarrow> u8 \<Rightarrow> u8 \<Rightarrow> gate" where
  "gate_new address attrs stack = \<lparr>offset_low = ucast address, selector = 0x08, ist = stack AND 7,
     attributes = attrs, offset_middle = ucast (drop_bit 16 address),
     offset_high = ucast (drop_bit 32 address), reserved = 0\<rparr>"

text \<open>How the processor reads a gate: the handler's address and the fields of the attributes.\<close>

definition gate_address :: "gate \<Rightarrow> u64" where
  "gate_address g = ucast (offset_low g) OR push_bit 16 (ucast (offset_middle g))
     OR push_bit 32 (ucast (offset_high g))"

definition gate_present :: "gate \<Rightarrow> bool" where
  "gate_present g \<longleftrightarrow> bit (attributes g) 7"

definition gate_dpl :: "gate \<Rightarrow> nat" where
  "gate_dpl g = unat (drop_bit 5 (attributes g) AND 3)"

definition gate_type :: "gate \<Rightarrow> u8" where
  "gate_type g = attributes g AND 0x1f"

lemma gate_address_new: "gate_address (gate_new a attrs stack) = a"
proof (rule bit_word_eqI)
  fix k assume k: "k < LENGTH(64)"
  consider "k < 16" | j where "k = 16 + j" "j < 16" | j where "k = 32 + j"
    by (metis add_less_cancel_left le_add_diff_inverse not_less numeral_Bit0)
  then show "bit (gate_address (gate_new a attrs stack)) k = bit a k"
    using k by cases (auto simp: gate_address_def gate_new_def bit_simps)
qed

text \<open>
  Building a gate loses nothing: the processor reads back the full 64-bit handler address,
  the attributes and the stack index (three bits), with the kernel code selector and the
  reserved word zero.
\<close>

theorem gate_roundtrip:
  "gate_address (gate_new a attrs stack) = a \<and> attributes (gate_new a attrs stack) = attrs
    \<and> ist (gate_new a attrs stack) = stack AND 7 \<and> selector (gate_new a attrs stack) = 8
    \<and> reserved (gate_new a attrs stack) = 0"
  unfolding gate_address_new by (simp add: gate_new_def)

section \<open>The task state segment\<close>

type_synonym tss = "u8 list"

definition TSS_INITIAL :: tss where
  "TSS_INITIAL = replicate 104 0"

text \<open>An unaligned little-endian store; it is used with offsets inside the segment only.\<close>

definition store_bytes :: "tss \<Rightarrow> nat \<Rightarrow> u8 list \<Rightarrow> tss" where
  "store_bytes t offset bs = take offset t @ bs @ drop (offset + length bs) t"

definition store_u64 :: "tss \<Rightarrow> nat \<Rightarrow> u64 \<Rightarrow> tss" where
  "store_u64 t offset v = store_bytes t offset (le_bytes 8 v)"

definition store_u16 :: "tss \<Rightarrow> nat \<Rightarrow> u16 \<Rightarrow> tss" where
  "store_u16 t offset v = store_bytes t offset (le_bytes 2 v)"

definition load_u64 :: "tss \<Rightarrow> nat \<Rightarrow> u64" where
  "load_u64 t offset = read_le 8 (\<lambda>i. t ! i) offset"

definition load_u16 :: "tss \<Rightarrow> nat \<Rightarrow> u16" where
  "load_u16 t offset = read_le 2 (\<lambda>i. t ! i) offset"

definition fill_tss :: "u64 \<Rightarrow> u64 \<Rightarrow> u64 \<Rightarrow> u64 \<Rightarrow> tss \<Rightarrow> tss" where
  "fill_tss exception_top double_top irq_top boot_top t0 =
     (let t1 = fold (\<lambda>offset t. store_u64 t offset exception_top) [4, 12, 20, 36, 52, 60, 68, 76, 84] t0;
          t2 = store_u64 t1 4 boot_top;
          t3 = store_u64 t2 44 double_top;
          t4 = store_u64 t3 52 irq_top
      in store_u16 t4 102 104)"

text \<open>The two words of the TSS descriptor in the GDT.\<close>

definition tss_descriptor :: "u64 \<Rightarrow> u64 \<times> u64" where
  "tss_descriptor base =
     (103 OR push_bit 16 (base AND 0xffffff) OR push_bit 40 0x89
        OR push_bit 56 (drop_bit 24 base AND 0xff),
      drop_bit 32 base)"

text \<open>\<^verbatim>\<open>init\<close>: the segment and the GDT entries 8 and 9.\<close>

definition gate_init :: "u64 \<Rightarrow> u64 \<Rightarrow> u64 \<Rightarrow> u64 \<Rightarrow> u64 \<Rightarrow> tss \<times> u64 list \<Rightarrow> tss \<times> u64 list" where
  "gate_init exception_stack double_fault_stack irq_stack boot_stack_top tss_base = (\<lambda>(t, gdt).
     let t' = fill_tss (exception_stack + 32768) (double_fault_stack + 16384) (irq_stack + 32768)
           boot_stack_top t;
         (low, high) = tss_descriptor tss_base
     in (t', gdt[8 := low, 9 := high]))"

definition set_kernel_stack :: "bool \<Rightarrow> u64 \<Rightarrow> tss \<Rightarrow> tss res" where
  "set_kernel_stack interrupts_enabled stack_top t =
     bind_res (ensure (\<not> interrupts_enabled) ''!arch::interrupts_enabled()'') (\<lambda>_.
     bind_res (ensure (stack_top mod 16 = 0) ''stack_top % 16 == 0'') (\<lambda>_.
     Inr (store_u64 t 4 stack_top)))"

definition kernel_stack :: "tss \<Rightarrow> u64" where
  "kernel_stack t = load_u64 t 4"

section \<open>Stores and loads\<close>

lemma length_store [simp]:
  "offset + 8 \<le> length t \<Longrightarrow> length (store_u64 t offset v) = length t"
  "offset + 2 \<le> length t \<Longrightarrow> length (store_u16 t offset w) = length t"
  by (simp_all add: store_u64_def store_u16_def store_bytes_def)

lemma store_bytes_nth:
  assumes "offset + length bs \<le> length t" "i < length t"
  shows "store_bytes t offset bs ! i = (if offset \<le> i \<and> i < offset + length bs then bs ! (i - offset) else t ! i)"
  using assms by (auto simp: store_bytes_def nth_append)

lemma read_le_cong:
  "(\<And>i. a \<le> i \<Longrightarrow> i < a + n \<Longrightarrow> f i = g i) \<Longrightarrow> read_le n f a = read_le n g a"
  by (auto simp: read_le_def intro!: arg_cong [where f = word_rcat] map_cong)

lemma load_store_same: "offset + 8 \<le> length t \<Longrightarrow> load_u64 (store_u64 t offset v) offset = v"
  unfolding load_u64_def store_u64_def
  by (rule read_le_holds)
    (auto simp: holds_bytes_def store_bytes_nth intro!: nth_equalityI)

lemma load_store_other:
  assumes "offset + 8 \<le> length t" "b + 8 \<le> length t" "b + 8 \<le> offset \<or> offset + 8 \<le> b"
  shows "load_u64 (store_u64 t offset v) b = load_u64 t b"
  unfolding load_u64_def store_u64_def
  by (rule read_le_cong) (use assms in \<open>auto simp: store_bytes_nth\<close>)

lemma load_store_u16:
  assumes "offset + 2 \<le> length t" "b + 8 \<le> offset"
  shows "load_u64 (store_u16 t offset v) b = load_u64 t b"
  unfolding load_u64_def store_u16_def
  by (rule read_le_cong) (use assms in \<open>auto simp: store_bytes_nth\<close>)

lemma load_u16_store: "offset + 2 \<le> length t \<Longrightarrow> load_u16 (store_u16 t offset v) offset = v"
  unfolding load_u16_def store_u16_def
  by (rule read_le_holds)
    (auto simp: holds_bytes_def store_bytes_nth less_Suc_eq intro!: nth_equalityI)

text \<open>The same facts for the 104 bytes of the segment, in the form chains of stores are read with.\<close>

lemma tss_length:
  "length t = 104 \<Longrightarrow> offset \<le> 96 \<Longrightarrow> length (store_u64 t offset v) = 104"
  "length t = 104 \<Longrightarrow> offset \<le> 102 \<Longrightarrow> length (store_u16 t offset w) = 104"
  by simp_all

lemma tss_load:
  "length t = 104 \<Longrightarrow> offset \<le> 96 \<Longrightarrow> load_u64 (store_u64 t offset v) offset = v"
  "length t = 104 \<Longrightarrow> b + 8 \<le> offset \<or> offset + 8 \<le> b \<Longrightarrow> offset \<le> 96 \<Longrightarrow> b \<le> 96 \<Longrightarrow>
     load_u64 (store_u64 t offset v) b = load_u64 t b"
  "length t = 104 \<Longrightarrow> offset \<le> 102 \<Longrightarrow> b + 8 \<le> offset \<Longrightarrow>
     load_u64 (store_u16 t offset w) b = load_u64 t b"
  "length t = 104 \<Longrightarrow> offset \<le> 102 \<Longrightarrow> load_u16 (store_u16 t offset w) offset = w"
  by (simp_all add: load_store_same load_store_other load_store_u16 load_u16_store)

lemma length_TSS_INITIAL: "length TSS_INITIAL = 104"
  by (simp add: TSS_INITIAL_def)

lemma replicate_6: "replicate 6 x = [x, x, x, x, x, x]"
  by (simp add: numeral_eq_Suc)

text \<open>
  After initialisation the stack pointers of the TSS are where the processor expects them:
  the boot stack for entries from user mode, one stack of its own each for double faults (IST2)
  and interrupts (IST3), the exception stack for everything else, and no I/O permission map.
\<close>

theorem fill_tss_stacks:
  "let t = fill_tss exception_top double_top irq_top boot_top TSS_INITIAL in
     length t = 104 \<and> kernel_stack t = boot_top
     \<and> load_u64 t 36 = exception_top \<and> load_u64 t 44 = double_top \<and> load_u64 t 52 = irq_top
     \<and> map (load_u64 t) [12, 20, 60, 68, 76, 84] = replicate 6 exception_top \<and> load_u16 t 102 = 104"
  unfolding fill_tss_def kernel_stack_def Let_def fold_Cons fold_Nil o_apply id_apply replicate_6
  by (simp add: tss_length tss_load length_TSS_INITIAL del: length_store)

text \<open>
  Changing the kernel stack for user-mode entries changes nothing else in the segment: the
  new value is read back, and every byte outside offsets 4 to 11 is unchanged; a misaligned
  stack or enabled interrupts panic.
\<close>

theorem set_kernel_stack_frame:
  assumes "length t = 104" "set_kernel_stack f stack_top t = Inr t'"
  shows "\<not> f \<and> stack_top mod 16 = 0 \<and> kernel_stack t' = stack_top \<and> length t' = 104
    \<and> list_all (\<lambda>i. t' ! i = t ! i) ([0..<4] @ [12..<104])"
proof -
  have t': "t' = store_u64 t 4 stack_top" "\<not> f" "stack_top mod 16 = 0"
    using assms(2) by (auto simp: set_kernel_stack_def res_Inr)
  have "t' ! i = t ! i" if "i < 104" "i < 4 \<or> 12 \<le> i" for i
    using that assms(1) unfolding t' store_u64_def by (subst store_bytes_nth) auto
  then show ?thesis
    using assms(1) t' by (simp add: kernel_stack_def load_store_same list_all_iff)
qed

theorem set_kernel_stack_frame_witness:
  "\<exists>t'. set_kernel_stack False 0x8000 TSS_INITIAL = Inr t' \<and> kernel_stack t' = 0x8000"
proof -
  have "set_kernel_stack False 0x8000 TSS_INITIAL = Inr (store_u64 TSS_INITIAL 4 0x8000)"
    by (simp add: set_kernel_stack_def)
  moreover have "length TSS_INITIAL = 104" by (simp add: TSS_INITIAL_def)
  ultimately show ?thesis using set_kernel_stack_frame by blast
qed

text \<open>Putting an old kernel stack back restores the whole segment.\<close>

lemma kernel_stack_restored:
  assumes "length t = 104"
  shows "store_u64 (store_u64 t 4 v) 4 (kernel_stack t) = t"
proof (rule nth_equalityI)
  show "length (store_u64 (store_u64 t 4 v) 4 (kernel_stack t)) = length t" using assms by simp
  fix i assume "i < length (store_u64 (store_u64 t 4 v) 4 (kernel_stack t))"
  then have i: "i < length t" using assms by simp
  have l: "4 + length (le_bytes 8 (w :: u64)) \<le> length t" for w using assms by simp
  have "le_bytes 8 (kernel_stack t) ! j = t ! (4 + j)" if "j < 8" for j
  proof -
    have eq: "le_bytes 8 (kernel_stack t) = map (\<lambda>i. t ! i) [4..<4 + 8]"
      unfolding kernel_stack_def load_u64_def by (rule le_bytes_read) simp
    have "map (\<lambda>i. t ! i) [a..<a + 8] ! j = t ! (a + j)" for a using that by simp
    then show ?thesis unfolding eq .
  qed
  from this [of "i - 4"] show "store_u64 (store_u64 t 4 v) 4 (kernel_stack t) ! i = t ! i"
    using i l assms unfolding store_u64_def
    by (subst store_bytes_nth; (simp add: store_bytes_def; fail)?) (auto simp: store_bytes_nth)
qed

text \<open>How the processor reads the descriptor.\<close>

definition descriptor_base :: "u64 \<times> u64 \<Rightarrow> u64" where
  "descriptor_base d = (drop_bit 16 (fst d) AND 0xffffff) OR push_bit 24 (drop_bit 56 (fst d) AND 0xff)
     OR push_bit 32 (snd d)"

lemma mask_numerals: "(0xffffff :: u64) = mask 24" "(0xff :: u64) = mask 8" "(0xffff :: u64) = mask 16"
  by (simp_all add: mask_eq_exp_minus_1)

lemma descriptor_constant_bits:
  "bit (103 :: u64) k \<Longrightarrow> k < 7" "bit (0x89 :: u64) k \<Longrightarrow> k < 8"
proof -
  have "(103 :: u64) = take_bit 7 103" "(0x89 :: u64) = take_bit 8 0x89" by simp_all
  then show "bit (103 :: u64) k \<Longrightarrow> k < 7" "bit (0x89 :: u64) k \<Longrightarrow> k < 8"
    by (metis bit_take_bit_iff)+
qed

lemma descriptor_fields:
  fixes c a b :: u64
  defines "d \<equiv> (c OR push_bit 16 (b AND mask 24) OR push_bit 40 a OR push_bit 56 (drop_bit 24 b AND mask 8))"
  assumes c: "\<And>k. bit c k \<Longrightarrow> k < 7" and a: "\<And>k. bit a k \<Longrightarrow> k < 8"
  shows "(drop_bit 16 d AND mask 24) OR push_bit 24 (drop_bit 56 d AND mask 8)
      OR push_bit 32 (drop_bit 32 b) = b" (is "?b = b")
    and "d AND mask 16 = c" and "drop_bit 40 d AND mask 8 = a"
proof -
  show "?b = b"
  proof (rule bit_word_eqI)
    fix k assume k: "k < LENGTH(64)"
    consider "k < 24" | j where "k = 24 + j" "j < 8" | j where "k = 32 + j"
    proof -
      have "k < 24 \<or> k = 24 + (k - 24) \<and> k - 24 < 8 \<or> k = 32 + (k - 32)" by linarith
      then show thesis using that by blast
    qed
    then show "bit ?b k = bit b k"
      using k by cases (auto simp: d_def bit_simps dest: c a)
  qed
  show "d AND mask 16 = c" "drop_bit 40 d AND mask 8 = a"
    by (rule bit_word_eqI; auto simp: d_def bit_simps dest: c a)+
qed

lemmas descriptor_decoded = descriptor_fields [of 103 "0x89", OF descriptor_constant_bits]

text \<open>
  The TSS descriptor written to the GDT describes this TSS: the processor decodes the same
  base address, and limit and access byte are 103 and 0x89 (present, available 64-bit TSS).
\<close>

theorem tss_descriptor_decodes:
  "descriptor_base (tss_descriptor b) = b
    \<and> fst (tss_descriptor b) AND 0xffff = 103 \<and> drop_bit 40 (fst (tss_descriptor b)) AND 0xff = 0x89"
  unfolding descriptor_base_def tss_descriptor_def fst_conv snd_conv mask_numerals
  by (intro conjI descriptor_decoded)

end
