(* ===== verification/Trap.thy ===== *)
theory Trap
  imports Gate Text_Format
begin

text \<open>
  The interrupt descriptor table and the fatal exception report (\<^verbatim>\<open>src/kernel/trap.rs\<close>). The
  addresses of the assembly entry points are parameters: \<open>entries\<close> for the 32 exceptions and
  \<open>other\<close> for \<^verbatim>\<open>exception_255\<close>. The table is a list of 256 gates; loading the IDT register and
  the final halt are left out. The report is the list of messages printed before the halt.
\<close>

section \<open>The table\<close>

type_synonym idt = "gate list"

definition IDT_INITIAL :: idt where
  "IDT_INITIAL = replicate 256 EMPTY_GATE"

record interrupt_frame =
  registers :: "u64 list" \<comment> \<open>r15..r8, rsi, rdi, rbp, rdx, rcx, rbx, rax\<close>
  vector :: u64
  error :: u64
  rip :: u64
  cs :: u64
  rflags :: u64
  rsp :: u64
  ss :: u64

definition set_user_return_gate :: "u64 \<Rightarrow> u64 option \<Rightarrow> idt \<Rightarrow> idt" where
  "set_user_return_gate other handler idt =
     idt[0x80 := (case handler of
        Some address \<Rightarrow> gate_new address 0xee 0
      | None \<Rightarrow> gate_new other 0x8f 1)]"

definition install_irq :: "nat \<Rightarrow> u64 \<Rightarrow> idt \<Rightarrow> idt res" where
  "install_irq v handler idt =
     bind_res (ensure (32 \<le> v \<and> v < 48) ''(32..48).contains(&vector)'')
       (\<lambda>_. Inr (idt[v := gate_new handler 0x8e 3]))"

definition trap_gate :: "(nat \<Rightarrow> u64) \<Rightarrow> u64 \<Rightarrow> nat \<Rightarrow> gate" where
  "trap_gate entries other v =
     (let entry = (if v < 32 then entries v else other);
          attrs = (if 3 \<le> v \<and> v \<le> 5 then 0xef else if v = 2 then 0x8e else 0x8f)
      in gate_new entry attrs (if v = 8 then 2 else 1))"

definition trap_init :: "(nat \<Rightarrow> u64) \<Rightarrow> u64 \<Rightarrow> idt \<Rightarrow> idt" where
  "trap_init entries other idt = fold (\<lambda>v t. t[v := trap_gate entries other v]) [0..<256] idt"

text \<open>The vectors a program at privilege level 3 may raise with an \<^verbatim>\<open>INT\<close> instruction.\<close>

definition user_callable :: "idt \<Rightarrow> nat list" where
  "user_callable idt = filter (\<lambda>v. gate_present (idt ! v) \<and> gate_dpl (idt ! v) = 3) [0..<length idt]"

section \<open>Lemmas on the table\<close>

lemma fold_update_nth:
  "i < length t \<Longrightarrow>
    fold (\<lambda>v t. t[v := f v]) vs t ! i = (if i \<in> set vs then f i else t ! i)"
proof (induction vs arbitrary: t)
  case Nil
  then show ?case by simp
next
  case (Cons v vs)
  then show ?case by (auto simp: nth_list_update)
qed

lemma length_fold_update [simp]: "length (fold (\<lambda>v t. t[v := f v]) vs t) = length t"
  by (induction vs arbitrary: t) auto

lemma length_IDT_INITIAL [simp]: "length IDT_INITIAL = 256"
  by (simp add: IDT_INITIAL_def)

lemma length_trap_init [simp]: "length (trap_init entries other idt) = length idt"
  by (simp add: trap_init_def)

lemma trap_init_nth:
  "length idt = 256 \<Longrightarrow> v < 256 \<Longrightarrow> trap_init entries other idt ! v = trap_gate entries other v"
  by (simp add: trap_init_def fold_update_nth)

lemma attribute_bits:
  "bit (0xef :: u8) 7" "bit (0x8e :: u8) 7" "bit (0x8f :: u8) 7" "bit (0xee :: u8) 7"
  "unat (drop_bit 5 (0xef :: u8) AND 3) = 3" "unat (drop_bit 5 (0x8e :: u8) AND 3) = 0"
  "unat (drop_bit 5 (0x8f :: u8) AND 3) = 0" "unat (drop_bit 5 (0xee :: u8) AND 3) = 3"
  "(0xef :: u8) AND 0x1f = 0xf" "(0x8e :: u8) AND 0x1f = 0xe" "(0x8f :: u8) AND 0x1f = 0xf"
  "(0xee :: u8) AND 0x1f = 0xe"
  by (simp_all add: bit_iff_odd drop_bit_eq_div)

lemma gate_new_fields:
  "attributes (gate_new a attrs stack) = attrs" "ist (gate_new a attrs stack) = stack AND 7"
  by (simp_all add: gate_new_def)

lemma trap_gate_decoded:
  "gate_address (trap_gate entries other v) = (if v < 32 then entries v else other)"
  "gate_present (trap_gate entries other v)"
  "gate_dpl (trap_gate entries other v) = (if 3 \<le> v \<and> v \<le> 5 then 3 else 0)"
  "gate_type (trap_gate entries other v) = (if v = 2 then 0xe else 0xf)"
  "ist (trap_gate entries other v) = (if v = 8 then 2 else 1)"
  by (simp_all add: trap_gate_def Let_def gate_address_new gate_present_def gate_dpl_def
      gate_type_def gate_new_fields attribute_bits)

text \<open>
  After initialisation every one of the 256 vectors has a present gate that leads to its own
  entry (the 32 exceptions) or to the common one, on the exception stack IST1, the double fault
  alone on IST2. Only vectors 3 to 5 are open to user mode, and only the NMI gate masks interrupts.
\<close>

theorem trap_init_gates:
  assumes "length idt = 256" "v < 256"
  shows "gate_address (trap_init entries other idt ! v) = (if v < 32 then entries v else other)
    \<and> gate_present (trap_init entries other idt ! v)
    \<and> gate_dpl (trap_init entries other idt ! v) = (if v \<in> {3, 4, 5} then 3 else 0)
    \<and> gate_type (trap_init entries other idt ! v) = (if v = 2 then 0xe else 0xf)
    \<and> ist (trap_init entries other idt ! v) = (if v = 8 then 2 else 1)"
proof -
  have "3 \<le> v \<and> v \<le> 5 \<longleftrightarrow> v \<in> {3, 4, 5}" by auto
  then show ?thesis by (simp only: trap_init_nth [OF assms] trap_gate_decoded simp_thms)
qed

theorem trap_init_gates_witness:
  "gate_address (trap_init (\<lambda>v. of_nat v) 7 IDT_INITIAL ! 8) = 8
    \<and> ist (trap_init (\<lambda>v. of_nat v) 7 IDT_INITIAL ! 8) = 2"
  using trap_init_gates [of IDT_INITIAL 8 "\<lambda>v. of_nat v" 7] by simp

section \<open>The exception report\<close>

definition NAMES :: "string list" where
  "NAMES = [''divide error'', ''debug'', ''NMI'', ''breakpoint'', ''overflow'', ''bounds'',
     ''undefined opcode'', ''device not available'', ''double fault'',
     ''coprocessor segment overrun'', ''invalid TSS'', ''segment not present'',
     ''stack segment fault'', ''general protection'', ''page fault'', ''reserved'', ''x87 FPU'',
     ''alignment check'', ''machine check'', ''SIMD'', ''virtualization'', ''control protection'',
     ''reserved'', ''reserved'', ''reserved'', ''reserved'', ''reserved'', ''reserved'',
     ''hypervisor injection'', ''VMM communication'', ''security'', ''reserved'']"


definition exception_name :: "interrupt_frame \<Rightarrow> string" where
  "exception_name frame =
     (if unat (vector frame) < length NAMES then NAMES ! unat (vector frame) else ''unknown interrupt'')"

definition hex18 :: "u64 \<Rightarrow> string" where
  "hex18 x = hexadecimal 18 (unat x)"

definition exception_line :: "interrupt_frame \<Rightarrow> message" where
  "exception_line frame = (RED, ''EXCEPTION '' @ decimal (unat (vector frame)) @ '' ('' @ exception_name frame
     @ '') ERROR='' @ hex18 (error frame) @ '' RIP='' @ hex18 (rip frame) @ '' RSP='' @ hex18 (rsp frame) @ [CHR 0x0a])"

definition selector_table :: "u64 \<Rightarrow> string" where
  "selector_table err = (if err AND 2 \<noteq> 0 then ''IDT'' else if err AND 4 \<noteq> 0 then ''LDT'' else ''GDT'')"

definition selector_line :: "interrupt_frame \<Rightarrow> message" where
  "selector_line frame = (RED, ''Selector index='' @ decimal (unat (drop_bit 3 (error frame)))
     @ '' table='' @ selector_table (error frame)
     @ '' external='' @ truth_text (error frame AND 1 \<noteq> 0) @ [CHR 0x0a])"

definition page_fault_line :: "u64 \<Rightarrow> interrupt_frame \<Rightarrow> message" where
  "page_fault_line cr2 frame = (RED, ''CR2='' @ hex18 cr2
     @ '' present='' @ truth_text (error frame AND 1 \<noteq> 0)
     @ '' write='' @ truth_text (error frame AND 2 \<noteq> 0)
     @ '' user='' @ truth_text (error frame AND 4 \<noteq> 0)
     @ '' reserved='' @ truth_text (error frame AND 8 \<noteq> 0)
     @ '' instruction_fetch='' @ truth_text (error frame AND 16 \<noteq> 0) @ [CHR 0x0a])"

definition user_line :: "interrupt_frame \<Rightarrow> message" where
  "user_line frame = (RED, ''User exception context: CS='' @ hexadecimal 6 (unat (cs frame))
     @ '' SS='' @ hexadecimal 6 (unat (ss frame)) @ '' RFLAGS='' @ hex18 (rflags frame) @ [CHR 0x0a])"

text \<open>
  \<^verbatim>\<open>exception_dispatch\<close>: what it prints before it halts, and the panic of the check it makes in
  the fault experiments (\<open>verify\<close>, \<^verbatim>\<open>usermode::verify_expected_fault\<close>, \<open>None\<close> in a normal build).
\<close>

definition exception_dispatch ::
  "(interrupt_frame \<Rightarrow> message list res) option \<Rightarrow> u64 \<Rightarrow> interrupt_frame \<Rightarrow> message list \<times> panic option" where
  "exception_dispatch verify cr2 frame =
     (let report = [exception_line frame]
          @ (if 10 \<le> vector frame \<and> vector frame \<le> 13 then [selector_line frame] else [])
          @ (if vector frame = 14 then [page_fault_line cr2 frame] else [])
          @ (if cs frame AND 3 = 3 then [user_line frame] else [])
      in case verify of
           None \<Rightarrow> (report, None)
         | Some check \<Rightarrow>
             (if cs frame AND 3 = 3 then
                (case check frame of Inl e \<Rightarrow> (report, Some e) | Inr verdict \<Rightarrow> (report @ verdict, None))
              else (report, None)))"

text \<open>Reading the first line of the report: the vector, and the last three numbers.\<close>

definition reported_vector :: "string \<Rightarrow> nat" where
  "reported_vector s = text_value 10 (takeWhile (\<lambda>c. c \<noteq> CHR '' '') (drop 10 s))"

definition reported_numbers :: "string \<Rightarrow> nat list" where
  "reported_numbers s = (let n = length s in
     map (\<lambda>k. text_value 16 (drop 2 (take 18 (drop (n - k) s)))) [65, 42, 19])"

lemma reported_vector_line: "reported_vector (snd (exception_line frame)) = unat (vector frame)"
proof -
  have "\<forall>c \<in> set (decimal n). c \<noteq> CHR '' ''" for n
    using digits_text_set [of 10 n] unfolding decimal_def by auto
  then show ?thesis
    by (simp add: reported_vector_def exception_line_def takeWhile_append decimal_value)
qed

lemma length_hex18 [simp]: "length (hex18 x) = 18"
  by (simp add: hex18_def length_hexadecimal_u64)

lemma hex18_value: "text_value 16 (drop 2 (hex18 x)) = unat x"
  by (simp add: hex18_def hexadecimal_value)

lemma reported_numbers_line:
  "reported_numbers (snd (exception_line frame)) = [unat (error frame), unat (rip frame), unat (rsp frame)]"
proof -
  obtain pre where "snd (exception_line frame) =
      pre @ hex18 (error frame) @ '' RIP='' @ hex18 (rip frame) @ '' RSP='' @ hex18 (rsp frame) @ [CHR 0x0a]"
    by (auto simp: exception_line_def append_assoc [symmetric] simp del: append_assoc)
  then show ?thesis by (simp add: reported_numbers_def Let_def hex18_value)
qed

text \<open>
  C30. The report of a fatal exception is faithful: whatever the frame and the build, its first
  line determines the vector, the error code, the instruction and the stack pointer.
\<close>

theorem exception_report_faithful:
  "\<exists>first rest e. exception_dispatch verify cr2 frame = (first # rest, e)
    \<and> reported_vector (snd first) = unat (vector frame)
    \<and> reported_numbers (snd first) = [unat (error frame), unat (rip frame), unat (rsp frame)]"
proof -
  have "\<exists>rest e. exception_dispatch verify cr2 frame = (exception_line frame # rest, e)"
    by (auto simp: exception_dispatch_def Let_def split: option.splits sum.splits)
  then show ?thesis using reported_vector_line reported_numbers_line by blast
qed

end
