(* ===== verification/Interrupts.thy ===== *)
theory Interrupts
  imports Trap Pic Keyboard
begin

text \<open>
  Interrupt delivery (\<^verbatim>\<open>src/kernel/interrupt.rs\<close>): installation of the 16 gates, the dispatcher,
  the timer demonstration and the context check of the checking build. The state of the dispatcher is the timer count, the keyboard queue
  and the two counters of the checking build; the chips are reached through the ports.
\<close>

section \<open>State and operations\<close>

record irq_state =
  timer_irqs :: usize
  spurious_master :: usize
  spurious_slave :: usize
  key_queue :: byte_queue

definition irq_state_initial :: irq_state where
  "irq_state_initial = \<lparr>timer_irqs = 0, spurious_master = 0, spurious_slave = 0, key_queue = new_queue\<rparr>"

definition lift_io :: "'a res \<Rightarrow> ('w, 'a) io" where
  "lift_io r = (\<lambda>w. (r, w))"

text \<open>The gates of the 16 lines, then the chips.\<close>

definition install_irqs :: "(nat \<Rightarrow> u64) \<Rightarrow> idt \<Rightarrow> idt res" where
  "install_irqs irq_entries idt =
     for_res [0..<IRQ_COUNT] (\<lambda>irq. install_irq (uadd VECTOR_BASE irq) (irq_entries irq)) idt"

definition interrupt_init :: "'w ports \<Rightarrow> bool \<Rightarrow> (nat \<Rightarrow> u64) \<Rightarrow> idt \<Rightarrow> ('w, idt) io" where
  "interrupt_init p interrupts_enabled irq_entries idt =
     then_io (ensure_io (\<not> interrupts_enabled) ''!arch::interrupts_enabled()'')
    (bind_io (lift_io (install_irqs irq_entries idt)) (\<lambda>idt'.
     then_io (pic_init p)
    (bind_io (in_service p) (\<lambda>service.
     then_io (ensure_io (service = 0) ''pic::in_service() == 0'') (return_io idt')))))"

definition irq_number :: "u64 \<Rightarrow> usize option" where
  "irq_number v =
     (if VECTOR_BASE \<le> unat v \<and> unat v - VECTOR_BASE < IRQ_COUNT then Some (unat v - VECTOR_BASE) else None)"

text \<open>The device part of the dispatcher: the timer count or the keyboard handler.\<close>

definition serve_irq :: "'w ports \<Rightarrow> usize \<Rightarrow> irq_state \<Rightarrow> ('w, irq_state) io" where
  "serve_irq p irq st =
     (if irq = 0
      then (let n = uadd (timer_irqs st) 1; st' = st\<lparr>timer_irqs := n\<rparr> in
        then_io (ensure_io (n \<le> 2) ''count <= 2'')
          (then_io (if n = 2 then mask_all p else return_io ()) (return_io st')))
      else bind_io (on_interrupt p (key_queue st)) (\<lambda>q. return_io (st\<lparr>key_queue := q\<rparr>)))"

definition count_spurious :: "bool \<Rightarrow> usize \<Rightarrow> irq_state \<Rightarrow> irq_state" where
  "count_spurious irq_check irq st =
     (if irq_check
      then if irq = 7 then st\<lparr>spurious_master := uadd (spurious_master st) 1\<rparr>
           else st\<lparr>spurious_slave := uadd (spurious_slave st) 1\<rparr>
      else st)"

definition irq_dispatch :: "'w ports \<Rightarrow> bool \<Rightarrow> bool \<Rightarrow> u64 \<Rightarrow> irq_state \<Rightarrow> ('w, irq_state) io" where
  "irq_dispatch p irq_check interrupts_enabled v st =
     then_io (ensure_io (\<not> interrupts_enabled) ''IRQ handler must not nest'')
    (bind_io (lift_io (expect (irq_number v) ''invalid PIC vector'')) (\<lambda>irq.
     bind_io (is_spurious p irq) (\<lambda>spurious.
     if spurious then return_io (count_spurious irq_check irq st)
     else then_io (ensure_io (irq \<le> 1) ''device IRQ has no driver yet'')
         (bind_io (in_service p) (\<lambda>service.
          then_io (ensure_io (service AND push_bit irq 1 \<noteq> 0) ''IRQ must come from PIC'')
         (bind_io (serve_irq p irq st) (\<lambda>st'.
          then_io (end_of_interrupt p irq)
         (bind_io (in_service p) (\<lambda>service'.
          then_io (ensure_io (service' AND push_bit irq 1 = 0) ''EOI must clear ISR'')
            (return_io st'))))))))))"

text \<open>
  The timer demonstration. Each wait ends with an interrupt: the change of the device that raised
  it, and its vector. The list of deliveries is the environment's; when it ends the kernel is
  still waiting (\<open>None\<close>).
\<close>

type_synonym 'w delivery = "('w \<Rightarrow> 'w) \<times> u64"

fun wait_for_timer :: "'w ports \<Rightarrow> bool \<Rightarrow> 'w delivery list \<Rightarrow> irq_state \<Rightarrow> ('w, irq_state option) io" where
  "wait_for_timer p irq_check [] st = return_io (if timer_irqs st < 2 then None else Some st)"
| "wait_for_timer p irq_check ((request, v) # ds) st =
     (if timer_irqs st < 2
      then (\<lambda>w. bind_io (irq_dispatch p irq_check False v st)
        (\<lambda>st'. wait_for_timer p irq_check ds st') (request w))
      else return_io (Some st))"

definition demonstrate_timer ::
  "'w ports \<Rightarrow> bool \<Rightarrow> bool \<Rightarrow> 'w delivery list \<Rightarrow> irq_state \<Rightarrow> ('w, irq_state option) io" where
  "demonstrate_timer p irq_check interrupts_enabled ds st =
     then_io (ensure_io (\<not> interrupts_enabled) ''!arch::interrupts_enabled()'')
    (then_io (ensure_io (timer_irqs st = 0) ''TIMER_IRQS.load() == 0'')
    (then_io (sequence_io [out8 p 0x43 0x34, out8 p 0x40 (ucast (11932 :: u16)),
        out8 p 0x40 (ucast (drop_bit 8 (11932 :: u16))), unmask_timer p])
    (bind_io (wait_for_timer p irq_check ds st) (\<lambda>done.
     case done of None \<Rightarrow> return_io None
     | Some st' \<Rightarrow> then_io (mask_all p)
        (bind_io (in_service p) (\<lambda>service.
         then_io (ensure_io (service = 0) ''pic::in_service() == 0'') (return_io (Some st'))))))))"

text \<open>
  The context check of the checking build: the assembly raises vector 0x27 with known registers and
  returns \<open>registers_changed\<close>, zero when the entry code restored all of them; then vector 0x2f is raised. Neither
  line is in service, so both are spurious.
\<close>

definition verify_context :: "'w ports \<Rightarrow> bool \<Rightarrow> u64 \<Rightarrow> irq_state \<Rightarrow> ('w, irq_state) io" where
  "verify_context p interrupts_enabled registers_changed st =
     then_io (ensure_io (\<not> interrupts_enabled) ''!arch::interrupts_enabled()'')
    (bind_io (in_service p) (\<lambda>service.
     then_io (ensure_io (service = 0) ''pic::in_service() == 0'')
    (bind_io (irq_dispatch p True interrupts_enabled 0x27 st) (\<lambda>st1.
     then_io (ensure_io (registers_changed = 0) ''IRQ clobbered GPRs/RFLAGS/RSP'')
    (bind_io (irq_dispatch p True interrupts_enabled 0x2f st1) (\<lambda>st2.
     then_io (ensure_io (spurious_master st2 = 1) ''SPURIOUS_MASTER.load() == 1'')
    (then_io (ensure_io (spurious_slave st2 = 1) ''SPURIOUS_SLAVE.load() == 1'')
    (then_io (ensure_io (timer_irqs st2 = 0) ''TIMER_IRQS.load() == 0'')
    (bind_io (in_service p) (\<lambda>service'.
     then_io (ensure_io (service' = 0) ''pic::in_service() == 0'') (return_io st2)))))))))))"

definition stop_keyboard_check :: "'w ports \<Rightarrow> bool \<Rightarrow> ('w, unit) io" where
  "stop_keyboard_check p interrupts_enabled =
     then_io (ensure_io (\<not> interrupts_enabled) ''!arch::interrupts_enabled()'') (mask_all p)"

section \<open>The table after initialisation\<close>

lemma VECTOR_BASE_add: "irq < IRQ_COUNT \<Longrightarrow> uadd VECTOR_BASE irq = 32 + irq"
  by (simp add: uadd_exact VECTOR_BASE_def IRQ_COUNT_def)

lemma install_irq_Inr:
  "32 \<le> v \<Longrightarrow> v < 48 \<Longrightarrow> install_irq v h idt = Inr (idt[v := gate_new h 0x8e 3])"
  by (simp add: install_irq_def)

lemma install_irqs_table:
  assumes "length idt = 256"
  shows "\<exists>idt'. install_irqs irqs idt = Inr idt' \<and> length idt' = 256
    \<and> (\<forall>v<256. idt' ! v = (if 32 \<le> v \<and> v < 48 then gate_new (irqs (v - 32)) 0x8e 3 else idt ! v))"
proof -
  let ?I = "\<lambda>i t. length t = 256 \<and>
    (\<forall>v<256. t ! v = (if 32 \<le> v \<and> v < 32 + i then gate_new (irqs (v - 32)) 0x8e 3 else idt ! v))"
  have "\<exists>idt'. for_res [0..<IRQ_COUNT] (\<lambda>irq. install_irq (uadd VECTOR_BASE irq) (irqs irq)) idt = Inr idt'
      \<and> ?I IRQ_COUNT idt'"
  proof (rule for_range_total)
    fix i t assume i: "i < IRQ_COUNT" and I: "?I i t"
    have "install_irq (uadd VECTOR_BASE i) (irqs i) t = Inr (t[32 + i := gate_new (irqs i) 0x8e 3])"
      using i by (simp add: VECTOR_BASE_add install_irq_Inr IRQ_COUNT_def)
    moreover have "?I (Suc i) (t[32 + i := gate_new (irqs i) 0x8e 3])"
      using I i by (auto simp: nth_list_update IRQ_COUNT_def less_Suc_eq)
    ultimately show "\<exists>t'. install_irq (uadd VECTOR_BASE i) (irqs i) t = Inr t' \<and> ?I (Suc i) t'" by blast
  qed (use assms in auto)
  then show ?thesis by (simp add: install_irqs_def IRQ_COUNT_def)
qed

lemma filter_upt_eq:
  assumes "sorted xs" "distinct xs" and "\<And>v. v \<in> set xs \<longleftrightarrow> v < n \<and> P v"
  shows "filter P [0..<n] = xs"
proof (rule sorted_distinct_set_unique)
  show "sorted (filter P [0..<n])" by (rule sorted_wrt_filter) simp
  show "set (filter P [0..<n]) = set xs" unfolding set_eq_iff assms(3) by simp
qed (use assms(1,2) in simp_all)

lemma user_callable_eq:
  assumes "length idt = 256" "sorted xs" "distinct xs"
    and "\<And>v. v \<in> set xs \<longleftrightarrow> v < 256 \<and> gate_present (idt ! v) \<and> gate_dpl (idt ! v) = 3"
  shows "user_callable idt = xs"
  unfolding user_callable_def assms(1) by (rule filter_upt_eq [OF assms(2-4)])

lemma gate_new_decoded:
  "gate_present (gate_new a attrs stack) = bit attrs 7"
  "gate_dpl (gate_new a attrs stack) = unat (drop_bit 5 attrs AND 3)"
  "gate_type (gate_new a attrs stack) = attrs AND 0x1f"
  "ist (gate_new a attrs stack) = stack AND 7"
  by (simp_all add: gate_present_def gate_dpl_def gate_type_def gate_new_def)

lemma interrupt_table:
  "\<exists>idt. install_irqs irqs (trap_init entries other IDT_INITIAL) = Inr idt \<and> length idt = 256
    \<and> (\<forall>v<256. idt ! v = (if 32 \<le> v \<and> v < 48 then gate_new (irqs (v - 32)) 0x8e 3 else trap_gate entries other v))
    \<and> (\<forall>v. v \<in> set [3, 4, 5] \<longleftrightarrow> v < 256 \<and> gate_present (idt ! v) \<and> gate_dpl (idt ! v) = 3)
    \<and> user_callable idt = [3, 4, 5] \<and> idt ! 0x80 = gate_new other 0x8f 1"
proof -
  obtain idt where idt: "install_irqs irqs (trap_init entries other IDT_INITIAL) = Inr idt"
      "length idt = 256" and at: "\<And>v. v < 256 \<Longrightarrow> idt ! v =
        (if 32 \<le> v \<and> v < 48 then gate_new (irqs (v - 32)) 0x8e 3 else trap_gate entries other v)"
    using install_irqs_table [of "trap_init entries other IDT_INITIAL" irqs]
    by (auto simp: trap_init_nth)
  have open3: "v \<in> set [3, 4, 5] \<longleftrightarrow> v < 256 \<and> gate_present (idt ! v) \<and> gate_dpl (idt ! v) = 3" for v
    by (auto simp: at trap_gate_decoded gate_new_decoded attribute_bits split: if_splits)
  have "user_callable idt = [3, 4, 5]" by (rule user_callable_eq [OF idt(2) _ _ open3]) simp_all
  moreover have "idt ! 0x80 = gate_new other 0x8f 1" using at [of "0x80"] by (simp add: trap_gate_def)
  ultimately show ?thesis using idt at open3 by blast
qed

text \<open>
  C18. The table the kernel runs with: the 16 lines have interrupt gates on their own stack IST3,
  leading to their own entries, and user mode can raise vectors 3 to 5 only. Opening the return
  gate adds exactly vector 0x80, on the stack of the TSS (no IST), and closing it restores the
  table.
\<close>

theorem interrupt_table_ready:
  "\<exists>idt. install_irqs irqs (trap_init entries other IDT_INITIAL) = Inr idt
    \<and> user_callable idt = [3, 4, 5]
    \<and> list_all (\<lambda>irq. gate_address (idt ! (32 + irq)) = irqs irq \<and> gate_present (idt ! (32 + irq))
        \<and> gate_type (idt ! (32 + irq)) = 0xe \<and> ist (idt ! (32 + irq)) = 3) [0..<16]
    \<and> user_callable (set_user_return_gate other (Some h) idt) = [3, 4, 5, 0x80]
    \<and> gate_address (set_user_return_gate other (Some h) idt ! 0x80) = h
    \<and> ist (set_user_return_gate other (Some h) idt ! 0x80) = 0
    \<and> set_user_return_gate other None (set_user_return_gate other (Some h) idt) = idt"
proof -
  obtain idt where idt: "install_irqs irqs (trap_init entries other IDT_INITIAL) = Inr idt" "length idt = 256"
      "user_callable idt = [3, 4, 5]" "idt ! 0x80 = gate_new other 0x8f 1"
    and at: "\<And>v. v < 256 \<Longrightarrow> idt ! v =
        (if 32 \<le> v \<and> v < 48 then gate_new (irqs (v - 32)) 0x8e 3 else trap_gate entries other v)"
    and open3: "\<And>v. v \<in> set [3, 4, 5] \<longleftrightarrow> v < 256 \<and> gate_present (idt ! v) \<and> gate_dpl (idt ! v) = 3"
    using interrupt_table [of irqs entries other] by blast
  let ?u = "set_user_return_gate other (Some h) idt"
  have u: "?u = idt[0x80 := gate_new h 0xee 0]" by (simp add: set_user_return_gate_def)
  have open4: "v \<in> set [3, 4, 5, 0x80] \<longleftrightarrow> v < 256 \<and> gate_present (?u ! v) \<and> gate_dpl (?u ! v) = 3" for v
  proof (cases "v = 0x80")
    case True
    then show ?thesis by (simp add: u idt(2) gate_new_decoded attribute_bits)
  next
    case False
    then show ?thesis using open3 [of v] by (simp add: u)
  qed
  have "set_user_return_gate other None ?u = idt"
    using idt(4) unfolding u by (simp add: set_user_return_gate_def) (metis list_update_id)
  moreover have "list_all (\<lambda>irq. gate_address (idt ! (32 + irq)) = irqs irq
      \<and> gate_present (idt ! (32 + irq)) \<and> gate_type (idt ! (32 + irq)) = 0xe
      \<and> ist (idt ! (32 + irq)) = 3) [0..<16]"
    by (simp add: list_all_iff at gate_address_new gate_new_decoded attribute_bits)
  moreover have "gate_address (?u ! 0x80) = h" "ist (?u ! 0x80) = 0"
    by (simp_all add: u idt(2) gate_address_new gate_new_decoded)
  moreover have "user_callable ?u = [3, 4, 5, 0x80]"
    by (rule user_callable_eq [OF _ _ _ open4]) (simp_all add: u idt(2))
  ultimately show ?thesis using idt(1,3) by blast
qed

section \<open>The dispatcher\<close>

text \<open>
  Every run from a given pair of chips succeeds, with a result and final chips in \<open>Q\<close>: the
  version of \<open>runs_to\<close> for drivers whose result depends on other devices.
\<close>

definition serves :: "('w \<Rightarrow> chip \<times> chip) \<Rightarrow> ('w, 'a) io \<Rightarrow> chip \<times> chip \<Rightarrow> ('a \<Rightarrow> chip \<times> chip \<Rightarrow> bool) \<Rightarrow> bool" where
  "serves chips m c Q \<longleftrightarrow> (\<forall>w. chips w = c \<longrightarrow> (\<exists>x w'. m w = (Inr x, w') \<and> Q x (chips w')))"

lemma serves_run: "serves chips m (chips w) Q \<Longrightarrow> \<exists>x w'. m w = (Inr x, w') \<and> Q x (chips w')"
  by (simp add: serves_def)

lemma serves_return: "Q x c \<Longrightarrow> serves chips (return_io x) c Q"
  by (simp add: serves_def io_simps)

lemma serves_bind:
  assumes "serves chips m c R" and "\<And>x c'. R x c' \<Longrightarrow> serves chips (f x) c' Q"
  shows "serves chips (bind_io m f) c Q"
  unfolding serves_def
proof (intro allI impI)
  fix w assume "chips w = c"
  then obtain x w' where m: "m w = (Inr x, w')" "R x (chips w')"
    using assms(1) unfolding serves_def by blast
  then show "\<exists>x w'. bind_io m f w = (Inr x, w') \<and> Q x (chips w')"
    using serves_run [OF assms(2) [OF m(2)]] by (simp add: bind_io_def)
qed

lemma serves_then:
  "serves chips m c R \<Longrightarrow> (\<And>x c'. R x c' \<Longrightarrow> serves chips k c' Q) \<Longrightarrow> serves chips (then_io m k) c Q"
  unfolding then_io_def by (rule serves_bind)

lemma serves_runs: "runs_to chips m c x c' \<Longrightarrow> Q x c' \<Longrightarrow> serves chips m c Q"
  unfolding runs_to_def serves_def by blast

lemma serves_after:
  "runs_to chips m c x c' \<Longrightarrow> serves chips (f x) c' Q \<Longrightarrow> serves chips (bind_io m f) c Q"
  by (rule serves_bind [where R = "\<lambda>y d. y = x \<and> d = c'"]) (auto intro: serves_runs)

lemma serves_next:
  "runs_to chips m c x c' \<Longrightarrow> serves chips k c' Q \<Longrightarrow> serves chips (then_io m k) c Q"
  unfolding then_io_def by (rule serves_after)

lemma runs_to_lift: "r = Inr x \<Longrightarrow> runs_to chips (lift_io r) c x c"
  by (simp add: runs_to_def lift_io_def)

text \<open>What the device part does to the dispatcher's state, for some answers of the keyboard controller.\<close>

definition irq_served :: "usize \<Rightarrow> irq_state \<Rightarrow> irq_state \<Rightarrow> bool" where
  "irq_served irq st st' \<longleftrightarrow>
     (if irq = 0 then st' = st\<lparr>timer_irqs := timer_irqs st + 1\<rparr>
      else \<exists>q status byte. st' = st\<lparr>key_queue := q\<rparr> \<and> queue_ok q
        \<and> abstract_queue q = spec_interrupt status byte (abstract_queue (key_queue st)))"

definition irq_masks :: "usize \<Rightarrow> irq_state \<Rightarrow> chip \<times> chip \<Rightarrow> chip \<times> chip" where
  "irq_masks irq st c = (if irq = 0 \<and> timer_irqs st = 1
     then ((fst c)\<lparr>mask_register := 0xff\<rparr>, (snd c)\<lparr>mask_register := 0xff\<rparr>) else c)"

lemma handler_result:
  assumes "queue_ok q"
  shows "\<exists>status byte w' q'. on_interrupt p q w = (Inr q', w') \<and> queue_ok q'
    \<and> abstract_queue q' = spec_interrupt status byte (abstract_queue q)
    \<and> (w' = snd (port_in p STATUS_COMMAND w) \<or> w' = snd (port_in p DATA (snd (port_in p STATUS_COMMAND w))))"
proof -
  obtain status w1 byte w2 where r: "port_in p STATUS_COMMAND w = (status, w1)" "port_in p DATA w1 = (byte, w2)"
    by (metis prod.exhaust)
  let ?q = "if valid_status status then push q byte else count_error q"
  have "queue_ok ?q \<and> abstract_queue ?q = spec_interrupt status byte (abstract_queue q)"
    using push_queued [OF assms, of byte] assms
    by (auto simp: abstract_queue_def spec_interrupt_def count_error_def)
  then show ?thesis unfolding on_interrupt_run [OF r] using r by fastforce
qed

lemma serve_irq_serves:
  assumes "pic_ports p chips" "expects (fst c) = 0" "expects (snd c) = 0"
    and "queue_ok (key_queue st)" "irq = 0 \<Longrightarrow> timer_irqs st < 2"
  shows "serves chips (serve_irq p irq st) c (\<lambda>st' c'. irq_served irq st st' \<and> c' = irq_masks irq st c)"
proof (cases "irq = 0")
  case True
  then have t: "uadd (timer_irqs st) 1 = timer_irqs st + 1" "timer_irqs st + 1 \<le> 2"
    using assms(5) by (simp_all add: uadd_exact)
  have "runs_to chips (if timer_irqs st + 1 = 2 then mask_all p else return_io ()) c () (irq_masks irq st c)"
    using runs_to_mask_all [OF assms(1-3)] True runs_to_return [of chips "()" c] by (auto simp: irq_masks_def)
  then have "runs_to chips (then_io (ensure_io (timer_irqs st + 1 \<le> 2) ''count <= 2'')
      (then_io (if timer_irqs st + 1 = 2 then mask_all p else return_io ())
        (return_io (st\<lparr>timer_irqs := timer_irqs st + 1\<rparr>)))) c
      (st\<lparr>timer_irqs := timer_irqs st + 1\<rparr>) (irq_masks irq st c)"
    using t(2) by (intro runs_to_then [OF runs_to_ensure] runs_to_then [OF _ runs_to_return])
  then show ?thesis
    unfolding serve_irq_def if_P [OF True] Let_def t(1)
    by (rule serves_runs) (simp add: irq_served_def True)
next
  case False
  have "serves chips (on_interrupt p (key_queue st)) c (\<lambda>q c'. c' = c \<and> irq_served irq st (st\<lparr>key_queue := q\<rparr>))"
    unfolding serves_def
  proof (intro allI impI)
    fix w assume w: "chips w = c"
    obtain status byte w' q' where "on_interrupt p (key_queue st) w = (Inr q', w')" "queue_ok q'"
        "abstract_queue q' = spec_interrupt status byte (abstract_queue (key_queue st))"
        "chips w' = chips w"
      using handler_result [OF assms(4), of p w] pic_laws(6) [OF assms(1)] by metis
    then show "\<exists>q w'. on_interrupt p (key_queue st) w = (Inr q, w') \<and>
        chips w' = c \<and> irq_served irq st (st\<lparr>key_queue := q\<rparr>)"
      using False w unfolding irq_served_def by auto
  qed
  then show ?thesis
    unfolding serve_irq_def if_not_P [OF False]
    by (rule serves_bind) (auto simp: irq_masks_def False intro: serves_return)
qed

text \<open>The chips after a served request.\<close>

definition after_irq :: "usize \<Rightarrow> irq_state \<Rightarrow> chip \<times> chip \<Rightarrow> chip \<times> chip" where
  "after_irq irq st c = select_service (ended irq (irq_masks irq st (select_service c)))"

lemma irq_masks_lines [simp]: "line_in_service (irq_masks irq st c) j = line_in_service c j"
  by (simp add: irq_masks_def line_in_service_def)

lemma expects_select [simp]:
  "expects (fst (select_service c)) = expects (fst c)" "expects (snd (select_service c)) = expects (snd c)"
  by (simp_all add: select_service_def)

lemma after_irq_lines:
  "irq < 8 \<Longrightarrow> j < 16 \<Longrightarrow> line_in_service (after_irq irq st c) j \<longleftrightarrow> line_in_service c j \<and> j \<noteq> irq"
  by (simp add: after_irq_def ended_lines)

lemma dispatch_serves:
  assumes "pic_ports p chips" "expects (fst c) = 0" "expects (snd c) = 0"
    and "queue_ok (key_queue st)" "irq = 0 \<Longrightarrow> timer_irqs st < 2"
    and v: "irq_number v = Some irq" and "irq \<le> 1" "line_in_service c irq"
  shows "serves chips (irq_dispatch p irq_check False v st) c
    (\<lambda>st' c'. irq_served irq st st' \<and> c' = after_irq irq st c)"
proof -
  have i: "irq < 16" "\<not> (irq = 7 \<or> irq = 15)" using assms(7) by auto
  note inserv = runs_to_in_service [OF assms(1)]
  have spurious: "runs_to chips (is_spurious p irq) c False c"
    using runs_to_is_spurious [OF assms(1) i(1), of c] i(2)
    by (simp add: spurious_line_def after_spurious_def)
  let ?d = "ended irq (irq_masks irq st (select_service c))"
  let ?tail = "\<lambda>st'. then_io (end_of_interrupt p irq) (bind_io (in_service p) (\<lambda>service'.
      then_io (ensure_io (service' AND push_bit irq 1 = 0) ''EOI must clear ISR'') (return_io st')))"
  have "service_word ?d AND push_bit irq 1 = 0"
    using service_word_bit [OF i(1), of ?d] ended_lines [OF i(1) i(1)] by blast
  then have tail: "runs_to chips (?tail st') (irq_masks irq st (select_service c)) st' (after_irq irq st c)" for st'
    unfolding after_irq_def
    by (intro runs_to_then [OF runs_to_eoi [OF assms(1) i(1)]] runs_to_bind [OF inserv]
        runs_to_then [OF runs_to_ensure] runs_to_return)
  have "service_word c AND push_bit irq 1 \<noteq> 0" using service_word_bit [OF i(1)] assms(8) by blast
  moreover have "serves chips (bind_io (serve_irq p irq st) ?tail) (select_service c)
      (\<lambda>st' c'. irq_served irq st st' \<and> c' = after_irq irq st c)"
  proof (rule serves_bind [OF serve_irq_serves [OF assms(1) _ _ assms(4,5)]])
    fix st' c' assume r: "irq_served irq st st' \<and> c' = irq_masks irq st (select_service c)"
    show "serves chips (?tail st') c' (\<lambda>st' c'. irq_served irq st st' \<and> c' = after_irq irq st c)"
      unfolding conjunct2 [OF r] by (rule serves_runs [OF tail]) (use r in simp)
  qed (use assms(2,3) in simp_all)
  ultimately have served: "serves chips (bind_io (in_service p) (\<lambda>service.
      then_io (ensure_io (service AND push_bit irq 1 \<noteq> 0) ''IRQ must come from PIC'')
        (bind_io (serve_irq p irq st) ?tail))) c (\<lambda>st' c'. irq_served irq st st' \<and> c' = after_irq irq st c)"
    by (intro serves_after [OF inserv] serves_next [OF runs_to_ensure])
  note driver = serves_next [OF runs_to_ensure [OF assms(7), of chips "''device IRQ has no driver yet''"] served]
  show ?thesis
    unfolding irq_dispatch_def v expect_simps
    by (intro serves_next [OF runs_to_ensure] serves_after [OF runs_to_lift [OF refl]]
        serves_after [OF spurious]) (simp_all only: if_False not_False_eq_True driver)
qed

lemma lift_io_Inr: "lift_io r w = (Inr x, w') \<longleftrightarrow> r = Inr x \<and> w' = w"
  by (auto simp: lift_io_def)

lemma irq_number_Some: "irq_number v = Some irq \<longleftrightarrow> irq < 16 \<and> unat v = 0x20 + irq"
  by (auto simp: irq_number_def VECTOR_BASE_def IRQ_COUNT_def)

text \<open>
  The answers the handler gets: after the dispatcher has asked the chips for the lines in service, the status and then the data
  port of the keyboard controller.
\<close>

definition keyboard_answer :: "'w ports \<Rightarrow> 'w \<Rightarrow> u8 \<times> u8" where
  "keyboard_answer p w = (let w1 = snd (in_service p w); (status, w2) = port_in p STATUS_COMMAND w1
     in (status, fst (port_in p DATA w2)))"

lemma key_served:
  assumes "irq_dispatch p irq_check False v st w = (Inr st', w')" "irq_number v = Some 1" "keyboard_answer p w = (status, byte)"
  shows "st' = st\<lparr>key_queue := (if valid_status status then push (key_queue st) byte else count_error (key_queue st))\<rparr>"
proof -
  obtain service w1 w2 where run: "in_service p w = (Inr service, w1)" "serve_irq p 1 st w1 = (Inr st', w2)"
    using assms(1) unfolding irq_dispatch_def then_io_Inr bind_io_Inr ensure_io_Inr lift_io_Inr assms(2) expect_simps
    by (auto simp: is_spurious_def then_io_Inr ensure_io_Inr return_io_run bind_io_Inr)
  obtain w3 w4 where "port_in p STATUS_COMMAND w1 = (status, w3)" "port_in p DATA w3 = (byte, w4)"
    using assms(3) run(1) by (auto simp: keyboard_answer_def Let_def prod_eq_iff split: prod.splits)
  from on_interrupt_run [OF this] show ?thesis using run(2) by (auto simp: serve_irq_def bind_io_Inr return_io_run)
qed

text \<open>A request handled: the timer counted, or the controller's answer taken as the abstract queue of \<open>Keyboard\<close> says.\<close>

definition irq_handled :: "'w ports \<Rightarrow> 'w \<Rightarrow> usize \<Rightarrow> irq_state \<Rightarrow> irq_state \<Rightarrow> bool" where
  "irq_handled p w irq st st' \<longleftrightarrow>
     (if irq = 0 then st' = st\<lparr>timer_irqs := timer_irqs st + 1\<rparr>
      else (case keyboard_answer p w of (status, byte) \<Rightarrow>
        st' = st\<lparr>key_queue := key_queue st'\<rparr> \<and> queue_ok (key_queue st')
        \<and> abstract_queue (key_queue st') = spec_interrupt status byte (abstract_queue (key_queue st))))"

text \<open>
  C19. A timer or keyboard request that the chips have in service is handled completely: the
  dispatcher counts the timer, or reads status and data byte from the keyboard controller and queues exactly that byte if the
  status is valid and there is room, and counts the loss otherwise; it masks
  every line of both chips at the second timer request, and ends exactly the line served; all other lines, the masks
  otherwise, and the rest of the state are untouched.
\<close>

theorem irq_dispatch_serves:
  assumes "pic_ports p chips" "expects (fst (chips w)) = 0" "expects (snd (chips w)) = 0"
    and "queue_ok (key_queue st)" "irq \<le> 1" "line_in_service (chips w) irq"
    and "irq = 0 \<longrightarrow> timer_irqs st < 2"
  shows "\<exists>st' w'. irq_dispatch p irq_check False (of_nat (0x20 + irq)) st w = (Inr st', w')
    \<and> irq_handled p w irq st st'
    \<and> (mask_register (fst (chips w')) = (if irq = 0 \<and> timer_irqs st = 1 then 0xff
        else mask_register (fst (chips w))))
    \<and> (mask_register (snd (chips w')) = (if irq = 0 \<and> timer_irqs st = 1 then 0xff
        else mask_register (snd (chips w))))
    \<and> list_all (\<lambda>j. line_in_service (chips w') j \<longleftrightarrow> line_in_service (chips w) j \<and> j \<noteq> irq) [0..<16]"
proof -
  have "unat (of_nat (0x20 + irq) :: u64) = 0x20 + irq"
    unfolding unsigned_of_nat take_bit_eq_mod using assms(5) by simp
  then have v: "irq_number (of_nat (0x20 + irq)) = Some irq"
    unfolding irq_number_def using assms(5) by (simp add: VECTOR_BASE_def IRQ_COUNT_def)
  obtain st' w' where r: "irq_dispatch p irq_check False (of_nat (0x20 + irq)) st w = (Inr st', w')"
      "irq_served irq st st'" "chips w' = after_irq irq st (chips w)"
    using serves_run [OF dispatch_serves [OF assms(1-4) _ v assms(5,6)]] assms(7) by blast
  have "irq_handled p w irq st st'"
  proof (cases "irq = 0")
    case False
    then have "irq_number (of_nat (0x20 + irq)) = Some 1" using assms(5) v by (simp add: le_Suc_eq)
    then show ?thesis
      using key_served [OF r(1), of "fst (keyboard_answer p w)" "snd (keyboard_answer p w)"] False push_queued [OF assms(4)] assms(4)
      by (auto simp: irq_handled_def abstract_queue_def spec_interrupt_def count_error_def split: prod.split)
  qed (use r(2) in \<open>simp add: irq_handled_def irq_served_def\<close>)
  moreover have "mask_register (fst (chips w')) = (if irq = 0 \<and> timer_irqs st = 1 then 0xff
      else mask_register (fst (chips w)))"
    and "mask_register (snd (chips w')) = (if irq = 0 \<and> timer_irqs st = 1 then 0xff
      else mask_register (snd (chips w)))"
    using assms(5) unfolding r(3)
    by (simp_all add: after_irq_def select_service_def ended_def end_line_def irq_masks_def)
  moreover have "list_all (\<lambda>j. line_in_service (chips w') j \<longleftrightarrow> line_in_service (chips w) j \<and> j \<noteq> irq) [0..<16]"
    using assms(5) unfolding r(3) by (simp add: list_all_iff after_irq_lines)
  ultimately show ?thesis using r(1) by blast
qed

text \<open>The chips with line 0 or line 1 in service, beside a keyboard controller that shows one byte.\<close>

definition requested :: "nat \<Rightarrow> chip" where
  "requested irq = idle_chip\<lparr>in_service_register := push_bit irq 1\<rparr>"

definition typing_ports :: "(chip \<times> chip) ports" where
  "typing_ports = chip_pair_ports\<lparr>port_in := (\<lambda>a c. if a = STATUS_COMMAND then (1, c) else if a = DATA then (0x1e, c)
     else port_in chip_pair_ports a c)\<rparr>"

lemma typing_documented: "pic_ports typing_ports (\<lambda>w. w)"
  by (auto simp: pic_ports_def typing_ports_def chip_pair_ports_def pic_ports_defs STATUS_COMMAND_def DATA_def split: prod.splits)

theorem irq_dispatch_serves_witness:
  "(\<exists>st' w'. irq_dispatch typing_ports False False 0x20 irq_state_initial (requested 0, idle_chip) = (Inr st', w')
      \<and> timer_irqs st' = 1 \<and> \<not> line_in_service w' 0)
   \<and> (\<exists>st' w'. irq_dispatch typing_ports False False 0x21 irq_state_initial (requested 1, idle_chip) = (Inr st', w')
      \<and> abstract_queue (key_queue st') = ([0x1e], 0, 0) \<and> \<not> line_in_service w' 1)"
proof -
  have l: "line_in_service (requested irq, idle_chip) irq" "expects (requested irq) = 0" "expects idle_chip = 0" if "irq \<le> 1" for irq
    using that by (auto simp: line_in_service_def requested_def idle_chip_def bit_simps le_Suc_eq)
  have answer: "keyboard_answer typing_ports (requested 1, idle_chip) = (1, 0x1e)"
    by (simp add: keyboard_answer_def typing_ports_def Let_def STATUS_COMMAND_def DATA_def)
  have byte: "spec_interrupt 1 0x1e (abstract_queue new_queue) = ([0x1e], 0, 0)"
    by (simp add: abstract_queue_def spec_interrupt_def valid_status_def kbd_defs QUEUE_CAPACITY_def)
  show ?thesis
    using irq_dispatch_serves [OF typing_documented, of "(requested 0, idle_chip)" irq_state_initial 0 False]
      irq_dispatch_serves [OF typing_documented, of "(requested 1, idle_chip)" irq_state_initial 1 False] l [of 0] l [of 1] answer byte
    by (auto simp: irq_state_initial_def irq_handled_def list_all_iff simp del: One_nat_def)
qed

lemma runs_to_unique:
  "runs_to chips m c x c' \<Longrightarrow> chips w = c \<Longrightarrow> m w = (Inr y, w') \<Longrightarrow> y = x \<and> chips w' = c'"
  unfolding runs_to_def by fastforce

text \<open>
  C20. The dispatcher acts only on what the chips delivered: if it returns, interrupts were off,
  the vector belonged to one of the 16 lines, and the request was either spurious (then the state
  only changes in the counters of the checking build) or the timer or keyboard line, in service.
  In every other case it panics.
\<close>

theorem irq_dispatch_genuine:
  assumes "pic_ports p chips" "irq_dispatch p irq_check interrupts_enabled v st w = (Inr st', w')"
  shows "\<not> interrupts_enabled \<and> (\<exists>irq<16. unat v = 0x20 + irq
    \<and> (if spurious_line (chips w) irq
       then st' = count_spurious irq_check irq st \<and> chips w' = after_spurious irq (chips w)
       else irq \<le> 1 \<and> line_in_service (chips w) irq))"
proof -
  from assms(2) obtain irq s w1 where d: "\<not> interrupts_enabled" "irq_number v = Some irq"
      "is_spurious p irq w = (Inr s, w1)"
    and rest: "(if s then return_io (count_spurious irq_check irq st)
      else then_io (ensure_io (irq \<le> 1) ''device IRQ has no driver yet'')
         (bind_io (in_service p) (\<lambda>service.
          then_io (ensure_io (service AND push_bit irq 1 \<noteq> 0) ''IRQ must come from PIC'')
         (bind_io (serve_irq p irq st) (\<lambda>st'.
          then_io (end_of_interrupt p irq)
         (bind_io (in_service p) (\<lambda>service'.
          then_io (ensure_io (service' AND push_bit irq 1 = 0) ''EOI must clear ISR'')
            (return_io st')))))))) w1 = (Inr st', w')"
    unfolding irq_dispatch_def then_io_Inr bind_io_Inr ensure_io_Inr lift_io_Inr expect_simps by blast
  have i: "irq < 16" "unat v = 0x20 + irq" using d(2) by (simp_all only: irq_number_Some)
  have s: "s = spurious_line (chips w) irq" "chips w1 = after_spurious irq (chips w)"
    using runs_to_unique [OF runs_to_is_spurious [OF assms(1) i(1)] refl d(3)] by simp_all
  show ?thesis
  proof (cases s)
    case True
    with rest have "st' = count_spurious irq_check irq st" "w' = w1" by (simp_all add: io_simps)
    then show ?thesis using d(1) i s True by auto
  next
    case False
    from rest obtain service w2 where r: "irq \<le> 1" "in_service p w1 = (Inr service, w2)"
        "service AND push_bit irq 1 \<noteq> 0"
      unfolding if_not_P [OF False] then_io_Inr bind_io_Inr ensure_io_Inr by blast
    have "service = service_word (chips w1)"
      using runs_to_unique [OF runs_to_in_service [OF assms(1)] refl r(2)] by simp
    then have "line_in_service (chips w1) irq" using r(3) service_word_bit [OF i(1)] by simp
    then have "line_in_service (chips w) irq"
      unfolding s(2) using after_spurious_lines [OF i(1) i(1)] by blast
    then show ?thesis using d(1) i s False r(1) by auto
  qed
qed

theorem irq_dispatch_genuine_witness:
  "\<exists>st' w'. irq_dispatch chip_pair_ports True False 0x27 irq_state_initial (idle_chip, idle_chip) = (Inr st', w')
    \<and> spurious_master st' = 1"
proof -
  let ?c = "(idle_chip, idle_chip)"
  have n: "irq_number 0x27 = Some 7" by (simp add: irq_number_Some)
  have sp: "spurious_line ?c 7" by (simp add: spurious_line_def line_in_service_def idle_chip_def)
  obtain w' where "is_spurious chip_pair_ports 7 ?c = (Inr True, w')"
    using runs_to_is_spurious [OF chip_pair_documented, of 7 ?c] sp by (auto simp: runs_to_def)
  then have r: "irq_dispatch chip_pair_ports True False 0x27 irq_state_initial ?c =
      (Inr (count_spurious True 7 irq_state_initial), w')"
    unfolding irq_dispatch_def n by (simp add: io_simps lift_io_def)
  obtain irq where "unat (0x27 :: u64) = 0x20 + irq"
      "if spurious_line ?c irq then w' = after_spurious irq ?c else irq \<le> 1"
    using irq_dispatch_genuine [OF chip_pair_documented r] by (metis (full_types))
  then have "w' = after_spurious 7 ?c" using sp by simp
  then show ?thesis using r by (simp add: count_spurious_def irq_state_initial_def uadd_exact)
qed

section \<open>The context check\<close>

lemma spurious_dispatch:
  assumes "pic_ports p chips" "irq_number v = Some irq" "spurious_line c irq"
  shows "runs_to chips (irq_dispatch p irq_check False v st) c (count_spurious irq_check irq st) (after_spurious irq c)"
proof -
  have i: "irq < 16" using assms(2) by (simp add: irq_number_Some)
  have sp: "runs_to chips (is_spurious p irq) c True (after_spurious irq c)"
    using runs_to_is_spurious [OF assms(1) i, of c] assms(3) by simp
  show ?thesis
    unfolding irq_dispatch_def assms(2) expect_simps
    by (intro runs_to_then [OF runs_to_ensure] runs_to_bind [OF runs_to_lift [OF refl]] runs_to_bind [OF sp])
      (simp_all add: runs_to_return)
qed

section \<open>The timer demonstration\<close>

text \<open>A delivery of the timer: the chip takes line 0 into service and raises vector 0x20.\<close>

definition take_timer :: "chip \<times> chip \<Rightarrow> chip \<times> chip" where
  "take_timer c = ((fst c)\<lparr>in_service_register := in_service_register (fst c) OR 1\<rparr>, snd c)"

definition timer_delivery :: "('w \<Rightarrow> chip \<times> chip) \<Rightarrow> 'w delivery \<Rightarrow> bool" where
  "timer_delivery chips d \<longleftrightarrow> snd d = 0x20 \<and> (\<forall>w. chips (fst d w) = take_timer (chips w))"

definition quiet :: "chip \<times> chip \<Rightarrow> bool" where
  "quiet c \<longleftrightarrow> expects (fst c) = 0 \<and> expects (snd c) = 0 \<and> in_service_register (fst c) = 0
     \<and> in_service_register (snd c) = 0"

lemma after_timer_quiet: "quiet c \<Longrightarrow> quiet (after_irq 0 st (take_timer c))"
  by (simp add: quiet_def after_irq_def select_service_def ended_def end_line_def irq_masks_def
      take_timer_def)

lemma quiet_service_word: "quiet c \<Longrightarrow> service_word c = 0"
  by (simp add: quiet_def service_word_def)

lemma quiet_select: "quiet c \<Longrightarrow> quiet (select_service c)"
  by (simp add: quiet_def select_service_def)

lemma quiet_spurious:
  assumes "quiet c" "irq = 7 \<or> irq = 15"
  shows "spurious_line c irq" "quiet (after_spurious irq c)"
  using assms by (auto simp: quiet_def spurious_line_def line_in_service_def after_spurious_def select_service_def
      end_line_def Let_def split: if_splits)

lemma verify_context_runs:
  assumes "pic_ports p chips" "quiet (chips w)" "timer_irqs st = 0" "spurious_master st = 0" "spurious_slave st = 0"
  shows "\<exists>w'. verify_context p False 0 st w = (Inr (st\<lparr>spurious_master := 1, spurious_slave := 1\<rparr>), w') \<and> quiet (chips w')"
proof -
  let ?c1 = "after_spurious 7 (select_service (chips w))" and ?st = "st\<lparr>spurious_master := 1, spurious_slave := 1\<rparr>"
  let ?c2 = "after_spurious 15 ?c1"
  have q: "quiet (select_service (chips w))" "quiet ?c1" "quiet ?c2" "quiet (select_service ?c2)"
    using assms(2) by (simp_all add: quiet_spurious quiet_select)
  have irq: "irq_number 0x27 = Some 7" "irq_number 0x2f = Some 15" by (simp_all add: irq_number_Some)
  have st: "count_spurious True 15 (count_spurious True 7 st) = ?st"
    using assms(4,5) by (simp add: count_spurious_def uadd_exact)
  have first: "runs_to chips (irq_dispatch p True False 0x27 st) (select_service (chips w)) (count_spurious True 7 st) ?c1"
    by (rule spurious_dispatch [OF assms(1) irq(1)]) (simp add: quiet_spurious q(1))
  have second: "runs_to chips (irq_dispatch p True False 0x2f (count_spurious True 7 st)) ?c1 ?st ?c2"
    unfolding st [symmetric] by (rule spurious_dispatch [OF assms(1) irq(2)]) (simp add: quiet_spurious q(2))
  have "runs_to chips (verify_context p False 0 st) (chips w) ?st (select_service ?c2)"
    unfolding verify_context_def
    by (intro runs_to_then [OF runs_to_ensure] runs_to_bind [OF runs_to_in_service [OF assms(1)]] runs_to_bind [OF first]
        runs_to_bind [OF second] runs_to_return)
      (use assms(2,3) q(3) in \<open>simp_all add: quiet_service_word\<close>)
  then show ?thesis using q(4) by (fastforce simp: runs_to_def)
qed

lemma serves_weaken: "serves chips m c Q \<Longrightarrow> (\<And>x c'. Q x c' \<Longrightarrow> R x c') \<Longrightarrow> serves chips m c R"
  unfolding serves_def by blast

lemma wait_step:
  assumes "pic_ports p chips" "quiet c" "queue_ok (key_queue st)" "timer_irqs st < 2"
    and "timer_delivery chips d"
    and "\<And>c'. quiet c' \<Longrightarrow>
      serves chips (wait_for_timer p irq_check ds (st\<lparr>timer_irqs := timer_irqs st + 1\<rparr>)) c' Q"
  shows "serves chips (wait_for_timer p irq_check (d # ds) st) c Q"
proof -
  obtain request v where d: "d = (request, v)" by (cases d)
  have v: "irq_number v = Some 0" using assms(5) by (simp add: timer_delivery_def d irq_number_Some)
  have l: "expects (fst (take_timer c)) = 0" "expects (snd (take_timer c)) = 0"
      "line_in_service (take_timer c) 0"
    using assms(2) by (simp_all add: quiet_def take_timer_def line_in_service_def bit_simps)
  have "serves chips (bind_io (irq_dispatch p irq_check False v st)
      (\<lambda>st'. wait_for_timer p irq_check ds st')) (take_timer c) Q"
  proof (rule serves_bind [OF dispatch_serves [OF assms(1) l(1,2) assms(3) _ v _ l(3)]])
    fix st' c' assume "irq_served 0 st st' \<and> c' = after_irq 0 st (take_timer c)"
    then show "serves chips (wait_for_timer p irq_check ds st') c' Q"
      using assms(6) after_timer_quiet [OF assms(2)] by (simp add: irq_served_def)
  qed (use assms(4) in simp_all)
  then show ?thesis
    using assms(4,5) unfolding serves_def d timer_delivery_def by simp
qed

text \<open>The initialisation on chips with no line in service.\<close>

lemma interrupt_init_runs:
  assumes "pic_ports p chips" "quiet (chips w)"
  shows "\<exists>idt w'. interrupt_init p False irqs (trap_init entries other IDT_INITIAL) w = (Inr idt, w')
    \<and> quiet (chips w') \<and> length idt = 256 \<and> user_callable idt = [3, 4, 5] \<and> idt ! 0x80 = gate_new other 0x8f 1"
proof -
  obtain idt where idt: "install_irqs irqs (trap_init entries other IDT_INITIAL) = Inr idt" "length idt = 256"
      "user_callable idt = [3, 4, 5]" "idt ! 0x80 = gate_new other 0x8f 1"
    using interrupt_table [of irqs entries other] by blast
  obtain w1 where w1: "pic_init p w = (Inr (), w1)" "quiet (chips w1)"
    using pic_init_runs [OF assms(1), of w] assms(2) by (auto simp: quiet_def Let_def)
  obtain w2 where w2: "in_service p w1 = (Inr 0, w2)" "chips w2 = select_service (chips w1)"
    using runs_to_in_service [OF assms(1), of "chips w1"] quiet_service_word [OF w1(2)] by (auto simp: runs_to_def)
  have "quiet (chips w2)" using w1(2) by (simp add: w2(2) quiet_def select_service_def)
  then show ?thesis
    using idt by (auto simp: interrupt_init_def io_simps w1(1) w2(1) lift_io_def return_io_def)
qed

lemma timer_demo_returns:
  assumes "pic_ports p chips" "quiet (chips w)" "timer_irqs st = 0" "queue_ok (key_queue st)"
    and "timer_delivery chips d1" "timer_delivery chips d2"
  shows "\<exists>w'. demonstrate_timer p irq_check False (d1 # d2 # ds) st w =
      (Inr (Some (st\<lparr>timer_irqs := 2\<rparr>)), w')
    \<and> mask_register (fst (chips w')) = 0xff \<and> mask_register (snd (chips w')) = 0xff
    \<and> in_service_register (fst (chips w')) = 0 \<and> in_service_register (snd (chips w')) = 0
    \<and> quiet (chips w')"
proof -
  let ?fin = "st\<lparr>timer_irqs := 2\<rparr>"
  let ?Q = "\<lambda>r c'. r = Some ?fin \<and> quiet c' \<and> mask_register (fst c') = 0xff \<and> mask_register (snd c') = 0xff"
  note ports = runs_to_ports [OF assms(1)]
  have stop: "serves chips (wait_for_timer p irq_check ds ?fin) c (\<lambda>r c'. r = Some ?fin \<and> quiet c')"
    if "quiet c" for c using that by (cases ds) (auto intro!: serves_return)
  have wait: "serves chips (wait_for_timer p irq_check (d1 # d2 # ds) st) c (\<lambda>r c'. r = Some ?fin \<and> quiet c')"
    if "quiet c" for c
    by (rule wait_step [OF assms(1) that assms(4) _ assms(5)], simp add: assms(3),
        rule wait_step [OF assms(1) _ _ _ assms(6)]) (use assms(3,4) stop in \<open>simp_all add: numeral_2_eq_2\<close>)
  have finish: "serves chips (then_io (mask_all p) (bind_io (in_service p) (\<lambda>service.
      then_io (ensure_io (service = 0) ''pic::in_service() == 0'') (return_io (Some ?fin))))) c ?Q"
    if "quiet c" for c
  proof -
    let ?m = "((fst c)\<lparr>mask_register := 0xff\<rparr>, (snd c)\<lparr>mask_register := 0xff\<rparr>)"
    have q: "quiet ?m" using that by (simp add: quiet_def)
    have "runs_to chips (mask_all p) c () ?m"
      using runs_to_mask_all [OF assms(1), of "fst c" "snd c"] that by (simp add: quiet_def)
    moreover have "?Q (Some ?fin) (select_service ?m)"
      using q by (simp add: quiet_def select_service_def)
    ultimately show ?thesis
      by (intro serves_next serves_after [OF runs_to_in_service [OF assms(1)]]
          serves_next [OF runs_to_ensure] serves_return) (simp_all add: quiet_service_word [OF q])
  qed
  have pit: "runs_to chips (out8 p a v) c () c" if "a \<in> {0x40, 0x43}" for a v c
    by (rule ports(5)) (use that in \<open>auto simp: pic_ports_defs\<close>)
  have timer_mask: "runs_to chips (out8 p MASTER_DATA 0xfe) (chips w) ()
      ((fst (chips w))\<lparr>mask_register := 0xfe\<rparr>, snd (chips w))"
    using ports(3) [of _ "0xfe" "fst (chips w)" "snd (chips w)"] assms(2)
    by (simp add: chip_data_def quiet_def)
  have programmed: "runs_to chips (sequence_io [out8 p 0x43 0x34, out8 p 0x40 (ucast (11932 :: u16)),
        out8 p 0x40 (ucast (drop_bit 8 (11932 :: u16))), unmask_timer p]) (chips w) ()
      ((fst (chips w))\<lparr>mask_register := 0xfe\<rparr>, snd (chips w))"
    unfolding unmask_timer_def
    by (intro runs_to_sequence(2) [OF pit runs_to_sequence(2) [OF pit runs_to_sequence(2) [OF pit
          runs_to_sequence(2) [OF timer_mask runs_to_sequence(1)]]]]) simp_all
  have "serves chips (demonstrate_timer p irq_check False (d1 # d2 # ds) st) (chips w) ?Q"
    unfolding demonstrate_timer_def
  proof (intro serves_next [OF runs_to_ensure] serves_next [OF programmed])
    have "quiet ((fst (chips w))\<lparr>mask_register := 0xfe\<rparr>, snd (chips w))"
      using assms(2) by (simp add: quiet_def)
    from wait [OF this]
    show "serves chips (bind_io (wait_for_timer p irq_check (d1 # d2 # ds) st) (\<lambda>done.
       case done of None \<Rightarrow> return_io None
       | Some st' \<Rightarrow> then_io (mask_all p) (bind_io (in_service p) (\<lambda>service.
           then_io (ensure_io (service = 0) ''pic::in_service() == 0'') (return_io (Some st'))))))
      ((fst (chips w))\<lparr>mask_register := 0xfe\<rparr>, snd (chips w)) ?Q"
      by (rule serves_bind) (use finish in auto)
  qed (use assms(3) in simp_all)
  from serves_run [OF this] show ?thesis by (auto simp: quiet_def)
qed

text \<open>
  The timer demonstration ends: started on idle chips, it returns after the first two timer
  deliveries, whatever is delivered later, with exactly two requests counted, the keyboard queue
  untouched, every line masked and no line left in service.
\<close>

theorem demonstrate_timer_returns:
  assumes "pic_ports p chips" "quiet (chips w)" "timer_irqs st = 0" "queue_ok (key_queue st)"
    and "timer_delivery chips d1" "timer_delivery chips d2"
  shows "\<exists>w'. demonstrate_timer p irq_check False (d1 # d2 # ds) st w =
      (Inr (Some (st\<lparr>timer_irqs := 2\<rparr>)), w')
    \<and> mask_register (fst (chips w')) = 0xff \<and> mask_register (snd (chips w')) = 0xff
    \<and> in_service_register (fst (chips w')) = 0 \<and> in_service_register (snd (chips w')) = 0"
  using timer_demo_returns [OF assms, of irq_check ds] by blast

theorem demonstrate_timer_returns_witness:
  "\<exists>w'. demonstrate_timer chip_pair_ports False False [(take_timer, 0x20), (take_timer, 0x20)]
      irq_state_initial (idle_chip, idle_chip) = (Inr (Some (irq_state_initial\<lparr>timer_irqs := 2\<rparr>)), w')
    \<and> mask_register (fst w') = 0xff \<and> in_service_register (fst w') = 0"
proof -
  have d: "timer_delivery (\<lambda>w. w) (take_timer, 0x20)" by (simp add: timer_delivery_def)
  have "quiet (idle_chip, idle_chip)" by (simp add: quiet_def idle_chip_def)
  then show ?thesis
    using demonstrate_timer_returns [OF chip_pair_documented _ _ _ d d,
        of "(idle_chip, idle_chip)" irq_state_initial False "[]"]
    by (auto simp: irq_state_initial_def)
qed

end
