(* ===== verification/Paging.thy ===== *)
theory Paging
  imports Kernel_Prelude
begin

text \<open>
  Page tables as the processor reads them. The memory holds 64-bit words by address; the tables
  are reached through the kernel's direct mapping, which shifts physical addresses by a constant
  (\<open>offset\<close>). The walk is the four-level translation of an access from user mode: every level must
  be present and open to user mode, the rights are the intersection over the levels, and a
  non-canonical address never translates. \<open>Translation_Cache\<close> adds the cache of translations.
\<close>

type_synonym table_memory = "nat \<Rightarrow> u64"

definition ADDRESS_MASK :: u64 where "ADDRESS_MASK = 0x000ffffffffff000"

definition table_entry :: "nat \<Rightarrow> table_memory \<Rightarrow> u64 \<Rightarrow> nat \<Rightarrow> u64" where
  "table_entry offset mem base i = mem (offset + unat base + 8 * i)"

definition table_index :: "nat \<Rightarrow> u64 \<Rightarrow> nat" where
  "table_index s va = unat (drop_bit s va AND 511)"

definition canonical :: "u64 \<Rightarrow> bool" where
  "canonical va \<longleftrightarrow> va \<le> 0x00007fffffffffff \<or> 0xffff800000000000 \<le> va"

fun walk :: "nat \<Rightarrow> table_memory \<Rightarrow> nat list \<Rightarrow> u64 \<Rightarrow> u64 \<Rightarrow> bool \<times> bool \<Rightarrow> (u64 \<times> bool \<times> bool) option" where
  "walk offset mem [] base va rights = None"
| "walk offset mem (s # ss) base va (writable, executable) =
     (let e = table_entry offset mem base (table_index s va);
          writable' = (writable \<and> bit e 1); executable' = (executable \<and> \<not> bit e 63)
      in if \<not> (bit e 0 \<and> bit e 2) then None
         else if ss = [] \<or> bit e 7 \<and> s \<noteq> 39
           then Some ((e AND ADDRESS_MASK AND NOT (mask s)) OR (va AND mask s), writable', executable')
         else walk offset mem ss (e AND ADDRESS_MASK) va (writable', executable'))"

text \<open>Physical address, writable, executable.\<close>

definition user_access :: "nat \<Rightarrow> table_memory \<Rightarrow> u64 \<Rightarrow> u64 \<Rightarrow> (u64 \<times> bool \<times> bool) option" where
  "user_access offset mem cr3 va =
     (if canonical va then walk offset mem [39, 30, 21, 12] (cr3 AND ADDRESS_MASK) va (True, True) else None)"

section \<open>Entries\<close>

lemma bit_ADDRESS_MASK: "bit ADDRESS_MASK k \<longleftrightarrow> 12 \<le> k \<and> k < 52"
proof -
  have eq: "ADDRESS_MASK = push_bit 12 (mask 40)"
    by (simp add: ADDRESS_MASK_def mask_eq_exp_minus_1 push_bit_eq_mult)
  show ?thesis unfolding eq by (auto simp: bit_simps)
qed

text \<open>A physical page address: whole 4 KiB pages below the 52-bit limit.\<close>

definition page_aligned :: "nat \<Rightarrow> bool" where
  "page_aligned n \<longleftrightarrow> n mod 4096 = 0 \<and> n < 2 ^ 52"

lemma page_aligned_bits: "page_aligned n \<Longrightarrow> bit (of_nat n :: u64) k \<Longrightarrow> 12 \<le> k \<and> k < 52"
proof -
  assume n: "page_aligned n" and b: "bit (of_nat n :: u64) k"
  then have k: "bit n k" by (simp add: bit_of_nat_iff)
  have "take_bit 12 n = 0" "take_bit 52 n = n"
    using n by (simp_all add: page_aligned_def take_bit_eq_mod)
  then show ?thesis using k by (metis bit_0_eq bit_take_bit_iff bot_apply bot_bool_def not_less)
qed

lemma entry_address:
  assumes "page_aligned n" "\<And>k. bit f k \<Longrightarrow> k < 12 \<or> 52 \<le> k"
  shows "(of_nat n OR f) AND ADDRESS_MASK = (of_nat n :: u64)"
proof (rule bit_word_eqI)
  fix k
  show "bit ((of_nat n OR f) AND ADDRESS_MASK) k = bit (of_nat n :: u64) k"
    using page_aligned_bits [OF assms(1), of k] assms(2) [of k]
    by (auto simp: bit_simps bit_ADDRESS_MASK)
qed

lemma entry_flag: "page_aligned n \<Longrightarrow> k < 12 \<or> 52 \<le> k \<Longrightarrow> bit (of_nat n OR f :: u64) k \<longleftrightarrow> bit f k"
  using page_aligned_bits [of n k] by (auto simp: bit_or_iff)

lemma entry_leaf:
  assumes "page_aligned n" "\<And>k. bit f k \<Longrightarrow> k < 12 \<or> 52 \<le> k"
  shows "((of_nat n OR f) AND ADDRESS_MASK AND NOT (mask 12)) OR (va AND mask 12) = of_nat n + (va AND mask 12 :: u64)"
proof -
  have "of_nat n AND NOT (mask 12) = (of_nat n :: u64)"
  proof (rule bit_word_eqI)
    fix k show "bit (of_nat n AND NOT (mask 12) :: u64) k = bit (of_nat n :: u64) k"
      using page_aligned_bits [OF assms(1), of k] by (auto simp: bit_simps)
  qed
  moreover have "of_nat n OR (va AND mask 12) = of_nat n + (va AND mask 12 :: u64)"
  proof (rule disjunctive_add [symmetric])
    fix k show "\<not> bit (of_nat n :: u64) k \<or> \<not> bit (va AND mask 12) k"
      using page_aligned_bits [OF assms(1), of k] by (auto simp: bit_simps)
  qed
  ultimately show ?thesis using entry_address [OF assms] by (simp add: and.assoc [symmetric])
qed

section \<open>Indices\<close>

lemma table_index_nat: "table_index s va = unat va div 2 ^ s mod 512"
proof -
  have "(511 :: u64) = mask 9" by (simp add: mask_eq_exp_minus_1)
  then have "drop_bit s va AND 511 = take_bit 9 (drop_bit s va)" by (simp add: take_bit_eq_mask)
  moreover have "take_bit 64 (unat va) = unat va"
    using unsigned_less [of va] by (simp add: take_bit_nat_eq_self_iff)
  ultimately have "table_index s va = take_bit 9 (drop_bit s (unat va))"
    by (simp add: table_index_def unsigned_take_bit_eq unsigned_drop_bit_eq)
  then show ?thesis by (simp add: take_bit_eq_mod drop_bit_eq_div)
qed

lemma table_index_less: "table_index s va < 512"
  by (simp add: table_index_nat)

text \<open>The address is determined by its four indices and its offset in the page.\<close>

lemma upper_half_index:
  fixes a m :: nat
  assumes "281474976710656 * m \<le> a" "a < 281474976710656 * m + 549755813888" "a < 18446744073709551616"
    and "a < 140737488355328 \<or> 18446603336221196288 \<le> a"
  shows "a < 549755813888"
proof -
  have "m \<le> 65535" using assms(1,3) by linarith
  then have "a < 281474976710656 * 65535 + 549755813888" using assms(2) by linarith
  then have "a < 140737488355328" using assms(4) by linarith
  then have "m = 0" using assms(1) by linarith
  with assms(2) show ?thesis by simp
qed

lemma low_index_bound:
  assumes "canonical va" "table_index 39 va = 0"
  shows "unat va < 2 ^ 39"
proof -
  have "unat va < 140737488355328 \<or> 18446603336221196288 \<le> unat va"
    using assms(1) by (auto simp: canonical_def word_le_nat_alt)
  moreover obtain m where m: "unat va div 549755813888 = 512 * m"
    using assms(2) by (auto simp: table_index_nat mod_eq_0_iff_dvd dvd_def)
  moreover have "unat va < 18446744073709551616" using unsigned_less [of va] by simp
  moreover have "549755813888 * (unat va div 549755813888) \<le> unat va"
      "unat va < 549755813888 * (unat va div 549755813888) + 549755813888"
    using mult_div_mod_eq [of "549755813888" "unat va"] mod_less_divisor [of "549755813888" "unat va"]
    by linarith+
  ultimately have "unat va < 549755813888" using upper_half_index [of m "unat va"] by (simp only: m)
  then show ?thesis by simp
qed

end
