(* ===== verification/User_Mapping.thy ===== *)
theory User_Mapping
  imports Paging Memory
begin

text \<open>
  The user mapping (\<^verbatim>\<open>src/kernel/usermode.rs\<close>): the layout constants, the page-table writes of
  \<^verbatim>\<open>install_mapping\<close>, their removal, and the range check of system calls. The addresses of the
  static tables, CR3 and the memory words are parameters. The theorems compare what the
  processor then translates with what the range check accepts.
\<close>

section \<open>Constants and operations\<close>

definition CODE :: u64 where "CODE = 0x800000"
definition STACK :: u64 where "STACK = 0x9ff000"
definition STACK_TOP :: u64 where "STACK_TOP = 0xa00000"
definition PAGE :: usize where "PAGE = 4096"
definition PRESENT :: u64 where "PRESENT = 1"
definition WRITE_FLAG :: u64 where "WRITE_FLAG = push_bit 1 1"
definition USER :: u64 where "USER = push_bit 2 1"
definition NX :: u64 where "NX = push_bit 63 1"
definition BRANCH :: u64 where "BRANCH = PRESENT OR WRITE_FLAG OR USER"

lemmas layout_defs = CODE_def STACK_def STACK_TOP_def PAGE_def
lemmas flag_defs = PRESENT_def WRITE_FLAG_def USER_def NX_def BRANCH_def

definition user_root :: "u64 \<Rightarrow> usize" where
  "user_root cr3 = uadd PAGE_OFFSET (unat (cr3 AND 0x000ffffffffff000))"

text \<open>\<^verbatim>\<open>p.add(i)\<close> on a pointer to 64-bit words.\<close>

definition word_at :: "usize \<Rightarrow> nat \<Rightarrow> usize" where
  "word_at p i = uadd p (8 * i)"

definition table_link :: "usize \<Rightarrow> u64" where
  "table_link address = of_nat (usub address PAGE_OFFSET) OR BRANCH"

definition install_mapping ::
  "u64 \<Rightarrow> usize \<Rightarrow> usize \<Rightarrow> usize \<Rightarrow> usize \<Rightarrow> table_memory \<Rightarrow> table_memory res" where
  "install_mapping cr3 pdpt pd pt physical m0 =
     (let root = user_root cr3 in
      bind_res (ensure (m0 root = 0) ''root.read_volatile() == 0'') (\<lambda>_.
      bind_res (ensure (m0 (word_at root 256) AND USER = 0) ''root.add(256).read_volatile() & USER == 0'') (\<lambda>_.
      let m1 = m0(pdpt := table_link pd);
          m2 = m1(word_at pd 4 := table_link pt);
          m3 = m2(pt := of_nat physical OR PRESENT OR USER);
          m4 = m3(word_at pt 511 := of_nat (uadd physical PAGE) OR PRESENT OR WRITE_FLAG OR USER OR NX)
      in bind_res (ensure (m4 (word_at pt 510) = 0) ''pt.add(510).read() == 0'') (\<lambda>_.
         bind_res (ensure (m4 (word_at pt 1) = 0) ''pt.add(1).read() == 0'') (\<lambda>_.
         Inr (m4(root := table_link pdpt)))))))"

text \<open>The removal at the end of the demonstration.\<close>

definition remove_mapping :: "u64 \<Rightarrow> table_memory \<Rightarrow> table_memory" where
  "remove_mapping cr3 m = m(user_root cr3 := 0)"

definition readable :: "u64 \<Rightarrow> u64 \<Rightarrow> bool" where
  "readable address len = (case checked_add_u64 address len of
     None \<Rightarrow> False
   | Some fin \<Rightarrow> (CODE \<le> address \<and> fin \<le> CODE + of_nat PAGE) \<or> (STACK \<le> address \<and> fin \<le> STACK_TOP))"

section \<open>Flags\<close>

lemma bit_flags:
  "bit PRESENT k \<longleftrightarrow> k = 0" "bit WRITE_FLAG k \<longleftrightarrow> k = 1" "bit USER k \<longleftrightarrow> k = 2" "bit NX k \<longleftrightarrow> k = 63"
  "bit BRANCH k \<longleftrightarrow> k = 0 \<or> k = 1 \<or> k = 2"
  by (auto simp: flag_defs bit_simps simp del: push_bit_of_1)

lemma mask_constant: "(0x000ffffffffff000 :: u64) = ADDRESS_MASK"
  by (simp add: ADDRESS_MASK_def)

section \<open>Addresses of table words\<close>

lemma words_distinct:
  fixes p q :: nat
  assumes "p mod 4096 = 0" "q mod 4096 = 0" "p \<noteq> q" "i < 512" "j < 512"
  shows "p + 8 * i \<noteq> q + 8 * j"
proof
  assume "p + 8 * i = q + 8 * j"
  moreover obtain k l where "p = 4096 * k" "q = 4096 * l" using assms(1,2) by (auto simp: mod_eq_0_iff_dvd dvd_def)
  moreover from this have "k < l \<or> l < k" using assms(3) by auto
  ultimately show False using assms(4,5) by linarith
qed

definition direct_page :: "usize \<Rightarrow> bool" where
  "direct_page a \<longleftrightarrow> PAGE_OFFSET \<le> a \<and> a + 4096 \<le> usize_range \<and> a mod 4096 = 0"

lemma word_at_direct: "direct_page p \<Longrightarrow> i < 512 \<Longrightarrow> word_at p i = p + 8 * i"
  unfolding word_at_def by (rule uadd_exact) (simp add: direct_page_def)

lemma PAGE_OFFSET_mod: "PAGE_OFFSET mod 4096 = 0"
  by (simp add: PAGE_OFFSET_def)

text \<open>A link to a table leads to that table.\<close>

lemma direct_physical:
  assumes "direct_page a"
  shows "page_aligned (a - PAGE_OFFSET)" "unat (of_nat (a - PAGE_OFFSET) :: u64) = a - PAGE_OFFSET"
    "usub a PAGE_OFFSET = a - PAGE_OFFSET"
proof -
  have lt: "a - PAGE_OFFSET < 4503599627370496"
    using assms unfolding direct_page_def PAGE_OFFSET_def by simp linarith
  moreover have "(a - PAGE_OFFSET) mod 4096 = 0"
    using assms PAGE_OFFSET_mod by (simp add: direct_page_def mod_eq_0_iff_dvd dvd_diff_nat)
  ultimately show "page_aligned (a - PAGE_OFFSET)" by (simp add: page_aligned_def)
  show "unat (of_nat (a - PAGE_OFFSET) :: u64) = a - PAGE_OFFSET"
    using lt by (simp add: unsigned_of_nat take_bit_nat_eq_self)
  show "usub a PAGE_OFFSET = a - PAGE_OFFSET" using assms by (simp add: usub_exact direct_page_def)
qed

lemma link_entry:
  assumes "direct_page t"
  shows "table_entry PAGE_OFFSET m (table_link t AND ADDRESS_MASK) i = m (t + 8 * i)"
    "bit (table_link t) 0" "bit (table_link t) 1" "bit (table_link t) 2" "\<not> bit (table_link t) 7"
    "\<not> bit (table_link t) 63"
proof -
  note d = direct_physical [OF assms]
  have e: "table_link t AND ADDRESS_MASK = of_nat (t - PAGE_OFFSET)"
    unfolding table_link_def d(3) by (rule entry_address [OF d(1)]) (auto simp: bit_flags)
  show "table_entry PAGE_OFFSET m (table_link t AND ADDRESS_MASK) i = m (t + 8 * i)"
    using assms unfolding table_entry_def e d(2) by (simp add: direct_page_def)
  have f: "bit (table_link t) k \<longleftrightarrow> bit BRANCH k" if "k < 12 \<or> 52 \<le> k" for k
    unfolding table_link_def d(3) by (rule entry_flag [OF d(1) that])
  have branch: "bit BRANCH 0" "bit BRANCH 1" "bit BRANCH 2" unfolding bit_flags by simp_all
  show "bit (table_link t) 0" "bit (table_link t) 1" "bit (table_link t) 2"
    using f [of 0] f [of 1] f [of 2] branch by simp_all
  show "\<not> bit (table_link t) 7" "\<not> bit (table_link t) 63" by (simp_all add: f bit_flags)
qed

section \<open>The pages of an address\<close>

lemma index_digits:
  fixes q j :: nat
  assumes "q div 262144 mod 512 = 0" "q div 512 mod 512 = 4" "q mod 512 = j" "q < 134217728"
  shows "q = 2048 + j"
proof -
  have "q div 262144 < 512" using assms(4) by (simp add: div_less_iff_less_mult)
  then have "q div 262144 = 0" using assms(1) by simp
  then have "q < 262144" by (simp add: div_eq_0_iff)
  then have "q div 512 < 512" by (simp add: div_less_iff_less_mult)
  then have "q div 512 = 4" using assms(2) by simp
  then show ?thesis using assms(3) div_mult_mod_eq [of q 512] by simp
qed

lemma page_indices:
  assumes "canonical va" "j < 512"
  shows "table_index 39 va = 0 \<and> table_index 30 va = 0 \<and> table_index 21 va = 4 \<and> table_index 12 va = j
    \<longleftrightarrow> unat va div 4096 = 2048 + j"
proof
  assume i: "table_index 39 va = 0 \<and> table_index 30 va = 0 \<and> table_index 21 va = 4 \<and> table_index 12 va = j"
  then have "unat va < 549755813888" using low_index_bound [OF assms(1)] by simp
  then have q: "unat va div 4096 < 134217728" by (simp add: div_less_iff_less_mult)
  have "unat va div 4096 div 262144 mod 512 = 0" "unat va div 4096 div 512 mod 512 = 4"
      "unat va div 4096 mod 512 = j"
    using i by (simp_all add: table_index_nat div_mult2_eq [symmetric])
  then show "unat va div 4096 = 2048 + j" using q by (rule index_digits)
next
  assume d: "unat va div 4096 = 2048 + j"
  have "unat va div 2097152 = unat va div 4096 div 512" "unat va div 1073741824 = unat va div 4096 div 262144"
      "unat va div 549755813888 = unat va div 4096 div 134217728"
    by (simp_all only: div_mult2_eq [symmetric]) simp_all
  then have "unat va div 2097152 = 4" "unat va div 1073741824 = 0" "unat va div 549755813888 = 0"
    using assms(2) d by simp_all
  moreover have "(2048 + j) mod 512 = j"
    using mod_mult_self3 [of 4 512 j] assms(2) by simp
  ultimately show "table_index 39 va = 0 \<and> table_index 30 va = 0 \<and> table_index 21 va = 4 \<and> table_index 12 va = j"
    using assms(2) d by (simp add: table_index_nat)
qed

lemma page_canonical: "unat va div 4096 < 4096 \<Longrightarrow> canonical va"
proof -
  assume "unat va div 4096 < 4096"
  then have "unat va < 16777216" by (simp add: div_less_iff_less_mult)
  then show ?thesis by (simp add: canonical_def word_le_nat_alt)
qed

lemma page_offset_word: "unat (va :: u64) div 4096 = n \<Longrightarrow> va AND mask 12 = va - of_nat (n * 4096)"
proof -
  assume n: "unat va div 4096 = n"
  have "unat va = n * 4096 + unat va mod 4096" using n by (metis div_mult_mod_eq)
  moreover have "va = of_nat (unat va)" by simp
  ultimately have "va = of_nat (n * 4096) + of_nat (unat va mod 4096)" by (metis of_nat_add)
  moreover have "va AND mask 12 = of_nat (unat va mod 4096)"
  proof -
    have "unat (va AND mask 12) = unat va mod 4096"
      by (simp add: take_bit_eq_mask [symmetric] unsigned_take_bit_eq) (simp add: take_bit_eq_mod)
    moreover have "va AND mask 12 = of_nat (unat (va AND mask 12))" by simp
    ultimately show ?thesis by argo
  qed
  ultimately show ?thesis by (metis add_diff_cancel_left')
qed

section \<open>What the processor translates\<close>

text \<open>
  The state in which the mapping is installed: distinct tables in the direct mapping, whose
  other entries are empty, a root without user entries whose first entry is free, and a whole
  physical run.
\<close>

definition tables_ready ::
  "u64 \<Rightarrow> usize \<Rightarrow> usize \<Rightarrow> usize \<Rightarrow> table_memory \<Rightarrow> bool" where
  "tables_ready cr3 pdpt pd pt m \<longleftrightarrow>
     unat (cr3 AND ADDRESS_MASK) + 4096 \<le> 0x800000000000
     \<and> direct_page pdpt \<and> direct_page pd \<and> direct_page pt
     \<and> distinct [user_root cr3, pdpt, pd, pt]
     \<and> m (user_root cr3) = 0
     \<and> list_all (\<lambda>i. \<not> bit (m (user_root cr3 + 8 * i)) 2) [0..<512]
     \<and> list_all (\<lambda>i. m (pdpt + 8 * i) = 0) [1..<512]
     \<and> list_all (\<lambda>i. i = 4 \<or> m (pd + 8 * i) = 0) [0..<512]
     \<and> list_all (\<lambda>i. m (pt + 8 * i) = 0) [1..<511]"

definition mapping_ready ::
  "u64 \<Rightarrow> usize \<Rightarrow> usize \<Rightarrow> usize \<Rightarrow> usize \<Rightarrow> table_memory \<Rightarrow> bool" where
  "mapping_ready cr3 pdpt pd pt physical m \<longleftrightarrow>
     tables_ready cr3 pdpt pd pt m \<and> page_aligned physical \<and> page_aligned (physical + 4096)"

definition code_entry :: "usize \<Rightarrow> u64" where
  "code_entry physical = of_nat physical OR (PRESENT OR USER)"

definition stack_entry :: "usize \<Rightarrow> u64" where
  "stack_entry physical = of_nat (physical + 4096) OR (PRESENT OR WRITE_FLAG OR USER OR NX)"

definition installed ::
  "u64 \<Rightarrow> usize \<Rightarrow> usize \<Rightarrow> usize \<Rightarrow> usize \<Rightarrow> table_memory \<Rightarrow> table_memory" where
  "installed cr3 pdpt pd pt physical m = m(pdpt := table_link pd, pd + 8 * 4 := table_link pt,
     pt := code_entry physical, pt + 8 * 511 := stack_entry physical, user_root cr3 := table_link pdpt)"

lemma user_root_direct:
  assumes "unat (cr3 AND ADDRESS_MASK) + 4096 \<le> 0x800000000000"
  shows "user_root cr3 = PAGE_OFFSET + unat (cr3 AND ADDRESS_MASK)" "direct_page (user_root cr3)"
proof -
  show r: "user_root cr3 = PAGE_OFFSET + unat (cr3 AND ADDRESS_MASK)"
    unfolding user_root_def mask_constant by (rule uadd_exact) (use assms in \<open>simp add: PAGE_OFFSET_def\<close>)
  have "take_bit 12 (unat (cr3 AND ADDRESS_MASK)) = 0"
    by (rule bit_eqI) (auto simp: bit_simps bit_ADDRESS_MASK)
  then have "unat (cr3 AND ADDRESS_MASK) mod 4096 = 0" by (simp add: take_bit_eq_mod)
  then have "(PAGE_OFFSET + unat (cr3 AND ADDRESS_MASK)) mod 4096 = 0"
    using PAGE_OFFSET_mod by (simp add: mod_add_eq [symmetric])
  then show "direct_page (user_root cr3)"
    using assms unfolding direct_page_def r by (simp add: PAGE_OFFSET_def)
qed

lemma ready_pages:
  assumes "mapping_ready cr3 pdpt pd pt physical m"
  shows "direct_page (user_root cr3)" "direct_page pdpt" "direct_page pd" "direct_page pt"
    "distinct [user_root cr3, pdpt, pd, pt]" "page_aligned physical" "page_aligned (physical + 4096)"
    "user_root cr3 = PAGE_OFFSET + unat (cr3 AND ADDRESS_MASK)"
  using assms user_root_direct unfolding mapping_ready_def tables_ready_def by blast+

text \<open>Words of different tables, and different words of one table, have different addresses.\<close>

lemma table_words:
  assumes "direct_page p" "direct_page q" "i < 512" "j < 512"
  shows "p + 8 * i = q + 8 * j \<longleftrightarrow> p = q \<and> i = j"
proof (cases "p = q")
  case True
  then show ?thesis by simp
next
  case False
  then show ?thesis using words_distinct [OF _ _ False assms(3,4)] assms(1,2) by (simp add: direct_page_def)
qed

lemma installed_words:
  assumes "mapping_ready cr3 pdpt pd pt physical m" "i < 512"
  defines "m' \<equiv> installed cr3 pdpt pd pt physical m"
  shows "m' (user_root cr3 + 8 * i) = (if i = 0 then table_link pdpt else m (user_root cr3 + 8 * i))"
    "m' (pdpt + 8 * i) = (if i = 0 then table_link pd else 0)"
    "m' (pd + 8 * i) = (if i = 4 then table_link pt else 0)"
    "m' (pt + 8 * i) = (if i = 0 then code_entry physical else if i = 511 then stack_entry physical else 0)"
proof -
  note d = ready_pages [OF assms(1)]
  note eq = table_words [OF _ _ assms(2), of _ _ 0, simplified] table_words [OF _ _ assms(2), of _ _ 4, simplified]
    table_words [OF _ _ assms(2), of _ _ 511, simplified]
  have z: "0 < i \<Longrightarrow> m (pdpt + 8 * i) = 0" "i \<noteq> 4 \<Longrightarrow> m (pd + 8 * i) = 0"
    "0 < i \<Longrightarrow> i \<noteq> 511 \<Longrightarrow> m (pt + 8 * i) = 0"
    using assms(1,2) unfolding mapping_ready_def tables_ready_def list_all_iff by auto
  show "m' (user_root cr3 + 8 * i) = (if i = 0 then table_link pdpt else m (user_root cr3 + 8 * i))"
    "m' (pdpt + 8 * i) = (if i = 0 then table_link pd else 0)"
    "m' (pd + 8 * i) = (if i = 4 then table_link pt else 0)"
    "m' (pt + 8 * i) = (if i = 0 then code_entry physical else if i = 511 then stack_entry physical else 0)"
    using d z by (auto simp: m'_def installed_def eq)
qed

lemma and_USER: "w AND USER = 0 \<longleftrightarrow> \<not> bit w 2"
  unfolding USER_def by (simp only: bit_iff_and_push_bit_not_eq_0 not_not)

lemma user_bit_free:
  "mapping_ready cr3 pdpt pd pt physical m \<Longrightarrow> i < 512 \<Longrightarrow> \<not> bit (m (user_root cr3 + 8 * i)) 2"
  unfolding mapping_ready_def tables_ready_def list_all_iff by simp

lemma install_mapping_run:
  assumes "mapping_ready cr3 pdpt pd pt physical m"
  shows "install_mapping cr3 pdpt pd pt physical m = Inr (installed cr3 pdpt pd pt physical m)"
proof -
  note d = ready_pages [OF assms]
  have root: "m (user_root cr3) = 0" "m (word_at (user_root cr3) 256) AND USER = 0"
    using assms user_bit_free [OF assms, of 256] word_at_direct [OF d(1), of 256]
    unfolding mapping_ready_def tables_ready_def and_USER by simp_all
  have phys: "uadd physical PAGE = physical + 4096"
    using d(7) by (simp add: uadd_exact PAGE_def page_aligned_def)
  have words: "word_at pd 4 = pd + 8 * 4" "word_at pt 511 = pt + 8 * 511" "word_at pt 510 = pt + 8 * 510"
      "word_at pt 1 = pt + 8 * 1"
    using word_at_direct [OF d(3), of 4] word_at_direct [OF d(4)] by simp_all
  let ?m4 = "m(pdpt := table_link pd, pd + 8 * 4 := table_link pt, pt := code_entry physical,
    pt + 8 * 511 := stack_entry physical)"
  have r: "user_root cr3 \<noteq> pt + 8 * j" if "j < 512" for j
    using table_words [OF d(1,4), of 0 j] that d(5) by auto
  have guard: "?m4 (pt + 8 * 510) = 0" "?m4 (pt + 8 * 1) = 0"
    using installed_words(4) [OF assms, of 510] installed_words(4) [OF assms, of 1]
      r [of 510] r [of 1] by (simp_all add: installed_def)
  show ?thesis
    unfolding install_mapping_def Let_def root phys words
    using guard by (simp add: root installed_def code_entry_def stack_entry_def)
qed

lemma page_entry_bits:
  assumes "page_aligned physical" "page_aligned (physical + 4096)"
  shows "bit (code_entry physical) 0" "bit (code_entry physical) 2" "\<not> bit (code_entry physical) 1"
    "\<not> bit (code_entry physical) 63"
    and "bit (stack_entry physical) 0" "bit (stack_entry physical) 2" "bit (stack_entry physical) 1"
    "bit (stack_entry physical) 63"
proof -
  have c: "bit (code_entry physical) k \<longleftrightarrow> k = 0 \<or> k = 2" if "k < 12 \<or> 52 \<le> k" for k
  proof -
    have "bit (code_entry physical) k \<longleftrightarrow> bit (PRESENT OR USER) k"
      unfolding code_entry_def by (rule entry_flag [OF assms(1) that])
    then show ?thesis by (simp only: bit_or_iff bit_flags)
  qed
  have s: "bit (stack_entry physical) k \<longleftrightarrow> k = 0 \<or> k = 1 \<or> k = 2 \<or> k = 63" if "k < 12 \<or> 52 \<le> k" for k
  proof -
    have "bit (stack_entry physical) k \<longleftrightarrow> bit (PRESENT OR WRITE_FLAG OR USER OR NX) k"
      unfolding stack_entry_def by (rule entry_flag [OF assms(2) that])
    then show ?thesis by (simp only: bit_or_iff bit_flags)
  qed
  show "bit (code_entry physical) 0" "bit (code_entry physical) 2" "\<not> bit (code_entry physical) 1"
    "\<not> bit (code_entry physical) 63"
    using c [of 0] c [of 1] c [of 2] c [of 63] by simp_all
  show "bit (stack_entry physical) 0" "bit (stack_entry physical) 2" "bit (stack_entry physical) 1"
    "bit (stack_entry physical) 63"
    using s [of 0] s [of 1] s [of 2] s [of 63] by simp_all
qed

lemma page_entry_address:
  assumes "page_aligned physical" "page_aligned (physical + 4096)"
  shows "(code_entry physical AND ADDRESS_MASK AND NOT (mask 12)) OR (va AND mask 12)
      = of_nat physical + (va AND mask 12)"
    and "(stack_entry physical AND ADDRESS_MASK AND NOT (mask 12)) OR (va AND mask 12)
      = of_nat (physical + 4096) + (va AND mask 12)"
proof -
  have "bit (PRESENT OR USER) k \<Longrightarrow> k < 12 \<or> 52 \<le> k"
    "bit (PRESENT OR WRITE_FLAG OR USER OR NX) k \<Longrightarrow> k < 12 \<or> 52 \<le> k" for k
    by (auto simp: bit_or_iff bit_flags)
  then show "(code_entry physical AND ADDRESS_MASK AND NOT (mask 12)) OR (va AND mask 12)
      = of_nat physical + (va AND mask 12)"
    "(stack_entry physical AND ADDRESS_MASK AND NOT (mask 12)) OR (va AND mask 12)
      = of_nat (physical + 4096) + (va AND mask 12)"
    unfolding code_entry_def stack_entry_def
    using entry_leaf [OF assms(1)] entry_leaf [OF assms(2)] by blast+
qed

lemma zero_entry: "\<not> bit (0 :: u64) k"
  by simp

text \<open>One level of the walk.\<close>

lemma walk_table:
  "table_entry offset m base (table_index s va) = e \<Longrightarrow> \<not> bit e 2 \<Longrightarrow>
     walk offset m (s # ss) base va (w, x) = None"
  "table_entry offset m base (table_index s va) = e \<Longrightarrow> bit e 0 \<Longrightarrow> bit e 1 \<Longrightarrow> bit e 2 \<Longrightarrow>
     \<not> bit e 7 \<Longrightarrow> \<not> bit e 63 \<Longrightarrow>
     walk offset m (s # s' # ss) base va (w, x) = walk offset m (s' # ss) (e AND ADDRESS_MASK) va (w, x)"
  "table_entry offset m base (table_index s va) = e \<Longrightarrow> bit e 0 \<Longrightarrow> bit e 2 \<Longrightarrow>
     walk offset m [s] base va (w, x) =
       Some ((e AND ADDRESS_MASK AND NOT (mask s)) OR (va AND mask s), w \<and> bit e 1, x \<and> \<not> bit e 63)"
  by (simp_all add: Let_def)

lemma user_walk_leaf:
  assumes ready: "mapping_ready cr3 pdpt pd pt physical m"
  defines "m' \<equiv> installed cr3 pdpt pd pt physical m"
  shows "walk PAGE_OFFSET m' [12] (table_link pt AND ADDRESS_MASK) va (True, True) =
      (if table_index 12 va = 0 then Some (of_nat physical + (va AND mask 12), False, True)
       else if table_index 12 va = 511 then Some (of_nat (physical + 4096) + (va AND mask 12), True, False)
       else None)"
proof -
  note d = ready_pages [OF ready]
  note ini = installed_words [OF ready table_index_less, folded m'_def]
  have e1: "table_entry PAGE_OFFSET m' (table_link pt AND ADDRESS_MASK) (table_index 12 va) =
      (if table_index 12 va = 0 then code_entry physical
       else if table_index 12 va = 511 then stack_entry physical else 0)"
    unfolding link_entry(1) [OF d(4)] by (rule ini(4))
  note bits = page_entry_bits [OF d(6,7)] and addr = page_entry_address [OF d(6,7)]
  consider "table_index 12 va = 0" | "table_index 12 va = 511" | "table_index 12 va \<noteq> 0" "table_index 12 va \<noteq> 511" by blast
  then show ?thesis
  proof cases
    case 1
    then have e: "table_entry PAGE_OFFSET m' (table_link pt AND ADDRESS_MASK) (table_index 12 va) = code_entry physical"
      using e1 by simp
    show ?thesis unfolding walk_table(3) [OF e bits(1,2)] addr using 1 bits by simp
  next
    case 2
    then have e: "table_entry PAGE_OFFSET m' (table_link pt AND ADDRESS_MASK) (table_index 12 va) = stack_entry physical"
      using e1 by simp
    show ?thesis unfolding walk_table(3) [OF e bits(5,6)] addr using 2 bits by simp
  next
    case 3
    then have e: "table_entry PAGE_OFFSET m' (table_link pt AND ADDRESS_MASK) (table_index 12 va) = 0"
      using e1 by simp
    show ?thesis unfolding walk_table(1) [OF e zero_entry] using 3 by simp
  qed
qed

lemma user_walk_installed:
  assumes ready: "mapping_ready cr3 pdpt pd pt physical m"
  defines "m' \<equiv> installed cr3 pdpt pd pt physical m"
  shows "user_access PAGE_OFFSET m' cr3 va =
    (if canonical va \<and> table_index 39 va = 0 \<and> table_index 30 va = 0 \<and> table_index 21 va = 4 then
       if table_index 12 va = 0 then Some (of_nat physical + (va AND mask 12), False, True)
       else if table_index 12 va = 511 then Some (of_nat (physical + 4096) + (va AND mask 12), True, False)
       else None
     else None)"
proof (cases "canonical va")
  case False
  then show ?thesis by (simp add: user_access_def)
next
  case can: True
  note d = ready_pages [OF ready]
  note ini = installed_words [OF ready table_index_less, folded m'_def]
  have e4: "table_entry PAGE_OFFSET m' (cr3 AND ADDRESS_MASK) (table_index 39 va) =
      (if table_index 39 va = 0 then table_link pdpt else m (user_root cr3 + 8 * table_index 39 va))"
    using ini(1) by (simp add: table_entry_def d(8))
  have e3: "table_entry PAGE_OFFSET m' (table_link pdpt AND ADDRESS_MASK) (table_index 30 va) =
      (if table_index 30 va = 0 then table_link pd else 0)"
    unfolding link_entry(1) [OF d(2)] by (rule ini(2))
  have e2: "table_entry PAGE_OFFSET m' (table_link pd AND ADDRESS_MASK) (table_index 21 va) =
      (if table_index 21 va = 4 then table_link pt else 0)"
    unfolding link_entry(1) [OF d(3)] by (rule ini(3))
  have other: "\<not> bit (m (user_root cr3 + 8 * table_index 39 va)) 2"
    by (rule user_bit_free [OF ready table_index_less])
  note w1 = user_walk_leaf [OF ready, folded m'_def]
  have w2: "walk PAGE_OFFSET m' [21, 12] (table_link pd AND ADDRESS_MASK) va (True, True) =
      (if table_index 21 va = 4 then walk PAGE_OFFSET m' [12] (table_link pt AND ADDRESS_MASK) va (True, True) else None)"
    using walk_table(1) [OF e2, of "[12]" True True] walk_table(2) [OF e2, of 12 "[]" True True] link_entry [OF d(4)] zero_entry
    by (simp del: walk.simps split: if_splits)
  have w3: "walk PAGE_OFFSET m' [30, 21, 12] (table_link pdpt AND ADDRESS_MASK) va (True, True) =
      (if table_index 30 va = 0 then walk PAGE_OFFSET m' [21, 12] (table_link pd AND ADDRESS_MASK) va (True, True) else None)"
    using walk_table(1) [OF e3, of "[21, 12]" True True] walk_table(2) [OF e3, of 21 "[12]" True True] link_entry [OF d(3)] zero_entry
    by (simp del: walk.simps split: if_splits)
  have w4: "walk PAGE_OFFSET m' [39, 30, 21, 12] (cr3 AND ADDRESS_MASK) va (True, True) =
      (if table_index 39 va = 0 then walk PAGE_OFFSET m' [30, 21, 12] (table_link pdpt AND ADDRESS_MASK) va (True, True) else None)"
    using walk_table(1) [OF e4, of "[30, 21, 12]" True True] walk_table(2) [OF e4, of 30 "[21, 12]" True True] link_entry [OF d(2)] other
    by (simp del: walk.simps split: if_splits)
  show ?thesis using can by (simp add: user_access_def w4 w3 w2 w1 del: walk.simps)
qed

text \<open>
  The address space a user program is meant to have: the code page, readable and executable, the
  stack page, readable and writable, and nothing else.
\<close>

definition user_page :: "usize \<Rightarrow> u64 \<Rightarrow> (u64 \<times> bool \<times> bool) option" where
  "user_page physical va =
     (if CODE \<le> va \<and> va < CODE + of_nat PAGE then Some (of_nat physical + (va - CODE), False, True)
      else if STACK \<le> va \<and> va < STACK_TOP then Some (of_nat (physical + PAGE) + (va - STACK), True, False)
      else None)"

lemma user_page_number:
  "user_page physical va =
    (if unat va div 4096 = 2048 then Some (of_nat physical + (va AND mask 12), False, True)
     else if unat va div 4096 = 2559 then Some (of_nat (physical + 4096) + (va AND mask 12), True, False)
     else None)"
proof -
  have "CODE \<le> va \<and> va < CODE + of_nat PAGE \<longleftrightarrow> unat va div 4096 = 2048"
    "STACK \<le> va \<and> va < STACK_TOP \<longleftrightarrow> unat va div 4096 = 2559"
    by (auto simp: layout_defs word_le_nat_alt word_less_nat_alt div_nat_eqI)
  moreover have "unat va div 4096 = 2048 \<Longrightarrow> va AND mask 12 = va - CODE"
    "unat va div 4096 = 2559 \<Longrightarrow> va AND mask 12 = va - STACK"
    using page_offset_word [of va 2048] page_offset_word [of va 2559] by (simp_all add: layout_defs)
  ultimately show ?thesis by (simp add: user_page_def PAGE_def)
qed

lemma user_access_installed:
  assumes "mapping_ready cr3 pdpt pd pt physical m"
  shows "user_access PAGE_OFFSET (installed cr3 pdpt pd pt physical m) cr3 va = user_page physical va"
proof (cases "canonical va")
  case True
  have "table_index 39 va = 0 \<and> table_index 30 va = 0 \<and> table_index 21 va = 4 \<and> table_index 12 va = 0
      \<longleftrightarrow> unat va div 4096 = 2048"
    "table_index 39 va = 0 \<and> table_index 30 va = 0 \<and> table_index 21 va = 4 \<and> table_index 12 va = 511
      \<longleftrightarrow> unat va div 4096 = 2559"
    using page_indices [OF True, of 0] page_indices [OF True, of 511] by simp_all
  then show ?thesis unfolding user_walk_installed [OF assms] user_page_number using True by auto
next
  case False
  then have "unat va div 4096 \<noteq> 2048" "unat va div 4096 \<noteq> 2559" using page_canonical [of va] by auto
  then show ?thesis using False by (simp add: user_access_def user_page_number)
qed

lemma user_access_removed:
  assumes "mapping_ready cr3 pdpt pd pt physical m"
  shows "user_access PAGE_OFFSET (remove_mapping cr3 (installed cr3 pdpt pd pt physical m)) cr3 va = None"
proof -
  let ?r = "remove_mapping cr3 (installed cr3 pdpt pd pt physical m)"
  note d = ready_pages [OF assms]
  have "\<not> bit (?r (user_root cr3 + 8 * table_index 39 va)) 2"
    using installed_words(1) [OF assms table_index_less, of 39 va] user_bit_free [OF assms table_index_less, of 39 va]
    by (cases "table_index 39 va = 0") (simp_all add: remove_mapping_def)
  then show ?thesis
    unfolding user_access_def
    using walk_table(1) [of PAGE_OFFSET ?r "cr3 AND ADDRESS_MASK" 39 va _ "[30, 21, 12]" True True]
    by (simp add: table_entry_def d(8) del: walk.simps)
qed

text \<open>
  C32. Isolation: with the mapping installed, a program at user level can translate exactly two
  pages of the whole address space, the code page without write access and the stack page without
  execution, each to its own half of the run; every other address, the kernel included, faults.
  Only five table words change, and after the removal no user access translates at all.
\<close>

theorem user_mapping_isolates:
  assumes "mapping_ready cr3 pdpt pd pt physical m"
  shows "\<exists>m'. install_mapping cr3 pdpt pd pt physical m = Inr m'
    \<and> (\<forall>va. user_access PAGE_OFFSET m' cr3 va = user_page physical va)
    \<and> (\<forall>va. user_access PAGE_OFFSET (remove_mapping cr3 m') cr3 va = None)
    \<and> (\<forall>a. a \<notin> {user_root cr3, pdpt, pd + 8 * 4, pt, pt + 8 * 511} \<longrightarrow> m' a = m a)"
  using install_mapping_run [OF assms] user_access_installed [OF assms] user_access_removed [OF assms]
  by (auto simp: installed_def)

text \<open>The tables the boot code leaves: one link in the upper half of the root.\<close>

definition boot_tables :: table_memory where
  "boot_tables = (\<lambda>a. if a = PAGE_OFFSET + 0x101800 then 0x102003 else 0)"

lemma boot_ready:
  "mapping_ready 0x101000 (PAGE_OFFSET + 0x200000) (PAGE_OFFSET + 0x201000) (PAGE_OFFSET + 0x202000) 0x400000 boot_tables"
proof -
  have "(0x101000 :: u64) AND ADDRESS_MASK = 0x101000" by (simp add: ADDRESS_MASK_def)
  moreover have "user_root 0x101000 = PAGE_OFFSET + 0x101000"
    by (simp add: user_root_def uadd_def PAGE_OFFSET_def)
  ultimately show ?thesis
    by (auto simp: mapping_ready_def tables_ready_def direct_page_def page_aligned_def boot_tables_def list_all_iff PAGE_OFFSET_def)
qed

theorem user_mapping_isolates_witness:
  "\<exists>m'. install_mapping 0x101000 (PAGE_OFFSET + 0x200000) (PAGE_OFFSET + 0x201000) (PAGE_OFFSET + 0x202000)
      0x400000 boot_tables = Inr m'
    \<and> user_access PAGE_OFFSET m' 0x101000 0x800010 = Some (0x400010, False, True)
    \<and> user_access PAGE_OFFSET m' 0x101000 0xffff800000100000 = None"
proof -
  have "user_page 0x400000 0x800010 = Some (0x400010, False, True)"
    "user_page 0x400000 0xffff800000100000 = None"
    by (simp_all add: user_page_def layout_defs)
  then show ?thesis using user_mapping_isolates [OF boot_ready] by metis
qed

section \<open>The range check\<close>

lemma user_page_mapped: "user_page physical va \<noteq> None \<longleftrightarrow>
    0x800000 \<le> unat va \<and> unat va < 0x801000 \<or> 0x9ff000 \<le> unat va \<and> unat va < 0xa00000"
  by (simp add: user_page_def layout_defs word_le_nat_alt word_less_nat_alt ex_bool_eq)

lemma readable_nat: "readable a n \<longleftrightarrow>
    0x800000 \<le> unat a \<and> unat a + unat n \<le> 0x801000 \<or> 0x9ff000 \<le> unat a \<and> unat a + unat n \<le> 0xa00000"
proof (cases "unat a + unat n < 2 ^ 64")
  case True
  then have "checked_add_u64 a n = Some (a + n)" "unat (a + n) = unat a + unat n"
    by (simp_all only: checked_add_u64_Some unat_add_u64 simp_thms)
  then show ?thesis by (simp add: readable_def layout_defs word_le_nat_alt)
next
  case False
  then have "checked_add_u64 a n = None" by (simp only: checked_add_u64_None not_less)
  then show ?thesis using False by (simp add: readable_def)
qed

lemma unat_add_index: "unat (a :: u64) + k < 2 ^ 64 \<Longrightarrow> unat (a + of_nat k) = unat a + k"
proof -
  assume lt: "unat a + k < 2 ^ 64"
  then have "unat (of_nat k :: u64) = k" by (simp add: unsigned_of_nat take_bit_nat_eq_self)
  then show ?thesis using unat_add_u64 [of a "of_nat k"] lt by simp
qed

lemma readable_mapped:
  assumes "0 < n"
  shows "readable a n \<longleftrightarrow> (\<forall>k < unat n. user_page physical (a + of_nat k) \<noteq> None)"
proof
  assume r: "readable a n"
  show "\<forall>k < unat n. user_page physical (a + of_nat k) \<noteq> None"
  proof (intro allI impI)
    fix k assume k: "k < unat n"
    have "unat a + k < 2 ^ 64" using r k unfolding readable_nat by auto
    then have "unat (a + of_nat k) = unat a + k" by (rule unat_add_index)
    then show "user_page physical (a + of_nat k) \<noteq> None"
      using r k unfolding readable_nat user_page_mapped by auto
  qed
next
  assume all: "\<forall>k < unat n. user_page physical (a + of_nat k) \<noteq> None"
  have n: "0 < unat n" using assms by (simp add: word_less_nat_alt)
  have "user_page physical (a + of_nat 0) \<noteq> None" using all n by blast
  then have first: "user_page physical a \<noteq> None" by simp
  have past: "\<not> (unat a \<le> x \<and> x < unat a + unat n)" if x: "x = 0x801000 \<or> x = 0xa00000" for x
  proof
    assume b: "unat a \<le> x \<and> x < unat a + unat n"
    then have "x - unat a < unat n" using n by linarith
    then have "user_page physical (a + of_nat (x - unat a)) \<noteq> None" using all by blast
    moreover have "unat (a + of_nat (x - unat a)) = x"
    proof -
      have eq: "unat a + (x - unat a) = x" using b by simp
      have "x < 2 ^ 64" using x by auto
      then show ?thesis using unat_add_index [of a "x - unat a"] unfolding eq by blast
    qed
    ultimately show False using x unfolding user_page_mapped by auto
  qed
  have "\<not> (unat a \<le> 0x801000 \<and> 0x801000 < unat a + unat n)" "\<not> (unat a \<le> 0xa00000 \<and> 0xa00000 < unat a + unat n)"
    by (rule past, simp)+
  then show "readable a n" using first unfolding readable_nat user_page_mapped by linarith
qed

text \<open>
  C37. The range check of system calls and the page tables agree: for a nonempty range,
  \<^verbatim>\<open>readable\<close> answers yes exactly when the processor translates every byte of it at user level,
  including ranges that wrap around the address space or cross the hole between the pages.
\<close>

theorem readable_iff_mapped:
  assumes "mapping_ready cr3 pdpt pd pt physical m" "install_mapping cr3 pdpt pd pt physical m = Inr m'"
    and "0 < n"
  shows "readable a n \<longleftrightarrow> (\<forall>k < unat n. user_access PAGE_OFFSET m' cr3 (a + of_nat k) \<noteq> None)"
proof -
  have m': "m' = installed cr3 pdpt pd pt physical m" using install_mapping_run [OF assms(1)] assms(2) by simp
  show ?thesis unfolding m' user_access_installed [OF assms(1)] by (rule readable_mapped [OF assms(3)])
qed

theorem readable_iff_mapped_witness:
  "\<exists>m'. install_mapping 0x101000 (PAGE_OFFSET + 0x200000) (PAGE_OFFSET + 0x201000) (PAGE_OFFSET + 0x202000)
      0x400000 boot_tables = Inr m'
    \<and> \<not> (\<forall>k < unat (2 :: u64). user_access PAGE_OFFSET m' 0x101000 (0x800fff + of_nat k) \<noteq> None)"
proof -
  have "\<not> readable 0x800fff 2" unfolding readable_nat by simp
  then show ?thesis
    using readable_iff_mapped [OF boot_ready install_mapping_run [OF boot_ready], of 2 "0x800fff"]
      install_mapping_run [OF boot_ready] by auto
qed

end
