(* ===== verification/Utf8.thy ===== *)
theory Utf8
  imports Kernel_Prelude
begin

text \<open>
  Rust's \<^verbatim>\<open>core::str::from_utf8\<close>, as far as the kernel uses it: whether a byte string is valid.
  The validator follows the library's tables of first and second bytes; it accepts exactly the
  concatenations of encoded scalar values.
\<close>

definition continuation :: "u8 \<Rightarrow> bool" where
  "continuation b \<longleftrightarrow> 0x80 \<le> b \<and> b \<le> 0xbf"

fun utf8_valid :: "u8 list \<Rightarrow> bool" where
  "utf8_valid [] = True"
| "utf8_valid (a # bs) =
     (if a < 0x80 then utf8_valid bs
      else if 0xc2 \<le> a \<and> a \<le> 0xdf then
        (case bs of b # rest \<Rightarrow> continuation b \<and> utf8_valid rest | _ \<Rightarrow> False)
      else if 0xe0 \<le> a \<and> a \<le> 0xef then
        (case bs of b # c # rest \<Rightarrow>
           (if a = 0xe0 then 0xa0 \<le> b \<and> b \<le> 0xbf
            else if a = 0xed then 0x80 \<le> b \<and> b \<le> 0x9f
            else continuation b) \<and> continuation c \<and> utf8_valid rest
         | _ \<Rightarrow> False)
      else if 0xf0 \<le> a \<and> a \<le> 0xf4 then
        (case bs of b # c # d # rest \<Rightarrow>
           (if a = 0xf0 then 0x90 \<le> b \<and> b \<le> 0xbf
            else if a = 0xf4 then 0x80 \<le> b \<and> b \<le> 0x8f
            else continuation b) \<and> continuation c \<and> continuation d \<and> utf8_valid rest
         | _ \<Rightarrow> False)
      else False)"

text \<open>Unicode scalar values and their encoding.\<close>

definition scalar_value :: "nat \<Rightarrow> bool" where
  "scalar_value c \<longleftrightarrow> c < 0xd800 \<or> 0xe000 \<le> c \<and> c < 0x110000"

definition utf8_encode :: "nat \<Rightarrow> nat list" where
  "utf8_encode c =
     (if c < 0x80 then [c]
      else if c < 0x800 then [0xc0 + c div 64, 0x80 + c mod 64]
      else if c < 0x10000 then [0xe0 + c div 4096, 0x80 + c div 64 mod 64, 0x80 + c mod 64]
      else [0xf0 + c div 262144, 0x80 + c div 4096 mod 64, 0x80 + c div 64 mod 64, 0x80 + c mod 64])"

definition utf8_text :: "nat list \<Rightarrow> u8 list" where
  "utf8_text cs = map of_nat (concat (map utf8_encode cs))"

lemma utf8_text_simps [simp]:
  "utf8_text [] = []" "utf8_text (c # cs) = map of_nat (utf8_encode c) @ utf8_text cs"
  by (simp_all add: utf8_text_def)

lemma u8_order:
  "x < 256 \<Longrightarrow> (of_nat x :: u8) \<le> b \<longleftrightarrow> x \<le> unat b" "x < 256 \<Longrightarrow> b \<le> (of_nat x :: u8) \<longleftrightarrow> unat b \<le> x"
  "x < 256 \<Longrightarrow> (of_nat x :: u8) < b \<longleftrightarrow> x < unat b" "x < 256 \<Longrightarrow> (of_nat x :: u8) = b \<longleftrightarrow> x = unat b"
  by (auto simp: word_le_nat_alt word_less_nat_alt unsigned_of_nat take_bit_nat_eq_self)

text \<open>The split of a number into the digits of its encoding.\<close>

lemma digits_64:
  "c div 64 * 64 + c mod 64 = (c :: nat)" "c div 4096 * 4096 + c div 64 mod 64 * 64 + c mod 64 = c"
  "c div 262144 * 262144 + c div 4096 mod 64 * 4096 + c div 64 mod 64 * 64 + c mod 64 = c"
proof -
  have a: "c div 4096 = c div 64 div 64" "c div 262144 = c div 64 div 64 div 64"
    by (simp_all add: div_mult2_eq [symmetric])
  show "c div 64 * 64 + c mod 64 = c" by simp
  have b: "c div 64 div 64 * 64 + c div 64 mod 64 = c div 64" by simp
  then show "c div 4096 * 4096 + c div 64 mod 64 * 64 + c mod 64 = c"
    unfolding a using div_mult_mod_eq [of c 64] by linarith
  have "c div 64 div 64 div 64 * 64 + c div 64 div 64 mod 64 = c div 64 div 64" by simp
  then show "c div 262144 * 262144 + c div 4096 mod 64 * 4096 + c div 64 mod 64 * 64 + c mod 64 = c"
    unfolding a using b div_mult_mod_eq [of c 64] by linarith
qed

lemma continuation_of_nat: "k < 64 \<Longrightarrow> continuation (of_nat (0x80 + k))"
  by (simp add: continuation_def word_le_nat_alt unat_word_ariths unsigned_of_nat take_bit_nat_eq_self)

text \<open>Which digits make a well-formed sequence of two, three or four bytes.\<close>

definition digits3 :: "nat \<Rightarrow> nat \<Rightarrow> nat \<Rightarrow> bool" where
  "digits3 q r s \<longleftrightarrow> q < 16 \<and> r < 64 \<and> s < 64 \<and> (q = 0 \<longrightarrow> 32 \<le> r) \<and> (q = 13 \<longrightarrow> r < 32)"

definition digits4 :: "nat \<Rightarrow> nat \<Rightarrow> nat \<Rightarrow> nat \<Rightarrow> bool" where
  "digits4 q r s t \<longleftrightarrow> q < 5 \<and> r < 64 \<and> s < 64 \<and> t < 64 \<and> (q = 0 \<longrightarrow> 16 \<le> r) \<and> (q = 4 \<longrightarrow> r < 16)"

lemma unat_u8: "x < 256 \<Longrightarrow> unat (of_nat x :: u8) = x"
  by (simp add: unsigned_of_nat take_bit_nat_eq_self)

lemma valid_sequences:
  "x < 0x80 \<Longrightarrow> utf8_valid (of_nat x # bs) = utf8_valid bs"
  "2 \<le> q \<Longrightarrow> q < 32 \<Longrightarrow> r < 64 \<Longrightarrow> utf8_valid (of_nat (0xc0 + q) # of_nat (0x80 + r) # bs) = utf8_valid bs"
  "digits3 q r s \<Longrightarrow> utf8_valid (of_nat (0xe0 + q) # of_nat (0x80 + r) # of_nat (0x80 + s) # bs) = utf8_valid bs"
  "digits4 q r s t \<Longrightarrow> utf8_valid (of_nat (0xf0 + q) # of_nat (0x80 + r) # of_nat (0x80 + s)
     # of_nat (0x80 + t) # bs) = utf8_valid bs"
  by (auto simp: digits3_def digits4_def u8_order continuation_def simp del: of_nat_add)

lemma digit_split:
  "s < (64 :: nat) \<Longrightarrow> c = n * 64 + s \<Longrightarrow> c div 64 = n"
  "s < (64 :: nat) \<Longrightarrow> c = n * 64 + s \<Longrightarrow> c mod 64 = s"
  by simp_all

lemma encode_digits:
  "2 \<le> q \<Longrightarrow> q < 32 \<Longrightarrow> r < 64 \<Longrightarrow> utf8_encode (q * 64 + r) = [0xc0 + q, 0x80 + r]"
  "digits3 q r s \<Longrightarrow> utf8_encode (q * 4096 + r * 64 + s) = [0xe0 + q, 0x80 + r, 0x80 + s]"
  "digits4 q r s t \<Longrightarrow> utf8_encode (q * 262144 + r * 4096 + s * 64 + t) = [0xf0 + q, 0x80 + r, 0x80 + s, 0x80 + t]"
proof -
  show "2 \<le> q \<Longrightarrow> q < 32 \<Longrightarrow> r < 64 \<Longrightarrow> utf8_encode (q * 64 + r) = [0xc0 + q, 0x80 + r]"
    by (simp add: utf8_encode_def)
  assume d: "digits3 q r s"
  let ?c = "q * 4096 + r * 64 + s"
  have a: "?c div 64 = q * 64 + r" "?c mod 64 = s"
    by (rule digit_split [of s _ "q * 64 + r"]; use d in \<open>simp add: digits3_def\<close>)+
  have "?c div 64 div 64 = q" "?c div 64 mod 64 = r"
    unfolding a by (rule digit_split [of r _ q]; use d in \<open>simp add: digits3_def\<close>)+
  moreover from this have "?c div 4096 = q" using div_mult2_eq [of ?c 64 64] by simp
  moreover have "2048 \<le> ?c" "?c < 65536" using d unfolding digits3_def by (cases "q = 0"; linarith)+
  ultimately show "utf8_encode ?c = [0xe0 + q, 0x80 + r, 0x80 + s]"
    using a by (simp add: utf8_encode_def)
next
  assume d: "digits4 q r s t"
  let ?c = "q * 262144 + r * 4096 + s * 64 + t"
  have a: "?c div 64 = (q * 64 + r) * 64 + s" "?c mod 64 = t"
    by (rule digit_split [of t _ "(q * 64 + r) * 64 + s"]; use d in \<open>simp add: digits4_def\<close>)+
  have b: "?c div 64 div 64 = q * 64 + r" "?c div 64 mod 64 = s"
    unfolding a by (rule digit_split [of s _ "q * 64 + r"]; use d in \<open>simp add: digits4_def\<close>)+
  have c: "?c div 64 div 64 div 64 = q" "?c div 64 div 64 mod 64 = r"
    unfolding b by (rule digit_split [of r _ q]; use d in \<open>simp add: digits4_def\<close>)+
  have "?c div 4096 = ?c div 64 div 64" "?c div 262144 = ?c div 64 div 64 div 64"
    by (simp_all only: div_mult2_eq [symmetric]) simp_all
  moreover have "65536 \<le> ?c" using d unfolding digits4_def by (cases "q = 0"; linarith)
  ultimately show "utf8_encode ?c = [0xf0 + q, 0x80 + r, 0x80 + s, 0x80 + t]"
    using a b c by (simp add: utf8_encode_def)
qed

lemma scalar_digits:
  "scalar_value c \<Longrightarrow> 0x800 \<le> c \<Longrightarrow> c < 0x10000 \<Longrightarrow> digits3 (c div 4096) (c div 64 mod 64) (c mod 64)"
  "scalar_value c \<Longrightarrow> 0x10000 \<le> c \<Longrightarrow>
     digits4 (c div 262144) (c div 4096 mod 64) (c div 64 mod 64) (c mod 64)"
  using digits_64(2,3) [of c] mod_less_divisor [of 64 c] mod_less_divisor [of 64 "c div 64"]
    mod_less_divisor [of 64 "c div 4096"]
  unfolding digits3_def digits4_def scalar_value_def by linarith+

lemma digits_scalar:
  "2 \<le> q \<Longrightarrow> q < 32 \<Longrightarrow> r < 64 \<Longrightarrow> scalar_value (q * 64 + r)"
  "digits3 q r s \<Longrightarrow> scalar_value (q * 4096 + r * 64 + s)"
  "digits4 q r s t \<Longrightarrow> scalar_value (q * 262144 + r * 4096 + s * 64 + t)"
proof -
  show "2 \<le> q \<Longrightarrow> q < 32 \<Longrightarrow> r < 64 \<Longrightarrow> scalar_value (q * 64 + r)"
    unfolding scalar_value_def by linarith
  assume d: "digits3 q r s"
  have "q \<le> 12 \<or> q = 13 \<or> 14 \<le> q" by linarith
  then show "scalar_value (q * 4096 + r * 64 + s)"
    using d unfolding digits3_def scalar_value_def by (elim disjE) linarith+
next
  assume d: "digits4 q r s t"
  have "q = 0 \<or> 1 \<le> q \<and> q \<le> 3 \<or> q = 4" using d unfolding digits4_def by linarith
  then show "scalar_value (q * 262144 + r * 4096 + s * 64 + t)"
    using d unfolding digits4_def scalar_value_def by (elim disjE) linarith+
qed

lemma utf8_valid_encode:
  assumes "scalar_value c"
  shows "utf8_valid (map of_nat (utf8_encode c) @ bs) = utf8_valid bs"
proof -
  consider "c < 0x80" | "0x80 \<le> c" "c < 0x800" | "0x800 \<le> c" "c < 0x10000" | "0x10000 \<le> c" by linarith
  then show ?thesis
  proof cases
    case 1
    then show ?thesis using valid_sequences(1) by (simp add: utf8_encode_def)
  next
    case 2
    then have e: "map of_nat (utf8_encode c) @ bs = of_nat (0xc0 + c div 64) # of_nat (0x80 + c mod 64) # bs"
      by (simp add: utf8_encode_def)
    have "2 \<le> c div 64" "c div 64 < 32" using 2 by linarith+
    then show ?thesis unfolding e by (rule valid_sequences(2)) simp
  next
    case 3
    then have e: "map of_nat (utf8_encode c) @ bs =
        of_nat (0xe0 + c div 4096) # of_nat (0x80 + c div 64 mod 64) # of_nat (0x80 + c mod 64) # bs"
      by (simp add: utf8_encode_def)
    show ?thesis unfolding e by (rule valid_sequences(3) [OF scalar_digits(1) [OF assms 3]])
  next
    case 4
    then have e: "map of_nat (utf8_encode c) @ bs = of_nat (0xf0 + c div 262144)
        # of_nat (0x80 + c div 4096 mod 64) # of_nat (0x80 + c div 64 mod 64) # of_nat (0x80 + c mod 64) # bs"
      by (simp add: utf8_encode_def)
    show ?thesis unfolding e by (rule valid_sequences(4) [OF scalar_digits(2) [OF assms 4]])
  qed
qed

lemma utf8_valid_text: "list_all scalar_value cs \<Longrightarrow> utf8_valid (utf8_text cs)"
  by (induction cs) (simp_all add: utf8_valid_encode)

text \<open>A valid string starts with the encoding of a scalar value.\<close>

lemma u8_split: "x \<le> unat (b :: u8) \<Longrightarrow> b = of_nat (x + (unat b - x))"
  by simp

lemma utf8_valid_first:
  assumes "utf8_valid (a # bs)"
  shows "\<exists>c rest. a # bs = map of_nat (utf8_encode c) @ rest \<and> scalar_value c \<and> utf8_valid rest"
proof -
  let ?d = "\<lambda>x b. unat b - (x :: nat)"
  consider "a < 0x80" | "0xc2 \<le> a" "a \<le> 0xdf" | "0xe0 \<le> a" "a \<le> 0xef" | "0xf0 \<le> a" "a \<le> 0xf4"
    using assms by (auto split: if_splits)
  then show ?thesis
  proof cases
    case 1
    have "a # bs = map of_nat (utf8_encode (unat a)) @ bs" "scalar_value (unat a)"
      using 1 by (simp_all add: utf8_encode_def scalar_value_def word_less_nat_alt)
    moreover have "utf8_valid bs" using assms 1 by simp
    ultimately show ?thesis by blast
  next
    case 2
    have "\<not> a < 0x80" using 2 by (simp add: word_le_nat_alt word_less_nat_alt)
    then obtain b rest where bs: "bs = b # rest" "continuation b" "utf8_valid rest"
      using assms 2 by (auto split: list.splits)
    have q: "2 \<le> ?d 0xc0 a" "?d 0xc0 a < 32" "?d 0x80 b < 64"
      using 2 bs(2) by (auto simp: word_le_nat_alt continuation_def)
    have "a = of_nat (0xc0 + ?d 0xc0 a)" "b = of_nat (0x80 + ?d 0x80 b)"
      by (rule u8_split; use 2 bs(2) in \<open>simp add: word_le_nat_alt continuation_def\<close>)+
    then have "a # bs = map of_nat (utf8_encode (?d 0xc0 a * 64 + ?d 0x80 b)) @ rest"
      unfolding encode_digits(1) [OF q] by (simp add: bs(1) del: of_nat_add)
    then show ?thesis using digits_scalar(1) [OF q] bs(3) by blast
  next
    case 3
    have "\<not> a < 0x80" "\<not> (0xc2 \<le> a \<and> a \<le> 0xdf)" using 3 by (auto simp: word_le_nat_alt word_less_nat_alt)
    then obtain b c rest where bs: "bs = b # c # rest" "continuation c" "utf8_valid rest"
        "if a = 0xe0 then 0xa0 \<le> b \<and> b \<le> 0xbf else if a = 0xed then 0x80 \<le> b \<and> b \<le> 0x9f else continuation b"
      using assms 3 by (auto split: list.splits)
    have b: "0x80 \<le> unat b" "unat b \<le> 0xbf"
      using bs(4) by (auto simp: word_le_nat_alt continuation_def split: if_splits)
    have q: "digits3 (?d 0xe0 a) (?d 0x80 b) (?d 0x80 c)"
      using 3 bs(2,4) b by (auto simp: digits3_def word_le_nat_alt continuation_def word_unat_eq_iff split: if_splits)
    have "a = of_nat (0xe0 + ?d 0xe0 a)" "b = of_nat (0x80 + ?d 0x80 b)" "c = of_nat (0x80 + ?d 0x80 c)"
      by (rule u8_split; use 3 bs(2) b in \<open>simp add: word_le_nat_alt continuation_def\<close>)+
    then have "a # bs = map of_nat (utf8_encode (?d 0xe0 a * 4096 + ?d 0x80 b * 64 + ?d 0x80 c)) @ rest"
      unfolding encode_digits(2) [OF q] by (simp add: bs(1) del: of_nat_add)
    then show ?thesis using digits_scalar(2) [OF q] bs(3) by blast
  next
    case 4
    have "\<not> a < 0x80" "\<not> (0xc2 \<le> a \<and> a \<le> 0xdf)" "\<not> (0xe0 \<le> a \<and> a \<le> 0xef)"
      using 4 by (auto simp: word_le_nat_alt word_less_nat_alt)
    then obtain b c d rest where bs: "bs = b # c # d # rest" "continuation c" "continuation d" "utf8_valid rest"
        "if a = 0xf0 then 0x90 \<le> b \<and> b \<le> 0xbf else if a = 0xf4 then 0x80 \<le> b \<and> b \<le> 0x8f else continuation b"
      using assms 4 by (auto split: list.splits)
    have b: "0x80 \<le> unat b" "unat b \<le> 0xbf"
      using bs(5) by (auto simp: word_le_nat_alt continuation_def split: if_splits)
    have q: "digits4 (?d 0xf0 a) (?d 0x80 b) (?d 0x80 c) (?d 0x80 d)"
      using 4 bs(2,3,5) b by (auto simp: digits4_def word_le_nat_alt continuation_def word_unat_eq_iff split: if_splits)
    have "a = of_nat (0xf0 + ?d 0xf0 a)" "b = of_nat (0x80 + ?d 0x80 b)" "c = of_nat (0x80 + ?d 0x80 c)"
        "d = of_nat (0x80 + ?d 0x80 d)"
      by (rule u8_split; use 4 bs(2,3) b in \<open>simp add: word_le_nat_alt continuation_def\<close>)+
    then have "a # bs = map of_nat (utf8_encode (?d 0xf0 a * 262144 + ?d 0x80 b * 4096 + ?d 0x80 c * 64 + ?d 0x80 d)) @ rest"
      unfolding encode_digits(3) [OF q] by (simp add: bs(1) del: of_nat_add)
    then show ?thesis using digits_scalar(3) [OF q] bs(4) by blast
  qed
qed

lemma encode_nonempty: "utf8_encode c \<noteq> []"
  by (simp add: utf8_encode_def)

lemma utf8_valid_iff: "utf8_valid bs \<longleftrightarrow> (\<exists>cs. list_all scalar_value cs \<and> bs = utf8_text cs)"
proof
  show "\<exists>cs. list_all scalar_value cs \<and> bs = utf8_text cs \<Longrightarrow> utf8_valid bs" using utf8_valid_text by blast
  show "utf8_valid bs \<Longrightarrow> \<exists>cs. list_all scalar_value cs \<and> bs = utf8_text cs"
  proof (induction "length bs" arbitrary: bs rule: less_induct)
    case less
    show ?case
    proof (cases bs)
      case Nil
      then show ?thesis by (intro exI [of _ "[]"]) simp
    next
      case (Cons a t)
      then obtain c rest where c: "bs = map of_nat (utf8_encode c) @ rest" "scalar_value c" "utf8_valid rest"
        using utf8_valid_first less.prems by blast
      then have "length rest < length bs" using encode_nonempty [of c] by simp
      then obtain cs where "list_all scalar_value cs" "rest = utf8_text cs" using less.hyps c(3) by blast
      then show ?thesis using c by (intro exI [of _ "c # cs"]) simp
    qed
  qed
qed

end
