(* ===== verification/Syscall.thy ===== *)
theory Syscall
  imports User_Mapping Trap Utf8
begin

text \<open>
  System calls (\<^verbatim>\<open>src/kernel/syscall.rs\<close>, and the context check of \<^verbatim>\<open>src/kernel/usermode.rs\<close>):
  the SYSENTER registers, the dispatcher with its table of 128 services, and the text service.
  A read of user memory is a function that may fault (\<open>None\<close>), so that the absence of faults is
  something to prove. A service returns what it printed and its result.
\<close>

section \<open>Constants, frames and results\<close>

type_synonym i64 = "64 word"

definition WRITE :: u64 where "WRITE = 1"
definition MAX_WRITE :: usize where "MAX_WRITE = 256"
definition ENOSYS :: i64 where "ENOSYS = -38"
definition EFAULT :: i64 where "EFAULT = -14"
definition EINVAL :: i64 where "EINVAL = -22"

record syscall_frame =
  r15 :: u64
  r14 :: u64
  r13 :: u64
  r12 :: u64
  r11 :: u64
  r10 :: u64
  r9 :: u64
  r8 :: u64
  rsi :: u64
  rdi :: u64
  rbp :: u64
  rdx :: u64
  rcx :: u64
  rbx :: u64
  rax :: u64

type_synonym user_memory = "u64 \<Rightarrow> u8 option"
type_synonym service = "syscall_frame \<Rightarrow> (message list \<times> i64) res"

datatype syscall_outcome = Halted | Resumed i64

section \<open>The SYSENTER registers\<close>

type_synonym msrs = "u32 \<Rightarrow> u64"

definition write_msr :: "u32 \<Rightarrow> u64 \<Rightarrow> msrs \<Rightarrow> msrs res" where
  "write_msr i v m =
     (let eax = (ucast v :: u32); edx = (ucast (drop_bit 32 v) :: u32);
          m' = m(i := push_bit 32 (ucast edx) OR ucast eax);
          low = (ucast (m' i) :: u32); high = (ucast (drop_bit 32 (m' i)) :: u32)
      in bind_res (ensure (ucast low OR push_bit 32 (ucast high) = v) ''u64::from(low) | (u64::from(high) << 32) == value'')
           (\<lambda>_. Inr m'))"

definition syscall_enable :: "bool \<Rightarrow> u64 \<Rightarrow> usize \<Rightarrow> msrs \<Rightarrow> msrs res" where
  "syscall_enable interrupts_enabled entry stack_top m =
     bind_res (ensure (\<not> interrupts_enabled) ''!arch::interrupts_enabled()'') (\<lambda>_.
     bind_res (ensure (stack_top mod 16 = 0) ''stack_top % 16 == 0'') (\<lambda>_.
     bind_res (write_msr 0x175 (of_nat stack_top) m) (\<lambda>m1.
     bind_res (write_msr 0x176 entry m1) (\<lambda>m2.
     write_msr 0x174 8 m2))))"

definition syscall_disable :: "msrs \<Rightarrow> msrs res" where
  "syscall_disable m =
     bind_res (write_msr 0x174 0 m) (\<lambda>m1.
     bind_res (write_msr 0x175 0 m1) (\<lambda>m2.
     write_msr 0x176 0 m2))"

section \<open>Services\<close>

definition unimplemented :: service where
  "unimplemented frame = Inr ([], ENOSYS)"

text \<open>The copy of the user buffer into the kernel's array.\<close>

definition copy_from_user :: "user_memory \<Rightarrow> u64 \<Rightarrow> nat \<Rightarrow> u8 list res" where
  "copy_from_user mem address len =
     for_res [0..<len] (\<lambda>offset copy. bind_res (expect (mem (address + of_nat offset)) ''page fault'')
       (\<lambda>byte. Inr (copy[offset := byte]))) (replicate MAX_WRITE 0)"

definition bytes_text :: "u8 list \<Rightarrow> string" where
  "bytes_text bs = map (\<lambda>b. char_of (unat b)) bs"

definition write_text :: "user_memory \<Rightarrow> service" where
  "write_text mem frame =
     (let len = rsi frame in
      if len > of_nat MAX_WRITE then Inr ([], EINVAL)
      else if len = 0 then Inr ([], 0)
      else if \<not> readable (rdi frame) len then Inr ([], EFAULT)
      else bind_res (copy_from_user mem (rdi frame) (unat len)) (\<lambda>copy.
        let text = take (unat len) copy in
        if \<not> utf8_valid text then Inr ([], EINVAL)
        else Inr ([(GREEN, bytes_text text)], len)))"

definition SERVICES :: "user_memory \<Rightarrow> service list" where
  "SERVICES mem = (replicate 128 unimplemented)[unat WRITE := write_text mem]"

section \<open>Dispatch\<close>

text \<open>The context of a call: the return stack, the TSS, and the address of the frame on the stack.\<close>

record user_context =
  return_bottom :: usize
  user_active :: bool
  context_tss :: tss
  user_code_size :: usize

definition return_top :: "user_context \<Rightarrow> usize" where
  "return_top ctx = uadd (return_bottom ctx) 32768"

definition valid_syscall :: "user_context \<Rightarrow> usize \<Rightarrow> syscall_frame \<Rightarrow> bool" where
  "valid_syscall ctx frame_address frame \<longleftrightarrow>
     user_active ctx
     \<and> kernel_stack (context_tss ctx) = of_nat (return_top ctx)
     \<and> (uadd (return_bottom ctx) 8 \<le> frame_address \<and> frame_address \<le> usub (return_top ctx) 120)
     \<and> (CODE \<le> rdx frame \<and> rdx frame < CODE + of_nat (user_code_size ctx))
     \<and> (STACK \<le> rcx frame \<and> rcx frame < STACK_TOP)"

definition system_call_dispatch ::
  "user_memory \<Rightarrow> user_context \<Rightarrow> bool \<Rightarrow> usize \<Rightarrow> syscall_frame \<Rightarrow> (message list \<times> syscall_outcome) res" where
  "system_call_dispatch mem ctx interrupts_enabled frame_address frame =
     bind_res (ensure (\<not> interrupts_enabled) ''!arch::interrupts_enabled()'') (\<lambda>_.
     if \<not> valid_syscall ctx frame_address frame
     then Inr ([(RED, ''SYSENTER rejected invalid return context'' @ [CHR 0x0a])], Halted)
     else bind_res
       ((if unat (rax frame) < length (SERVICES mem) then SERVICES mem ! unat (rax frame) else unimplemented) frame)
       (\<lambda>(printed, r). Inr (printed, Resumed r)))"

section \<open>Lemmas\<close>

lemma msr_value:
  fixes v :: u64
  shows "push_bit 32 (ucast (ucast (drop_bit 32 v) :: u32)) OR ucast (ucast v :: u32) = v"
proof (rule bit_word_eqI)
  fix k assume k: "k < LENGTH(64)"
  consider "k < 32" | j where "k = 32 + j" by (metis le_add_diff_inverse not_less)
  then show "bit (push_bit 32 (ucast (ucast (drop_bit 32 v) :: u32)) OR ucast (ucast v :: u32) :: u64) k = bit v k"
    using k by cases (auto simp: bit_simps)
qed

lemma write_msr_run: "write_msr i v m = Inr (m(i := v))"
proof -
  have "ucast (ucast v :: u32) OR push_bit 32 (ucast (ucast (drop_bit 32 v) :: u32)) = v"
    using msr_value [of v] by (simp only: or.commute)
  then show ?thesis unfolding write_msr_def Let_def fun_upd_same msr_value by simp
qed

lemma copy_from_user_run:
  assumes "len \<le> 256" "\<And>k. k < len \<Longrightarrow> mem (address + of_nat k) = Some (f k)"
  shows "\<exists>copy. copy_from_user mem address len = Inr copy \<and> take len copy = map f [0..<len]"
proof -
  let ?I = "\<lambda>i copy. length copy = 256 \<and> take i copy = map f [0..<i]"
  have "\<exists>copy. copy_from_user mem address len = Inr copy \<and> ?I len copy"
    unfolding copy_from_user_def
  proof (rule for_range_total)
    show "?I 0 (replicate MAX_WRITE 0)" by (simp add: MAX_WRITE_def)
    fix i copy assume "i < len" "?I i copy"
    then show "\<exists>copy'. bind_res (expect (mem (address + of_nat i)) ''page fault'') (\<lambda>byte. Inr (copy[i := byte])) = Inr copy'
        \<and> ?I (Suc i) copy'"
      using assms by (auto simp: take_Suc_conv_app_nth)
  qed simp
  then show ?thesis by blast
qed

lemma SERVICES_nth:
  "(if unat n < length (SERVICES mem) then SERVICES mem ! unat n else unimplemented) =
     (if n = WRITE then write_text mem else unimplemented)"
proof (cases "n = WRITE")
  case True
  then show ?thesis by (simp add: SERVICES_def WRITE_def)
next
  case False
  then have "unat n \<noteq> unat WRITE" by (simp add: word_unat_eq_iff)
  then show ?thesis using False by (simp add: SERVICES_def)
qed

section \<open>Properties\<close>

text \<open>
  The SYSENTER registers: enabling programs the kernel code selector, the stack and the entry,
  each read back in full 64 bits; disabling leaves all three zero and every other register as it
  was, so that no later SYSENTER can reach the withdrawn environment.
\<close>

theorem sysenter_registers:
  assumes "stack_top mod 16 = 0"
  shows "\<exists>m1 m2. syscall_enable False entry stack_top m = Inr m1
    \<and> m1 0x174 = 8 \<and> m1 0x175 = of_nat stack_top \<and> m1 0x176 = entry
    \<and> syscall_disable m1 = Inr m2 \<and> m2 = m(0x174 := 0, 0x175 := 0, 0x176 := 0)"
  using assms by (simp add: syscall_enable_def syscall_disable_def write_msr_run fun_upd_twist)

theorem sysenter_registers_witness:
  "\<exists>m1 m2. syscall_enable False 0x1234 0x8000 (\<lambda>_. 7) = Inr m1 \<and> m1 0x174 = 8
    \<and> syscall_disable m1 = Inr m2 \<and> m2 0x174 = 0 \<and> m2 0x10 = 7"
proof -
  have "(0x8000 :: nat) mod 16 = 0" by simp
  from sysenter_registers [OF this, of "0x1234" "\<lambda>_. 7"]
  obtain m1 m2 where "syscall_enable False 0x1234 0x8000 (\<lambda>_. 7) = Inr m1" "m1 0x174 = 8"
      "syscall_disable m1 = Inr m2" "m2 = (\<lambda>_. 7)(0x174 := 0, 0x175 := 0, 0x176 := 0)" by metis
  then show ?thesis by (intro exI [of _ m1] exI [of _ m2]) simp
qed

text \<open>
  The contract of a system call, in terms of what the user program itself can read: only call 1
  exists; it refuses more than 256 bytes, ranges the user cannot read, and bytes that are not
  UTF-8, prints nothing when it fails, and prints exactly the user's bytes otherwise.
\<close>

definition spec_syscall :: "user_memory \<Rightarrow> u64 \<Rightarrow> u64 \<Rightarrow> u64 \<Rightarrow> message list \<times> i64" where
  "spec_syscall mem number address len =
     (let cells = map (\<lambda>k. mem (address + of_nat k)) [0..<unat len]; bytes = map the cells in
      if number \<noteq> 1 then ([], ENOSYS)
      else if unat len > 256 then ([], EINVAL)
      else if None \<in> set cells then ([], EFAULT)
      else if \<not> utf8_valid bytes then ([], EINVAL)
      else (if bytes = [] then [] else [(GREEN, bytes_text bytes)], len))"

text \<open>User memory behind the page tables: a byte of physical memory at the translated address.\<close>

definition mapped_memory :: "(u64 \<Rightarrow> u8) \<Rightarrow> u64 \<Rightarrow> table_memory \<Rightarrow> user_memory" where
  "mapped_memory physical_bytes cr3 m va = map_option (\<lambda>(pa, w, x). physical_bytes pa) (user_access PAGE_OFFSET m cr3 va)"

lemma no_empty_cell: "None \<notin> set (map f [0..<n]) \<longleftrightarrow> (\<forall>k<n. f k \<noteq> None)"
proof -
  have eq: "None \<in> set (map f [0..<n]) \<longleftrightarrow> (\<exists>k<n. f k = None)"
    by (simp add: image_iff) (metis atLeastLessThan_iff le0)
  show ?thesis unfolding eq by simp
qed

lemma readable_cells:
  assumes "\<And>va. mem va = None \<longleftrightarrow> user_page physical va = None" "len \<noteq> 0"
  shows "readable address len \<longleftrightarrow> None \<notin> set (map (\<lambda>k. mem (address + of_nat k)) [0..<unat len])"
proof -
  have "0 < len" using assms(2) by (simp add: word_gt_0)
  then show ?thesis unfolding no_empty_cell assms(1) by (rule readable_mapped)
qed

lemma write_text_spec:
  assumes "\<And>va. mem va = None \<longleftrightarrow> user_page physical va = None"
  shows "write_text mem frame = Inr (spec_syscall mem 1 (rdi frame) (rsi frame))"
proof -
  let ?cells = "map (\<lambda>k. mem (rdi frame + of_nat k)) [0..<unat (rsi frame)]"
  consider "unat (rsi frame) > 256" | "rsi frame = 0"
    | "unat (rsi frame) \<le> 256" "rsi frame \<noteq> 0" "None \<in> set ?cells"
    | "unat (rsi frame) \<le> 256" "rsi frame \<noteq> 0" "None \<notin> set ?cells" by linarith
  then show ?thesis
  proof cases
    case 1
    then show ?thesis by (simp add: write_text_def spec_syscall_def MAX_WRITE_def word_less_nat_alt Let_def)
  next
    case 2
    then show ?thesis by (simp add: write_text_def spec_syscall_def)
  next
    case 3
    then show ?thesis
      using readable_cells [OF assms 3(2), of "rdi frame"]
      by (simp add: write_text_def spec_syscall_def MAX_WRITE_def word_less_nat_alt Let_def)
  next
    case 4
    have r: "readable (rdi frame) (rsi frame)" using readable_cells [OF assms 4(2)] 4(3) by blast
    have cell: "mem (rdi frame + of_nat k) = Some (the (mem (rdi frame + of_nat k)))" if "k < unat (rsi frame)" for k
      using 4(3) that unfolding no_empty_cell by auto
    obtain copy where copy: "copy_from_user mem (rdi frame) (unat (rsi frame)) = Inr copy"
        "take (unat (rsi frame)) copy = map (\<lambda>k. the (mem (rdi frame + of_nat k))) [0..<unat (rsi frame)]"
      using copy_from_user_run [OF 4(1), of mem "rdi frame" "\<lambda>k. the (mem (rdi frame + of_nat k))"] cell by blast
    have n: "\<not> rsi frame > of_nat MAX_WRITE" "0 < unat (rsi frame)"
      using 4 by (simp_all add: MAX_WRITE_def word_less_nat_alt word_unat_eq_iff)
    show ?thesis
      unfolding write_text_def spec_syscall_def Let_def
      using 4 n r copy by (simp add: comp_def)
  qed
qed

lemma dispatch_refines:
  fixes physical_bytes :: "u64 \<Rightarrow> u8"
  assumes "mapping_ready cr3 pdpt pd pt physical m"
  defines "mem \<equiv> mapped_memory physical_bytes cr3 (installed cr3 pdpt pd pt physical m)"
  shows "system_call_dispatch mem ctx False frame_address frame = Inr
    (if valid_syscall ctx frame_address frame
     then (case spec_syscall mem (rax frame) (rdi frame) (rsi frame) of (printed, r) \<Rightarrow> (printed, Resumed r))
     else ([(RED, ''SYSENTER rejected invalid return context'' @ [CHR 0x0a])], Halted))"
proof -
  have none: "mem va = None \<longleftrightarrow> user_page physical va = None" for va
    by (simp add: mem_def mapped_memory_def user_access_installed [OF assms(1)])
  have "(if rax frame = WRITE then write_text mem else unimplemented) frame =
      Inr (spec_syscall mem (rax frame) (rdi frame) (rsi frame))"
    using write_text_spec [OF none, of frame] by (simp add: WRITE_def unimplemented_def spec_syscall_def)
  then show ?thesis
    unfolding system_call_dispatch_def SERVICES_nth
    by (cases "spec_syscall mem (rax frame) (rdi frame) (rsi frame)") simp
qed

lemma dispatch_total:
  assumes "mapping_ready cr3 pdpt pd pt physical m"
  shows "\<exists>printed outcome. system_call_dispatch (mapped_memory physical_bytes cr3 (installed cr3 pdpt pd pt physical m))
    ctx False frame_address frame = Inr (printed, outcome)"
  unfolding dispatch_refines [OF assms] by (simp split: prod.splits)

text \<open>
  C31. System calls refine their contract: with the user mapping installed, a call from the user
  program never panics and never faults on the program's pointers; with an invalid return context
  it stops without a service, and otherwise it prints and returns what the contract says, for every
  call number, address and length.
\<close>

theorem system_call_refines:
  fixes physical_bytes :: "u64 \<Rightarrow> u8"
  assumes "mapping_ready cr3 pdpt pd pt physical m" "install_mapping cr3 pdpt pd pt physical m = Inr m'"
  defines "mem \<equiv> mapped_memory physical_bytes cr3 m'"
  shows "\<exists>printed outcome. system_call_dispatch mem ctx False frame_address frame = Inr (printed, outcome)
    \<and> (if valid_syscall ctx frame_address frame
       then \<exists>r. outcome = Resumed r \<and> (printed, r) = spec_syscall mem (rax frame) (rdi frame) (rsi frame)
       else outcome = Halted)"
proof -
  have m': "m' = installed cr3 pdpt pd pt physical m" using install_mapping_run [OF assms(1)] assms(2) by simp
  show ?thesis
    unfolding mem_def m' dispatch_refines [OF assms(1)] by (auto split: prod.splits)
qed

text \<open>A program that prints two bytes of its stack.\<close>

definition example_context :: user_context where
  "example_context = \<lparr>return_bottom = 0x10000, user_active = True,
     context_tss = store_u64 TSS_INITIAL 4 0x18000, user_code_size = 0x1000\<rparr>"

definition example_frame :: syscall_frame where
  "example_frame = \<lparr>r15 = 0, r14 = 0, r13 = 0, r12 = 0, r11 = 0, r10 = 0, r9 = 0, r8 = 0, rsi = 2,
     rdi = 0x9ff000, rbp = 0, rdx = 0x800010, rcx = 0x9ff800, rbx = 0, rax = 1\<rparr>"

lemma example_valid: "valid_syscall example_context 0x17000 example_frame"
  by (simp add: valid_syscall_def example_context_def example_frame_def return_top_def kernel_stack_def
      tss_load length_TSS_INITIAL uadd_def usub_def layout_defs)

theorem system_call_refines_witness:
  "\<exists>m'. install_mapping 0x101000 (PAGE_OFFSET + 0x200000) (PAGE_OFFSET + 0x201000) (PAGE_OFFSET + 0x202000)
      0x400000 boot_tables = Inr m'
    \<and> system_call_dispatch (mapped_memory (\<lambda>pa. if pa = 0x401000 then 0x48 else 0x69) 0x101000 m')
        example_context False 0x17000 example_frame = Inr ([(GREEN, ''Hi'')], Resumed 2)"
proof -
  let ?m = "installed 0x101000 (PAGE_OFFSET + 0x200000) (PAGE_OFFSET + 0x201000) (PAGE_OFFSET + 0x202000) 0x400000 boot_tables"
  let ?mem = "mapped_memory (\<lambda>pa. if pa = 0x401000 then 0x48 else 0x69) 0x101000 ?m"
  have cells: "map (\<lambda>k. ?mem (0x9ff000 + of_nat k)) [0..<2] = [Some 0x48, Some 0x69]"
    by (simp add: upt_rec mapped_memory_def user_access_installed [OF boot_ready] user_page_def layout_defs)
  have "spec_syscall ?mem 1 0x9ff000 2 = ([(GREEN, ''Hi'')], 2)"
    unfolding spec_syscall_def Let_def using cells
    by (simp add: bytes_text_def char_of_def bit_0)
  moreover have "\<exists>printed outcome. system_call_dispatch ?mem example_context False 0x17000 example_frame = Inr (printed, outcome)
      \<and> (\<exists>r. outcome = Resumed r \<and> (printed, r) = spec_syscall ?mem 1 0x9ff000 2)"
    using system_call_refines [OF boot_ready install_mapping_run [OF boot_ready],
        of "\<lambda>pa. if pa = 0x401000 then 0x48 else 0x69" example_context "0x17000" example_frame] example_valid
    by (simp add: example_frame_def)
  ultimately show ?thesis using install_mapping_run [OF boot_ready] by auto
qed

end
