(* ===== verification/User_Session.thy ===== *)
theory User_Session
  imports Syscall Allocation
begin

text \<open>
  The user-mode demonstration (\<^verbatim>\<open>src/kernel/usermode.rs\<close>): preparation of the processor, the
  mapping, the run of a user program, the completion gate and the clean-up. The user program is
  not part of the kernel: it is any list of events at privilege level 3, byte stores, system calls,
  software interrupts, the completion among them, and exceptions. Memory of the run is bytes by kernel address; addresses of statics,
  CPUID, CR3 and the code segment are parameters in \<open>user_layout\<close>.
\<close>

section \<open>Constants and state\<close>

definition CANARY :: u64 where "CANARY = 0x4d494b4f55534552"
definition INPUT :: u64 where "INPUT = 0x1020304050607080"
definition RESULT :: u64 where "RESULT = word_rotl 7 (INPUT + 17)"

record user_layout =
  ul_cr3 :: u64
  ul_pdpt :: usize
  ul_pd :: usize
  ul_pt :: usize
  ul_return_bottom :: usize
  ul_user_start :: usize
  ul_user_end :: usize
  ul_user_demo :: usize
  ul_user_code :: "nat \<Rightarrow> u8"
  ul_return_entry :: u64
  ul_exception_255 :: u64
  ul_syscall_entry :: u64
  ul_cpuid :: "u32 \<Rightarrow> u32 \<times> u32 \<times> u32 \<times> u32"
  ul_cs :: u16

record user_machine =
  um_memory :: memory_descriptor
  um_tables :: table_memory
  um_bytes :: "nat \<Rightarrow> u8"
  um_tss :: tss
  um_idt :: idt
  um_msrs :: msrs
  um_cr0 :: u64
  um_active :: bool
  um_canary :: u64

section \<open>Preparation\<close>

text \<open>\<^verbatim>\<open>prepare_cpu\<close>: CPUID gives EAX, EBX, ECX, EDX of a leaf.\<close>

definition prepare_cpu :: "(u32 \<Rightarrow> u32 \<times> u32 \<times> u32 \<times> u32) \<Rightarrow> msrs \<times> u64 \<Rightarrow> (msrs \<times> u64) res" where
  "prepare_cpu cpuid = (\<lambda>(m, cr0).
     let (a0, b0, c0, d0) = cpuid 0; (a1, b1, c1, d1) = cpuid 1;
         (a8, b8, c8, d8) = cpuid 0x80000000; (a9, b9, c9, d9) = cpuid 0x80000001
     in bind_res (ensure ((b0, d0, c0) = (0x756e6547, 0x49656e69, 0x6c65746e)) ''SYSEXIT64 demo requires GenuineIntel'') (\<lambda>_.
        bind_res (ensure (d1 AND push_bit 11 1 \<noteq> 0) ''missing SEP'') (\<lambda>_.
        bind_res (ensure (0x80000001 \<le> a8) ''__cpuid(0x8000_0000).eax >= 0x8000_0001'') (\<lambda>_.
        bind_res (ensure (d9 AND push_bit 20 1 \<noteq> 0) ''missing NX'') (\<lambda>_.
        let low = (ucast (m 0xc0000080) :: u32); high = (ucast (drop_bit 32 (m 0xc0000080)) :: u32)
        in Inr (m(0xc0000080 := push_bit 32 (ucast high) OR ucast (low OR push_bit 11 1)),
                cr0 OR push_bit 16 1))))))"

definition user_code_bytes :: "user_layout \<Rightarrow> usize" where
  "user_code_bytes l = usub (ul_user_end l) (ul_user_start l)"

definition return_stack_top :: "user_layout \<Rightarrow> usize" where
  "return_stack_top l = uadd (ul_return_bottom l) 32768"

definition session_context :: "user_layout \<Rightarrow> user_machine \<Rightarrow> user_context" where
  "session_context l m = \<lparr>return_bottom = ul_return_bottom l, user_active = um_active m,
     context_tss = um_tss m, user_code_size = user_code_bytes l\<rparr>"

text \<open>What the kernel reads through the user mapping.\<close>

definition session_memory :: "user_layout \<Rightarrow> user_machine \<Rightarrow> user_memory" where
  "session_memory l m = mapped_memory (\<lambda>pa. um_bytes m (PAGE_OFFSET + unat pa)) (ul_cr3 l) (um_tables m)"

section \<open>The completion gate\<close>

definition assert_user_frame :: "interrupt_frame \<Rightarrow> unit res" where
  "assert_user_frame frame =
     bind_res (ensure ((cs frame, ss frame) = (0x2b, 0x33)) ''(frame.cs, frame.ss) == (0x2b, 0x33)'') (\<lambda>_.
     bind_res (ensure (rflags frame AND (push_bit 12 3 OR push_bit 9 1 OR push_bit 10 1) = 0) ''frame.rflags'') (\<lambda>_.
     ensure (STACK \<le> rsp frame \<and> rsp frame < STACK_TOP) ''(STACK..STACK_TOP).contains(&frame.rsp)''))"

definition return_messages :: "bool \<Rightarrow> message list" where
  "return_messages syscall_check =
     [(GREEN, ''System call demo OK: SYSENTER/SYSEXIT64 returned to ring3; write=19, ENOSYS=-38'' @ [CHR 0x0a])]
     @ (if syscall_check then [(GREEN, ''System call checks OK: GPRs, RSP, flags; number bounds, user ranges, length, UTF-8'' @ [CHR 0x0a])] else [])
     @ [(GREEN, ''User mode OK: CS=0x2b SS=0x33 CPL=3, Rust stack/result verified; INT 0x80 used TSS.RSP0'' @ [CHR 0x0a])]"

definition user_return_dispatch ::
  "user_layout \<Rightarrow> bool \<Rightarrow> user_machine \<Rightarrow> usize \<Rightarrow> interrupt_frame \<Rightarrow> (message list \<times> u64) res" where
  "user_return_dispatch l syscall_check m kernel_rsp frame =
     bind_res (ensure (um_active m) ''ACTIVE'') (\<lambda>_.
     bind_res (assert_user_frame frame) (\<lambda>_.
     bind_res (ensure (vector frame = 0x80) ''frame.vector == 0x80'') (\<lambda>_.
     bind_res (ensure (error frame = 0) ''frame.error == 0'') (\<lambda>_.
     bind_res (ensure (CODE \<le> rip frame \<and> rip frame < CODE + of_nat PAGE) ''(CODE..CODE + PAGE).contains(&frame.rip)'') (\<lambda>_.
     bind_res (ensure (uadd (ul_return_bottom l) 8 \<le> kernel_rsp \<and> kernel_rsp < return_stack_top l)
       ''(bottom + 8..top).contains(&rsp)'') (\<lambda>_.
     bind_res (ensure (kernel_stack (um_tss m) = of_nat (return_stack_top l)) ''gate::kernel_stack() == top'') (\<lambda>_.
     bind_res (ensure ((registers frame ! 9, registers frame ! 8) = (0x2b, 0x33)) ''(frame.registers[9], frame.registers[8])'') (\<lambda>_.
     bind_res (ensure (registers frame ! 14 = RESULT) ''frame.registers[14] == RESULT'') (\<lambda>_.
     bind_res (ensure (registers frame ! 11 = 0) ''user syscall checks failed'') (\<lambda>_.
     Inr (return_messages syscall_check, registers frame ! 14)))))))))))"

section \<open>A user program\<close>

text \<open>
  What a program can do: store a byte, call with \<^verbatim>\<open>SYSENTER\<close>, raise a vector with \<^verbatim>\<open>INT\<close>, or cause any other exception, with the
  value of CR2 it leaves. The completion interrupt is vector 0x80.
\<close>

datatype user_event = Store u64 u8 | Call usize syscall_frame | Raise nat usize interrupt_frame | Fault u64 interrupt_frame

abbreviation Finish :: "usize \<Rightarrow> interrupt_frame \<Rightarrow> user_event" where
  "Finish k frame \<equiv> Raise 0x80 k frame"

datatype user_end = Running | Faulted | Rejected | Finished u64

text \<open>
  The gate decides what an \<^verbatim>\<open>INT\<close> leads to: its vector if the gate is open to level 3, and else a general protection
  fault whose error code names the gate. The exception handler reports either and halts; CR2 shows in reports of vector 14 only.
\<close>

definition raised_frame :: "idt \<Rightarrow> nat \<Rightarrow> interrupt_frame \<Rightarrow> interrupt_frame" where
  "raised_frame idt n frame =
     (if n \<in> set (user_callable idt) then frame\<lparr>vector := of_nat n, error := 0\<rparr>
      else frame\<lparr>vector := 13, error := of_nat (8 * n + 2)\<rparr>)"

definition fault_report :: "u64 \<Rightarrow> interrupt_frame \<Rightarrow> message list" where
  "fault_report cr2 frame = fst (exception_dispatch None cr2 frame)"

text \<open>
  The program runs at level 3: a store goes through the page tables and needs write access, else
  the exception handler reports and halts; a call and the completion interrupt, while its gate is open, enter the kernel.
\<close>

fun run_user :: "user_layout \<Rightarrow> bool \<Rightarrow> user_event list \<Rightarrow> user_machine \<Rightarrow> (message list \<times> user_end \<times> user_machine) res" where
  "run_user l chk [] m = Inr ([], Running, m)"
| "run_user l chk (Store va b # es) m =
     (case user_access PAGE_OFFSET (um_tables m) (ul_cr3 l) va of
        Some (pa, True, x) \<Rightarrow> run_user l chk es (m\<lparr>um_bytes := (um_bytes m)(PAGE_OFFSET + unat pa := b)\<rparr>)
      | _ \<Rightarrow> Inr ([], Faulted, m))"
| "run_user l chk (Call frame_address frame # es) m =
     bind_res (system_call_dispatch (session_memory l m) (session_context l m) False frame_address frame)
       (\<lambda>(printed, outcome). case outcome of
          Halted \<Rightarrow> Inr (printed, Rejected, m)
        | Resumed r \<Rightarrow> bind_res (run_user l chk es m) (\<lambda>(more_printed, e, m'). Inr (printed @ more_printed, e, m')))"
| "run_user l chk (Raise n kernel_rsp frame # es) m =
     (if n = 0x80 \<and> n \<in> set (user_callable (um_idt m))
      then bind_res (user_return_dispatch l chk m kernel_rsp frame) (\<lambda>(printed, v). Inr (printed, Finished v, m))
      else Inr (fault_report 0 (raised_frame (um_idt m) n frame), Faulted, m))"
| "run_user l chk (Fault cr2 frame # es) m = Inr (fault_report cr2 frame, Faulted, m)"

section \<open>The demonstration\<close>

definition zero_bytes :: "usize \<Rightarrow> nat \<Rightarrow> (nat \<Rightarrow> u8) \<Rightarrow> nat \<Rightarrow> u8" where
  "zero_bytes a n b = (\<lambda>x. if a \<le> x \<and> x < a + n then 0 else b x)"

definition copy_bytes :: "(nat \<Rightarrow> u8) \<Rightarrow> usize \<Rightarrow> nat \<Rightarrow> (nat \<Rightarrow> u8) \<Rightarrow> nat \<Rightarrow> u8" where
  "copy_bytes source a n b = (\<lambda>x. if a \<le> x \<and> x < a + n then source (x - a) else b x)"

definition ready_message :: message where
  "ready_message = (GREEN, ''User mapping ready: code=0x800000 R-X, stack=0x9ff000 RW-NX; kernel supervisor'' @ [CHR 0x0a])"

definition sysenter_message :: message where
  "sysenter_message = (GREEN, ''SYSENTER ready: CS=0x8, dedicated kernel stack, 128 services'' @ [CHR 0x0a])"

definition cleanup_message :: message where
  "cleanup_message = (GREEN, ''User demo cleanup OK: ring0 restored, low mapping removed, page reclaimed'' @ [CHR 0x0a])"

text \<open>Up to the entry of user mode: the machine, the run, and the old kernel stack.\<close>

definition enter_user :: "user_layout \<Rightarrow> bool \<Rightarrow> user_machine \<Rightarrow> (user_machine \<times> page_run \<times> u64) res" where
  "enter_user l interrupts_enabled m =
     bind_res (ensure (\<not> interrupts_enabled) ''!arch::interrupts_enabled()'') (\<lambda>_.
     bind_res (ensure (\<not> um_active m) ''!ACTIVE'') (\<lambda>_.
     bind_res (prepare_cpu (ul_cpuid l) (um_msrs m, um_cr0 m)) (\<lambda>(msrs1, cr0).
     bind_res (allocate (um_memory m) Mapped 1) (\<lambda>(result, memory1).
     bind_res (expect_ok result ''no mapped page for user demo'') (\<lambda>run.
     let physical = physical_address run; backing = uadd PAGE_OFFSET physical;
         bytes1 = zero_bytes backing (umul PAGE 2) (um_bytes m); size = user_code_bytes l
     in bind_res (ensure (1 \<le> size \<and> size \<le> PAGE) ''(1..=PAGE).contains(&size)'') (\<lambda>_.
        bind_res (ensure (ul_user_demo l = ul_user_start l) ''user_demo == start'') (\<lambda>_.
        let bytes2 = copy_bytes (ul_user_code l) backing size bytes1 in
        bind_res (install_mapping (ul_cr3 l) (ul_pdpt l) (ul_pd l) (ul_pt l) physical (um_tables m)) (\<lambda>tables1.
        let old_stack = kernel_stack (um_tss m); top_address = return_stack_top l in
        bind_res (set_kernel_stack False (of_nat top_address) (um_tss m)) (\<lambda>tss1.
        bind_res (syscall_enable False (ul_syscall_entry l) top_address msrs1) (\<lambda>msrs2.
        Inr (m\<lparr>um_memory := memory1, um_tables := tables1, um_bytes := bytes2, um_tss := tss1,
               um_idt := set_user_return_gate (ul_exception_255 l) (Some (ul_return_entry l)) (um_idt m),
               um_msrs := msrs2, um_cr0 := cr0, um_active := True, um_canary := CANARY\<rparr>,
             run, old_stack)))))))))))"

text \<open>After the completion gate returned to the kernel.\<close>

definition leave_user :: "user_layout \<Rightarrow> bool \<Rightarrow> page_run \<Rightarrow> u64 \<Rightarrow> u64 \<Rightarrow> user_machine \<Rightarrow> user_machine res" where
  "leave_user l interrupts_enabled run old_stack result m =
     bind_res (ensure (result = RESULT) ''result == RESULT'') (\<lambda>_.
     bind_res (ensure (\<not> interrupts_enabled) ''!arch::interrupts_enabled()'') (\<lambda>_.
     bind_res (ensure (um_canary m = CANARY) ''bottom.cast::<u64>().read() == CANARY'') (\<lambda>_.
     bind_res (ensure (ul_cs l = 8) ''cs == 8'') (\<lambda>_.
     bind_res (syscall_disable (um_msrs m)) (\<lambda>msrs1.
     bind_res (set_kernel_stack False old_stack (um_tss m)) (\<lambda>tss1.
     let tables1 = remove_mapping (ul_cr3 l) (um_tables m) in
     bind_res (ensure (tables1 (user_root (ul_cr3 l)) = 0) ''root.read_volatile() == 0'') (\<lambda>_.
     bind_res (release (um_memory m) run) (\<lambda>memory1.
     Inr (m\<lparr>um_memory := memory1, um_tables := tables1, um_tss := tss1,
            um_idt := set_user_return_gate (ul_exception_255 l) None (um_idt m),
            um_msrs := msrs1, um_active := False\<rparr>)))))))))"

definition demonstrate_user ::
  "user_layout \<Rightarrow> bool \<Rightarrow> bool \<Rightarrow> user_event list \<Rightarrow> user_machine \<Rightarrow> (message list \<times> user_end \<times> user_machine) res" where
  "demonstrate_user l chk interrupts_enabled program m =
     bind_res (enter_user l interrupts_enabled m) (\<lambda>(m1, run, old_stack).
     bind_res (run_user l chk program m1) (\<lambda>(printed, e, m2).
     let before = [sysenter_message, ready_message] @ printed in
     case e of
       Finished result \<Rightarrow> bind_res (leave_user l interrupts_enabled run old_stack result m2)
         (\<lambda>m3. Inr (before @ [cleanup_message], Finished result, m3))
     | _ \<Rightarrow> Inr (before, e, m2)))"

text \<open>The fault experiments of the checking builds.\<close>

datatype user_fault = Fault_User_Kernel | Fault_User_Write | Fault_User_Exec | Fault_User_Privileged

definition verify_expected_fault :: "user_fault \<Rightarrow> bool \<Rightarrow> u64 \<Rightarrow> interrupt_frame \<Rightarrow> message list res" where
  "verify_expected_fault feature active cr2 frame =
     bind_res (ensure active ''ACTIVE'') (\<lambda>_.
     bind_res (assert_user_frame frame) (\<lambda>_.
     let (v, err, address, label) = (case feature of
           Fault_User_Kernel \<Rightarrow> (14, 5, of_nat PAGE_OFFSET + 0x100000, ''kernel read denied'')
         | Fault_User_Write \<Rightarrow> (14, 7, CODE, ''code write denied'')
         | Fault_User_Exec \<Rightarrow> (14, 21, STACK, ''stack execute denied'')
         | Fault_User_Privileged \<Rightarrow> (13, 0, 0, ''privileged HLT denied''))
     in bind_res (ensure ((vector frame, error frame) = (v, err)) ''(frame.vector, frame.error) == (vector, error)'') (\<lambda>_.
        bind_res (ensure (v = 14 \<longrightarrow> cr2 = address) ''arch::cr2() == address'') (\<lambda>_.
        bind_res (if feature = Fault_User_Exec then ensure (rip frame = STACK) ''frame.rip == STACK''
                  else ensure (CODE \<le> rip frame \<and> rip frame < CODE + of_nat PAGE) ''(CODE..CODE + PAGE).contains(&frame.rip)'') (\<lambda>_.
        Inr [(GREEN, ''User protection check OK: '' @ label @ ''; CPL=3'' @ [CHR 0x0a])])))))"

section \<open>A program cannot touch the kernel\<close>

text \<open>The stack half of the run, in kernel addresses.\<close>

definition stack_half :: "usize \<Rightarrow> nat \<Rightarrow> bool" where
  "stack_half physical a \<longleftrightarrow> PAGE_OFFSET + physical + 4096 \<le> a \<and> a < PAGE_OFFSET + physical + 8192"

definition user_confined :: "usize \<Rightarrow> user_machine \<Rightarrow> user_machine \<Rightarrow> bool" where
  "user_confined physical m m' \<longleftrightarrow> m' = m\<lparr>um_bytes := um_bytes m'\<rparr>
     \<and> (\<forall>a. \<not> stack_half physical a \<longrightarrow> um_bytes m' a = um_bytes m a)"

lemma confined_refl: "user_confined physical m m"
  by (simp add: user_confined_def)

lemma confined_trans: "user_confined physical m m' \<Longrightarrow> user_confined physical m' m'' \<Longrightarrow> user_confined physical m m''"
proof -
  assume a: "user_confined physical m m'" "user_confined physical m' m''"
  have "m'' = m'\<lparr>um_bytes := um_bytes m''\<rparr>" "m' = m\<lparr>um_bytes := um_bytes m'\<rparr>"
    using a by (auto simp: user_confined_def)
  then have "m'' = m\<lparr>um_bytes := um_bytes m''\<rparr>" by (metis user_machine.surjective user_machine.update_convs(3) user_machine.select_convs)
  then show ?thesis using a by (auto simp: user_confined_def)
qed

lemma writable_stack_half:
  assumes "user_page physical va = Some (pa, True, x)" "page_aligned (physical + 4096)"
  shows "stack_half physical (PAGE_OFFSET + unat pa)"
proof -
  have pa: "STACK \<le> va" "va < STACK_TOP" "pa = of_nat (physical + 4096) + (va - STACK)"
    using assms(1) by (auto simp: user_page_def PAGE_def split: if_splits)
  have lt: "unat (va - STACK) < 4096"
    using pa(1,2) by (simp add: unat_sub layout_defs word_le_nat_alt word_less_nat_alt)
  moreover have base: "unat (of_nat (physical + 4096) :: u64) = physical + 4096"
    by (rule unat_of_nat_u64) (use assms(2) in \<open>simp add: page_aligned_def\<close>)
  ultimately have "unat pa = physical + 4096 + unat (va - STACK)"
    unfolding pa(3) using unat_add_u64 [of "of_nat (physical + 4096)" "va - STACK"] assms(2)
    by (simp add: page_aligned_def)
  then show ?thesis using lt by (simp add: stack_half_def)
qed

lemma session_call:
  assumes "mapping_ready (ul_cr3 l) (ul_pdpt l) (ul_pd l) (ul_pt l) physical t"
    and "um_tables m = installed (ul_cr3 l) (ul_pdpt l) (ul_pd l) (ul_pt l) physical t"
  shows "\<exists>printed outcome. system_call_dispatch (session_memory l m) (session_context l m) False fa frame
    = Inr (printed, outcome)"
  unfolding session_memory_def assms(2)
  using dispatch_total [OF assms(1)] by blast

lemma run_user_confined:
  assumes "mapping_ready (ul_cr3 l) (ul_pdpt l) (ul_pd l) (ul_pt l) physical t"
  shows "um_tables m = installed (ul_cr3 l) (ul_pdpt l) (ul_pd l) (ul_pt l) physical t \<Longrightarrow>
    run_user l chk program m = Inr (printed, e, m') \<Longrightarrow> user_confined physical m m'"
proof (induction program arbitrary: m printed)
  case Nil
  then show ?case by (simp add: confined_refl)
next
  case (Cons ev es)
  note aligned = ready_pages(7) [OF assms(1)] and tables = Cons.prems(1) and run = Cons.prems(2)
  show ?case
  proof (cases ev)
    case (Store va b)
    show ?thesis
    proof (cases "\<exists>pa x. user_page physical va = Some (pa, True, x)")
      case True
      then obtain pa x where pa: "user_page physical va = Some (pa, True, x)" by blast
      let ?m = "m\<lparr>um_bytes := (um_bytes m)(PAGE_OFFSET + unat pa := b)\<rparr>"
      have "user_confined physical m ?m"
        using writable_stack_half [OF pa aligned] by (auto simp: user_confined_def)
      moreover have "run_user l chk es ?m = Inr (printed, e, m')"
        using run pa by (simp add: Store tables user_access_installed [OF assms(1)])
      then have "user_confined physical ?m m'" using Cons.IH tables by simp
      ultimately show ?thesis by (rule confined_trans)
    next
      case False
      then have "m' = m" using run
        by (auto simp: Store tables user_access_installed [OF assms(1)] split: option.splits prod.splits bool.splits)
      then show ?thesis by (simp add: confined_refl)
    qed
  next
    case (Call fa frame)
    obtain p outcome where d:
      "system_call_dispatch (session_memory l m) (session_context l m) False fa frame = Inr (p, outcome)"
      using session_call [OF assms(1) tables] by blast
    show ?thesis
      using run d Cons.IH [OF tables] by (cases outcome) (auto simp: Call bind_res_Inr confined_refl)
  qed (use run in \<open>auto simp: bind_res_Inr confined_refl split: if_splits\<close>)
qed

text \<open>
  A completion with a genuine frame: that of an \<^verbatim>\<open>INT 0x80\<close> in the code page at level 3 with interrupts off, the user's stack and
  data segments, the right result and no failed check, on the return stack the TSS names.
\<close>

definition good_finish :: "user_layout \<Rightarrow> usize \<Rightarrow> interrupt_frame \<Rightarrow> bool" where
  "good_finish l k frame \<longleftrightarrow>
     (cs frame, ss frame) = (0x2b, 0x33) \<and> rflags frame AND (push_bit 12 3 OR push_bit 9 1 OR push_bit 10 1) = 0
     \<and> STACK \<le> rsp frame \<and> rsp frame < STACK_TOP \<and> vector frame = 0x80 \<and> error frame = 0
     \<and> CODE \<le> rip frame \<and> rip frame < CODE + of_nat PAGE
     \<and> uadd (ul_return_bottom l) 8 \<le> k \<and> k < return_stack_top l
     \<and> (registers frame ! 9, registers frame ! 8) = (0x2b, 0x33)
     \<and> registers frame ! 14 = RESULT \<and> registers frame ! 11 = 0"

definition session_active :: "user_layout \<Rightarrow> user_machine \<Rightarrow> bool" where
  "session_active l m \<longleftrightarrow> um_active m \<and> kernel_stack (um_tss m) = of_nat (return_stack_top l)
     \<and> 0x80 \<in> set (user_callable (um_idt m))"

lemma completion_genuine:
  assumes "session_active l m"
  shows "user_return_dispatch l chk m k frame = Inr (printed, v) \<longleftrightarrow>
    good_finish l k frame \<and> printed = return_messages chk \<and> v = RESULT"
  using assms by (auto simp: session_active_def user_return_dispatch_def assert_user_frame_def good_finish_def bind_res_Inr)

lemma completion_forged:
  assumes "session_active l m" "user_return_dispatch l chk m k frame = Inl p"
  shows "\<not> good_finish l k frame"
  using completion_genuine [OF assms(1), of chk k frame "return_messages chk" RESULT] assms(2) by auto

text \<open>How a run can end: the kernel panics at a forged completion only, and finishes at a genuine one only.\<close>

lemma run_user_ends:
  assumes "mapping_ready (ul_cr3 l) (ul_pdpt l) (ul_pd l) (ul_pt l) physical t"
  shows "um_tables m = installed (ul_cr3 l) (ul_pdpt l) (ul_pd l) (ul_pt l) physical t \<Longrightarrow> session_active l m \<Longrightarrow>
    (case run_user l chk program m of
       Inr (printed, e, m') \<Rightarrow> (\<forall>v. e = Finished v \<longrightarrow> v = RESULT \<and> (\<exists>k f. Finish k f \<in> set program \<and> good_finish l k f))
     | Inl p \<Rightarrow> \<exists>k f. Finish k f \<in> set program \<and> \<not> good_finish l k f)"
proof (induction program arbitrary: m)
  case Nil
  then show ?case by simp
next
  case (Cons ev es)
  note tables = Cons.prems(1) and active = Cons.prems(2)
  have later: ?case if "run_user l chk (ev # es) m = run_user l chk es m'" "m' = m\<lparr>um_bytes := b\<rparr>" for m' b
  proof -
    have "um_tables m' = um_tables m" "session_active l m'" using active that(2) by (simp_all add: session_active_def)
    then show ?thesis using Cons.IH [of m'] tables unfolding that(1) by (cases "run_user l chk es m'") (auto, blast+)
  qed
  show ?case
  proof (cases ev)
    case (Store va b)
    show ?thesis
    proof (cases "\<exists>pa x. user_access PAGE_OFFSET (um_tables m) (ul_cr3 l) va = Some (pa, True, x)")
      case True
      then show ?thesis using later by (auto simp: Store)
    next
      case False
      then have "run_user l chk (ev # es) m = Inr ([], Faulted, m)"
        by (auto simp: Store split: option.splits prod.splits bool.splits)
      then show ?thesis by simp
    qed
  next
    case (Call fa frame)
    obtain p outcome where d:
      "system_call_dispatch (session_memory l m) (session_context l m) False fa frame = Inr (p, outcome)"
      using session_call [OF assms(1) tables] by blast
    show ?thesis
      using d Cons.IH [OF tables active]
      by (cases outcome; cases "run_user l chk es m") (auto simp: Call)
  next
    case (Raise n k frame)
    show ?thesis
    proof (cases "n = 0x80 \<and> n \<in> set (user_callable (um_idt m))")
      case True
      then have ev: "ev = Finish k frame" using Raise by simp
      show ?thesis
      proof (cases "user_return_dispatch l chk m k frame")
        case (Inl p)
        then show ?thesis using True completion_forged [OF active Inl] by (auto simp: Raise)
      next
        case (Inr result)
        obtain printed v where "result = (printed, v)" by (cases result)
        with Inr show ?thesis using True completion_genuine [OF active, of chk k frame printed v] by (auto simp: Raise)
      qed
    qed (auto simp: Raise)
  qed simp
qed

section \<open>The demonstration leaves no trace\<close>

lemma run_page_aligned:
  assumes "md_wf d" "allocate d Mapped 1 = Inr (Inr r, d')"
  shows "page_aligned (physical_address r)" "page_aligned (physical_address r + 4096)"
proof -
  have b: "physical_address r + 2097152 \<le> DIRECT_RAM_END"
    using allocate_result [OF assms] by (simp add: PAGE_2M_SIZE_def)
  have "owned_run d' r" using allocate_result [OF assms] by simp
  have "physical_address r mod 4096 = 0"
  proof -
    have "(run_first r * 2097152) mod 2 ^ 64 mod 4096 = run_first r * 2097152 mod (4096 :: nat)"
      by (rule mod_mod_cancel) simp
    also have "\<dots> = (run_first r * 512) * 4096 mod 4096" by (simp add: mult.assoc)
    also have "\<dots> = 0" by (rule mod_mult_self2_is_0)
    finally show ?thesis by (simp only: physical_address_def umul_def PAGE_2M_SIZE_def)
  qed
  moreover from this have "(physical_address r + 4096) mod 4096 = 0" by simp
  ultimately show "page_aligned (physical_address r)" "page_aligned (physical_address r + 4096)"
    using b by (simp_all add: page_aligned_def DIRECT_RAM_END_def)
qed

definition session_initial :: "user_layout \<Rightarrow> user_machine \<Rightarrow> bool" where
  "session_initial l m \<longleftrightarrow> md_wf (um_memory m) \<and> length (um_tss m) = 104
     \<and> length (um_idt m) = 256 \<and> um_idt m ! 0x80 = gate_new (ul_exception_255 l) 0x8f 1
     \<and> tables_ready (ul_cr3 l) (ul_pdpt l) (ul_pd l) (ul_pt l) (um_tables m)"

lemma enter_user_result:
  assumes "session_initial l m" "enter_user l f m = Inr (m1, r, old)"
  shows "allocate (um_memory m) Mapped 1 = Inr (Inr r, um_memory m1)"
    and "mapping_ready (ul_cr3 l) (ul_pdpt l) (ul_pd l) (ul_pt l) (physical_address r) (um_tables m)"
    and "um_tables m1 = installed (ul_cr3 l) (ul_pdpt l) (ul_pd l) (ul_pt l) (physical_address r) (um_tables m)"
    and "um_tss m1 = store_u64 (um_tss m) 4 (of_nat (return_stack_top l))" "old = kernel_stack (um_tss m)"
    and "um_idt m1 = set_user_return_gate (ul_exception_255 l) (Some (ul_return_entry l)) (um_idt m)"
    and "um_canary m1 = CANARY" "um_active m1"
proof -
  have r: "allocate (um_memory m) Mapped 1 = Inr (Inr r, um_memory m1)"
      "install_mapping (ul_cr3 l) (ul_pdpt l) (ul_pd l) (ul_pt l) (physical_address r) (um_tables m) = Inr (um_tables m1)"
      "set_kernel_stack False (of_nat (return_stack_top l)) (um_tss m) = Inr (um_tss m1)"
      "old = kernel_stack (um_tss m)"
      "um_idt m1 = set_user_return_gate (ul_exception_255 l) (Some (ul_return_entry l)) (um_idt m)"
      "um_canary m1 = CANARY" "um_active m1"
    using assms(2) by (auto simp: enter_user_def bind_res_Inr expect_ok_simps Let_def)
  show "allocate (um_memory m) Mapped 1 = Inr (Inr r, um_memory m1)" by (rule r)
  show ready: "mapping_ready (ul_cr3 l) (ul_pdpt l) (ul_pd l) (ul_pt l) (physical_address r) (um_tables m)"
    using assms(1) run_page_aligned [OF _ r(1)] by (simp add: mapping_ready_def session_initial_def)
  show "um_tables m1 = installed (ul_cr3 l) (ul_pdpt l) (ul_pd l) (ul_pt l) (physical_address r) (um_tables m)"
    using r(2) install_mapping_run [OF ready] by simp
  show "um_tss m1 = store_u64 (um_tss m) 4 (of_nat (return_stack_top l))"
    using r(3) by (auto simp: set_kernel_stack_def bind_res_Inr)
  show "old = kernel_stack (um_tss m)" "um_canary m1 = CANARY" "um_active m1"
    "um_idt m1 = set_user_return_gate (ul_exception_255 l) (Some (ul_return_entry l)) (um_idt m)"
    by (rule r)+
qed

lemma opened_gate: "length idt = 256 \<Longrightarrow> 0x80 \<in> set (user_callable (set_user_return_gate other (Some h) idt))"
  by (simp add: user_callable_def set_user_return_gate_def gate_present_def gate_dpl_def gate_new_def attribute_bits)

lemma enter_user_active: "session_initial l m \<Longrightarrow> enter_user l f m = Inr (m1, r, old) \<Longrightarrow> session_active l m1"
  using enter_user_result [of l m f m1 r old] opened_gate
  by (simp add: session_active_def session_initial_def kernel_stack_def tss_load)

text \<open>
  C33. A user program is confined. Entered by the kernel on a page that was free, and whatever it does at privilege level 3, stores
  anywhere, system calls with any registers, software interrupts of any vector, any exception: only bytes of the stack half
  of that page change, the kernel panics only at a forged completion interrupt, and the program finishes only by a
  genuine one; a genuine one is always accepted.
\<close>

theorem user_program_confined:
  assumes "session_initial l m0" "enter_user l False m0 = Inr (m, r, old)"
  shows "run_pages r \<subseteq> free_pages (um_memory m0)
    \<and> (case run_user l chk program m of
         Inr (printed, e, m') \<Rightarrow> user_confined (physical_address r) m m'
           \<and> (\<forall>v. e = Finished v \<longrightarrow> v = RESULT \<and> (\<exists>k f. Finish k f \<in> set program \<and> good_finish l k f))
       | Inl p \<Rightarrow> \<exists>k f. Finish k f \<in> set program \<and> \<not> good_finish l k f)
    \<and> (\<forall>k f. good_finish l k f \<longrightarrow> run_user l chk [Finish k f] m = Inr (return_messages chk, Finished RESULT, m))"
proof -
  note en = enter_user_result [OF assms] and active = enter_user_active [OF assms]
  have "run_pages r \<subseteq> free_pages (um_memory m0)"
    using allocate_result [OF _ en(1)] assms(1) by (auto simp: session_initial_def)
  moreover have "run_user l chk [Finish k f] m = Inr (return_messages chk, Finished RESULT, m)" if "good_finish l k f" for k f
    using that completion_genuine [OF active, of chk k f "return_messages chk" RESULT] active by (simp add: session_active_def)
  ultimately show ?thesis
    using run_user_ends [OF en(2,3) active, where chk = chk and program = program] run_user_confined [OF en(2,3)]
    by (cases "run_user l chk program m") auto
qed

section \<open>A well-behaved program completes\<close>

text \<open>Stores to the stack page, calls from the code page with a stack inside its page.\<close>

fun well_behaved :: "user_layout \<Rightarrow> user_event \<Rightarrow> bool" where
  "well_behaved l (Store va b) \<longleftrightarrow> STACK \<le> va \<and> va < STACK_TOP"
| "well_behaved l (Call fa frame) \<longleftrightarrow>
     uadd (ul_return_bottom l) 8 \<le> fa \<and> fa \<le> usub (return_stack_top l) 120
     \<and> CODE \<le> rdx frame \<and> rdx frame < CODE + of_nat (user_code_bytes l)
     \<and> STACK \<le> rcx frame \<and> rcx frame < STACK_TOP"
| "well_behaved l (Raise n k frame) \<longleftrightarrow> False"
| "well_behaved l (Fault cr2 frame) \<longleftrightarrow> False"

text \<open>The machine supports the demonstration and the linker placed its parts correctly.\<close>

definition session_layout :: "user_layout \<Rightarrow> user_machine \<Rightarrow> bool" where
  "session_layout l m \<longleftrightarrow> \<not> um_active m
     \<and> (\<exists>r. prepare_cpu (ul_cpuid l) (um_msrs m, um_cr0 m) = Inr r)
     \<and> 1 \<le> user_code_bytes l \<and> user_code_bytes l \<le> PAGE \<and> ul_user_demo l = ul_user_start l
     \<and> ul_return_bottom l mod 16 = 0 \<and> ul_return_bottom l + 32768 < usize_range
     \<and> kernel_stack (um_tss m) mod 16 = 0 \<and> ul_cs l = 8"

lemma return_stack_top_aligned:
  assumes "session_layout l m"
  shows "return_stack_top l = ul_return_bottom l + 32768" "return_stack_top l mod 16 = 0"
    "(of_nat (return_stack_top l) :: u64) mod 16 = 0"
proof -
  show t: "return_stack_top l = ul_return_bottom l + 32768"
    using assms by (simp add: return_stack_top_def uadd_exact session_layout_def)
  show a: "return_stack_top l mod 16 = 0"
    unfolding t using assms by (simp add: session_layout_def mod_add_eq [of _ 16 32768, symmetric])
  have "unat (of_nat (return_stack_top l) :: u64) = return_stack_top l"
    by (rule unat_of_nat_u64) (use assms t in \<open>simp add: session_layout_def\<close>)
  then show "(of_nat (return_stack_top l) :: u64) mod 16 = 0"
    using a by (simp add: word_arith_nat_mod)
qed

lemma enter_user_total:
  assumes "session_initial l m" "session_layout l m" "allocate (um_memory m) Mapped 1 = Inr (Inr r, d)"
  shows "\<exists>m1. enter_user l False m = Inr (m1, r, kernel_stack (um_tss m))"
proof -
  have ready: "mapping_ready (ul_cr3 l) (ul_pdpt l) (ul_pd l) (ul_pt l) (physical_address r) (um_tables m)"
    using assms(1) run_page_aligned [OF _ assms(3)] by (simp add: mapping_ready_def session_initial_def)
  note lay = assms(2) [unfolded session_layout_def] and al = return_stack_top_aligned [OF assms(2)]
  from lay obtain msrs1 cr0 where "prepare_cpu (ul_cpuid l) (um_msrs m, um_cr0 m) = Inr (msrs1, cr0)" by auto
  then show ?thesis
    unfolding enter_user_def Let_def
    using lay al assms(3) install_mapping_run [OF ready]
    by (simp add: expect_ok_simps set_kernel_stack_def syscall_enable_def write_msr_run)
qed

lemma spec_syscall_text: "\<exists>texts r. spec_syscall mem number address len = (map (Pair GREEN) texts, r)"
  unfolding spec_syscall_def Let_def
  by (auto intro: exI [of _ "[]"] exI [of _ "[t]" for t])

lemma well_behaved_running:
  assumes "mapping_ready (ul_cr3 l) (ul_pdpt l) (ul_pd l) (ul_pt l) physical t"
    and "um_tables m = installed (ul_cr3 l) (ul_pdpt l) (ul_pd l) (ul_pt l) physical t"
    and "session_active l m" "list_all (well_behaved l) events" "good_finish l k frame"
  shows "\<exists>texts m'. run_user l chk (events @ [Finish k frame]) m =
    Inr (map (Pair GREEN) texts @ return_messages chk, Finished RESULT, m')"
  using assms(2-4)
proof (induction events arbitrary: m)
  case Nil
  then show ?case
    using completion_genuine [OF Nil(2), of chk k frame "return_messages chk" RESULT] assms(5)
    by (intro exI [of _ "[]"] exI [of _ m]) (simp add: session_active_def)
next
  case (Cons ev es)
  show ?case
  proof (cases ev)
    case (Store va b)
    have va: "STACK \<le> va" "va < STACK_TOP" using Cons.prems(3) Store by simp_all
    then have "\<exists>pa. user_page physical va = Some (pa, True, False)"
      by (auto simp: user_page_def layout_defs word_le_nat_alt word_less_nat_alt)
    then obtain pa where pa: "user_page physical va = Some (pa, True, False)" by blast
    show ?thesis
      using Cons.IH [of "m\<lparr>um_bytes := (um_bytes m)(PAGE_OFFSET + unat pa := b)\<rparr>"] Cons.prems pa unfolding session_active_def
      by (simp add: Store user_access_installed [OF assms(1)])
  next
    case (Call fa fr)
    have "valid_syscall (session_context l m) fa fr"
      using Cons.prems Call
      by (simp add: valid_syscall_def session_context_def return_top_def return_stack_top_def session_active_def)
    moreover obtain texts r where "spec_syscall (session_memory l m) (rax fr) (rdi fr) (rsi fr) = (map (Pair GREEN) texts, r)"
      using spec_syscall_text by blast
    ultimately have
      "system_call_dispatch (session_memory l m) (session_context l m) False fa fr = Inr (map (Pair GREEN) texts, Resumed r)"
      unfolding session_memory_def Cons.prems(1) dispatch_refines [OF assms(1)]
      by simp
    moreover obtain texts' m' where "run_user l chk (es @ [Finish k frame]) m =
        Inr (map (Pair GREEN) texts' @ return_messages chk, Finished RESULT, m')"
      using Cons.IH [OF Cons.prems(1,2)] Cons.prems(3) by auto
    ultimately show ?thesis by (intro exI [of _ "texts @ texts'"] exI [of _ m']) (simp add: Call)
  qed (use Cons.prems in simp_all)
qed

lemma leave_user_total:
  assumes "session_initial l m" "session_layout l m" "enter_user l False m = Inr (m1, r, old)"
    and "run_user l chk program m1 = Inr (printed, Finished RESULT, m2)"
  shows "\<exists>m3. leave_user l False r old RESULT m2 = Inr m3"
proof -
  note en = enter_user_result [OF assms(1,3)] and ini = assms(1) [unfolded session_initial_def]
  have "user_confined (physical_address r) m1 m2" by (rule run_user_confined(1) [OF en(2,3) assms(4)])
  then have same: "um_canary m2 = CANARY" "um_memory m2 = um_memory m1"
    unfolding user_confined_def using en(7)
    by (metis user_machine.select_convs user_machine.surjective user_machine.update_convs(3))+
  have "release (um_memory m1) r = Inr (um_memory m)" using allocated_released [OF _ en(1)] ini by simp
  then show ?thesis
    using assms(2) same en(5)
    by (simp add: leave_user_def Let_def session_layout_def syscall_disable_def write_msr_run
        set_kernel_stack_def remove_mapping_def)
qed

lemma demonstration_runs:
  assumes "session_initial l m" "session_layout l m" "\<exists>r d. allocate (um_memory m) Mapped 1 = Inr (Inr r, d)"
    and "list_all (well_behaved l) events" "good_finish l k frame"
  shows "\<exists>texts m'. demonstrate_user l chk False (events @ [Finish k frame]) m =
    Inr ([sysenter_message, ready_message] @ map (Pair GREEN) texts @ return_messages chk @ [cleanup_message], Finished RESULT, m')"
proof -
  obtain r d where "allocate (um_memory m) Mapped 1 = Inr (Inr r, d)" using assms(3) by blast
  from enter_user_total [OF assms(1,2) this] obtain m1 where
    e: "enter_user l False m = Inr (m1, r, kernel_stack (um_tss m))" by blast
  note en = enter_user_result [OF assms(1) e]
  from well_behaved_running [OF en(2,3) enter_user_active [OF assms(1) e] assms(4,5), of chk] obtain texts m2 where
    u: "run_user l chk (events @ [Finish k frame]) m1 = Inr (map (Pair GREEN) texts @ return_messages chk, Finished RESULT, m2)" by blast
  obtain m3 where "leave_user l False r (kernel_stack (um_tss m)) RESULT m2 = Inr m3"
    using leave_user_total [OF assms(1,2) e u] by blast
  then show ?thesis by (intro exI [of _ texts] exI [of _ m3]) (simp add: demonstrate_user_def e u Let_def)
qed

text \<open>
  C35. A well-behaved program completes: on a supported machine with a free page, for any stores to
  the stack page and any system calls with a proper return context, ended by the completion
  interrupt with the right result, no check of the kernel fails on the way in, during the run, in
  the completion gate or in the clean-up, and the messages are those of the stages in order, with the texts
  the program writes between them.
\<close>

theorem demonstrate_user_completes:
  assumes "session_initial l m" "session_layout l m" "\<exists>r d. allocate (um_memory m) Mapped 1 = Inr (Inr r, d)"
    and "list_all (well_behaved l) events" "good_finish l k frame"
  shows "\<exists>texts m'. demonstrate_user l chk False (events @ [Finish k frame]) m =
    Inr ([sysenter_message, ready_message] @ map (Pair GREEN) texts @ return_messages chk @ [cleanup_message], Finished RESULT, m')"
  by (rule demonstration_runs [OF assms])

section \<open>A session\<close>

definition example_cpuid :: "u32 \<Rightarrow> u32 \<times> u32 \<times> u32 \<times> u32" where
  "example_cpuid leaf =
     (if leaf = 0 then (0xd, 0x756e6547, 0x6c65746e, 0x49656e69)
      else if leaf = 1 then (0, 0, 0, 0x800)
      else if leaf = 0x80000000 then (0x80000008, 0, 0, 0)
      else (0, 0, 0, 0x100000))"

definition example_layout :: user_layout where
  "example_layout = \<lparr>ul_cr3 = 0x101000, ul_pdpt = PAGE_OFFSET + 0x200000, ul_pd = PAGE_OFFSET + 0x201000,
     ul_pt = PAGE_OFFSET + 0x202000, ul_return_bottom = PAGE_OFFSET + 0x210000,
     ul_user_start = PAGE_OFFSET + 0x180000, ul_user_end = PAGE_OFFSET + 0x180800, ul_user_demo = PAGE_OFFSET + 0x180000,
     ul_user_code = (\<lambda>_. 0x90), ul_return_entry = 0xffff800000107000, ul_exception_255 = 0xffff800000106000,
     ul_syscall_entry = 0xffff800000108000, ul_cpuid = example_cpuid, ul_cs = 8\<rparr>"

definition example_machine :: user_machine where
  "example_machine = \<lparr>um_memory = example_descriptor, um_tables = boot_tables, um_bytes = (\<lambda>_. 0),
     um_tss = store_u64 TSS_INITIAL 4 0xffff800000120000,
     um_idt = (replicate 256 EMPTY_GATE)[0x80 := gate_new 0xffff800000106000 0x8f 1],
     um_msrs = (\<lambda>_. 0), um_cr0 = 0, um_active = False, um_canary = 0\<rparr>"

definition example_finish :: interrupt_frame where
  "example_finish = \<lparr>registers = (replicate 15 0)[8 := 0x33, 9 := 0x2b, 14 := RESULT], vector = 0x80, error = 0,
     rip = 0x800100, cs = 0x2b, rflags = 2, rsp = 0x9ff800, ss = 0x33\<rparr>"

definition example_events :: "user_event list" where
  "example_events = [Store 0x9ff010 7, Call (PAGE_OFFSET + 0x217000) \<lparr>r15 = 0, r14 = 0, r13 = 0, r12 = 0, r11 = 0,
     r10 = 0, r9 = 0, r8 = 0, rsi = 2, rdi = 0x9ff000, rbp = 0, rdx = 0x800010, rcx = 0x9ff800, rbx = 0, rax = 1\<rparr>]"

lemma example_session:
  "session_initial example_layout example_machine" "session_layout example_layout example_machine"
  "list_all (well_behaved example_layout) example_events"
  "good_finish example_layout (PAGE_OFFSET + 0x217000) example_finish"
proof -
  have code: "user_code_bytes example_layout = 0x800" "return_stack_top example_layout = PAGE_OFFSET + 0x218000"
    by (simp_all add: user_code_bytes_def return_stack_top_def example_layout_def usub_def uadd_def PAGE_OFFSET_def)
  show "session_initial example_layout example_machine"
    using boot_ready example_wf
    by (simp add: session_initial_def example_machine_def example_layout_def length_TSS_INITIAL mapping_ready_def)
  have "kernel_stack (um_tss example_machine) = 0xffff800000120000"
    by (simp add: example_machine_def kernel_stack_def tss_load length_TSS_INITIAL)
  then show "session_layout example_layout example_machine"
    unfolding session_layout_def code
    by (simp add: example_layout_def example_machine_def prepare_cpu_def example_cpuid_def PAGE_def
        PAGE_OFFSET_def)
  show "list_all (well_behaved example_layout) example_events"
    unfolding example_events_def
    by (simp add: code, simp add: example_layout_def uadd_def usub_def PAGE_OFFSET_def layout_defs)
  show "good_finish example_layout (PAGE_OFFSET + 0x217000) example_finish"
    unfolding good_finish_def code
    by (simp add: example_finish_def example_layout_def uadd_def PAGE_OFFSET_def layout_defs)
qed

lemma example_allocate_one: "\<exists>r d. allocate (um_memory example_machine) Mapped 1 = Inr (Inr r, d)"
  using example_allocate_single by (simp add: example_machine_def)

theorem demonstrate_user_completes_witness:
  "\<exists>printed m'. demonstrate_user example_layout True False
     (example_events @ [Finish (PAGE_OFFSET + 0x217000) example_finish]) example_machine
       = Inr (printed, Finished RESULT, m')"
  using demonstrate_user_completes [OF example_session(1,2) example_allocate_one example_session(3,4)] by blast

lemma example_completes:
  "\<exists>printed m'. demonstrate_user example_layout True False
     (example_events @ [Finish (PAGE_OFFSET + 0x217000) example_finish]) example_machine
       = Inr (printed, Finished RESULT, m')"
  using demonstration_runs [OF example_session(1,2) example_allocate_one example_session(3,4)] by blast

lemma demonstration_restores:
  assumes "session_initial l m"
    and "demonstrate_user l chk f program m = Inr (printed, Finished v, m')"
  shows "v = RESULT \<and> um_memory m' = um_memory m \<and> um_tss m' = um_tss m \<and> um_idt m' = um_idt m
    \<and> \<not> um_active m' \<and> um_msrs m' 0x174 = 0 \<and> um_msrs m' 0x175 = 0 \<and> um_msrs m' 0x176 = 0
    \<and> (\<forall>va. user_access PAGE_OFFSET (um_tables m') (ul_cr3 l) va = None)"
proof -
  from assms(2) obtain m1 r old printed' e m2 where en: "enter_user l f m = Inr (m1, r, old)"
      and u: "run_user l chk program m1 = Inr (printed', e, m2)"
      and c: "(case e of Finished result \<Rightarrow> bind_res (leave_user l f r old result m2)
         (\<lambda>m3. Inr (([sysenter_message, ready_message] @ printed') @ [cleanup_message], Finished result, m3))
       | _ \<Rightarrow> Inr ([sysenter_message, ready_message] @ printed', e, m2)) = Inr (printed, Finished v, m')"
    unfolding demonstrate_user_def Let_def by (auto simp: bind_res_Inr simp del: append.simps split: prod.splits)
  then have x: "e = Finished v" "leave_user l f r old v m2 = Inr m'"
    by (cases e; auto simp: bind_res_Inr)+
  note ini = assms(1) [unfolded session_initial_def] and en = enter_user_result [OF assms(1) en]
  have "m2 = m1\<lparr>um_bytes := um_bytes m2\<rparr>"
    using run_user_confined(1) [OF en(2,3) u] by (simp add: user_confined_def)
  then have same: "um_memory m2 = um_memory m1" "um_tables m2 = um_tables m1" "um_tss m2 = um_tss m1"
      "um_idt m2 = um_idt m1"
    by (metis user_machine.select_convs user_machine.surjective user_machine.update_convs(3))+
  have l: "v = RESULT" "release (um_memory m1) r = Inr (um_memory m')"
      "um_tables m' = remove_mapping (ul_cr3 l) (um_tables m1)"
      "um_tss m' = store_u64 (um_tss m1) 4 old" "\<not> um_active m'"
      "um_idt m' = set_user_return_gate (ul_exception_255 l) None (um_idt m1)"
      "um_msrs m' = (um_msrs m2)(0x174 := 0, 0x175 := 0, 0x176 := 0)"
    using x(2) by (auto simp: leave_user_def bind_res_Inr Let_def same set_kernel_stack_def
        syscall_disable_def write_msr_run)
  have "um_memory m' = um_memory m"
    using allocated_released [OF _ en(1)] l(2) ini by simp
  moreover have "um_tss m' = um_tss m"
    unfolding l(4) en(4,5) by (rule kernel_stack_restored) (use ini in simp)
  moreover have "um_idt m' = um_idt m"
    unfolding l(6) en(6) using ini by (simp add: set_user_return_gate_def) (metis list_update_id)
  moreover have "user_access PAGE_OFFSET (um_tables m') (ul_cr3 l) va = None" for va
    unfolding l(3) en(3) by (rule user_access_removed [OF en(2)])
  ultimately show ?thesis using l(1,5,7) by simp
qed

text \<open>
  C34. The user demonstration cleans up after any program: if it completes, the result was checked,
  the page is back with the allocator exactly as before, the TSS and the interrupt table are
  restored byte for byte, the SYSENTER registers are zero, the demonstration is inactive, and no
  address translates at user level any more.
\<close>

theorem demonstrate_user_restores:
  assumes "session_initial l m"
    and "demonstrate_user l chk f program m = Inr (printed, Finished v, m')"
  shows "v = RESULT \<and> um_memory m' = um_memory m \<and> um_tss m' = um_tss m \<and> um_idt m' = um_idt m
    \<and> \<not> um_active m' \<and> um_msrs m' 0x174 = 0 \<and> um_msrs m' 0x175 = 0 \<and> um_msrs m' 0x176 = 0
    \<and> (\<forall>va. user_access PAGE_OFFSET (um_tables m') (ul_cr3 l) va = None)"
  by (rule demonstration_restores [OF assms])

theorem demonstrate_user_restores_witness:
  "\<exists>printed m'. demonstrate_user example_layout True False
     (example_events @ [Finish (PAGE_OFFSET + 0x217000) example_finish]) example_machine
       = Inr (printed, Finished RESULT, m')
     \<and> um_memory m' = example_descriptor \<and> um_msrs m' 0x175 = 0"
proof -
  obtain printed m' where d: "demonstrate_user example_layout True False
     (example_events @ [Finish (PAGE_OFFSET + 0x217000) example_finish]) example_machine
       = Inr (printed, Finished RESULT, m')" using example_completes by blast
  have "um_memory example_machine = example_descriptor" by (simp add: example_machine_def)
  then show ?thesis using demonstrate_user_restores [OF example_session(1) d] d by simp
qed

theorem user_program_confined_witness:
  "\<exists>m r old. enter_user example_layout False example_machine = Inr (m, r, old)
    \<and> run_user example_layout True [Raise 3 0 example_finish] m = Inr (fault_report 0 (raised_frame (um_idt m) 3 example_finish), Faulted, m)
    \<and> run_user example_layout True [Finish (PAGE_OFFSET + 0x217000) example_finish] m = Inr (return_messages True, Finished RESULT, m)"
proof -
  obtain r d where "allocate (um_memory example_machine) Mapped 1 = Inr (Inr r, d)" using example_allocate_one by blast
  from enter_user_total [OF example_session(1,2) this] obtain m where
    e: "enter_user example_layout False example_machine = Inr (m, r, kernel_stack (um_tss example_machine))" by blast
  show ?thesis
    using e user_program_confined [OF example_session(1) e, where chk = True and program = "[]"] example_session(4)
    by (intro exI [of _ m] exI [of _ r] exI [of _ "kernel_stack (um_tss example_machine)"]) simp
qed

end
