(* ===== verification/User_Demo.thy ===== *)
theory User_Demo
  imports User_Session
begin

text \<open>
  The user program of the demonstration (\<^verbatim>\<open>user_demo\<close> in \<^verbatim>\<open>src/kernel/usermode.rs\<close>, \<^verbatim>\<open>request\<close> in
  \<^verbatim>\<open>src/kernel/syscall.rs\<close>): its list of requests with the results it expects, run against the
  kernel's dispatcher. Its stack addresses, the address the kernel returns to, the other registers
  and the outcome of the register check written in assembly are parameters.
\<close>

section \<open>The program\<close>

record user_place =
  message_at :: u64
  buffer_at :: u64
  bad_utf8_at :: u64
  label_at :: u64
  stack_at :: u64
  frame_at :: usize
  base_frame :: syscall_frame

definition request_frame :: "user_place \<Rightarrow> u64 \<Rightarrow> u64 \<Rightarrow> u64 \<Rightarrow> syscall_frame" where
  "request_frame p number first second =
     (base_frame p)\<lparr>rdx := label_at p, rcx := stack_at p, rax := number, rdi := first, rsi := second\<rparr>"

text \<open>A request that the kernel rejects never returns.\<close>

definition user_request :: "user_memory \<Rightarrow> user_context \<Rightarrow> user_place \<Rightarrow> u64 \<Rightarrow> u64 \<Rightarrow> u64 \<Rightarrow> (message list \<times> i64 option) res" where
  "user_request mem ctx p number first second =
     bind_res (system_call_dispatch mem ctx False (frame_at p) (request_frame p number first second))
       (\<lambda>(printed, outcome). Inr (printed, case outcome of Resumed r \<Rightarrow> Some r | Halted \<Rightarrow> None))"

definition message_text :: "u8 list" where
  "message_text = map (\<lambda>c. of_nat (of_char c)) (''Hello World! %s %n'' @ [CHR 0x0a])"

definition maximum_text :: "u8 list" where
  "maximum_text = (replicate MAX_WRITE 0x20)[MAX_WRITE - 1 := 0x0a]"

definition plain_checks :: "user_place \<Rightarrow> (u64 \<times> u64 \<times> u64 \<times> i64) list" where
  "plain_checks p =
     [(15, 0, 0, ENOSYS), (128, 0, 0, ENOSYS),
      (WRITE, message_at p, of_nat (length message_text), of_nat (length message_text))]"

definition more_checks :: "user_place \<Rightarrow> (u64 \<times> u64 \<times> u64 \<times> i64) list" where
  "more_checks p =
     [(0, 0, 0, ENOSYS), (127, 0, 0, ENOSYS), (- 1, 0, 0, ENOSYS),
      (WRITE, 0, 0, 0), (WRITE, 0, 1, EFAULT),
      (WRITE, of_nat PAGE_OFFSET + 0x100000, 1, EFAULT),
      (WRITE, CODE + of_nat PAGE, 1, EFAULT), (WRITE, STACK - 1, 2, EFAULT),
      (WRITE, STACK_TOP - 1, 2, EFAULT), (WRITE, - 1, 2, EFAULT),
      (WRITE, message_at p, 257, EINVAL), (WRITE, 0, - 1, EINVAL),
      (WRITE, buffer_at p, of_nat MAX_WRITE, of_nat MAX_WRITE),
      (WRITE, bad_utf8_at p, 1, EINVAL)]"

text \<open>\<^verbatim>\<open>failures |= (request(...) != expected) as u64\<close>.\<close>

fun run_checks :: "user_memory \<Rightarrow> user_context \<Rightarrow> user_place \<Rightarrow> (u64 \<times> u64 \<times> u64 \<times> i64) list \<Rightarrow> u64 \<Rightarrow>
    (message list \<times> u64 option) res" where
  "run_checks mem ctx p [] failures = Inr ([], Some failures)"
| "run_checks mem ctx p ((number, first, second, expected) # rest) failures =
     bind_res (user_request mem ctx p number first second) (\<lambda>(printed, answer). case answer of
        None \<Rightarrow> Inr (printed, None)
      | Some r \<Rightarrow> bind_res (run_checks mem ctx p rest (failures OR (if r \<noteq> expected then 1 else 0)))
          (\<lambda>(more_printed, f). Inr (printed @ more_printed, f)))"

text \<open>The volatile writes and reads of the two values on the stack.\<close>

definition demo_result :: u64 where
  "demo_result =
     (let values = [INPUT, 0]; values1 = values[0 := INPUT]; input = values1 ! 0;
          values2 = values1[1 := word_rotl 7 (input + 17)]
      in values2 ! 1)"

text \<open>The program: what it prints, and the registers RAX and RDX of its completion interrupt.\<close>

definition user_demo :: "user_memory \<Rightarrow> user_context \<Rightarrow> user_place \<Rightarrow> bool \<Rightarrow> u64 \<Rightarrow>
    (message list \<times> (u64 \<times> u64) option) res" where
  "user_demo mem ctx p syscall_check registers_changed =
     bind_res (run_checks mem ctx p (plain_checks p @ (if syscall_check then more_checks p else [])) 0)
        (\<lambda>(printed, f). Inr (printed, map_option
           (\<lambda>failures. (demo_result, if syscall_check then failures OR registers_changed else failures)) f))"

section \<open>Every check passes\<close>

text \<open>Memory as the program sees it holds a byte string.\<close>

definition user_holds :: "user_memory \<Rightarrow> u64 \<Rightarrow> u8 list \<Rightarrow> bool" where
  "user_holds mem a bs \<longleftrightarrow> list_all (\<lambda>k. mem (a + of_nat k) = Some (bs ! k)) [0..<length bs]"

lemma utf8_valid_ascii: "list_all (\<lambda>b. b < 0x80) bs \<Longrightarrow> utf8_valid bs"
  by (induction bs) auto

lemma holds_readable:
  assumes "\<And>va. mem va = None \<longleftrightarrow> user_page physical va = None" "user_holds mem a bs"
    "bs \<noteq> []" "length bs \<le> 256"
  shows "readable a (of_nat (length bs))"
proof -
  have n: "unat (of_nat (length bs) :: u64) = length bs" by (rule unat_of_nat_u64) (use assms(4) in simp)
  then have "0 < (of_nat (length bs) :: u64)" using assms(3) by (simp add: word_less_nat_alt)
  moreover have "\<forall>k < unat (of_nat (length bs) :: u64). user_page physical (a + of_nat k) \<noteq> None"
    unfolding n assms(1) [symmetric] using assms(2) by (simp add: user_holds_def list_all_iff)
  ultimately show ?thesis using readable_mapped by blast
qed

text \<open>The service on a buffer the program wrote.\<close>

lemma write_text_holds:
  assumes none: "\<And>va. mem va = None \<longleftrightarrow> user_page physical va = None" and h: "user_holds mem a bs"
    and len: "bs \<noteq> []" "length bs \<le> 256"
    and f: "rdi frame = a" "rsi frame = of_nat (length bs)"
  shows "write_text mem frame =
    Inr (if utf8_valid bs then ([(GREEN, bytes_text bs)], of_nat (length bs)) else ([], EINVAL))"
proof -
  have n: "unat (of_nat (length bs) :: u64) = length bs" by (rule unat_of_nat_u64) (use len in simp)
  have c: "\<not> of_nat (length bs) > (of_nat MAX_WRITE :: u64)" "(of_nat (length bs) :: u64) \<noteq> 0"
    using n len by (auto simp: MAX_WRITE_def word_less_nat_alt word_unat_eq_iff)
  obtain copy where "copy_from_user mem a (length bs) = Inr copy"
      "take (length bs) copy = map (\<lambda>k. bs ! k) [0..<length bs]"
    using copy_from_user_run [OF len(2), where mem = mem and address = a and f = "\<lambda>k. bs ! k"] h by (auto simp: user_holds_def list_all_iff)
  then show ?thesis
    using c holds_readable [OF none h len] by (simp add: write_text_def f n map_nth)
qed

lemma request_run:
  assumes "valid_syscall ctx (frame_at p) (request_frame p number a n)"
    and "(if number = WRITE then write_text mem else unimplemented) (request_frame p number a n) = Inr (printed, r)"
  shows "user_request mem ctx p number a n = Inr (printed, Some r)"
proof -
  have "rax (request_frame p number a n) = number" by (simp add: request_frame_def)
  then show ?thesis
    using assms unfolding user_request_def system_call_dispatch_def SERVICES_nth
    by (simp split del: if_split)
qed

text \<open>Where the program and its data are, and what the data are.\<close>

definition place_ready :: "user_memory \<Rightarrow> user_context \<Rightarrow> user_place \<Rightarrow> bool" where
  "place_ready mem ctx p \<longleftrightarrow> valid_syscall ctx (frame_at p) (request_frame p 0 0 0)
     \<and> user_holds mem (message_at p) message_text \<and> user_holds mem (buffer_at p) maximum_text
     \<and> user_holds mem (bad_utf8_at p) [0xff]"

lemma place_valid: "place_ready mem ctx p \<Longrightarrow> valid_syscall ctx (frame_at p) (request_frame p number a n)"
  by (simp add: place_ready_def valid_syscall_def request_frame_def)

lemma text_facts:
  "length message_text = 19" "utf8_valid message_text" "bytes_text message_text = ''Hello World! %s %n'' @ [CHR 0x0a]"
  "length maximum_text = 256" "utf8_valid maximum_text"
  "message_text \<noteq> []" "maximum_text \<noteq> []"
proof -
  show "length message_text = 19" by (simp add: message_text_def)
  show "utf8_valid message_text" by (rule utf8_valid_ascii) (simp add: message_text_def)
  show "bytes_text message_text = ''Hello World! %s %n'' @ [CHR 0x0a]" by (simp add: bytes_text_def message_text_def char_of_def bit_0)
  show "length maximum_text = 256" by (simp add: maximum_text_def MAX_WRITE_def)
  show "message_text \<noteq> []" "maximum_text \<noteq> []"
    by (simp_all add: message_text_def maximum_text_def MAX_WRITE_def)
  have "set maximum_text \<subseteq> {0x20, 0x0a}"
    unfolding maximum_text_def by (rule order_trans [OF set_update_subset_insert]) auto
  then have "list_all (\<lambda>b. b < 0x80) maximum_text" by (auto simp: list_all_iff)
  then show "utf8_valid maximum_text" by (rule utf8_valid_ascii)
qed

lemma user_request_refused:
  assumes "place_ready mem ctx p"
  shows "number \<noteq> WRITE \<Longrightarrow> user_request mem ctx p number a n = Inr ([], Some ENOSYS)"
    and "256 < n \<Longrightarrow> user_request mem ctx p WRITE a n = Inr ([], Some EINVAL)"
    and "user_request mem ctx p WRITE a 0 = Inr ([], Some 0)"
    and "0 < n \<Longrightarrow> n \<le> 256 \<Longrightarrow> \<not> readable a n \<Longrightarrow> user_request mem ctx p WRITE a n = Inr ([], Some EFAULT)"
  by (rule request_run [OF place_valid [OF assms]];
      auto simp: unimplemented_def write_text_def request_frame_def MAX_WRITE_def not_less)+

lemma user_request_text:
  assumes "\<And>va. mem va = None \<longleftrightarrow> user_page physical va = None" "place_ready mem ctx p"
    and "user_holds mem a bs" "bs \<noteq> []" "length bs \<le> 256"
  shows "user_request mem ctx p WRITE a (of_nat (length bs)) =
    Inr (if utf8_valid bs then ([(GREEN, bytes_text bs)], Some (of_nat (length bs))) else ([], Some EINVAL))"
  using request_run [OF place_valid [OF assms(2)], where number = WRITE and a = a and n = "of_nat (length bs)" and mem = mem]
    write_text_holds [OF assms(1,3,4,5), of "request_frame p WRITE a (of_nat (length bs))"]
  by (auto simp: request_frame_def)

lemma unreadable_checks:
  "\<not> readable 0 1" "\<not> readable (of_nat PAGE_OFFSET + 0x100000) 1" "\<not> readable (CODE + of_nat PAGE) 1"
  "\<not> readable (STACK - 1) 2" "\<not> readable (STACK_TOP - 1) 2" "\<not> readable (- 1) 2"
proof -
  have "(- 1 :: u64) = 0xffffffffffffffff" by simp
  then show "\<not> readable (- 1) 2" by (simp only: readable_nat) simp
qed (simp_all add: readable_nat layout_defs PAGE_OFFSET_def)

lemma plain_checks_pass:
  assumes "\<And>va. mem va = None \<longleftrightarrow> user_page physical va = None" "place_ready mem ctx p"
  shows "run_checks mem ctx p (plain_checks p @ rest) 0 =
    bind_res (run_checks mem ctx p rest 0) (\<lambda>(q, f). Inr ((GREEN, ''Hello World! %s %n'' @ [CHR 0x0a]) # q, f))"
proof -
  have m: "user_request mem ctx p WRITE (message_at p) (of_nat (length message_text)) =
      Inr ([(GREEN, ''Hello World! %s %n'' @ [CHR 0x0a])], Some (of_nat (length message_text)))"
    using user_request_text [OF assms, of "message_at p" message_text] assms(2) text_facts
    by (auto simp: place_ready_def)
  have e: "user_request mem ctx p 15 0 0 = Inr ([], Some ENOSYS)" "user_request mem ctx p 128 0 0 = Inr ([], Some ENOSYS)"
    by (rule user_request_refused(1) [OF assms(2)]; simp add: WRITE_def)+
  show ?thesis
    unfolding plain_checks_def append.simps run_checks.simps e m
    by (cases "run_checks mem ctx p rest 0") auto
qed

lemma more_checks_pass:
  assumes "\<And>va. mem va = None \<longleftrightarrow> user_page physical va = None" "place_ready mem ctx p"
  shows "run_checks mem ctx p (more_checks p) 0 = Inr ([(GREEN, bytes_text maximum_text)], Some 0)"
proof -
  have m: "user_request mem ctx p WRITE (buffer_at p) (of_nat MAX_WRITE) =
      Inr ([(GREEN, bytes_text maximum_text)], Some (of_nat MAX_WRITE))"
    using user_request_text [OF assms, of "buffer_at p" maximum_text] assms(2) text_facts
    by (auto simp: place_ready_def MAX_WRITE_def)
  have b: "user_request mem ctx p WRITE (bad_utf8_at p) 1 = Inr ([], Some EINVAL)"
    using user_request_text [OF assms, of "bad_utf8_at p" "[0xff]"] assms(2)
    by (simp add: place_ready_def)
  note r = user_request_refused [OF assms(2)]
  have e: "user_request mem ctx p 0 0 0 = Inr ([], Some ENOSYS)" "user_request mem ctx p 127 0 0 = Inr ([], Some ENOSYS)"
    "user_request mem ctx p (- 1) 0 0 = Inr ([], Some ENOSYS)"
    by (rule r(1); simp add: WRITE_def)+
  have u: "user_request mem ctx p WRITE 0 1 = Inr ([], Some EFAULT)"
    "user_request mem ctx p WRITE (of_nat PAGE_OFFSET + 0x100000) 1 = Inr ([], Some EFAULT)"
    "user_request mem ctx p WRITE (CODE + of_nat PAGE) 1 = Inr ([], Some EFAULT)"
    "user_request mem ctx p WRITE (STACK - 1) 2 = Inr ([], Some EFAULT)"
    "user_request mem ctx p WRITE (STACK_TOP - 1) 2 = Inr ([], Some EFAULT)"
    "user_request mem ctx p WRITE (- 1) 2 = Inr ([], Some EFAULT)"
    by (rule r(4); (rule unreadable_checks | simp))+
  have i: "user_request mem ctx p WRITE (message_at p) 257 = Inr ([], Some EINVAL)"
    "user_request mem ctx p WRITE 0 (- 1) = Inr ([], Some EINVAL)"
    by (rule r(2); simp)+
  show ?thesis
    unfolding more_checks_def run_checks.simps e u i r(3) m b by simp
qed

text \<open>
  C36. The user program's own checks pass: with the user mapping installed and a proper return
  context, every request returns the expected result, so that the program finishes with no failure
  and the result the kernel checks for; all it prints is its greeting, format characters as they
  are, and in the checking build the buffer of maximal length.
\<close>

theorem user_demo_passes:
  fixes physical_bytes :: "u64 \<Rightarrow> u8"
  assumes "mapping_ready cr3 pdpt pd pt physical m" "install_mapping cr3 pdpt pd pt physical m = Inr m'"
    and "place_ready (mapped_memory physical_bytes cr3 m') ctx p"
  shows "user_demo (mapped_memory physical_bytes cr3 m') ctx p syscall_check 0 =
    Inr ((GREEN, ''Hello World! %s %n'' @ [CHR 0x0a])
          # (if syscall_check then [(GREEN, replicate 255 (CHR 0x20) @ [CHR 0x0a])] else []), Some (RESULT, 0))"
proof -
  let ?mem = "mapped_memory physical_bytes cr3 m'"
  have m': "m' = installed cr3 pdpt pd pt physical m" using install_mapping_run [OF assms(1)] assms(2) by simp
  have none: "?mem va = None \<longleftrightarrow> user_page physical va = None" for va
    by (simp add: m' mapped_memory_def user_access_installed [OF assms(1)])
  have "maximum_text = replicate 255 0x20 @ [0x0a]"
    by (simp add: maximum_text_def MAX_WRITE_def numeral_eq_Suc)
  moreover have "bytes_text (replicate 255 0x20 @ [0x0a]) = replicate 255 (CHR 0x20) @ [CHR 0x0a]"
    by (simp add: bytes_text_def char_of_def bit_0)
  ultimately have t: "bytes_text maximum_text = replicate 255 (CHR 0x20) @ [CHR 0x0a]"
    by (simp only:)
  show ?thesis
    using plain_checks_pass [OF none assms(3)] more_checks_pass [OF none assms(3)]
    by (simp add: user_demo_def demo_result_def RESULT_def t)
qed

text \<open>The program in the example session.\<close>

definition example_place :: user_place where
  "example_place = \<lparr>message_at = 0x9ff000, buffer_at = 0x9ff100, bad_utf8_at = 0x9ff800,
     label_at = 0x800010, stack_at = 0x9ff900, frame_at = 0x17000, base_frame = example_frame\<rparr>"

definition example_bytes :: "u64 \<Rightarrow> u8" where
  "example_bytes pa = (let i = unat pa - 0x401000 in
     if i < 19 then message_text ! i else if i < 0x1ff then 0x20 else if i = 0x1ff then 0x0a else 0xff)"

lemma stack_cell:
  assumes "0x9ff000 + n < 0xa00000"
  shows "mapped_memory physical_bytes 0x101000 (installed 0x101000 (PAGE_OFFSET + 0x200000) (PAGE_OFFSET + 0x201000)
      (PAGE_OFFSET + 0x202000) 0x400000 boot_tables) (0x9ff000 + of_nat n) = Some (physical_bytes (0x401000 + of_nat n))"
proof -
  have n: "unat (of_nat n :: u64) = n" by (rule unat_of_nat_u64) (use assms in simp)
  then have "unat (0x9ff000 + of_nat n :: u64) = 0x9ff000 + n"
    using unat_add_u64 [of "0x9ff000" "of_nat n"] assms by simp
  then have "STACK \<le> 0x9ff000 + of_nat n" "0x9ff000 + of_nat n < STACK_TOP" "\<not> 0x9ff000 + of_nat n < CODE + of_nat PAGE"
    using assms by (simp_all add: layout_defs word_le_nat_alt word_less_nat_alt)
  then have "user_page 0x400000 (0x9ff000 + of_nat n) = Some (0x401000 + of_nat n, True, False)"
    by (simp add: user_page_def) (simp add: layout_defs)
  then show ?thesis by (simp add: mapped_memory_def user_access_installed [OF boot_ready])
qed

lemma stack_holds:
  assumes "\<And>k. k < length bs \<Longrightarrow> physical_bytes (0x401000 + of_nat (s + k)) = bs ! k" "s + length bs \<le> 4096"
  shows "user_holds (mapped_memory physical_bytes 0x101000 (installed 0x101000 (PAGE_OFFSET + 0x200000) (PAGE_OFFSET + 0x201000)
      (PAGE_OFFSET + 0x202000) 0x400000 boot_tables)) (0x9ff000 + of_nat s) bs"
proof -
  have "mapped_memory physical_bytes 0x101000 (installed 0x101000 (PAGE_OFFSET + 0x200000) (PAGE_OFFSET + 0x201000)
      (PAGE_OFFSET + 0x202000) 0x400000 boot_tables) (0x9ff000 + of_nat s + of_nat k) = Some (bs ! k)"
    if k: "k < length bs" for k
  proof -
    have eq: "0x9ff000 + of_nat s + of_nat k = (0x9ff000 + of_nat (s + k) :: u64)" by simp
    show ?thesis unfolding eq by (subst stack_cell) (use assms k in simp_all)
  qed
  then show ?thesis by (simp add: user_holds_def list_all_iff)
qed

lemma example_offset: "n < 4096 \<Longrightarrow> unat (0x401000 + of_nat n :: u64) - 0x401000 = n"
  using unat_add_u64 [of "0x401000" "of_nat n"] unat_of_nat_u64 [of n] by simp

lemma example_place_ready:
  "place_ready (mapped_memory example_bytes 0x101000 (installed 0x101000 (PAGE_OFFSET + 0x200000) (PAGE_OFFSET + 0x201000)
      (PAGE_OFFSET + 0x202000) 0x400000 boot_tables)) example_context example_place"
proof -
  have "user_holds (mapped_memory example_bytes 0x101000 (installed 0x101000 (PAGE_OFFSET + 0x200000) (PAGE_OFFSET + 0x201000)
      (PAGE_OFFSET + 0x202000) 0x400000 boot_tables)) (0x9ff000 + of_nat 0) message_text"
    by (rule stack_holds) (simp_all add: example_bytes_def example_offset text_facts Let_def del: of_nat_add)
  moreover have "user_holds (mapped_memory example_bytes 0x101000 (installed 0x101000 (PAGE_OFFSET + 0x200000) (PAGE_OFFSET + 0x201000)
      (PAGE_OFFSET + 0x202000) 0x400000 boot_tables)) (0x9ff000 + of_nat 256) maximum_text"
    by (rule stack_holds)
      (auto simp: example_bytes_def example_offset text_facts Let_def nth_list_update maximum_text_def MAX_WRITE_def simp del: of_nat_add)
  moreover have "user_holds (mapped_memory example_bytes 0x101000 (installed 0x101000 (PAGE_OFFSET + 0x200000) (PAGE_OFFSET + 0x201000)
      (PAGE_OFFSET + 0x202000) 0x400000 boot_tables)) (0x9ff000 + of_nat 2048) [0xff]"
    by (rule stack_holds) (simp_all add: example_bytes_def example_offset Let_def del: of_nat_add)
  moreover have "valid_syscall example_context (frame_at example_place) (request_frame example_place 0 0 0)"
    using example_valid by (simp add: valid_syscall_def example_place_def request_frame_def layout_defs
        example_context_def example_frame_def)
  ultimately show ?thesis by (simp add: place_ready_def) (simp add: example_place_def)
qed

theorem user_demo_passes_witness:
  "\<exists>m'. install_mapping 0x101000 (PAGE_OFFSET + 0x200000) (PAGE_OFFSET + 0x201000) (PAGE_OFFSET + 0x202000)
      0x400000 boot_tables = Inr m'
    \<and> user_demo (mapped_memory example_bytes 0x101000 m') example_context example_place False 0
      = Inr ([(GREEN, ''Hello World! %s %n'' @ [CHR 0x0a])], Some (RESULT, 0))"
  using user_demo_passes [OF boot_ready install_mapping_run [OF boot_ready] example_place_ready, of False]
    install_mapping_run [OF boot_ready] by auto

end
