(* ===== verification/Task.thy ===== *)
theory Task
  imports Gate Text_Format Allocation
begin

text \<open>
  Kernel tasks (\<^verbatim>\<open>src/kernel/task.rs\<close>, \<^verbatim>\<open>src/kernel/task_switch.S\<close>): descriptors, creation of a thread with
  its hand-made first frame, the context switch on the stacks, the bookkeeping of \<^verbatim>\<open>switch_to\<close>, and
  the states a set of cooperating tasks can reach. Descriptors are kept by address; the stacks are
  64-bit words by address. What the compiler decides (depths of stack frames, register contents) and
  what the code between two switches writes to its own stack are parameters or left open. This is the
  ordinary build, without the checks of the \<^verbatim>\<open>task-check\<close> feature.
\<close>

section \<open>Descriptors\<close>

definition TASK_REGION_SIZE :: usize where "TASK_REGION_SIZE = 32 * 1024"
definition DESCRIPTOR_AREA :: usize where "DESCRIPTOR_AREA = 4096"
definition STACK_CANARY :: u64 where "STACK_CANARY = 0x4d494b4f5354414b"

datatype task_state = Ready | Running | Zombie

record kernel_task =
  context_rsp :: usize
  pid :: usize
  state :: task_state
  stack_bottom :: usize
  stack_top :: usize
  page_table :: u64
  entry :: "usize option"
  argument :: usize
  progress :: usize
  exit_code :: "usize option"

definition BOOT_TASK_INITIAL :: kernel_task where
  "BOOT_TASK_INITIAL = \<lparr>context_rsp = 0, pid = 0, state = Ready, stack_bottom = 0, stack_top = 0, page_table = 0,
     entry = None, argument = 0, progress = 0, exit_code = None\<rparr>"

text \<open>The registers a switch saves, in push order (RBP, RBX, R12 to R15), RSP and RIP.\<close>

record cpu =
  cpu_rsp :: usize
  cpu_rip :: u64
  cpu_saved :: "u64 list"

type_synonym stack_words = "nat \<Rightarrow> u64"

record task_machine =
  tm_tasks :: "nat \<Rightarrow> kernel_task option"
  tm_current :: nat
  tm_next_pid :: usize
  tm_tss :: tss
  tm_memory :: memory_descriptor
  tm_words :: stack_words
  tm_cpu :: cpu
  tm_interrupts :: bool
  tm_cr3 :: u64

record task_code =
  trampoline_at :: usize
  returned_at :: usize
  switch_return_at :: u64
  init_at :: usize
  boot_task_at :: nat

definition deref :: "task_machine \<Rightarrow> nat \<Rightarrow> kernel_task res" where
  "deref m a = expect (tm_tasks m a) ''dangling task pointer''"

definition set_task :: "nat \<Rightarrow> kernel_task \<Rightarrow> task_machine \<Rightarrow> task_machine" where
  "set_task a t m = m\<lparr>tm_tasks := (tm_tasks m)(a := Some t)\<rparr>"

lemma set_task_simps [simp]:
  "tm_tasks (set_task a t m) = (tm_tasks m)(a := Some t)" "tm_current (set_task a t m) = tm_current m"
  "tm_next_pid (set_task a t m) = tm_next_pid m" "tm_tss (set_task a t m) = tm_tss m"
  "tm_memory (set_task a t m) = tm_memory m" "tm_words (set_task a t m) = tm_words m"
  "tm_cpu (set_task a t m) = tm_cpu m" "tm_interrupts (set_task a t m) = tm_interrupts m" "tm_cr3 (set_task a t m) = tm_cr3 m"
  by (simp_all add: set_task_def)

section \<open>Operations\<close>

text \<open>Creating a thread: its page, its descriptor, the canary and the first frame.\<close>

record kernel_thread =
  thread_task :: nat
  backing :: page_run

definition first_frame :: "task_code \<Rightarrow> u64 list" where
  "first_frame code = [0, 0, 0, 0, 0, 0, of_nat (trampoline_at code), of_nat (returned_at code)]"

definition write_words :: "usize \<Rightarrow> u64 list \<Rightarrow> stack_words \<Rightarrow> stack_words" where
  "write_words a vs w = fold (\<lambda>(i, v) w. w(uadd a (8 * i) := v)) (enumerate 0 vs) w"

definition thread_message :: "usize \<Rightarrow> usize \<Rightarrow> usize \<Rightarrow> message" where
  "thread_message p bottom top_address = (GREEN, ''Kernel thread created: pid='' @ decimal p @ '', stack=''
     @ hexadecimal 18 bottom @ ''..'' @ hexadecimal 18 top_address @ [CHR 0x0a])"

definition create_kernel_thread ::
  "task_code \<Rightarrow> usize \<Rightarrow> usize \<Rightarrow> task_machine \<Rightarrow> (kernel_thread \<times> message list \<times> task_machine) res" where
  "create_kernel_thread code entry_point arg m =
     bind_res (allocate (tm_memory m) Mapped 1) (\<lambda>(result, memory').
     bind_res (expect_ok result ''no mapped page for kernel thread'') (\<lambda>run.
     let base = uadd PAGE_OFFSET (physical_address run); top_address = uadd base TASK_REGION_SIZE; p = tm_next_pid m in
     bind_res (expect (checked_add p 1) ''PID overflow'') (\<lambda>next_pid.
     let bottom = uadd (uadd base DESCRIPTOR_AREA) 8;
         t = \<lparr>context_rsp = usub top_address 64, pid = p, state = Ready, stack_bottom = bottom, stack_top = top_address,
              page_table = tm_cr3 m, entry = Some entry_point, argument = arg, progress = 0, exit_code = None\<rparr>;
         w = (tm_words m)(uadd base DESCRIPTOR_AREA := STACK_CANARY);
         w' = write_words (usub top_address 64) (first_frame code) w
     in Inr (\<lparr>thread_task = base, backing = run\<rparr>, [thread_message p bottom top_address],
             (set_task base t m)\<lparr>tm_memory := memory', tm_next_pid := next_pid, tm_words := w'\<rparr>))))"

definition assert_current_stack :: "task_machine \<Rightarrow> unit res" where
  "assert_current_stack m =
     bind_res (ensure (tm_current m \<noteq> 0) ''!task.is_null()'') (\<lambda>_.
     bind_res (deref m (tm_current m)) (\<lambda>t.
     bind_res (ensure (stack_bottom t \<le> cpu_rsp (tm_cpu m) \<and> cpu_rsp (tm_cpu m) < stack_top t)
       ''(stack_bottom..stack_top).contains(&rsp)'') (\<lambda>_.
     bind_res (ensure (kernel_stack (tm_tss m) = of_nat (stack_top t)) ''gate::kernel_stack() == stack_top'') (\<lambda>_.
     bind_res (ensure (tm_cr3 m = page_table t) ''arch::cr3() == page_table'') (\<lambda>_.
     ensure (state t = Running) ''state == State::Running'')))))"

text \<open>
  The switch in assembly: CALL pushes the return address, six pushes, RSP to the old context, RSP
  from the new one, six pops, RET. The result is the words, the saved RSP and the registers.
\<close>

definition push_word :: "u64 \<Rightarrow> stack_words \<times> usize \<Rightarrow> stack_words \<times> usize" where
  "push_word v = (\<lambda>(w, sp). (w(usub sp 8 := v), usub sp 8))"

definition restore_context :: "stack_words \<Rightarrow> usize \<Rightarrow> cpu" where
  "restore_context w sp =
     \<lparr>cpu_rsp = uadd sp 56, cpu_rip = w (uadd sp 48),
      cpu_saved = [w (uadd sp 40), w (uadd sp 32), w (uadd sp 24), w (uadd sp 16), w (uadd sp 8), w sp]\<rparr>"

definition task_context_switch :: "u64 \<Rightarrow> usize \<Rightarrow> stack_words \<Rightarrow> cpu \<Rightarrow> stack_words \<times> usize \<times> cpu" where
  "task_context_switch return_address next_rsp w c =
     (let (w', saved) = fold push_word (return_address # cpu_saved c) (w, cpu_rsp c)
      in (w', saved, restore_context w' next_rsp))"

text \<open>The hand-over: everything of \<^verbatim>\<open>switch_to\<close> up to the moment the other task runs.\<close>

definition leave_task :: "kernel_task \<Rightarrow> kernel_task res" where
  "leave_task t =
     (if state t = Running then Inr (t\<lparr>state := Ready\<rparr>)
      else bind_res (ensure (state t = Zombie) ''(*previous).state == State::Zombie'') (\<lambda>_. Inr t))"

definition switch_to :: "task_code \<Rightarrow> nat \<Rightarrow> task_machine \<Rightarrow> task_machine res" where
  "switch_to code next_task m =
     bind_res (ensure (\<not> tm_interrupts m) ''!arch::interrupts_enabled()'') (\<lambda>_.
     let previous = tm_current m in
     bind_res (ensure (previous \<noteq> 0 \<and> next_task \<noteq> 0 \<and> previous \<noteq> next_task) ''previous != next'') (\<lambda>_.
     bind_res (deref m next_task) (\<lambda>n.
     bind_res (deref m previous) (\<lambda>p.
     bind_res (ensure (state n = Ready) ''(*next).state == State::Ready'') (\<lambda>_.
     bind_res (ensure (page_table p = page_table n) ''(*previous).page_table == (*next).page_table'') (\<lambda>_.
     bind_res (leave_task p) (\<lambda>p'.
     bind_res (set_kernel_stack (tm_interrupts m) (of_nat (stack_top n)) (tm_tss m)) (\<lambda>tss'.
     let (w, saved, c) = task_context_switch (switch_return_at code) (context_rsp n) (tm_words m) (tm_cpu m)
     in Inr ((set_task next_task (n\<lparr>state := Running\<rparr>) (set_task previous (p'\<lparr>context_rsp := saved\<rparr>) m))
          \<lparr>tm_tss := tss', tm_current := next_task, tm_words := w, tm_cpu := c\<rparr>)))))))))"

text \<open>The rest of \<^verbatim>\<open>switch_to\<close>, when its task runs again.\<close>

definition switch_resumed :: "nat \<Rightarrow> task_machine \<Rightarrow> unit res" where
  "switch_resumed previous m =
     bind_res (ensure (tm_current m = previous) ''current == previous'') (\<lambda>_. assert_current_stack m)"

section \<open>The context switch\<close>

text \<open>A frame that brings back registers, RIP and RSP when it is restored.\<close>

definition saved_frame :: "stack_words \<Rightarrow> usize \<Rightarrow> cpu \<Rightarrow> bool" where
  "saved_frame w sp c \<longleftrightarrow> restore_context w sp = c"

lemma push_seven:
  assumes "length rs = 6" "56 \<le> sp" "sp \<le> usize_range"
  shows "\<exists>w'. fold push_word (v # rs) (w, sp) = (w', sp - 56)
    \<and> saved_frame w' (sp - 56) \<lparr>cpu_rsp = uadd (sp - 56) 56, cpu_rip = v, cpu_saved = rs\<rparr>
    \<and> (\<forall>a. \<not> (sp - 56 \<le> a \<and> a < sp) \<longrightarrow> w' a = w a)"
proof -
  from assms(1) obtain a b c d e f where rs: "rs = [a, b, c, d, e, f]"
    by (auto simp: numeral_eq_Suc length_Suc_conv)
  obtain k where k: "sp = k + 56" using assms(2) by (metis le_add_diff_inverse2)
  have u: "usub (k + 56) 8 = k + 48" "usub (k + 48) 8 = k + 40" "usub (k + 40) 8 = k + 32" "usub (k + 32) 8 = k + 24"
    "usub (k + 24) 8 = k + 16" "usub (k + 16) 8 = k + 8" "usub (k + 8) 8 = k"
    by (simp_all add: usub_exact)
  have a: "uadd k 48 = k + 48" "uadd k 40 = k + 40" "uadd k 32 = k + 32" "uadd k 24 = k + 24" "uadd k 16 = k + 16"
    "uadd k 8 = k + 8"
    using assms(3) by (simp_all add: uadd_exact k)
  show ?thesis
    unfolding rs k by (simp add: push_word_def u a saved_frame_def restore_context_def)
qed

lemma task_context_switch_run:
  assumes "length (cpu_saved c) = 6" "56 \<le> cpu_rsp c" "cpu_rsp c < usize_range"
  shows "\<exists>w'. task_context_switch ret next_rsp w c = (w', cpu_rsp c - 56, restore_context w' next_rsp)
    \<and> saved_frame w' (cpu_rsp c - 56) \<lparr>cpu_rsp = cpu_rsp c, cpu_rip = ret, cpu_saved = cpu_saved c\<rparr>
    \<and> (\<forall>a. \<not> (cpu_rsp c - 56 \<le> a \<and> a < cpu_rsp c) \<longrightarrow> w' a = w a)"
proof -
  have "uadd (cpu_rsp c - 56) 56 = cpu_rsp c" using assms(2,3) by (simp add: uadd_exact)
  moreover obtain w' where "fold push_word (ret # cpu_saved c) (w, cpu_rsp c) = (w', cpu_rsp c - 56)
    \<and> saved_frame w' (cpu_rsp c - 56) \<lparr>cpu_rsp = uadd (cpu_rsp c - 56) 56, cpu_rip = ret, cpu_saved = cpu_saved c\<rparr>
    \<and> (\<forall>a. \<not> (cpu_rsp c - 56 \<le> a \<and> a < cpu_rsp c) \<longrightarrow> w' a = w a)"
    using push_seven [OF assms(1,2), of ret w] assms(3) by auto
  ultimately show ?thesis by (auto simp: task_context_switch_def simp del: fold_simps)
qed

text \<open>A frame survives writes elsewhere.\<close>

lemma saved_frame_cong:
  assumes "saved_frame w sp c" "\<And>a. sp \<le> a \<Longrightarrow> a < sp + 56 \<Longrightarrow> w' a = w a" "sp + 56 \<le> usize_range"
  shows "saved_frame w' sp c"
proof -
  have a: "uadd sp 48 = sp + 48" "uadd sp 40 = sp + 40" "uadd sp 32 = sp + 32" "uadd sp 24 = sp + 24" "uadd sp 16 = sp + 16"
    "uadd sp 8 = sp + 8"
    using assms(3) by (simp_all add: uadd_exact)
  show ?thesis
    using assms(1,2) unfolding saved_frame_def restore_context_def a by simp
qed

text \<open>
  C23. The context switch loses nothing: switching away and later back, with the seven words of the
  saved frame untouched in between, continues at the return address of the first switch with the
  same stack pointer and the same callee-saved registers, whatever the other task did.
\<close>

theorem context_switch_roundtrip:
  assumes "length (cpu_saved c) = 6" "56 \<le> cpu_rsp c" "cpu_rsp c < usize_range"
    and "task_context_switch ret other w c = (w1, saved, c1)"
    and "\<forall>a. saved \<le> a \<and> a < cpu_rsp c \<longrightarrow> w2 a = w1 a"
    and "length (cpu_saved c2) = 6" "56 \<le> cpu_rsp c2" "cpu_rsp c2 < usize_range"
    and "cpu_rsp c2 \<le> cpu_rsp c - 56 \<or> cpu_rsp c \<le> cpu_rsp c2 - 56"
    and "task_context_switch ret2 saved w2 c2 = (w3, saved2, c3)"
  shows "c3 = \<lparr>cpu_rsp = cpu_rsp c, cpu_rip = ret, cpu_saved = cpu_saved c\<rparr>"
proof -
  let ?c = "\<lparr>cpu_rsp = cpu_rsp c, cpu_rip = ret, cpu_saved = cpu_saved c\<rparr>"
  have f: "saved = cpu_rsp c - 56" "saved_frame w1 saved ?c"
    using task_context_switch_run [OF assms(1-3), of ret other w] assms(4) by auto
  have t: "c3 = restore_context w3 saved" "\<And>a. \<not> (cpu_rsp c2 - 56 \<le> a \<and> a < cpu_rsp c2) \<Longrightarrow> w3 a = w2 a"
    using task_context_switch_run [OF assms(6-8), of ret2 saved w2] assms(10) by auto
  have "saved_frame w3 saved ?c"
  proof (rule saved_frame_cong [OF f(2)])
    show "saved + 56 \<le> usize_range" using f(1) assms(2,3) by simp
    fix a assume a: "saved \<le> a" "a < saved + 56"
    then have "a < cpu_rsp c" using f(1) assms(2) by simp
    moreover from this have "w3 a = w2 a" using t(2) [of a] assms(9) a f(1) by linarith
    ultimately show "w3 a = w1 a" using assms(5) a by simp
  qed
  then show ?thesis using t(1) by (simp add: saved_frame_def)
qed

theorem context_switch_roundtrip_witness:
  "\<exists>w1 saved c1 w3 saved2.
     task_context_switch 0x77 0x3000 (\<lambda>_. 0) \<lparr>cpu_rsp = 0x2000, cpu_rip = 0, cpu_saved = [1, 2, 3, 4, 5, 6]\<rparr> = (w1, saved, c1)
     \<and> task_context_switch 0x88 saved w1 \<lparr>cpu_rsp = 0x4000, cpu_rip = 0, cpu_saved = [9, 9, 9, 9, 9, 9]\<rparr>
       = (w3, saved2, \<lparr>cpu_rsp = 0x2000, cpu_rip = 0x77, cpu_saved = [1, 2, 3, 4, 5, 6]\<rparr>)"
proof -
  let ?c = "\<lparr>cpu_rsp = 0x2000, cpu_rip = 0, cpu_saved = [1, 2, 3, 4, 5, 6]\<rparr>"
  let ?d = "\<lparr>cpu_rsp = 0x4000, cpu_rip = 0, cpu_saved = [9, 9, 9, 9, 9, 9]\<rparr>"
  obtain w1 saved c1 where s: "task_context_switch 0x77 0x3000 (\<lambda>_. 0) ?c = (w1, saved, c1)"
    by (cases "task_context_switch 0x77 0x3000 (\<lambda>_. 0) ?c")
  obtain w3 saved2 c3 where t: "task_context_switch 0x88 saved w1 ?d = (w3, saved2, c3)"
    by (cases "task_context_switch 0x88 saved w1 ?d")
  have "c3 = \<lparr>cpu_rsp = cpu_rsp ?c, cpu_rip = 0x77, cpu_saved = cpu_saved ?c\<rparr>"
    by (rule context_switch_roundtrip [OF _ _ _ s _ _ _ _ _ t]) simp_all
  then show ?thesis using s t by auto
qed

section \<open>Sets of tasks\<close>

text \<open>
  A consistent set of tasks: the current one is not ready, nothing else runs, the processor's stack
  for user entries is the current task's, stacks do not overlap, and every ready task has, inside
  its own stack, a frame that restores the context \<open>g\<close> it was suspended with.
\<close>

definition stack_range :: "kernel_task \<Rightarrow> nat set" where
  "stack_range t = {stack_bottom t..<stack_top t}"

definition ready_task :: "stack_words \<Rightarrow> kernel_task \<Rightarrow> cpu \<Rightarrow> bool" where
  "ready_task w t c \<longleftrightarrow> stack_bottom t \<le> context_rsp t \<and> context_rsp t + 56 \<le> stack_top t
     \<and> saved_frame w (context_rsp t) c"

definition tasks_ok :: "task_machine \<Rightarrow> (nat \<Rightarrow> cpu) \<Rightarrow> bool" where
  "tasks_ok m g \<longleftrightarrow> length (tm_tss m) = 104
     \<and> (\<exists>t. tm_tasks m (tm_current m) = Some t \<and> state t \<noteq> Ready \<and> kernel_stack (tm_tss m) = of_nat (stack_top t))
     \<and> (\<forall>a t. tm_tasks m a = Some t \<longrightarrow> stack_top t < usize_range
          \<and> (state t = Running \<longrightarrow> a = tm_current m)
          \<and> (state t = Ready \<longrightarrow> ready_task (tm_words m) t (g a))
          \<and> (\<forall>b u. tm_tasks m b = Some u \<and> a \<noteq> b \<longrightarrow> stack_range t \<inter> stack_range u = {}))"

text \<open>The current task stands where it may call \<^verbatim>\<open>switch_to\<close>: its stack has room for the frame.\<close>

definition at_call :: "task_machine \<Rightarrow> bool" where
  "at_call m \<longleftrightarrow> length (cpu_saved (tm_cpu m)) = 6 \<and> (\<exists>t. tm_tasks m (tm_current m) = Some t
     \<and> stack_bottom t + 56 \<le> cpu_rsp (tm_cpu m) \<and> cpu_rsp (tm_cpu m) \<le> stack_top t)"

definition suspended :: "task_code \<Rightarrow> cpu \<Rightarrow> cpu" where
  "suspended code c = c\<lparr>cpu_rip := switch_return_at code\<rparr>"

lemma suspended_eq:
  "suspended code c = \<lparr>cpu_rsp = cpu_rsp c, cpu_rip = switch_return_at code, cpu_saved = cpu_saved c\<rparr>"
  by (cases c) (simp add: suspended_def)

text \<open>
  Steps: the current task works on its own stack and ends at a call; it records its exit; it
  switches to another task.
\<close>

inductive task_step :: "task_code \<Rightarrow> task_machine \<times> (nat \<Rightarrow> cpu) \<Rightarrow> task_machine \<times> (nat \<Rightarrow> cpu) \<Rightarrow> bool" for code where
  work: "tm_tasks m (tm_current m) = Some t \<Longrightarrow> (\<And>a. a \<notin> stack_range t \<Longrightarrow> w a = tm_words m a)
    \<Longrightarrow> task_step code (m, g) (m\<lparr>tm_words := w, tm_cpu := c\<rparr>, g)"
| exit: "tm_tasks m (tm_current m) = Some t \<Longrightarrow> state t = Running
    \<Longrightarrow> task_step code (m, g) (set_task (tm_current m) (t\<lparr>exit_code := Some n, state := Zombie\<rparr>) m, g)"
| switch: "at_call m \<Longrightarrow> switch_to code a m = Inr m'
    \<Longrightarrow> task_step code (m, g) (m', g(tm_current m := suspended code (tm_cpu m)))"

inductive_cases task_stepE: "task_step code (m, g) (m', g')"

lemma tasks_okD:
  assumes "tasks_ok m g" "tm_tasks m a = Some t"
  shows "stack_top t < usize_range" "state t = Running \<Longrightarrow> a = tm_current m"
    "state t = Ready \<Longrightarrow> ready_task (tm_words m) t (g a)"
    "tm_tasks m b = Some u \<Longrightarrow> a \<noteq> b \<Longrightarrow> stack_range t \<inter> stack_range u = {}"
  using assms unfolding tasks_ok_def by blast+

lemma tasks_ok_current:
  assumes "tasks_ok m g" "tm_tasks m (tm_current m) = Some t"
  shows "state t \<noteq> Ready" "kernel_stack (tm_tss m) = of_nat (stack_top t)" "length (tm_tss m) = 104"
proof -
  obtain u where "tm_tasks m (tm_current m) = Some u" "state u \<noteq> Ready" "kernel_stack (tm_tss m) = of_nat (stack_top u)"
    using assms(1) unfolding tasks_ok_def by blast
  then show "state t \<noteq> Ready" "kernel_stack (tm_tss m) = of_nat (stack_top t)" using assms(2) by simp_all
  show "length (tm_tss m) = 104" using assms(1) unfolding tasks_ok_def by blast
qed

lemma ready_task_cong:
  assumes "ready_task w t c" "\<And>x. x \<in> stack_range t \<Longrightarrow> w' x = w x" "stack_top t < usize_range"
  shows "ready_task w' t c"
  using assms saved_frame_cong [of w "context_rsp t" c w'] by (auto simp: ready_task_def stack_range_def)

lemma switch_to_result:
  assumes "switch_to code a m = Inr m'"
  obtains n p p' w saved c where
    "tm_tasks m a = Some n" "tm_tasks m (tm_current m) = Some p" "a \<noteq> tm_current m" "state n = Ready"
    "leave_task p = Inr p'" "page_table p = page_table n" "\<not> tm_interrupts m"
    "task_context_switch (switch_return_at code) (context_rsp n) (tm_words m) (tm_cpu m) = (w, saved, c)"
    "m' = m\<lparr>tm_tasks := (tm_tasks m)(tm_current m := Some (p'\<lparr>context_rsp := saved\<rparr>), a := Some (n\<lparr>state := Running\<rparr>)),
       tm_tss := store_u64 (tm_tss m) 4 (of_nat (stack_top n)), tm_current := a, tm_words := w, tm_cpu := c\<rparr>"
proof -
  obtain n where n: "tm_tasks m a = Some n"
    using assms by (cases "tm_tasks m a") (auto simp: switch_to_def deref_def bind_res_Inr Let_def)
  obtain p where p: "tm_tasks m (tm_current m) = Some p"
    using assms by (cases "tm_tasks m (tm_current m)") (auto simp: switch_to_def deref_def bind_res_Inr Let_def)
  have run: "bind_res (leave_task p) (\<lambda>p'. case task_context_switch (switch_return_at code) (context_rsp n) (tm_words m) (tm_cpu m) of
      (w, saved, c) \<Rightarrow> Inr ((set_task a (n\<lparr>state := Running\<rparr>) (set_task (tm_current m) (p'\<lparr>context_rsp := saved\<rparr>) m))
          \<lparr>tm_tss := store_u64 (tm_tss m) 4 (of_nat (stack_top n)), tm_current := a, tm_words := w, tm_cpu := c\<rparr>)) = Inr m'"
      "a \<noteq> tm_current m" "state n = Ready" "page_table p = page_table n" "\<not> tm_interrupts m"
    using assms by (auto simp: switch_to_def deref_def bind_res_Inr Let_def n p set_kernel_stack_def)
  obtain p' where p': "leave_task p = Inr p'" using run(1) by (cases "leave_task p") simp_all
  obtain w saved c where s: "task_context_switch (switch_return_at code) (context_rsp n) (tm_words m) (tm_cpu m) = (w, saved, c)"
    by (cases "task_context_switch (switch_return_at code) (context_rsp n) (tm_words m) (tm_cpu m)")
  show thesis by (rule that [OF n p run(2,3) p' run(4,5) s]) (use run(1) in \<open>simp add: p' s set_task_def\<close>)
qed

lemma leave_task_result:
  "leave_task p = Inr p' \<Longrightarrow> stack_bottom p' = stack_bottom p \<and> stack_top p' = stack_top p
    \<and> page_table p' = page_table p \<and> state p' \<noteq> Running \<and> (state p' = Ready \<longleftrightarrow> state p = Running)"
  by (auto simp: leave_task_def bind_res_Inr split: if_splits)

lemma switch_step:
  assumes ok: "tasks_ok m g" and call: "at_call m" and sw: "switch_to code a m = Inr m'"
  shows "tasks_ok m' (g(tm_current m := suspended code (tm_cpu m))) \<and> tm_cpu m' = g a
    \<and> (\<forall>t. tm_tasks m' a = Some t \<longrightarrow> state t = Running)"
  using sw
proof (rule switch_to_result)
  fix n p p' w saved c
  assume n: "tm_tasks m a = Some n" and p: "tm_tasks m (tm_current m) = Some p" and ne: "a \<noteq> tm_current m"
    and ready: "state n = Ready" and lv: "leave_task p = Inr p'"
    and sw: "task_context_switch (switch_return_at code) (context_rsp n) (tm_words m) (tm_cpu m) = (w, saved, c)"
    and m': "m' = m\<lparr>tm_tasks := (tm_tasks m)(tm_current m := Some (p'\<lparr>context_rsp := saved\<rparr>), a := Some (n\<lparr>state := Running\<rparr>)),
       tm_tss := store_u64 (tm_tss m) 4 (of_nat (stack_top n)), tm_current := a, tm_words := w, tm_cpu := c\<rparr>"
  note d = tasks_okD [OF ok]
  note l = leave_task_result [OF lv]
  have call': "length (cpu_saved (tm_cpu m)) = 6" "stack_bottom p + 56 \<le> cpu_rsp (tm_cpu m)" "cpu_rsp (tm_cpu m) \<le> stack_top p"
    using call p by (auto simp: at_call_def)
  have rsp: "56 \<le> cpu_rsp (tm_cpu m)" "cpu_rsp (tm_cpu m) < usize_range" using call' d(1) [OF p] by simp_all
  let ?c = "suspended code (tm_cpu m)"
  have cs: "saved = cpu_rsp (tm_cpu m) - 56" "c = restore_context w (context_rsp n)"
      "saved_frame w saved ?c" "\<And>x. x \<notin> stack_range p \<Longrightarrow> w x = tm_words m x"
    using task_context_switch_run [OF call'(1) rsp, of "switch_return_at code" "context_rsp n" "tm_words m"] sw call'
    by (auto simp: suspended_eq stack_range_def)
  have keep: "ready_task w t (g b)" if t: "tm_tasks m b = Some t" "b \<noteq> tm_current m" "state t = Ready" for b t
    by (rule ready_task_cong [OF d(3) [OF t(1,3)] _ d(1) [OF t(1)]]) (use d(4) [OF t(1) p t(2)] cs(4) in auto)
  have "c = g a" using keep [OF n ne ready] cs(2) by (simp add: ready_task_def saved_frame_def)
  moreover have "tasks_ok m' (g(tm_current m := ?c))"
  proof -
    have old: "\<exists>t0. tm_tasks m b = Some t0 \<and> stack_range t = stack_range t0 \<and> stack_top t = stack_top t0"
      if "tm_tasks m' b = Some t" for b t
      using that n p l by (auto simp: m' stack_range_def split: if_splits)
    have "ready_task w (p'\<lparr>context_rsp := saved\<rparr>) ?c"
      using cs(1,3) call' l by (simp add: ready_task_def)
    then have rd: "ready_task w t ((g(tm_current m := ?c)) b)" if "tm_tasks m' b = Some t" "state t = Ready" for b t
      using that keep by (auto simp: m' split: if_splits)
    have run: "b = a" if "tm_tasks m' b = Some t" "state t = Running" for b t
      using that d(2) l by (auto simp: m' split: if_splits)
    have disjoint: "stack_range t \<inter> stack_range u = {}"
      if t: "tm_tasks m' b = Some t" and u: "tm_tasks m' b' = Some u" and "b \<noteq> b'" for b b' t u
    proof -
      obtain t0 u0 where "tm_tasks m b = Some t0" "stack_range t = stack_range t0"
          "tm_tasks m b' = Some u0" "stack_range u = stack_range u0"
        using old [OF t] old [OF u] by blast
      then show ?thesis using d(4) [of b t0 b' u0] that(3) by simp
    qed
    have small: "stack_top t < usize_range" if "tm_tasks m' b = Some t" for b t
      using old [OF that] d(1) by auto
    show ?thesis
      unfolding tasks_ok_def
    proof (intro conjI allI impI)
      show "length (tm_tss m') = 104" using ok by (simp add: tasks_ok_def m' tss_length)
      show "\<exists>t. tm_tasks m' (tm_current m') = Some t \<and> state t \<noteq> Ready \<and> kernel_stack (tm_tss m') = of_nat (stack_top t)"
        using ok by (simp add: tasks_ok_def m' kernel_stack_def tss_load)
      fix b t assume t: "tm_tasks m' b = Some t"
      show "stack_top t < usize_range" by (rule small [OF t])
      show "b = tm_current m'" if "state t = Running" using run [OF t that] by (simp add: m')
      show "ready_task (tm_words m') t ((g(tm_current m := ?c)) b)" if "state t = Ready"
        using rd [OF t that] by (simp add: m')
      show "stack_range t \<inter> stack_range u = {}" if "tm_tasks m' b' = Some u \<and> b \<noteq> b'" for b' u
        using disjoint [OF t] that by blast
    qed
  qed
  ultimately show ?thesis using m' by simp
qed

lemma work_step:
  assumes ok: "tasks_ok m g" and t: "tm_tasks m (tm_current m) = Some t" and w: "\<And>a. a \<notin> stack_range t \<Longrightarrow> w a = tm_words m a"
  shows "tasks_ok (m\<lparr>tm_words := w, tm_cpu := c\<rparr>) g"
proof -
  note d = tasks_okD [OF ok]
  have "ready_task w u (g b)" if u: "tm_tasks m b = Some u" "state u = Ready" for b u
  proof (rule ready_task_cong [OF d(3) [OF u] _ d(1) [OF u(1)]])
    fix x assume x: "x \<in> stack_range u"
    have "b \<noteq> tm_current m" using tasks_ok_current(1) [OF ok t] u t by auto
    then have "x \<notin> stack_range t" using d(4) [OF u(1) t] x by blast
    then show "w x = tm_words m x" by (rule w)
  qed
  then show ?thesis using ok by (simp add: tasks_ok_def)
qed

lemma update_current:
  assumes ok: "tasks_ok m g" and t: "tm_tasks m (tm_current m) = Some t"
    and t': "stack_range t' = stack_range t" "stack_top t' = stack_top t" "state t' \<noteq> Ready"
  shows "tasks_ok (set_task (tm_current m) t' m) g"
proof -
  let ?m = "set_task (tm_current m) t' m"
  note d = tasks_okD [OF ok]
  have old: "\<exists>u0. tm_tasks m b = Some u0 \<and> stack_range u = stack_range u0 \<and> stack_top u = stack_top u0
      \<and> (b = tm_current m \<and> u = t' \<or> u = u0)" if "tm_tasks ?m b = Some u" for b u
    using that t t' by (auto simp: set_task_def split: if_splits)
  show ?thesis
    unfolding tasks_ok_def
  proof (intro conjI allI impI)
    show "length (tm_tss ?m) = 104" using ok by (simp add: tasks_ok_def set_task_def)
    show "\<exists>u. tm_tasks ?m (tm_current ?m) = Some u \<and> state u \<noteq> Ready \<and> kernel_stack (tm_tss ?m) = of_nat (stack_top u)"
      using tasks_ok_current(2) [OF ok t] t' by (simp add: set_task_def)
    fix b u assume u: "tm_tasks ?m b = Some u"
    obtain u0 where u0: "tm_tasks m b = Some u0" "stack_range u = stack_range u0" "stack_top u = stack_top u0"
        "b = tm_current m \<and> u = t' \<or> u = u0" using old [OF u] by blast
    show "stack_top u < usize_range" using d(1) [OF u0(1)] u0(3) by simp
    show "b = tm_current ?m" if "state u = Running" using d(2) [OF u0(1)] u0(4) that by (auto simp: set_task_def)
    show "ready_task (tm_words ?m) u (g b)" if "state u = Ready"
      using d(3) [OF u0(1)] u0(4) that t'(3) by (auto simp: set_task_def)
    show "stack_range u \<inter> stack_range v = {}" if v: "tm_tasks ?m b' = Some v \<and> b \<noteq> b'" for b' v
    proof -
      obtain v0 where "tm_tasks m b' = Some v0" "stack_range v = stack_range v0" using old v by blast
      then show ?thesis using d(4) [OF u0(1)] u0(2) v by simp
    qed
  qed
qed

lemma task_step_ok: "task_step code s s' \<Longrightarrow> tasks_ok (fst s) (snd s) \<Longrightarrow> tasks_ok (fst s') (snd s')"
proof (induction rule: task_step.induct)
  case (work m t w g c)
  then show ?case using work_step by simp
next
  case (exit m t g n)
  then show ?case
    using update_current [of m g t "t\<lparr>exit_code := Some n, state := Zombie\<rparr>"] by (simp add: stack_range_def)
next
  case (switch m a m' g)
  then show ?case using switch_step [of m g code a m'] by (simp del: fun_upd_apply)
qed

text \<open>
  C22. However the tasks take turns, each one continues exactly where it stopped: in every state that
  work on the own stack, exits and switches can reach, the set of tasks stays consistent (one
  running task, its stack in the TSS, disjoint stacks, an intact frame for every ready task), and a
  switch to a ready task gives the processor the very context that task was suspended with.
\<close>

theorem tasks_resume_exactly:
  assumes "tasks_ok m0 g0" "(task_step code)\<^sup>*\<^sup>* (m0, g0) (m, g)" "at_call m" "switch_to code a m = Inr m'"
  shows "tm_cpu m' = g a \<and> tm_current m' = a \<and> tasks_ok m' (g(tm_current m := suspended code (tm_cpu m)))"
proof -
  have "tasks_ok (fst (m, g)) (snd (m, g))"
    using assms(2)
  proof (induction rule: rtranclp_induct)
    case base
    then show ?case using assms(1) by simp
  next
    case (step y z)
    then show ?case using task_step_ok by blast
  qed
  then have "tasks_ok m g" by simp
  moreover have "tm_current m' = a" using assms(4) by (rule switch_to_result) simp
  ultimately show ?thesis using switch_step assms(3,4) by blast
qed

text \<open>Two tasks: the first runs, the second waits with a frame of zeros.\<close>

definition example_pair :: task_machine where
  "example_pair = \<lparr>tm_tasks = [1 \<mapsto> BOOT_TASK_INITIAL\<lparr>state := Running, stack_bottom := 0x1000, stack_top := 0x2000\<rparr>,
       2 \<mapsto> BOOT_TASK_INITIAL\<lparr>stack_bottom := 0x3000, stack_top := 0x4000, context_rsp := 0x3f00\<rparr>],
     tm_current = 1, tm_next_pid = 2, tm_tss = store_u64 TSS_INITIAL 4 0x2000, tm_memory = example_descriptor,
     tm_words = (\<lambda>_. 0), tm_cpu = \<lparr>cpu_rsp = 0x1f00, cpu_rip = 0x77, cpu_saved = [1, 2, 3, 4, 5, 6]\<rparr>,
     tm_interrupts = False, tm_cr3 = 0\<rparr>"

definition waiting_context :: cpu where
  "waiting_context = \<lparr>cpu_rsp = 0x3f38, cpu_rip = 0, cpu_saved = [0, 0, 0, 0, 0, 0]\<rparr>"

lemma example_pair_ok: "tasks_ok example_pair (\<lambda>_. waiting_context)" "at_call example_pair"
proof -
  have "kernel_stack (tm_tss example_pair) = 0x2000" "length (tm_tss example_pair) = 104"
    by (simp_all add: example_pair_def kernel_stack_def tss_load tss_length length_TSS_INITIAL)
  then show "tasks_ok example_pair (\<lambda>_. waiting_context)"
    by (auto simp: tasks_ok_def example_pair_def BOOT_TASK_INITIAL_def ready_task_def saved_frame_def restore_context_def
        waiting_context_def uadd_def stack_range_def split: if_splits)
  show "at_call example_pair" by (simp add: at_call_def example_pair_def)
qed

theorem tasks_resume_exactly_witness:
  "\<exists>m'. switch_to \<lparr>trampoline_at = 0, returned_at = 0, switch_return_at = 9, init_at = 0, boot_task_at = 1\<rparr> 2 example_pair = Inr m'
     \<and> tm_cpu m' = waiting_context"
proof -
  let ?code = "\<lparr>trampoline_at = 0, returned_at = 0, switch_return_at = 9, init_at = 0, boot_task_at = 1\<rparr>"
  obtain w saved c where s: "task_context_switch 9 0x3f00 (tm_words example_pair) (tm_cpu example_pair) = (w, saved, c)"
    by (cases "task_context_switch 9 0x3f00 (tm_words example_pair) (tm_cpu example_pair)")
  then obtain m' where sw: "switch_to ?code 2 example_pair = Inr m'"
    by (simp add: switch_to_def deref_def leave_task_def set_kernel_stack_def example_pair_def BOOT_TASK_INITIAL_def Let_def)
  from tasks_resume_exactly [OF example_pair_ok(1) rtranclp.rtrancl_refl example_pair_ok(2) sw] show ?thesis using sw by simp
qed

end
