(* ===== verification/Task_Demo.thy ===== *)
theory Task_Demo
  imports Task
begin

text \<open>
  The kernel thread demonstration (\<^verbatim>\<open>task.rs\<close>: \<open>demonstrate\<close>, the trampoline and the thread function
  \<open>init\<close>). The Rust functions are split at their calls of \<open>switch_to\<close>; which part runs next is decided
  by the RIP the context switch pops and by the point the current task is suspended at. The depth of
  the stack and the registers at each call, and what the code writes to its own stack before it,
  come from the compiler and are the parameter \<open>env\<close>.
\<close>

section \<open>The parts of the demonstration\<close>

datatype call_point = Boot_First | Boot_Second | Init_Yield | Trampoline_Exit

record demo_env =
  call_depth :: "call_point \<Rightarrow> nat"
  call_registers :: "call_point \<Rightarrow> u64 list"
  own_work :: "call_point \<Rightarrow> nat \<Rightarrow> nat \<Rightarrow> stack_words \<Rightarrow> stack_words"

definition reach_call :: "demo_env \<Rightarrow> call_point \<Rightarrow> task_machine \<Rightarrow> task_machine res" where
  "reach_call env p m = bind_res (deref m (tm_current m)) (\<lambda>t.
     Inr (m\<lparr>tm_words := own_work env p (stack_bottom t) (stack_top t) (tm_words m),
            tm_cpu := \<lparr>cpu_rsp = usub (stack_top t) (call_depth env p), cpu_rip = cpu_rip (tm_cpu m),
              cpu_saved = call_registers env p\<rparr>\<rparr>))"

definition INIT_LOCAL :: u64 where "INIT_LOCAL = 0x1020304050607080"

text \<open>The local value lives at the top of the stack frame while the thread waits.\<close>

definition init_first :: "task_code \<Rightarrow> demo_env \<Rightarrow> usize \<Rightarrow> task_machine \<Rightarrow> (message list \<times> task_machine) res" where
  "init_first code env arg m =
     bind_res (assert_current_stack m) (\<lambda>_.
     bind_res (deref m (tm_current m)) (\<lambda>t.
     bind_res (ensure (pid t = 1) ''(*CURRENT).pid == 1'') (\<lambda>_.
     bind_res (ensure (arg = 10) ''argument == 10'') (\<lambda>_.
     let printed = [(YELLOW, ''init task is running, arg='' @ hexadecimal 18 arg @ [CHR 0x0a])];
         m1 = set_task (tm_current m) (t\<lparr>progress := 1\<rparr>) m
     in bind_res (reach_call env Init_Yield m1) (\<lambda>m2.
        let m3 = m2\<lparr>tm_words := (tm_words m2)(cpu_rsp (tm_cpu m2) := INIT_LOCAL)\<rparr>
        in bind_res (switch_to code (boot_task_at code) m3) (\<lambda>m4. Inr (printed, m4)))))))"

definition init_second :: "task_machine \<Rightarrow> (message list \<times> usize \<times> task_machine) res" where
  "init_second m =
     bind_res (switch_resumed (tm_current m) m) (\<lambda>_.
     bind_res (ensure (tm_words m (cpu_rsp (tm_cpu m)) = INIT_LOCAL) ''local == 0x1020_3040_5060_7080'') (\<lambda>_.
     bind_res (deref m (tm_current m)) (\<lambda>t.
     Inr ([(YELLOW, ''init task resumed after yielding'' @ [CHR 0x0a])], 1,
          set_task (tm_current m) (t\<lparr>progress := 2\<rparr>) m))))"

definition trampoline_enter :: "task_code \<Rightarrow> demo_env \<Rightarrow> task_machine \<Rightarrow> (message list \<times> task_machine) res" where
  "trampoline_enter code env m =
     bind_res (ensure (\<not> tm_interrupts m) ''!arch::interrupts_enabled()'') (\<lambda>_.
     bind_res (assert_current_stack m) (\<lambda>_.
     bind_res (deref m (tm_current m)) (\<lambda>t.
     bind_res (expect (entry t) ''kernel thread has no entry'') (\<lambda>f.
     if f = init_at code then init_first code env (argument t) m else Inl (Panic ''unknown thread function'')))))"

definition exit_message :: "usize \<Rightarrow> usize \<Rightarrow> message" where
  "exit_message p n = (GREEN, ''Kernel thread exit: pid='' @ decimal p @ '' code='' @ decimal n @ [CHR 0x0a])"

definition trampoline_exit :: "task_code \<Rightarrow> demo_env \<Rightarrow> usize \<Rightarrow> task_machine \<Rightarrow> (message list \<times> task_machine) res" where
  "trampoline_exit code env n m =
     bind_res (deref m (tm_current m)) (\<lambda>t.
     let m1 = set_task (tm_current m) (t\<lparr>exit_code := Some n, state := Zombie\<rparr>) m
     in bind_res (reach_call env Trampoline_Exit m1) (\<lambda>m2.
        bind_res (switch_to code (boot_task_at code) m2) (\<lambda>m3. Inr ([exit_message (pid t) n], m3))))"

definition task_trampoline :: "task_code \<Rightarrow> demo_env \<Rightarrow> task_machine \<Rightarrow> (message list \<times> task_machine) res" where
  "task_trampoline code env m =
     bind_res (init_second m) (\<lambda>(printed, n, m1).
     bind_res (trampoline_exit code env n m1) (\<lambda>(more_printed, m2). Inr (printed @ more_printed, m2)))"

definition boot_first :: "task_code \<Rightarrow> demo_env \<Rightarrow> usize \<Rightarrow> usize \<Rightarrow> task_machine \<Rightarrow>
    (kernel_thread \<times> message list \<times> task_machine) res" where
  "boot_first code env boot_stack boot_stack_top m =
     bind_res (ensure (\<not> tm_interrupts m) ''!arch::interrupts_enabled()'') (\<lambda>_.
     bind_res (ensure (tm_current m = 0) ''CURRENT.is_null()'') (\<lambda>_.
     bind_res (deref m (boot_task_at code)) (\<lambda>b.
     let m1 = (set_task (boot_task_at code) (b\<lparr>stack_bottom := boot_stack, stack_top := boot_stack_top,
           page_table := tm_cr3 m, state := Running\<rparr>) m)\<lparr>tm_current := boot_task_at code\<rparr>
     in bind_res (set_kernel_stack (tm_interrupts m1) (of_nat boot_stack_top) (tm_tss m1)) (\<lambda>tss'.
        let m2 = m1\<lparr>tm_tss := tss'\<rparr> in
        bind_res (assert_current_stack m2) (\<lambda>_.
        bind_res (create_kernel_thread code (init_at code) 10 m2) (\<lambda>(child, printed, m3).
        bind_res (reach_call env Boot_First m3) (\<lambda>m4.
        bind_res (switch_to code (thread_task child) m4) (\<lambda>m5. Inr (child, printed, m5)))))))))"

definition boot_second :: "task_code \<Rightarrow> demo_env \<Rightarrow> kernel_thread \<Rightarrow> task_machine \<Rightarrow> (message list \<times> task_machine) res" where
  "boot_second code env child m =
     bind_res (switch_resumed (boot_task_at code) m) (\<lambda>_.
     bind_res (deref m (thread_task child)) (\<lambda>t.
     bind_res (ensure (state t = Ready) ''(*child.task).state == State::Ready'') (\<lambda>_.
     bind_res (ensure (progress t = 1) ''(*child.task).progress == 1'') (\<lambda>_.
     bind_res (ensure (exit_code t = None) ''(*child.task).exit_code == None'') (\<lambda>_.
     bind_res (reach_call env Boot_Second m) (\<lambda>m1.
     bind_res (switch_to code (thread_task child) m1) (\<lambda>m2.
     Inr ([(GREEN, ''Bootstrap task resumed: init yielded'' @ [CHR 0x0a])], m2))))))))"

definition boot_last :: "task_code \<Rightarrow> kernel_thread \<Rightarrow> task_machine \<Rightarrow> (message list \<times> task_machine) res" where
  "boot_last code child m =
     bind_res (switch_resumed (boot_task_at code) m) (\<lambda>_.
     bind_res (deref m (thread_task child)) (\<lambda>t.
     bind_res (ensure (state t = Zombie) ''(*child.task).state == State::Zombie'') (\<lambda>_.
     bind_res (ensure (progress t = 2) ''(*child.task).progress == 2'') (\<lambda>_.
     bind_res (ensure (exit_code t = Some 1) ''(*child.task).exit_code == Some(1)'') (\<lambda>_.
     bind_res (ensure (tm_words m (usub (stack_bottom t) 8) = STACK_CANARY) ''kernel thread stack overflow'') (\<lambda>_.
     bind_res (ensure (tm_current m = boot_task_at code) ''current == boot'') (\<lambda>_.
     bind_res (assert_current_stack m) (\<lambda>_.
     bind_res (release (tm_memory m) (backing child)) (\<lambda>memory1.
     bind_res (allocate memory1 Mapped 1) (\<lambda>(result, memory2).
     bind_res (expect_ok result ''called unwrap on an Err value'') (\<lambda>recycled.
     bind_res (ensure (physical_address recycled = physical_address (backing child))
       ''recycled.physical_address() == physical'') (\<lambda>_.
     bind_res (release memory2 recycled) (\<lambda>memory3.
     Inr ([(GREEN, ''Kernel thread demo OK: yield, resume, exit=1; page reclaimed'' @ [CHR 0x0a])],
          m\<lparr>tm_memory := memory3, tm_tasks := (tm_tasks m)(thread_task child := None)\<rparr>))))))))))))))"

text \<open>
  The processor: a popped RIP at the trampoline starts the thread, at the return address inside
  \<open>switch_to\<close> it continues the current task after its call, anywhere else is a panic.
\<close>

definition continue_task :: "task_code \<Rightarrow> demo_env \<Rightarrow> kernel_thread \<Rightarrow> (nat \<Rightarrow> call_point option) \<Rightarrow> task_machine \<Rightarrow>
    (message list \<times> call_point option \<times> task_machine) res" where
  "continue_task code env child suspended_at m =
     (let rip = cpu_rip (tm_cpu m) in
      if rip = of_nat (trampoline_at code) then
        bind_res (trampoline_enter code env m) (\<lambda>(printed, m'). Inr (printed, Some Init_Yield, m'))
      else if rip = of_nat (returned_at code) then Inl (Panic ''kernel thread trampoline returned'')
      else if rip = switch_return_at code then
        (case suspended_at (tm_current m) of
           Some Boot_First \<Rightarrow> bind_res (boot_second code env child m) (\<lambda>(printed, m'). Inr (printed, Some Boot_Second, m'))
         | Some Boot_Second \<Rightarrow> bind_res (boot_last code child m) (\<lambda>(printed, m'). Inr (printed, None, m'))
         | Some Init_Yield \<Rightarrow> bind_res (task_trampoline code env m) (\<lambda>(printed, m'). Inr (printed, Some Trampoline_Exit, m'))
         | Some Trampoline_Exit \<Rightarrow> Inl (Panic ''zombie task resumed'')
         | None \<Rightarrow> Inl (Panic ''return into a task that was not suspended''))
      else Inl (Panic ''jump to an unknown address''))"

fun run_tasks :: "nat \<Rightarrow> task_code \<Rightarrow> demo_env \<Rightarrow> kernel_thread \<Rightarrow> (nat \<Rightarrow> call_point option) \<Rightarrow> task_machine \<Rightarrow>
    (message list \<times> task_machine) option res" where
  "run_tasks 0 code env child suspended_at m = Inr None"
| "run_tasks (Suc fuel) code env child suspended_at m =
     bind_res (continue_task code env child suspended_at m) (\<lambda>(printed, p, m'). case p of
        None \<Rightarrow> Inr (Some (printed, m'))
      | Some _ \<Rightarrow> bind_res (run_tasks fuel code env child (suspended_at(tm_current m := p)) m')
          (\<lambda>r. Inr (map_option (\<lambda>(more_printed, m''). (printed @ more_printed, m'')) r)))"

definition demonstrate_tasks :: "task_code \<Rightarrow> demo_env \<Rightarrow> usize \<Rightarrow> usize \<Rightarrow> nat \<Rightarrow> task_machine \<Rightarrow>
    (message list \<times> task_machine) option res" where
  "demonstrate_tasks code env boot_stack boot_stack_top fuel m =
     bind_res (boot_first code env boot_stack boot_stack_top m) (\<lambda>(child, printed, m').
     bind_res (run_tasks fuel code env child [boot_task_at code \<mapsto> Boot_First] m')
       (\<lambda>r. Inr (map_option (\<lambda>(more_printed, m''). (printed @ more_printed, m'')) r)))"

section \<open>One hand-over\<close>

definition env_ok :: "demo_env \<Rightarrow> bool" where
  "env_ok env \<longleftrightarrow> (\<forall>p. length (call_registers env p) = 6 \<and> 8 \<le> call_depth env p \<and> call_depth env p mod 8 = 0
     \<and> (\<forall>bottom t w a. a \<notin> {bottom..<t} \<longrightarrow> own_work env p bottom t w a = w a))"

definition has_room :: "demo_env \<Rightarrow> kernel_task \<Rightarrow> bool" where
  "has_room env t \<longleftrightarrow> (\<forall>p. stack_bottom t + 56 + call_depth env p \<le> stack_top t)"

definition call_context :: "task_code \<Rightarrow> demo_env \<Rightarrow> call_point \<Rightarrow> kernel_task \<Rightarrow> cpu" where
  "call_context code env p t = \<lparr>cpu_rsp = stack_top t - call_depth env p, cpu_rip = switch_return_at code,
     cpu_saved = call_registers env p\<rparr>"

definition store_local :: "u64 option \<Rightarrow> task_machine \<Rightarrow> task_machine" where
  "store_local v m = (case v of None \<Rightarrow> m
     | Some x \<Rightarrow> m\<lparr>tm_words := (tm_words m)(cpu_rsp (tm_cpu m) := x)\<rparr>)"

definition left_task :: "kernel_task \<Rightarrow> kernel_task" where
  "left_task t = (if state t = Running then t\<lparr>state := Ready\<rparr> else t)"

lemma current_stack_ok:
  assumes "tasks_ok m g" "tm_tasks m (tm_current m) = Some t" "tm_current m \<noteq> 0" "state t = Running"
    and "page_table t = tm_cr3 m" "stack_bottom t \<le> cpu_rsp (tm_cpu m)" "cpu_rsp (tm_cpu m) < stack_top t"
  shows "assert_current_stack m = Inr ()"
  using assms tasks_ok_current(2) [OF assms(1,2)] by (simp add: assert_current_stack_def deref_def)

lemma hand_over:
  assumes ok: "tasks_ok m g" and p: "tm_tasks m (tm_current m) = Some p" and n: "tm_tasks m y = Some n"
    and ids: "tm_current m \<noteq> 0" "y \<noteq> 0" "tm_current m \<noteq> y" and st: "state n = Ready"
    and env: "env_ok env" "has_room env p" and pt: "page_table p = page_table n" and f: "\<not> tm_interrupts m"
    and al: "(of_nat (stack_top n) :: u64) mod 16 = 0"
  shows "\<exists>m2 m4. reach_call env q m = Inr m2 \<and> switch_to code y (store_local v m2) = Inr m4
    \<and> tm_tasks m4 = (tm_tasks m)(tm_current m := Some ((left_task p)\<lparr>context_rsp := stack_top p - call_depth env q - 56\<rparr>),
         y := Some (n\<lparr>state := Running\<rparr>))
    \<and> tm_current m4 = y \<and> tm_cpu m4 = g y \<and> tasks_ok m4 (g(tm_current m := call_context code env q p))
    \<and> tm_memory m4 = tm_memory m \<and> tm_next_pid m4 = tm_next_pid m \<and> \<not> tm_interrupts m4 \<and> tm_cr3 m4 = tm_cr3 m
    \<and> (\<forall>a. a \<notin> stack_range p \<longrightarrow> tm_words m4 a = tm_words m a)
    \<and> (\<forall>x. v = Some x \<longrightarrow> tm_words m4 (stack_top p - call_depth env q) = x)"
proof -
  let ?c = "\<lparr>cpu_rsp = stack_top p - call_depth env q, cpu_rip = cpu_rip (tm_cpu m), cpu_saved = call_registers env q\<rparr>"
  let ?w = "own_work env q (stack_bottom p) (stack_top p) (tm_words m)"
  let ?m2 = "m\<lparr>tm_words := ?w, tm_cpu := ?c\<rparr>"
  let ?m3 = "store_local v ?m2"
  have room: "stack_bottom p + 56 + call_depth env q \<le> stack_top p" and depth: "8 \<le> call_depth env q"
    using env by (simp_all add: has_room_def env_ok_def)
  have reach: "reach_call env q m = Inr ?m2"
    using room by (simp add: reach_call_def deref_def p usub_exact)
  obtain w3 where m3: "?m3 = m\<lparr>tm_words := w3, tm_cpu := ?c\<rparr>" and w3: "\<And>a. a \<notin> stack_range p \<Longrightarrow> w3 a = tm_words m a"
      and local: "\<And>x. v = Some x \<Longrightarrow> w3 (stack_top p - call_depth env q) = x"
  proof (cases v)
    case None
    then show thesis using that [of ?w] env(1) by (simp add: store_local_def env_ok_def stack_range_def)
  next
    case (Some x)
    have slot: "stack_top p - call_depth env q \<in> stack_range p" using room depth by (simp add: stack_range_def)
    then have "(?w(stack_top p - call_depth env q := x)) a = tm_words m a" if "a \<notin> stack_range p" for a
      using that env(1) by (auto simp: env_ok_def stack_range_def)
    then show thesis using that [of "?w(stack_top p - call_depth env q := x)"] Some by (simp add: store_local_def)
  qed
  have ok3: "tasks_ok ?m3 g" unfolding m3 by (rule work_step [OF ok p w3])
  have call: "at_call ?m3" using env(1) room p by (simp add: m3 at_call_def env_ok_def)
  have z: "state p = Running \<or> state p = Zombie" using tasks_ok_current(1) [OF ok p] by (cases "state p") simp_all
  have lv: "leave_task p = Inr (left_task p)" using z by (auto simp: leave_task_def left_task_def)
  obtain w saved c where s: "task_context_switch (switch_return_at code) (context_rsp n) w3 ?c = (w, saved, c)"
    by (cases "task_context_switch (switch_return_at code) (context_rsp n) w3 ?c")
  let ?m4 = "m\<lparr>tm_tasks := (tm_tasks m)(tm_current m := Some ((left_task p)\<lparr>context_rsp := saved\<rparr>), y := Some (n\<lparr>state := Running\<rparr>)),
       tm_tss := store_u64 (tm_tss m) 4 (of_nat (stack_top n)), tm_current := y, tm_words := w, tm_cpu := c\<rparr>"
  have sw: "switch_to code y ?m3 = Inr ?m4"
    using p n ids st pt f al lv s
    by (simp add: m3 switch_to_def deref_def set_kernel_stack_def set_task_def Let_def)
  have "56 \<le> cpu_rsp ?c" "cpu_rsp ?c < usize_range" "length (cpu_saved ?c) = 6"
    using room tasks_okD(1) [OF ok p] env(1) by (simp_all add: env_ok_def)
  then obtain w' where r: "task_context_switch (switch_return_at code) (context_rsp n) w3 ?c = (w', cpu_rsp ?c - 56, restore_context w' (context_rsp n))"
      "\<And>a. \<not> (cpu_rsp ?c - 56 \<le> a \<and> a < cpu_rsp ?c) \<Longrightarrow> w' a = w3 a"
    using task_context_switch_run [of ?c "switch_return_at code" "context_rsp n" w3] by blast
  then have saved: "saved = stack_top p - call_depth env q - 56" and w: "\<And>a. \<not> (stack_top p - call_depth env q - 56 \<le> a
      \<and> a < stack_top p - call_depth env q) \<Longrightarrow> w a = w3 a" using s by auto
  have u: "suspended code (tm_cpu ?m3) = call_context code env q p" "tm_current ?m3 = tm_current m"
    by (simp_all add: m3 suspended_eq call_context_def)
  note S = switch_step [OF ok3 call sw, unfolded u]
  have "tm_cpu ?m4 = g y" using S by blast
  moreover have "tasks_ok ?m4 (g(tm_current m := call_context code env q p))" using S by blast
  moreover have "w a = tm_words m a" if "a \<notin> stack_range p" for a
  proof -
    have "\<not> (stack_top p - call_depth env q - 56 \<le> a \<and> a < stack_top p - call_depth env q)"
      using that room unfolding stack_range_def atLeastLessThan_iff by linarith
    then show ?thesis using w [of a] w3 [OF that] by simp
  qed
  moreover have "w (stack_top p - call_depth env q) = x" if "v = Some x" for x
    using w [of "stack_top p - call_depth env q"] local [OF that] room by simp
  ultimately show ?thesis
    by (intro exI [of _ ?m2] exI [of _ ?m4] conjI) (use reach sw saved f in \<open>simp_all del: fun_upd_apply\<close>)
qed

section \<open>The thread and the boot task\<close>

text \<open>The two tasks of the demonstration, at rest between two parts.\<close>

record demo_tasks =
  dt_boot :: kernel_task
  dt_child :: kernel_task
  dt_base :: nat
  dt_memory :: memory_descriptor
  dt_cr3 :: u64

definition usable_task :: "demo_env \<Rightarrow> u64 \<Rightarrow> kernel_task \<Rightarrow> bool" where
  "usable_task env cr3 t \<longleftrightarrow> has_room env t \<and> page_table t = cr3 \<and> (of_nat (stack_top t) :: u64) mod 16 = 0"

definition two_tasks :: "task_code \<Rightarrow> demo_env \<Rightarrow> demo_tasks \<Rightarrow> (nat \<Rightarrow> cpu) \<Rightarrow> task_machine \<Rightarrow> bool" where
  "two_tasks code env d g m \<longleftrightarrow>
     tm_tasks m = [boot_task_at code \<mapsto> dt_boot d, dt_base d \<mapsto> dt_child d]
     \<and> boot_task_at code \<noteq> dt_base d \<and> boot_task_at code \<noteq> 0 \<and> dt_base d \<noteq> 0
     \<and> tasks_ok m g \<and> \<not> tm_interrupts m \<and> tm_memory m = dt_memory d \<and> tm_cr3 m = dt_cr3 d
     \<and> usable_task env (dt_cr3 d) (dt_boot d) \<and> usable_task env (dt_cr3 d) (dt_child d)
     \<and> pid (dt_child d) = 1 \<and> tm_words m (stack_bottom (dt_child d) - 8) = STACK_CANARY
     \<and> 8 \<le> stack_bottom (dt_child d)
     \<and> stack_bottom (dt_child d) - 8 \<notin> stack_range (dt_boot d) \<union> stack_range (dt_child d)"

lemma two_tasksD:
  assumes "two_tasks code env d g m"
  shows "tm_tasks m (boot_task_at code) = Some (dt_boot d)" "tm_tasks m (dt_base d) = Some (dt_child d)"
    "boot_task_at code \<noteq> dt_base d" "boot_task_at code \<noteq> 0" "dt_base d \<noteq> 0" "tasks_ok m g" "\<not> tm_interrupts m"
    "page_table (dt_boot d) = page_table (dt_child d)" "page_table (dt_boot d) = tm_cr3 m"
    "has_room env (dt_boot d)" "has_room env (dt_child d)"
    "(of_nat (stack_top (dt_boot d)) :: u64) mod 16 = 0" "(of_nat (stack_top (dt_child d)) :: u64) mod 16 = 0"
  using assms by (auto simp: two_tasks_def usable_task_def)

text \<open>Changes to a descriptor that leave stack, page table and number alone.\<close>

definition same_place :: "kernel_task \<Rightarrow> kernel_task \<Rightarrow> bool" where
  "same_place t t' \<longleftrightarrow> stack_bottom t' = stack_bottom t \<and> stack_top t' = stack_top t \<and> page_table t' = page_table t
     \<and> pid t' = pid t"

lemma two_tasks_update:
  assumes "two_tasks code env d g m" "same_place (dt_boot d) b" "same_place (dt_child d) c"
    and "tm_tasks m' = [boot_task_at code \<mapsto> b, dt_base d \<mapsto> c]" "tasks_ok m' g'"
    and "\<not> tm_interrupts m'" "tm_memory m' = tm_memory m" "tm_cr3 m' = tm_cr3 m"
    and "\<And>a. a \<notin> stack_range (dt_boot d) \<union> stack_range (dt_child d) \<Longrightarrow> tm_words m' a = tm_words m a"
  shows "two_tasks code env (d\<lparr>dt_boot := b, dt_child := c\<rparr>) g' m'"
  using assms by (auto simp: two_tasks_def usable_task_def has_room_def same_place_def stack_range_def)

lemma left_task_place: "same_place t ((left_task t)\<lparr>context_rsp := x\<rparr>)"
  by (simp add: left_task_def same_place_def)

text \<open>The boot task waits, the thread runs; and the other way round.\<close>

lemma boot_to_child:
  assumes d: "two_tasks code env d g m" and env: "env_ok env" and cur: "tm_current m = boot_task_at code"
    and st: "state (dt_child d) = Ready"
  shows "\<exists>m2 m4. reach_call env q m = Inr m2 \<and> switch_to code (dt_base d) m2 = Inr m4
    \<and> tm_current m4 = dt_base d \<and> tm_cpu m4 = g (dt_base d)
    \<and> (\<exists>x. two_tasks code env (d\<lparr>dt_boot := (left_task (dt_boot d))\<lparr>context_rsp := x\<rparr>, dt_child := (dt_child d)\<lparr>state := Running\<rparr>\<rparr>)
         (g(boot_task_at code := call_context code env q (dt_boot d))) m4)
    \<and> (\<forall>a. a \<notin> stack_range (dt_boot d) \<longrightarrow> tm_words m4 a = tm_words m a)"
proof -
  note D = two_tasksD [OF d]
  have p: "tm_tasks m (tm_current m) = Some (dt_boot d)" using D(1) cur by simp
  obtain m2 m4 where h: "reach_call env q m = Inr m2" "switch_to code (dt_base d) (store_local None m2) = Inr m4"
      "tm_tasks m4 = (tm_tasks m)(tm_current m := Some ((left_task (dt_boot d))\<lparr>context_rsp := stack_top (dt_boot d) - call_depth env q - 56\<rparr>),
         dt_base d := Some ((dt_child d)\<lparr>state := Running\<rparr>))"
      "tm_current m4 = dt_base d" "tm_cpu m4 = g (dt_base d)" "tasks_ok m4 (g(tm_current m := call_context code env q (dt_boot d)))"
      "tm_memory m4 = tm_memory m" "\<not> tm_interrupts m4" "tm_cr3 m4 = tm_cr3 m"
      "\<forall>a. a \<notin> stack_range (dt_boot d) \<longrightarrow> tm_words m4 a = tm_words m a"
    using hand_over [OF D(6) p D(2) _ D(5) _ st env D(10) D(8) D(7) D(13), where q = q and v = None and code = code] cur D(3,4) by auto
  have "two_tasks code env (d\<lparr>dt_boot := (left_task (dt_boot d))\<lparr>context_rsp := stack_top (dt_boot d) - call_depth env q - 56\<rparr>,
      dt_child := (dt_child d)\<lparr>state := Running\<rparr>\<rparr>) (g(boot_task_at code := call_context code env q (dt_boot d))) m4"
  proof (rule two_tasks_update [OF d left_task_place])
    show "same_place (dt_child d) ((dt_child d)\<lparr>state := Running\<rparr>)" by (simp add: same_place_def)
    show "tm_tasks m4 = [boot_task_at code \<mapsto> (left_task (dt_boot d))\<lparr>context_rsp := stack_top (dt_boot d) - call_depth env q - 56\<rparr>,
        dt_base d \<mapsto> (dt_child d)\<lparr>state := Running\<rparr>]"
      using h(3) d D(3) by (auto simp: two_tasks_def cur)
  qed (use h cur in auto)
  then show ?thesis using h by (auto simp: store_local_def)
qed

lemma child_to_boot:
  assumes d: "two_tasks code env d g m" and env: "env_ok env" and cur: "tm_current m = dt_base d"
    and st: "state (dt_boot d) = Ready"
  shows "\<exists>m2 m4. reach_call env q m = Inr m2 \<and> switch_to code (boot_task_at code) (store_local v m2) = Inr m4
    \<and> tm_current m4 = boot_task_at code \<and> tm_cpu m4 = g (boot_task_at code)
    \<and> (\<exists>x. two_tasks code env (d\<lparr>dt_boot := (dt_boot d)\<lparr>state := Running\<rparr>, dt_child := (left_task (dt_child d))\<lparr>context_rsp := x\<rparr>\<rparr>)
         (g(dt_base d := call_context code env q (dt_child d))) m4)
    \<and> (\<forall>x. v = Some x \<longrightarrow> tm_words m4 (stack_top (dt_child d) - call_depth env q) = x)"
proof -
  note D = two_tasksD [OF d]
  have p: "tm_tasks m (tm_current m) = Some (dt_child d)" using D(2) cur by simp
  obtain m2 m4 where h: "reach_call env q m = Inr m2" "switch_to code (boot_task_at code) (store_local v m2) = Inr m4"
      "tm_tasks m4 = (tm_tasks m)(tm_current m := Some ((left_task (dt_child d))\<lparr>context_rsp := stack_top (dt_child d) - call_depth env q - 56\<rparr>),
         boot_task_at code := Some ((dt_boot d)\<lparr>state := Running\<rparr>))"
      "tm_current m4 = boot_task_at code" "tm_cpu m4 = g (boot_task_at code)"
      "tasks_ok m4 (g(tm_current m := call_context code env q (dt_child d)))"
      "tm_memory m4 = tm_memory m" "\<not> tm_interrupts m4" "tm_cr3 m4 = tm_cr3 m"
      "\<forall>a. a \<notin> stack_range (dt_child d) \<longrightarrow> tm_words m4 a = tm_words m a"
      "\<forall>x. v = Some x \<longrightarrow> tm_words m4 (stack_top (dt_child d) - call_depth env q) = x"
    using hand_over [OF D(6) p D(1) _ D(4) _ st env D(11) D(8) [symmetric] D(7) D(12), where q = q and v = v and code = code] cur D(3,5) by auto
  have "two_tasks code env (d\<lparr>dt_boot := (dt_boot d)\<lparr>state := Running\<rparr>,
      dt_child := (left_task (dt_child d))\<lparr>context_rsp := stack_top (dt_child d) - call_depth env q - 56\<rparr>\<rparr>)
      (g(dt_base d := call_context code env q (dt_child d))) m4"
  proof (rule two_tasks_update [OF d _ left_task_place])
    show "same_place (dt_boot d) ((dt_boot d)\<lparr>state := Running\<rparr>)" by (simp add: same_place_def)
    show "tm_tasks m4 = [boot_task_at code \<mapsto> (dt_boot d)\<lparr>state := Running\<rparr>,
        dt_base d \<mapsto> (left_task (dt_child d))\<lparr>context_rsp := stack_top (dt_child d) - call_depth env q - 56\<rparr>]"
      using h(3) d D(3) by (auto simp: two_tasks_def cur)
  qed (use h cur in auto)
  then show ?thesis using h by blast
qed

text \<open>The current task of the pair is on its own stack.\<close>

lemma pair_stack_ok:
  assumes "two_tasks code env d g m" "tm_tasks m (tm_current m) = Some t" "state t = Running"
    and "stack_bottom t \<le> cpu_rsp (tm_cpu m)" "cpu_rsp (tm_cpu m) < stack_top t"
  shows "assert_current_stack m = Inr ()"
proof -
  have "tm_current m \<noteq> 0 \<and> page_table t = tm_cr3 m"
    using assms(1,2) by (auto simp: two_tasks_def usable_task_def split: if_splits)
  then show ?thesis using current_stack_ok [OF two_tasksD(6) [OF assms(1)] assms(2)] assms(3-5) by blast
qed

lemma call_context_in_stack:
  assumes "env_ok env" "has_room env t"
  shows "stack_bottom t \<le> stack_top t - call_depth env q" "stack_top t - call_depth env q < stack_top t"
proof -
  have "8 \<le> call_depth env q" "stack_bottom t + 56 + call_depth env q \<le> stack_top t"
    using assms by (simp_all add: env_ok_def has_room_def)
  then show "stack_bottom t \<le> stack_top t - call_depth env q" "stack_top t - call_depth env q < stack_top t" by linarith+
qed

lemma child_updated:
  assumes d: "two_tasks code env d g m" and cur: "tm_current m = dt_base d"
    and t: "same_place (dt_child d) t" "state t \<noteq> Ready"
  shows "two_tasks code env (d\<lparr>dt_child := t\<rparr>) g (set_task (tm_current m) t m)"
proof -
  note D = two_tasksD [OF d]
  have "tasks_ok (set_task (tm_current m) t m) g"
    by (rule update_current [OF D(6), of "dt_child d"]) (use D(2) cur t in \<open>auto simp: same_place_def stack_range_def\<close>)
  then have "two_tasks code env (d\<lparr>dt_boot := dt_boot d, dt_child := t\<rparr>) g (set_task (tm_current m) t m)"
    by (intro two_tasks_update [OF d]) (use d cur t D(7) in \<open>auto simp: same_place_def set_task_def two_tasks_def\<close>)
  then show ?thesis by simp
qed

section \<open>The parts in order\<close>

text \<open>Contexts depend on the place of the stack only.\<close>

lemma contexts:
  "call_context code env q (t\<lparr>state := s\<rparr>) = call_context code env q t"
  "call_context code env q (t\<lparr>progress := n\<rparr>) = call_context code env q t"
  "call_context code env q (t\<lparr>context_rsp := x\<rparr>) = call_context code env q t"
  "call_context code env q (t\<lparr>exit_code := e\<rparr>) = call_context code env q t"
  by (simp_all add: call_context_def)

text \<open>What the thread starts with.\<close>

definition fresh_thread :: "task_code \<Rightarrow> kernel_task \<Rightarrow> bool" where
  "fresh_thread code t \<longleftrightarrow> entry t = Some (init_at code) \<and> argument t = 10 \<and> progress t = 0 \<and> exit_code t = None"

definition first_context :: "task_code \<Rightarrow> kernel_task \<Rightarrow> cpu" where
  "first_context code t = \<lparr>cpu_rsp = stack_top t - 8, cpu_rip = of_nat (trampoline_at code), cpu_saved = replicate 6 0\<rparr>"

lemma first_contexts: "first_context code (t\<lparr>state := s\<rparr>) = first_context code t"
  "fresh_thread code (t\<lparr>state := s\<rparr>) = fresh_thread code t"
  by (simp_all add: first_context_def fresh_thread_def)

definition init_message :: message where
  "init_message = (YELLOW, ''init task is running, arg='' @ hexadecimal 18 10 @ [CHR 0x0a])"

lemma thread_part:
  assumes d: "two_tasks code env d g m" and env: "env_ok env" and cur: "tm_current m = dt_base d"
    and cpu: "tm_cpu m = first_context code (dt_child d)" and run: "state (dt_child d) = Running"
    and fresh: "fresh_thread code (dt_child d)" and st: "state (dt_boot d) = Ready"
  shows "\<exists>m' x. trampoline_enter code env m = Inr ([init_message], m')
    \<and> tm_current m' = boot_task_at code \<and> tm_cpu m' = g (boot_task_at code)
    \<and> two_tasks code env (d\<lparr>dt_boot := (dt_boot d)\<lparr>state := Running\<rparr>,
         dt_child := (dt_child d)\<lparr>progress := 1, state := Ready, context_rsp := x\<rparr>\<rparr>)
         (g(dt_base d := call_context code env Init_Yield (dt_child d))) m'
    \<and> tm_words m' (stack_top (dt_child d) - call_depth env Init_Yield) = INIT_LOCAL"
proof -
  note D = two_tasksD [OF d]
  let ?t = "(dt_child d)\<lparr>progress := 1\<rparr>"
  let ?m1 = "set_task (tm_current m) ?t m"
  have t: "tm_tasks m (tm_current m) = Some (dt_child d)" using D(2) cur by simp
  have "cpu_rsp (tm_cpu m) = stack_top (dt_child d) - 8" by (simp add: cpu first_context_def)
  moreover have "stack_bottom (dt_child d) + 64 \<le> stack_top (dt_child d)"
    using D(11) env by (auto simp: has_room_def env_ok_def dest!: spec [of _ Init_Yield])
  ultimately have a: "assert_current_stack m = Inr ()"
    by (intro pair_stack_ok [OF d t run]) simp_all
  have d1: "two_tasks code env (d\<lparr>dt_child := ?t\<rparr>) g ?m1"
    by (rule child_updated [OF d cur]) (use run in \<open>simp_all add: same_place_def\<close>)
  obtain m2 m4 x where h: "reach_call env Init_Yield ?m1 = Inr m2"
      "switch_to code (boot_task_at code) (store_local (Some INIT_LOCAL) m2) = Inr m4"
      "tm_current m4 = boot_task_at code" "tm_cpu m4 = g (boot_task_at code)"
      "two_tasks code env (d\<lparr>dt_child := ?t, dt_boot := (dt_boot d)\<lparr>state := Running\<rparr>, dt_child := (left_task ?t)\<lparr>context_rsp := x\<rparr>\<rparr>)
         (g(dt_base d := call_context code env Init_Yield ?t)) m4"
      "tm_words m4 (stack_top ?t - call_depth env Init_Yield) = INIT_LOCAL"
    using child_to_boot [OF d1 env, of Init_Yield "Some INIT_LOCAL"] cur st by (auto simp: set_task_def)
  have pid: "pid (dt_child d) = 1" using d by (simp add: two_tasks_def)
  have "trampoline_enter code env m = Inr ([init_message], m4)"
    using pid fresh a h(1,2) D(7)
    by (simp add: trampoline_enter_def init_first_def deref_def t fresh_thread_def Let_def
        store_local_def init_message_def)
  moreover have "(left_task ?t)\<lparr>context_rsp := x\<rparr> = (dt_child d)\<lparr>progress := 1, state := Ready, context_rsp := x\<rparr>"
    using run by (simp add: left_task_def)
  moreover have "call_context code env Init_Yield ?t = call_context code env Init_Yield (dt_child d)"
    by (simp add: call_context_def)
  ultimately show ?thesis using h by (intro exI [of _ m4] exI [of _ x]) simp
qed

definition yield_message :: message where
  "yield_message = (GREEN, ''Bootstrap task resumed: init yielded'' @ [CHR 0x0a])"

definition resume_message :: message where
  "resume_message = (YELLOW, ''init task resumed after yielding'' @ [CHR 0x0a])"

definition demo_message :: message where
  "demo_message = (GREEN, ''Kernel thread demo OK: yield, resume, exit=1; page reclaimed'' @ [CHR 0x0a])"

lemma boot_resumed:
  assumes "two_tasks code env d g m" "env_ok env" "tm_current m = boot_task_at code" "state (dt_boot d) = Running"
    and "tm_cpu m = call_context code env q b" "stack_top b = stack_top (dt_boot d)"
  shows "switch_resumed (boot_task_at code) m = Inr ()" "assert_current_stack m = Inr ()"
proof -
  note D = two_tasksD [OF assms(1)]
  show a: "assert_current_stack m = Inr ()"
    by (rule pair_stack_ok [OF assms(1), of "dt_boot d"])
      (use assms D(1) call_context_in_stack [OF assms(2) D(10), of q] in \<open>simp_all add: call_context_def\<close>)
  show "switch_resumed (boot_task_at code) m = Inr ()" using a assms(3) by (simp add: switch_resumed_def)
qed

lemma boot_part:
  assumes d: "two_tasks code env d g m" and env: "env_ok env" and cur: "tm_current m = boot_task_at code"
    and cpu: "tm_cpu m = call_context code env Boot_First b" "stack_top b = stack_top (dt_boot d)"
    and run: "state (dt_boot d) = Running" and st: "state (dt_child d) = Ready"
    and t: "progress (dt_child d) = 1" "exit_code (dt_child d) = None" and child: "thread_task child = dt_base d"
  shows "\<exists>m' x. boot_second code env child m = Inr ([yield_message], m')
    \<and> tm_current m' = dt_base d \<and> tm_cpu m' = g (dt_base d)
    \<and> two_tasks code env (d\<lparr>dt_boot := (dt_boot d)\<lparr>state := Ready, context_rsp := x\<rparr>, dt_child := (dt_child d)\<lparr>state := Running\<rparr>\<rparr>)
         (g(boot_task_at code := call_context code env Boot_Second (dt_boot d))) m'
    \<and> (\<forall>a. a \<notin> stack_range (dt_boot d) \<longrightarrow> tm_words m' a = tm_words m a)"
proof -
  note D = two_tasksD [OF d]
  obtain m2 m4 x where h: "reach_call env Boot_Second m = Inr m2" "switch_to code (dt_base d) m2 = Inr m4"
      "tm_current m4 = dt_base d" "tm_cpu m4 = g (dt_base d)"
      "two_tasks code env (d\<lparr>dt_boot := (left_task (dt_boot d))\<lparr>context_rsp := x\<rparr>, dt_child := (dt_child d)\<lparr>state := Running\<rparr>\<rparr>)
         (g(boot_task_at code := call_context code env Boot_Second (dt_boot d))) m4"
      "\<forall>a. a \<notin> stack_range (dt_boot d) \<longrightarrow> tm_words m4 a = tm_words m a"
    using boot_to_child [OF d env cur st, of Boot_Second] by blast
  have "boot_second code env child m = Inr ([yield_message], m4)"
    using boot_resumed(1) [OF d env cur run cpu] D(2) st t child h(1,2)
    by (simp add: boot_second_def deref_def yield_message_def)
  then show ?thesis using h run by (intro exI [of _ m4] exI [of _ x]) (simp add: left_task_def)
qed

lemma exit_part:
  assumes d: "two_tasks code env d g m" and env: "env_ok env" and cur: "tm_current m = dt_base d"
    and cpu: "tm_cpu m = call_context code env Init_Yield c" "stack_top c = stack_top (dt_child d)"
    and local: "tm_words m (stack_top (dt_child d) - call_depth env Init_Yield) = INIT_LOCAL"
    and run: "state (dt_child d) = Running" and st: "state (dt_boot d) = Ready"
  shows "\<exists>m' x. task_trampoline code env m = Inr ([resume_message, exit_message 1 1], m')
    \<and> tm_current m' = boot_task_at code \<and> tm_cpu m' = g (boot_task_at code)
    \<and> two_tasks code env (d\<lparr>dt_boot := (dt_boot d)\<lparr>state := Running\<rparr>,
         dt_child := (dt_child d)\<lparr>progress := 2, exit_code := Some 1, state := Zombie, context_rsp := x\<rparr>\<rparr>)
         (g(dt_base d := call_context code env Trampoline_Exit (dt_child d))) m'"
proof -
  note D = two_tasksD [OF d]
  let ?t = "(dt_child d)\<lparr>progress := 2\<rparr>"
  let ?z = "?t\<lparr>exit_code := Some 1, state := Zombie\<rparr>"
  let ?m1 = "set_task (dt_base d) ?t m"
  let ?m2 = "set_task (dt_base d) ?z ?m1"
  have "assert_current_stack m = Inr ()"
    by (rule pair_stack_ok [OF d, of "dt_child d"])
      (use cpu cur run D(2) call_context_in_stack [OF env D(11), of Init_Yield] in \<open>simp_all add: call_context_def\<close>)
  then have a: "switch_resumed (tm_current m) m = Inr ()" by (simp add: switch_resumed_def)
  have i: "init_second m = Inr ([resume_message], 1, ?m1)"
    using a D(2) cur cpu local by (simp add: init_second_def deref_def resume_message_def call_context_def)
  have d1: "two_tasks code env (d\<lparr>dt_child := ?t\<rparr>) g ?m1"
    using child_updated [OF d cur, of ?t] cur run by (simp add: same_place_def)
  have c1: "tm_current ?m1 = dt_base (d\<lparr>dt_child := ?t\<rparr>)" using cur by (simp add: set_task_def)
  have d2: "two_tasks code env (d\<lparr>dt_child := ?z\<rparr>) g ?m2"
    using child_updated [OF d1 c1, of ?z] c1 by (simp add: same_place_def)
  have c2: "tm_current ?m2 = dt_base (d\<lparr>dt_child := ?z\<rparr>)" using cur by (simp add: set_task_def)
  obtain m3 m4 x where h: "reach_call env Trampoline_Exit ?m2 = Inr m3" "switch_to code (boot_task_at code) m3 = Inr m4"
      "tm_current m4 = boot_task_at code" "tm_cpu m4 = g (boot_task_at code)"
      "two_tasks code env (d\<lparr>dt_child := ?z, dt_boot := (dt_boot d)\<lparr>state := Running\<rparr>, dt_child := (left_task ?z)\<lparr>context_rsp := x\<rparr>\<rparr>)
         (g(dt_base d := call_context code env Trampoline_Exit ?z)) m4"
    using child_to_boot [OF d2 env c2, of Trampoline_Exit None] st by (auto simp: store_local_def)
  have "pid (dt_child d) = 1" using d by (simp add: two_tasks_def)
  then have "trampoline_exit code env 1 ?m1 = Inr ([exit_message 1 1], m4)"
    using two_tasksD(2) [OF d1] c1 h(1,2) by (simp add: trampoline_exit_def deref_def Let_def)
  then have "task_trampoline code env m = Inr ([resume_message, exit_message 1 1], m4)"
    by (simp add: task_trampoline_def i)
  moreover have "(left_task ?z)\<lparr>context_rsp := x\<rparr> = (dt_child d)\<lparr>progress := 2, exit_code := Some 1, state := Zombie, context_rsp := x\<rparr>"
    by (simp add: left_task_def)
  moreover have "call_context code env Trampoline_Exit ?z = call_context code env Trampoline_Exit (dt_child d)"
    by (simp add: call_context_def)
  ultimately show ?thesis using h by (intro exI [of _ m4] exI [of _ x]) simp
qed

lemma last_part:
  assumes d: "two_tasks code env d g m" and env: "env_ok env" and cur: "tm_current m = boot_task_at code"
    and cpu: "tm_cpu m = call_context code env Boot_Second b" "stack_top b = stack_top (dt_boot d)"
    and run: "state (dt_boot d) = Running" and t: "state (dt_child d) = Zombie" "progress (dt_child d) = 2" "exit_code (dt_child d) = Some 1"
    and child: "thread_task child = dt_base d" and wf: "md_wf memory"
    and alloc: "allocate memory Mapped 1 = Inr (Inr (backing child), dt_memory d)"
  shows "boot_last code child m = Inr ([demo_message],
    m\<lparr>tm_memory := memory, tm_tasks := (tm_tasks m)(dt_base d := None)\<rparr>)"
proof -
  note D = two_tasksD [OF d]
  have m: "tm_memory m = dt_memory d" "tm_words m (stack_bottom (dt_child d) - 8) = STACK_CANARY" "8 \<le> stack_bottom (dt_child d)"
    using d by (simp_all add: two_tasks_def)
  have rel: "release (dt_memory d) (backing child) = Inr memory" by (rule allocated_released [OF wf alloc])
  show ?thesis
    using boot_resumed [OF d env cur run cpu] D(2) t child m rel alloc cur
    by (simp add: boot_last_def deref_def usub_exact expect_ok_simps demo_message_def)
qed

section \<open>The beginning\<close>

lemma write_first_frame:
  assumes "k + 64 \<le> usize_range"
  shows "saved_frame (write_words k (first_frame code) w) k
      \<lparr>cpu_rsp = uadd k 56, cpu_rip = of_nat (trampoline_at code), cpu_saved = replicate 6 0\<rparr>"
    and "\<And>a. \<not> (k \<le> a \<and> a < k + 64) \<Longrightarrow> write_words k (first_frame code) w a = w a"
proof -
  have a: "uadd k 0 = k" "uadd k 8 = k + 8" "uadd k 16 = k + 16" "uadd k 24 = k + 24" "uadd k 32 = k + 32" "uadd k 40 = k + 40"
    "uadd k 48 = k + 48" "uadd k 56 = k + 56"
    using assms by (simp_all add: uadd_exact)
  show "saved_frame (write_words k (first_frame code) w) k
      \<lparr>cpu_rsp = uadd k 56, cpu_rip = of_nat (trampoline_at code), cpu_saved = replicate 6 0\<rparr>"
    by (simp add: write_words_def first_frame_def saved_frame_def restore_context_def a replicate_6)
  show "\<And>a. \<not> (k \<le> a \<and> a < k + 64) \<Longrightarrow> write_words k (first_frame code) w a = w a"
    by (auto simp: write_words_def first_frame_def a)
qed

text \<open>The state the boot code hands over: only the boot task, kernel memory disjoint from free pages.\<close>

definition page_window :: "nat \<Rightarrow> nat set" where
  "page_window i = {PAGE_OFFSET + i * PAGE_2M_SIZE..<PAGE_OFFSET + (i + 1) * PAGE_2M_SIZE}"

definition demo_ready :: "task_code \<Rightarrow> demo_env \<Rightarrow> usize \<Rightarrow> usize \<Rightarrow> task_machine \<Rightarrow> bool" where
  "demo_ready code env bs bt m \<longleftrightarrow> env_ok env \<and> md_wf (tm_memory m)
     \<and> tm_tasks m = [boot_task_at code \<mapsto> BOOT_TASK_INITIAL] \<and> tm_current m = 0 \<and> \<not> tm_interrupts m
     \<and> tm_next_pid m = 1 \<and> length (tm_tss m) = 104 \<and> boot_task_at code \<noteq> 0
     \<and> switch_return_at code \<notin> {of_nat (trampoline_at code), of_nat (returned_at code)}
     \<and> (\<forall>p. bs + 56 + call_depth env p \<le> bt \<and> call_depth env p + 56 \<le> 28664)
     \<and> bt mod 16 = 0 \<and> bt < usize_range \<and> bs \<le> cpu_rsp (tm_cpu m) \<and> cpu_rsp (tm_cpu m) < bt
     \<and> (\<forall>i \<in> free_pages (tm_memory m). page_window i \<inter> {bs..<bt} = {} \<and> boot_task_at code \<notin> page_window i)"

text \<open>The descriptors right after the creation.\<close>

definition boot_descriptor :: "usize \<Rightarrow> usize \<Rightarrow> u64 \<Rightarrow> kernel_task" where
  "boot_descriptor bs bt cr3 = BOOT_TASK_INITIAL\<lparr>stack_bottom := bs, stack_top := bt, page_table := cr3, state := Running\<rparr>"

definition child_descriptor :: "task_code \<Rightarrow> nat \<Rightarrow> u64 \<Rightarrow> kernel_task" where
  "child_descriptor code base cr3 = \<lparr>context_rsp = base + 32704, pid = 1, state = Ready, stack_bottom = base + 4104,
     stack_top = base + 32768, page_table = cr3, entry = Some (init_at code), argument = 10, progress = 0, exit_code = None\<rparr>"

lemma aligned_u64: "n mod 16 = 0 \<Longrightarrow> n < usize_range \<Longrightarrow> (of_nat n :: u64) mod 16 = 0"
proof -
  assume "n mod 16 = 0" "n < usize_range"
  moreover from this have "unat (of_nat n :: u64) = n" by (intro unat_of_nat_u64) simp
  ultimately show ?thesis by (simp add: word_arith_nat_mod)
qed

lemma run_base:
  assumes "md_wf d" "allocate d Mapped 1 = Inr (Inr r, d')"
  defines "base \<equiv> PAGE_OFFSET + physical_address r"
  shows "uadd PAGE_OFFSET (physical_address r) = base" "base + PAGE_2M_SIZE \<le> PAGE_OFFSET + DIRECT_RAM_END"
    "run_first r \<in> free_pages d" "page_window (run_first r) = {base..<base + PAGE_2M_SIZE}" "base mod 16 = 0"
proof -
  have le: "(run_first r + 1) * PAGE_2M_SIZE \<le> DIRECT_RAM_END" using allocate_fit [OF assms(1,2)] by blast
  then have le': "run_first r * PAGE_2M_SIZE + PAGE_2M_SIZE \<le> DIRECT_RAM_END" by simp
  then have p: "physical_address r = run_first r * PAGE_2M_SIZE"
    unfolding physical_address_def by (intro umul_exact) (simp add: DIRECT_RAM_END_def)
  show "base + PAGE_2M_SIZE \<le> PAGE_OFFSET + DIRECT_RAM_END" using le' by (simp add: base_def p)
  show "uadd PAGE_OFFSET (physical_address r) = base"
    unfolding base_def by (rule uadd_exact) (use le' p in \<open>simp add: PAGE_OFFSET_def DIRECT_RAM_END_def\<close>)
  show "run_first r \<in> free_pages d" using allocate_result [OF assms(1,2)] by (auto simp: run_pages_def)
  show "page_window (run_first r) = {base..<base + PAGE_2M_SIZE}" by (simp add: page_window_def base_def p add.commute add.left_commute)
  have "16 dvd PAGE_OFFSET" "16 dvd PAGE_2M_SIZE" by (simp_all add: PAGE_OFFSET_def PAGE_2M_SIZE_def)
  then show "base mod 16 = 0" unfolding base_def p by (simp add: dvd_add dvd_mult)
qed

text \<open>The creation, with every address worked out.\<close>

lemma create_run:
  assumes "md_wf (tm_memory m)" "allocate (tm_memory m) Mapped 1 = Inr (Inr r, d)" "tm_next_pid m = 1"
  defines "base \<equiv> PAGE_OFFSET + physical_address r"
  shows "\<exists>w. create_kernel_thread code (init_at code) 10 m = Inr (\<lparr>thread_task = base, backing = r\<rparr>,
      [thread_message 1 (base + 4104) (base + 32768)],
      (set_task base (child_descriptor code base (tm_cr3 m)) m)\<lparr>tm_memory := d, tm_next_pid := 2, tm_words := w\<rparr>)
    \<and> saved_frame w (base + 32704) (first_context code (child_descriptor code base (tm_cr3 m)))
    \<and> w (base + 4096) = STACK_CANARY \<and> (\<forall>a. a \<notin> {base..<base + PAGE_2M_SIZE} \<longrightarrow> w a = tm_words m a)"
proof -
  note b = run_base [OF assms(1,2), folded base_def]
  have lt: "base + 2097152 \<le> 18446603336231682048"
    using b(2) by (simp add: PAGE_OFFSET_def DIRECT_RAM_END_def PAGE_2M_SIZE_def)
  have u: "uadd base TASK_REGION_SIZE = base + 32768" "uadd base DESCRIPTOR_AREA = base + 4096" "uadd (base + 4096) 8 = base + 4104"
    "usub (base + 32768) 64 = base + 32704" "uadd (base + 32704) 56 = base + 32760"
    using lt by (simp_all add: TASK_REGION_SIZE_def DESCRIPTOR_AREA_def uadd_exact usub_exact)
  let ?w = "(tm_words m)(base + 4096 := STACK_CANARY)"
  let ?w' = "write_words (base + 32704) (first_frame code) ?w"
  have le: "base + 32704 + 64 \<le> usize_range" using lt by simp
  note f = write_first_frame [OF le, where code = code and w = ?w]
  have "saved_frame ?w' (base + 32704) (first_context code (child_descriptor code base (tm_cr3 m)))"
    using f(1) by (simp add: first_context_def child_descriptor_def u add.commute)
  moreover have "?w' (base + 4096) = STACK_CANARY" using f(2) [of "base + 4096"] by simp
  moreover have "?w' a = tm_words m a" if "a \<notin> {base..<base + PAGE_2M_SIZE}" for a
    using f(2) [of a] that by (auto simp: PAGE_2M_SIZE_def)
  ultimately show ?thesis
    using assms(2,3)
    by (intro exI [of _ ?w']) (simp add: create_kernel_thread_def b(1) u expect_ok_simps Let_def child_descriptor_def checked_add_def)
qed

lemma created_pair:
  assumes ready: "demo_ready code env bs bt m" and alloc: "allocate (tm_memory m) Mapped 1 = Inr (Inr r, d)"
  defines "base \<equiv> PAGE_OFFSET + physical_address r"
  defines "b \<equiv> boot_descriptor bs bt (tm_cr3 m)" and "c \<equiv> child_descriptor code base (tm_cr3 m)"
  assumes w: "saved_frame w (base + 32704) (first_context code c)" "w (base + 4096) = STACK_CANARY"
  shows "two_tasks code env \<lparr>dt_boot = b, dt_child = c, dt_base = base, dt_memory = d, dt_cr3 = tm_cr3 m\<rparr>
    (\<lambda>_. first_context code c)
    ((set_task base c ((set_task (boot_task_at code) b m)\<lparr>tm_current := boot_task_at code, tm_tss := store_u64 (tm_tss m) 4 (of_nat bt)\<rparr>))\<lparr>tm_memory := d, tm_next_pid := 2, tm_words := w\<rparr>)"
proof -
  note R = ready [unfolded demo_ready_def]
  have wf: "md_wf (tm_memory m)" using R by blast
  note B = run_base [OF wf alloc, folded base_def]
  let ?m2 = "(set_task (boot_task_at code) b m)\<lparr>tm_current := boot_task_at code, tm_tss := store_u64 (tm_tss m) 4 (of_nat bt)\<rparr>"
  let ?m3 = "(set_task base c ?m2)\<lparr>tm_memory := d, tm_next_pid := 2, tm_words := w\<rparr>"
  have lt: "base + 2097152 \<le> 18446603336231682048"
    using B(2) by (simp add: PAGE_OFFSET_def DIRECT_RAM_END_def PAGE_2M_SIZE_def)
  have apart: "{base..<base + 2097152} \<inter> {bs..<bt} = {}" "boot_task_at code \<noteq> base"
    using R B(3,4) by (auto simp: PAGE_2M_SIZE_def)
  have fields: "stack_bottom b = bs" "stack_top b = bt" "page_table b = tm_cr3 m" "state b = Running"
    "stack_bottom c = base + 4104" "stack_top c = base + 32768" "page_table c = tm_cr3 m" "state c = Ready"
    "context_rsp c = base + 32704" "pid c = 1"
    by (simp_all add: b_def c_def boot_descriptor_def child_descriptor_def)
  have tasks: "tm_tasks ?m3 = [boot_task_at code \<mapsto> b, base \<mapsto> c]"
    using R by (auto simp: set_task_def)
  have ks: "kernel_stack (tm_tss ?m2) = of_nat bt" "length (tm_tss ?m2) = 104"
    using R by (simp_all add: kernel_stack_def tss_load tss_length)
  have "ready_task w c (first_context code c)"
    using w(1) by (simp add: ready_task_def fields)
  moreover have sr: "stack_range b = {bs..<bt}" "stack_range c = {base + 4104..<base + 32768}"
    by (simp_all add: stack_range_def fields)
  moreover have "stack_range b \<inter> stack_range c = {}"
  proof -
    have "{base + 4104..<base + 32768} \<subseteq> {base..<base + 2097152}" by auto
    then show ?thesis unfolding sr using apart(1) by blast
  qed
  ultimately have ok: "tasks_ok ?m3 (\<lambda>_. first_context code c)"
    unfolding tasks_ok_def tasks using R ks apart(2) fields lt by (simp add: set_task_def Int_commute)
  have canary: "base + 4096 \<notin> stack_range b \<union> stack_range c" 
  proof -
    have "base + 4096 \<in> {base..<base + 2097152}" "base + 4096 \<notin> {base + 4104..<base + 32768}" by simp_all
    then show ?thesis unfolding sr using apart(1) by blast
  qed
  have room: "has_room env b" "has_room env c"
    using R unfolding has_room_def fields by (auto dest!: spec)
  have "(base + 32768) mod 16 = 0" using B(5) by presburger
  then have al: "(of_nat (stack_top c) :: u64) mod 16 = 0" "(of_nat (stack_top b) :: u64) mod 16 = 0"
    using R lt unfolding fields by (auto intro!: aligned_u64 simp del: of_nat_add)
  have rest: "tm_memory ?m3 = d" "\<not> tm_interrupts ?m3" "tm_cr3 ?m3 = tm_cr3 m" "boot_task_at code \<noteq> 0" "base \<noteq> 0"
      "tm_words ?m3 (base + 4096) = STACK_CANARY" "stack_bottom c - 8 = base + 4096" "8 \<le> stack_bottom c"
    using R w(2) unfolding fields by (simp_all add: set_task_def base_def PAGE_OFFSET_def)
  show ?thesis
    unfolding two_tasks_def demo_tasks.select_convs usable_task_def tasks rest(7)
    using ok room canary apart(2) rest al fields(3,7,10) by blast
qed

lemma begin_part:
  assumes ready: "demo_ready code env bs bt m" and alloc: "allocate (tm_memory m) Mapped 1 = Inr (Inr r, d)"
  defines "base \<equiv> PAGE_OFFSET + physical_address r"
  defines "b \<equiv> boot_descriptor bs bt (tm_cr3 m)" and "c \<equiv> child_descriptor code base (tm_cr3 m)"
  shows "\<exists>m' x. boot_first code env bs bt m = Inr (\<lparr>thread_task = base, backing = r\<rparr>,
      [thread_message 1 (base + 4104) (base + 32768)], m')
    \<and> tm_current m' = base \<and> tm_cpu m' = first_context code c
    \<and> two_tasks code env \<lparr>dt_boot = b\<lparr>state := Ready, context_rsp := x\<rparr>, dt_child = c\<lparr>state := Running\<rparr>, dt_base = base,
         dt_memory = d, dt_cr3 = tm_cr3 m\<rparr>
         ((\<lambda>_. first_context code c)(boot_task_at code := call_context code env Boot_First b)) m'"
proof -
  note R = ready [unfolded demo_ready_def]
  have wf: "md_wf (tm_memory m)" using R by blast
  note B = run_base [OF wf alloc, folded base_def]
  let ?m2 = "(set_task (boot_task_at code) b m)\<lparr>tm_current := boot_task_at code, tm_tss := store_u64 (tm_tss m) 4 (of_nat bt)\<rparr>"
  have wf2: "md_wf (tm_memory ?m2)" "allocate (tm_memory ?m2) Mapped 1 = Inr (Inr r, d)" "tm_next_pid ?m2 = 1"
    using R alloc by (simp_all add: set_task_def)
  obtain w where cr: "create_kernel_thread code (init_at code) 10 ?m2 = Inr (\<lparr>thread_task = base, backing = r\<rparr>,
      [thread_message 1 (base + 4104) (base + 32768)],
      (set_task base c ?m2)\<lparr>tm_memory := d, tm_next_pid := 2, tm_words := w\<rparr>)"
    and w: "saved_frame w (base + 32704) (first_context code c)" "w (base + 4096) = STACK_CANARY"
    using create_run [OF wf2, of code] by (auto simp: base_def c_def set_task_def)
  let ?m3 = "(set_task base c ?m2)\<lparr>tm_memory := d, tm_next_pid := 2, tm_words := w\<rparr>"
  have fields: "stack_bottom b = bs" "stack_top b = bt" "page_table b = tm_cr3 m" "state b = Running" "state c = Ready"
    by (simp_all add: b_def c_def boot_descriptor_def child_descriptor_def)
  have ks: "kernel_stack (tm_tss ?m2) = of_nat bt" "length (tm_tss ?m2) = 104"
    using R by (simp_all add: kernel_stack_def tss_load tss_length)
  note d0 = created_pair [OF ready alloc, folded base_def b_def, folded c_def, OF w]
  have cur: "tm_current ?m3 = boot_task_at code" by (simp add: set_task_def)
  obtain m4 m5 x where h: "reach_call env Boot_First ?m3 = Inr m4" "switch_to code base m4 = Inr m5"
      "tm_current m5 = base" "tm_cpu m5 = first_context code c"
      "two_tasks code env \<lparr>dt_boot = (left_task b)\<lparr>context_rsp := x\<rparr>, dt_child = c\<lparr>state := Running\<rparr>, dt_base = base,
         dt_memory = d, dt_cr3 = tm_cr3 m\<rparr>
         ((\<lambda>_. first_context code c)(boot_task_at code := call_context code env Boot_First b)) m5"
    using boot_to_child [OF d0 _ cur, of Boot_First] R fields(5) by auto
  have "assert_current_stack ?m2 = Inr ()"
    using R ks fields by (simp add: assert_current_stack_def deref_def set_task_def)
  moreover have "set_kernel_stack False (of_nat bt) (tm_tss m) = Inr (store_u64 (tm_tss m) 4 (of_nat bt))"
    using R aligned_u64 [of bt] by (simp add: set_kernel_stack_def)
  moreover have dr: "deref m (boot_task_at code) = Inr BOOT_TASK_INITIAL" using R by (simp add: deref_def)
  moreover have b0: "BOOT_TASK_INITIAL\<lparr>stack_bottom := bs, stack_top := bt, page_table := tm_cr3 m, state := Running\<rparr> = b"
    by (simp add: b_def boot_descriptor_def)
  ultimately have "boot_first code env bs bt m = Inr (\<lparr>thread_task = base, backing = r\<rparr>,
      [thread_message 1 (base + 4104) (base + 32768)], m5)"
    using cr h(1,2) dr b0 R by (simp add: boot_first_def Let_def)
  then show ?thesis using h fields(4) by (intro exI [of _ m5] exI [of _ x]) (simp add: left_task_def)
qed

lemma demo_first_half:
  assumes "demo_ready code env bs bt m" "allocate (tm_memory m) Mapped 1 = Inr (Inr r, d)"
  defines "base \<equiv> PAGE_OFFSET + physical_address r"
  defines "b \<equiv> boot_descriptor bs bt (tm_cr3 m)" and "c \<equiv> child_descriptor code base (tm_cr3 m)"
    and "child \<equiv> \<lparr>thread_task = base, backing = r\<rparr>"
  shows "\<exists>m1 m2 m3 x2 x3. boot_first code env bs bt m = Inr (child, [thread_message 1 (base + 4104) (base + 32768)], m1)
    \<and> tm_current m1 = base \<and> tm_cpu m1 = first_context code c
    \<and> trampoline_enter code env m1 = Inr ([init_message], m2)
    \<and> tm_current m2 = boot_task_at code \<and> tm_cpu m2 = call_context code env Boot_First b
    \<and> boot_second code env child m2 = Inr ([yield_message], m3)
    \<and> tm_current m3 = base \<and> tm_cpu m3 = call_context code env Init_Yield c
    \<and> two_tasks code env \<lparr>dt_boot = b\<lparr>state := Ready, context_rsp := x3\<rparr>,
         dt_child = c\<lparr>progress := 1, context_rsp := x2, state := Running\<rparr>, dt_base = base, dt_memory = d, dt_cr3 = tm_cr3 m\<rparr>
         ((\<lambda>_. first_context code c)(base := call_context code env Init_Yield c,
           boot_task_at code := call_context code env Boot_Second b)) m3
    \<and> tm_words m3 (stack_top c - call_depth env Init_Yield) = INIT_LOCAL"
proof -
  have R: "env_ok env" using assms(1) by (simp add: demo_ready_def)
  have fields: "state b = Running" "fresh_thread code c" "stack_top b = bt"
    by (simp_all add: b_def c_def boot_descriptor_def child_descriptor_def fresh_thread_def)
  obtain m1 x1 where p1: "boot_first code env bs bt m = Inr (child, [thread_message 1 (base + 4104) (base + 32768)], m1)"
      "tm_current m1 = base" "tm_cpu m1 = first_context code c"
      "two_tasks code env \<lparr>dt_boot = b\<lparr>state := Ready, context_rsp := x1\<rparr>, dt_child = c\<lparr>state := Running\<rparr>, dt_base = base,
         dt_memory = d, dt_cr3 = tm_cr3 m\<rparr>
         ((\<lambda>_. first_context code c)(boot_task_at code := call_context code env Boot_First b)) m1"
    using begin_part [OF assms(1,2)] unfolding base_def b_def c_def child_def by blast
  obtain m2 x2 where p2: "trampoline_enter code env m1 = Inr ([init_message], m2)"
      "tm_current m2 = boot_task_at code" "tm_cpu m2 = call_context code env Boot_First b"
      "two_tasks code env \<lparr>dt_boot = b\<lparr>context_rsp := x1, state := Running\<rparr>,
         dt_child = c\<lparr>progress := 1, state := Ready, context_rsp := x2\<rparr>, dt_base = base, dt_memory = d, dt_cr3 = tm_cr3 m\<rparr>
         ((\<lambda>_. first_context code c)(boot_task_at code := call_context code env Boot_First b,
           base := call_context code env Init_Yield c)) m2"
      "tm_words m2 (stack_top c - call_depth env Init_Yield) = INIT_LOCAL"
    using thread_part [OF p1(4) R] p1(2,3) fields by (auto simp: contexts first_contexts)
  obtain m3 x3 where p3: "boot_second code env child m2 = Inr ([yield_message], m3)"
      "tm_current m3 = base" "tm_cpu m3 = call_context code env Init_Yield c"
      "two_tasks code env \<lparr>dt_boot = b\<lparr>state := Ready, context_rsp := x3\<rparr>,
         dt_child = c\<lparr>progress := 1, context_rsp := x2, state := Running\<rparr>, dt_base = base, dt_memory = d, dt_cr3 = tm_cr3 m\<rparr>
         ((\<lambda>_. first_context code c)(base := call_context code env Init_Yield c,
           boot_task_at code := call_context code env Boot_Second b)) m3"
      "tm_words m3 (stack_top c - call_depth env Init_Yield) = INIT_LOCAL"
  proof -
    note D = two_tasksD [OF p2(4), simplified]
    have "stack_top c - call_depth env Init_Yield \<in> stack_range c"
      using call_context_in_stack [OF R, of c Init_Yield] D(11) by (simp add: stack_range_def has_room_def)
    moreover have "stack_range b \<inter> stack_range c = {}"
      using tasks_okD(4) [OF D(6) D(1) D(2) D(3)] by (simp add: stack_range_def)
    ultimately have "stack_top c - call_depth env Init_Yield \<notin> stack_range (b\<lparr>context_rsp := x1, state := Running\<rparr>)"
      by (auto simp: stack_range_def)
    then show thesis
      using boot_part [OF p2(4) R, of b child] p2(2,3,5) fields that
      by (auto simp: contexts child_descriptor_def c_def child_def)
  qed
  from p1(1-3) p2(1-3) p3 show ?thesis by blast
qed

lemma task_demo_runs:
  assumes "demo_ready code env bs bt m" "allocate (tm_memory m) Mapped 1 = Inr (Inr r, d)"
  defines "base \<equiv> PAGE_OFFSET + physical_address r"
  shows "\<exists>m'. demonstrate_tasks code env bs bt 4 m = Inr (Some ([thread_message 1 (base + 4104) (base + 32768), init_message,
      yield_message, resume_message, exit_message 1 1, demo_message], m'))
    \<and> tm_memory m' = tm_memory m \<and> tm_current m' = boot_task_at code \<and> kernel_stack (tm_tss m') = of_nat bt
    \<and> length (tm_tss m') = 104 \<and> tm_cr3 m' = tm_cr3 m
    \<and> (\<exists>x. tm_tasks m' = [boot_task_at code \<mapsto> (boot_descriptor bs bt (tm_cr3 m))\<lparr>context_rsp := x\<rparr>])"
proof -
  have R: "env_ok env" "md_wf (tm_memory m)" "switch_return_at code \<noteq> of_nat (trampoline_at code)"
      "switch_return_at code \<noteq> of_nat (returned_at code)"
    using assms(1) by (simp_all add: demo_ready_def)
  let ?b = "boot_descriptor bs bt (tm_cr3 m)" and ?c = "child_descriptor code base (tm_cr3 m)"
  let ?child = "\<lparr>thread_task = base, backing = r\<rparr>"
  have fields: "state ?b = Running" "fresh_thread code ?c" "stack_top ?b = bt"
    by (simp_all add: boot_descriptor_def child_descriptor_def fresh_thread_def)
  obtain m1 m2 m3 x2 x3 where p1: "boot_first code env bs bt m = Inr (?child, [thread_message 1 (base + 4104) (base + 32768)], m1)"
      "tm_current m1 = base" "tm_cpu m1 = first_context code ?c"
    and p2: "trampoline_enter code env m1 = Inr ([init_message], m2)"
      "tm_current m2 = boot_task_at code" "tm_cpu m2 = call_context code env Boot_First ?b"
    and p3: "boot_second code env ?child m2 = Inr ([yield_message], m3)"
      "tm_current m3 = base" "tm_cpu m3 = call_context code env Init_Yield ?c"
      "two_tasks code env \<lparr>dt_boot = ?b\<lparr>state := Ready, context_rsp := x3\<rparr>,
         dt_child = ?c\<lparr>progress := 1, context_rsp := x2, state := Running\<rparr>, dt_base = base, dt_memory = d, dt_cr3 = tm_cr3 m\<rparr>
         ((\<lambda>_. first_context code ?c)(base := call_context code env Init_Yield ?c,
           boot_task_at code := call_context code env Boot_Second ?b)) m3"
      "tm_words m3 (stack_top ?c - call_depth env Init_Yield) = INIT_LOCAL"
    using demo_first_half [OF assms(1,2)] unfolding base_def by blast
  obtain m4 x4 where p4: "task_trampoline code env m3 = Inr ([resume_message, exit_message 1 1], m4)"
      "tm_current m4 = boot_task_at code" "tm_cpu m4 = call_context code env Boot_Second ?b"
      "two_tasks code env \<lparr>dt_boot = ?b\<lparr>context_rsp := x3, state := Running\<rparr>,
         dt_child = ?c\<lparr>progress := 2, exit_code := Some 1, state := Zombie, context_rsp := x4\<rparr>,
         dt_base = base, dt_memory = d, dt_cr3 = tm_cr3 m\<rparr>
         ((\<lambda>_. first_context code ?c)(boot_task_at code := call_context code env Boot_Second ?b,
           base := call_context code env Trampoline_Exit ?c)) m4"
    using exit_part [OF p3(4) R(1), of "?c"] p3(2,3,5) fields
    by (auto simp: contexts)
  have p5: "boot_last code ?child m4 = Inr ([demo_message],
      m4\<lparr>tm_memory := tm_memory m, tm_tasks := (tm_tasks m4)(base := None)\<rparr>)"
    using last_part [OF p4(4) R(1), of "?b" ?child "tm_memory m"] p4(2,3) R(2) assms(2) by simp
  have rip: "cpu_rip (tm_cpu m1) = of_nat (trampoline_at code)" "cpu_rip (tm_cpu m2) = switch_return_at code"
      "cpu_rip (tm_cpu m3) = switch_return_at code" "cpu_rip (tm_cpu m4) = switch_return_at code"
    using p1(3) p2(3) p3(3) p4(3) by (simp_all add: first_context_def call_context_def)
  have ne: "boot_task_at code \<noteq> base" using two_tasksD(3) [OF p4(4)] by simp
  have "demonstrate_tasks code env bs bt 4 m = Inr (Some ([thread_message 1 (base + 4104) (base + 32768), init_message,
      yield_message, resume_message, exit_message 1 1, demo_message],
      m4\<lparr>tm_memory := tm_memory m, tm_tasks := (tm_tasks m4)(base := None)\<rparr>))"
  proof -
    have four: "(4 :: nat) = Suc (Suc (Suc (Suc 0)))" by simp
    show ?thesis
      unfolding four
      using p1(1,2) p2(1,2) p3(1,2) p4(1,2) p5 rip ne R(3,4)
      by (simp add: demonstrate_tasks_def continue_task_def)
  qed
  show ?thesis
  proof -
    note D = two_tasksD [OF p4(4), simplified]
    have "kernel_stack (tm_tss m4) = of_nat bt" "length (tm_tss m4) = 104"
      using tasks_ok_current(2,3) [OF D(6)] D(1) p4(2) fields(3) by simp_all
    moreover have "tm_cr3 m4 = tm_cr3 m" using p4(4) by (simp add: two_tasks_def)
    moreover have "(tm_tasks m4)(base := None) = [boot_task_at code \<mapsto> ?b\<lparr>context_rsp := x3\<rparr>]"
      using p4(4) ne by (auto simp: two_tasks_def boot_descriptor_def)
    ultimately show ?thesis using p4(2) \<open>demonstrate_tasks code env bs bt 4 m = _\<close>
      by (intro exI [of _ "m4\<lparr>tm_memory := tm_memory m, tm_tasks := (tm_tasks m4)(base := None)\<rparr>"]) auto
  qed
qed

text \<open>
  C24. The thread demonstration completes and leaves nothing behind: from the state the boot code
  hands over, with a free mapped page, and whatever the compiler makes of stack depths and registers,
  the thread is created, yields, is resumed with its local value intact, exits with 1, and is
  reclaimed; no check fails, the messages appear in this order, the page allocator is exactly as
  before, and only the boot task remains, running on its own stack.
\<close>

theorem demonstrate_tasks_completes:
  assumes "demo_ready code env bs bt m" "allocate (tm_memory m) Mapped 1 = Inr (Inr r, d)"
  defines "base \<equiv> PAGE_OFFSET + physical_address r"
  shows "\<exists>m'. demonstrate_tasks code env bs bt 4 m = Inr (Some ([thread_message 1 (base + 4104) (base + 32768), init_message,
      yield_message, resume_message, exit_message 1 1, demo_message], m'))
    \<and> tm_memory m' = tm_memory m \<and> tm_current m' = boot_task_at code \<and> kernel_stack (tm_tss m') = of_nat bt
    \<and> (\<exists>x. tm_tasks m' = [boot_task_at code \<mapsto> (boot_descriptor bs bt (tm_cr3 m))\<lparr>context_rsp := x\<rparr>])"
  using task_demo_runs [OF assms(1,2)] unfolding base_def by blast

section \<open>An example\<close>

definition example_code :: task_code where
  "example_code = \<lparr>trampoline_at = PAGE_OFFSET + 0x104000, returned_at = PAGE_OFFSET + 0x105000,
     switch_return_at = 0xffff800000106000, init_at = PAGE_OFFSET + 0x107000, boot_task_at = PAGE_OFFSET + 0x180000\<rparr>"

definition example_env :: demo_env where
  "example_env = \<lparr>call_depth = (\<lambda>_. 256), call_registers = (\<lambda>_. replicate 6 7),
     own_work = (\<lambda>_ bottom t w a. if a \<in> {bottom..<t} then 0xcc else w a)\<rparr>"

definition example_tasks :: task_machine where
  "example_tasks = \<lparr>tm_tasks = [PAGE_OFFSET + 0x180000 \<mapsto> BOOT_TASK_INITIAL], tm_current = 0, tm_next_pid = 1,
     tm_tss = TSS_INITIAL, tm_memory = example_descriptor, tm_words = (\<lambda>_. 0),
     tm_cpu = \<lparr>cpu_rsp = PAGE_OFFSET + 0x11ff00, cpu_rip = 0, cpu_saved = replicate 6 0\<rparr>,
     tm_interrupts = False, tm_cr3 = 0x101000\<rparr>"

lemma example_free_positive: "i \<in> free_pages example_descriptor \<Longrightarrow> 1 \<le> i"
  using example_page_used [of 0] by (auto simp: free_pages_def intro: Suc_leI gr0I)

lemma example_demo_ready:
  "demo_ready example_code example_env (PAGE_OFFSET + 0x110000) (PAGE_OFFSET + 0x120000) example_tasks"
proof -
  have apart: "page_window i \<inter> {PAGE_OFFSET + 0x110000..<PAGE_OFFSET + 0x120000} = {} \<and> PAGE_OFFSET + 0x180000 \<notin> page_window i"
    if "i \<in> free_pages example_descriptor" for i
  proof -
    have "1 * PAGE_2M_SIZE \<le> i * PAGE_2M_SIZE" by (rule mult_le_mono1 [OF example_free_positive [OF that]])
    then have "0x200000 \<le> i * PAGE_2M_SIZE" by (simp add: PAGE_2M_SIZE_def)
    then show ?thesis by (auto simp: page_window_def)
  qed
  show ?thesis
    unfolding demo_ready_def
    using apart example_wf
    by (simp add: example_code_def example_env_def example_tasks_def env_ok_def length_TSS_INITIAL PAGE_OFFSET_def)
qed

theorem demonstrate_tasks_completes_witness:
  "\<exists>printed m'. demonstrate_tasks example_code example_env (PAGE_OFFSET + 0x110000) (PAGE_OFFSET + 0x120000) 4 example_tasks
      = Inr (Some (printed, m')) \<and> length printed = 6 \<and> tm_memory m' = example_descriptor"
proof -
  have m: "tm_memory example_tasks = example_descriptor" by (simp add: example_tasks_def)
  obtain r d where "allocate (tm_memory example_tasks) Mapped 1 = Inr (Inr r, d)"
    using example_allocate_single unfolding m by blast
  from demonstrate_tasks_completes [OF example_demo_ready this] show ?thesis unfolding m by fastforce
qed

end
