(* ===== verification/Font.thy ===== *)
theory Font
  imports Kernel_Prelude
begin

text \<open>
  The font of the console (\<^verbatim>\<open>src/kernel/font.rs\<close>): for each of the 256 bytes sixteen rows of eight
  pixels, the most significant bit on the left. The table is split into eight blocks of 32 glyphs.
\<close>

definition FONT_0 :: "u8 list list" where
  "FONT_0 =
    [[0x00, 0x00, 0x00, 0x00, 0x00, 0x00, 0x00, 0x00,
      0x00, 0x00, 0x00, 0x00, 0x00, 0x00, 0x00, 0x00],
     [0x00, 0x00, 0x00, 0x00, 0x00, 0x00, 0x00, 0x00,
      0x00, 0x00, 0x00, 0x00, 0x00, 0x00, 0x00, 0x00],
     [0x00, 0x00, 0x00, 0x00, 0x00, 0x00, 0x00, 0x00,
      0x00, 0x00, 0x00, 0x00, 0x00, 0x00, 0x00, 0x00],
     [0x00, 0x00, 0x00, 0x00, 0x00, 0x00, 0x00, 0x00,
      0x00, 0x00, 0x00, 0x00, 0x00, 0x00, 0x00, 0x00],
     [0x00, 0x00, 0x00, 0x00, 0x00, 0x00, 0x00, 0x00,
      0x00, 0x00, 0x00, 0x00, 0x00, 0x00, 0x00, 0x00],
     [0x00, 0x00, 0x00, 0x00, 0x00, 0x00, 0x00, 0x00,
      0x00, 0x00, 0x00, 0x00, 0x00, 0x00, 0x00, 0x00],
     [0x00, 0x00, 0x00, 0x00, 0x00, 0x00, 0x00, 0x00,
      0x00, 0x00, 0x00, 0x00, 0x00, 0x00, 0x00, 0x00],
     [0x00, 0x00, 0x00, 0x00, 0x00, 0x00, 0x00, 0x00,
      0x00, 0x00, 0x00, 0x00, 0x00, 0x00, 0x00, 0x00],
     [0x00, 0x00, 0x00, 0x00, 0x00, 0x00, 0x00, 0x00,
      0x00, 0x00, 0x00, 0x00, 0x00, 0x00, 0x00, 0x00],
     [0x00, 0x00, 0x00, 0x00, 0x00, 0x00, 0x00, 0x00,
      0x00, 0x00, 0x00, 0x00, 0x00, 0x00, 0x00, 0x00],
     [0x00, 0x00, 0x00, 0x00, 0x00, 0x00, 0x00, 0x00,
      0x00, 0x00, 0x00, 0x00, 0x00, 0x00, 0x00, 0x00],
     [0x00, 0x00, 0x00, 0x00, 0x00, 0x00, 0x00, 0x00,
      0x00, 0x00, 0x00, 0x00, 0x00, 0x00, 0x00, 0x00],
     [0x00, 0x00, 0x00, 0x00, 0x00, 0x00, 0x00, 0x00,
      0x00, 0x00, 0x00, 0x00, 0x00, 0x00, 0x00, 0x00],
     [0x00, 0x00, 0x00, 0x00, 0x00, 0x00, 0x00, 0x00,
      0x00, 0x00, 0x00, 0x00, 0x00, 0x00, 0x00, 0x00],
     [0x00, 0x00, 0x00, 0x00, 0x00, 0x00, 0x00, 0x00,
      0x00, 0x00, 0x00, 0x00, 0x00, 0x00, 0x00, 0x00],
     [0x00, 0x00, 0x00, 0x00, 0x00, 0x00, 0x00, 0x00,
      0x00, 0x00, 0x00, 0x00, 0x00, 0x00, 0x00, 0x00],
     [0x00, 0x00, 0x00, 0x00, 0x00, 0x00, 0x00, 0x00,
      0x00, 0x00, 0x00, 0x00, 0x00, 0x00, 0x00, 0x00],
     [0x00, 0x00, 0x00, 0x00, 0x00, 0x00, 0x00, 0x00,
      0x00, 0x00, 0x00, 0x00, 0x00, 0x00, 0x00, 0x00],
     [0x00, 0x00, 0x00, 0x00, 0x00, 0x00, 0x00, 0x00,
      0x00, 0x00, 0x00, 0x00, 0x00, 0x00, 0x00, 0x00],
     [0x00, 0x00, 0x00, 0x00, 0x00, 0x00, 0x00, 0x00,
      0x00, 0x00, 0x00, 0x00, 0x00, 0x00, 0x00, 0x00],
     [0x00, 0x00, 0x00, 0x00, 0x00, 0x00, 0x00, 0x00,
      0x00, 0x00, 0x00, 0x00, 0x00, 0x00, 0x00, 0x00],
     [0x00, 0x00, 0x00, 0x00, 0x00, 0x00, 0x00, 0x00,
      0x00, 0x00, 0x00, 0x00, 0x00, 0x00, 0x00, 0x00],
     [0x00, 0x00, 0x00, 0x00, 0x00, 0x00, 0x00, 0x00,
      0x00, 0x00, 0x00, 0x00, 0x00, 0x00, 0x00, 0x00],
     [0x00, 0x00, 0x00, 0x00, 0x00, 0x00, 0x00, 0x00,
      0x00, 0x00, 0x00, 0x00, 0x00, 0x00, 0x00, 0x00],
     [0x00, 0x00, 0x00, 0x00, 0x00, 0x00, 0x00, 0x00,
      0x00, 0x00, 0x00, 0x00, 0x00, 0x00, 0x00, 0x00],
     [0x00, 0x00, 0x00, 0x00, 0x00, 0x00, 0x00, 0x00,
      0x00, 0x00, 0x00, 0x00, 0x00, 0x00, 0x00, 0x00],
     [0x00, 0x00, 0x00, 0x00, 0x00, 0x00, 0x00, 0x00,
      0x00, 0x00, 0x00, 0x00, 0x00, 0x00, 0x00, 0x00],
     [0x00, 0x00, 0x00, 0x00, 0x00, 0x00, 0x00, 0x00,
      0x00, 0x00, 0x00, 0x00, 0x00, 0x00, 0x00, 0x00],
     [0x00, 0x00, 0x00, 0x00, 0x00, 0x00, 0x00, 0x00,
      0x00, 0x00, 0x00, 0x00, 0x00, 0x00, 0x00, 0x00],
     [0x00, 0x00, 0x00, 0x00, 0x00, 0x00, 0x00, 0x00,
      0x00, 0x00, 0x00, 0x00, 0x00, 0x00, 0x00, 0x00],
     [0x00, 0x00, 0x00, 0x00, 0x00, 0x00, 0x00, 0x00,
      0x00, 0x00, 0x00, 0x00, 0x00, 0x00, 0x00, 0x00],
     [0x00, 0x00, 0x00, 0x00, 0x00, 0x00, 0x00, 0x00,
      0x00, 0x00, 0x00, 0x00, 0x00, 0x00, 0x00, 0x00]]"

definition FONT_1 :: "u8 list list" where
  "FONT_1 =
    [[0x00, 0x00, 0x00, 0x00, 0x00, 0x00, 0x00, 0x00,
      0x00, 0x00, 0x00, 0x00, 0x00, 0x00, 0x00, 0x00],
     [0x00, 0x10, 0x10, 0x10, 0x10, 0x10, 0x10, 0x10,
      0x10, 0x10, 0x00, 0x00, 0x10, 0x10, 0x00, 0x00],
     [0x28, 0x28, 0x28, 0x00, 0x00, 0x00, 0x00, 0x00,
      0x00, 0x00, 0x00, 0x00, 0x00, 0x00, 0x00, 0x00],
     [0x00, 0x44, 0x44, 0x44, 0xfe, 0x44, 0x44, 0x44,
      0x44, 0x44, 0xfe, 0x44, 0x44, 0x44, 0x00, 0x00],
     [0x10, 0x3a, 0x56, 0x92, 0x92, 0x90, 0x50, 0x38,
      0x14, 0x12, 0x92, 0x92, 0xd4, 0xb8, 0x10, 0x10],
     [0x62, 0x92, 0x94, 0x94, 0x68, 0x08, 0x10, 0x10,
      0x20, 0x2c, 0x52, 0x52, 0x92, 0x8c, 0x00, 0x00],
     [0x00, 0x70, 0x88, 0x88, 0x88, 0x90, 0x60, 0x47,
      0xa2, 0x92, 0x8a, 0x84, 0x46, 0x39, 0x00, 0x00],
     [0x04, 0x08, 0x10, 0x00, 0x00, 0x00, 0x00, 0x00,
      0x00, 0x00, 0x00, 0x00, 0x00, 0x00, 0x00, 0x00],
     [0x02, 0x04, 0x08, 0x08, 0x10, 0x10, 0x10, 0x10,
      0x10, 0x10, 0x10, 0x08, 0x08, 0x04, 0x02, 0x00],
     [0x80, 0x40, 0x20, 0x20, 0x10, 0x10, 0x10, 0x10,
      0x10, 0x10, 0x10, 0x20, 0x20, 0x40, 0x80, 0x00],
     [0x00, 0x00, 0x00, 0x00, 0x00, 0x10, 0x92, 0x54,
      0x38, 0x54, 0x92, 0x10, 0x00, 0x00, 0x00, 0x00],
     [0x00, 0x00, 0x00, 0x00, 0x00, 0x10, 0x10, 0x10,
      0xfe, 0x10, 0x10, 0x10, 0x00, 0x00, 0x00, 0x00],
     [0x00, 0x00, 0x00, 0x00, 0x00, 0x00, 0x00, 0x00,
      0x00, 0x00, 0x00, 0x18, 0x18, 0x08, 0x08, 0x10],
     [0x00, 0x00, 0x00, 0x00, 0x00, 0x00, 0x00, 0x00,
      0xfe, 0x00, 0x00, 0x00, 0x00, 0x00, 0x00, 0x00],
     [0x00, 0x00, 0x00, 0x00, 0x00, 0x00, 0x00, 0x00,
      0x00, 0x00, 0x00, 0x00, 0x18, 0x18, 0x00, 0x00],
     [0x02, 0x02, 0x04, 0x04, 0x08, 0x08, 0x08, 0x10,
      0x10, 0x20, 0x20, 0x40, 0x40, 0x40, 0x80, 0x80],
     [0x00, 0x18, 0x24, 0x24, 0x42, 0x42, 0x42, 0x42,
      0x42, 0x42, 0x42, 0x24, 0x24, 0x18, 0x00, 0x00],
     [0x00, 0x08, 0x18, 0x28, 0x08, 0x08, 0x08, 0x08,
      0x08, 0x08, 0x08, 0x08, 0x08, 0x3e, 0x00, 0x00],
     [0x00, 0x18, 0x24, 0x42, 0x42, 0x02, 0x04, 0x08,
      0x10, 0x20, 0x20, 0x40, 0x40, 0x7e, 0x00, 0x00],
     [0x00, 0x18, 0x24, 0x42, 0x02, 0x02, 0x04, 0x18,
      0x04, 0x02, 0x02, 0x42, 0x24, 0x18, 0x00, 0x00],
     [0x00, 0x0c, 0x0c, 0x0c, 0x14, 0x14, 0x14, 0x24,
      0x24, 0x44, 0x7e, 0x04, 0x04, 0x1e, 0x00, 0x00],
     [0x00, 0x7c, 0x40, 0x40, 0x40, 0x58, 0x64, 0x02,
      0x02, 0x02, 0x02, 0x42, 0x24, 0x18, 0x00, 0x00],
     [0x00, 0x18, 0x24, 0x42, 0x40, 0x58, 0x64, 0x42,
      0x42, 0x42, 0x42, 0x42, 0x24, 0x18, 0x00, 0x00],
     [0x00, 0x7e, 0x42, 0x42, 0x04, 0x04, 0x08, 0x08,
      0x08, 0x10, 0x10, 0x10, 0x10, 0x38, 0x00, 0x00],
     [0x00, 0x18, 0x24, 0x42, 0x42, 0x42, 0x24, 0x18,
      0x24, 0x42, 0x42, 0x42, 0x24, 0x18, 0x00, 0x00],
     [0x00, 0x18, 0x24, 0x42, 0x42, 0x42, 0x42, 0x42,
      0x26, 0x1a, 0x02, 0x42, 0x24, 0x18, 0x00, 0x00],
     [0x00, 0x00, 0x00, 0x00, 0x00, 0x18, 0x18, 0x00,
      0x00, 0x00, 0x00, 0x00, 0x18, 0x18, 0x00, 0x00],
     [0x00, 0x00, 0x00, 0x00, 0x00, 0x18, 0x18, 0x00,
      0x00, 0x00, 0x00, 0x18, 0x18, 0x08, 0x08, 0x10],
     [0x00, 0x02, 0x04, 0x08, 0x10, 0x20, 0x40, 0x80,
      0x80, 0x40, 0x20, 0x10, 0x08, 0x04, 0x02, 0x00],
     [0x00, 0x00, 0x00, 0x00, 0x00, 0x00, 0xfe, 0x00,
      0x00, 0xfe, 0x00, 0x00, 0x00, 0x00, 0x00, 0x00],
     [0x00, 0x80, 0x40, 0x20, 0x10, 0x08, 0x04, 0x02,
      0x02, 0x04, 0x08, 0x10, 0x20, 0x40, 0x80, 0x00],
     [0x00, 0x38, 0x44, 0x82, 0x82, 0x82, 0x04, 0x08,
      0x10, 0x10, 0x00, 0x00, 0x18, 0x18, 0x00, 0x00]]"

definition FONT_2 :: "u8 list list" where
  "FONT_2 =
    [[0x00, 0x38, 0x44, 0x82, 0x9a, 0xaa, 0xaa, 0xaa,
      0xaa, 0xaa, 0x9c, 0x80, 0x46, 0x38, 0x00, 0x00],
     [0x00, 0x18, 0x18, 0x18, 0x18, 0x24, 0x24, 0x24,
      0x24, 0x7e, 0x42, 0x42, 0x42, 0xe7, 0x00, 0x00],
     [0x00, 0xf0, 0x48, 0x44, 0x44, 0x44, 0x48, 0x78,
      0x44, 0x42, 0x42, 0x42, 0x44, 0xf8, 0x00, 0x00],
     [0x00, 0x3a, 0x46, 0x42, 0x82, 0x80, 0x80, 0x80,
      0x80, 0x80, 0x82, 0x42, 0x44, 0x38, 0x00, 0x00],
     [0x00, 0xf8, 0x44, 0x44, 0x42, 0x42, 0x42, 0x42,
      0x42, 0x42, 0x42, 0x44, 0x44, 0xf8, 0x00, 0x00],
     [0x00, 0xfe, 0x42, 0x42, 0x40, 0x40, 0x44, 0x7c,
      0x44, 0x40, 0x40, 0x42, 0x42, 0xfe, 0x00, 0x00],
     [0x00, 0xfe, 0x42, 0x42, 0x40, 0x40, 0x44, 0x7c,
      0x44, 0x44, 0x40, 0x40, 0x40, 0xf0, 0x00, 0x00],
     [0x00, 0x3a, 0x46, 0x42, 0x82, 0x80, 0x80, 0x9e,
      0x82, 0x82, 0x82, 0x42, 0x46, 0x38, 0x00, 0x00],
     [0x00, 0xe7, 0x42, 0x42, 0x42, 0x42, 0x42, 0x7e,
      0x42, 0x42, 0x42, 0x42, 0x42, 0xe7, 0x00, 0x00],
     [0x00, 0x7c, 0x10, 0x10, 0x10, 0x10, 0x10, 0x10,
      0x10, 0x10, 0x10, 0x10, 0x10, 0x7c, 0x00, 0x00],
     [0x00, 0x1f, 0x04, 0x04, 0x04, 0x04, 0x04, 0x04,
      0x04, 0x04, 0x04, 0x04, 0x84, 0x48, 0x30, 0x00],
     [0x00, 0xe7, 0x42, 0x44, 0x48, 0x50, 0x50, 0x60,
      0x50, 0x50, 0x48, 0x44, 0x42, 0xe7, 0x00, 0x00],
     [0x00, 0xf0, 0x40, 0x40, 0x40, 0x40, 0x40, 0x40,
      0x40, 0x40, 0x40, 0x42, 0x42, 0xfe, 0x00, 0x00],
     [0x00, 0xc3, 0x42, 0x66, 0x66, 0x66, 0x5a, 0x5a,
      0x5a, 0x42, 0x42, 0x42, 0x42, 0xe7, 0x00, 0x00],
     [0x00, 0xc7, 0x42, 0x62, 0x62, 0x52, 0x52, 0x52,
      0x4a, 0x4a, 0x4a, 0x46, 0x46, 0xe2, 0x00, 0x00],
     [0x00, 0x38, 0x44, 0x82, 0x82, 0x82, 0x82, 0x82,
      0x82, 0x82, 0x82, 0x82, 0x44, 0x38, 0x00, 0x00],
     [0x00, 0xf8, 0x44, 0x42, 0x42, 0x42, 0x44, 0x78,
      0x40, 0x40, 0x40, 0x40, 0x40, 0xf0, 0x00, 0x00],
     [0x00, 0x38, 0x44, 0x82, 0x82, 0x82, 0x82, 0x82,
      0x82, 0x82, 0x92, 0x8a, 0x44, 0x3a, 0x00, 0x00],
     [0x00, 0xfc, 0x42, 0x42, 0x42, 0x42, 0x7c, 0x44,
      0x42, 0x42, 0x42, 0x42, 0x42, 0xe7, 0x00, 0x00],
     [0x00, 0x3a, 0x46, 0x82, 0x82, 0x80, 0x40, 0x38,
      0x04, 0x02, 0x82, 0x82, 0xc4, 0xb8, 0x00, 0x00],
     [0x00, 0xfe, 0x92, 0x92, 0x10, 0x10, 0x10, 0x10,
      0x10, 0x10, 0x10, 0x10, 0x10, 0x7c, 0x00, 0x00],
     [0x00, 0xe7, 0x42, 0x42, 0x42, 0x42, 0x42, 0x42,
      0x42, 0x42, 0x42, 0x42, 0x24, 0x3c, 0x00, 0x00],
     [0x00, 0xe7, 0x42, 0x42, 0x42, 0x42, 0x24, 0x24,
      0x24, 0x24, 0x18, 0x18, 0x18, 0x18, 0x00, 0x00],
     [0x00, 0xe7, 0x42, 0x42, 0x42, 0x5a, 0x5a, 0x5a,
      0x5a, 0x24, 0x24, 0x24, 0x24, 0x24, 0x00, 0x00],
     [0x00, 0xe7, 0x42, 0x42, 0x24, 0x24, 0x24, 0x18,
      0x24, 0x24, 0x24, 0x42, 0x42, 0xe7, 0x00, 0x00],
     [0x00, 0xee, 0x44, 0x44, 0x44, 0x28, 0x28, 0x28,
      0x10, 0x10, 0x10, 0x10, 0x10, 0x7c, 0x00, 0x00],
     [0x00, 0xfe, 0x84, 0x84, 0x08, 0x08, 0x10, 0x10,
      0x20, 0x20, 0x40, 0x42, 0x82, 0xfe, 0x00, 0x00],
     [0x00, 0x3e, 0x20, 0x20, 0x20, 0x20, 0x20, 0x20,
      0x20, 0x20, 0x20, 0x20, 0x20, 0x20, 0x3e, 0x00],
     [0x80, 0x80, 0x40, 0x40, 0x20, 0x20, 0x20, 0x10,
      0x10, 0x08, 0x08, 0x04, 0x04, 0x04, 0x02, 0x02],
     [0x00, 0x7c, 0x04, 0x04, 0x04, 0x04, 0x04, 0x04,
      0x04, 0x04, 0x04, 0x04, 0x04, 0x04, 0x7c, 0x00],
     [0x00, 0x10, 0x28, 0x44, 0x82, 0x00, 0x00, 0x00,
      0x00, 0x00, 0x00, 0x00, 0x00, 0x00, 0x00, 0x00],
     [0x00, 0x00, 0x00, 0x00, 0x00, 0x00, 0x00, 0x00,
      0x00, 0x00, 0x00, 0x00, 0x00, 0x00, 0xfe, 0x00]]"

definition FONT_3 :: "u8 list list" where
  "FONT_3 =
    [[0x10, 0x08, 0x04, 0x00, 0x00, 0x00, 0x00, 0x00,
      0x00, 0x00, 0x00, 0x00, 0x00, 0x00, 0x00, 0x00],
     [0x00, 0x00, 0x00, 0x00, 0x00, 0x70, 0x08, 0x04,
      0x3c, 0x44, 0x84, 0x84, 0x8c, 0x76, 0x00, 0x00],
     [0xc0, 0x40, 0x40, 0x40, 0x40, 0x58, 0x64, 0x42,
      0x42, 0x42, 0x42, 0x42, 0x64, 0x58, 0x00, 0x00],
     [0x00, 0x00, 0x00, 0x00, 0x00, 0x30, 0x4c, 0x84,
      0x84, 0x80, 0x80, 0x82, 0x44, 0x38, 0x00, 0x00],
     [0x0c, 0x04, 0x04, 0x04, 0x04, 0x34, 0x4c, 0x84,
      0x84, 0x84, 0x84, 0x84, 0x4c, 0x36, 0x00, 0x00],
     [0x00, 0x00, 0x00, 0x00, 0x00, 0x38, 0x44, 0x82,
      0x82, 0xfc, 0x80, 0x82, 0x42, 0x3c, 0x00, 0x00],
     [0x0e, 0x10, 0x10, 0x10, 0x10, 0x7c, 0x10, 0x10,
      0x10, 0x10, 0x10, 0x10, 0x10, 0x7c, 0x00, 0x00],
     [0x00, 0x00, 0x00, 0x00, 0x00, 0x36, 0x4c, 0x84,
      0x84, 0x84, 0x84, 0x4c, 0x34, 0x04, 0x04, 0x38],
     [0xc0, 0x40, 0x40, 0x40, 0x40, 0x58, 0x64, 0x42,
      0x42, 0x42, 0x42, 0x42, 0x42, 0xe3, 0x00, 0x00],
     [0x00, 0x10, 0x10, 0x00, 0x00, 0x30, 0x10, 0x10,
      0x10, 0x10, 0x10, 0x10, 0x10, 0x38, 0x00, 0x00],
     [0x00, 0x04, 0x04, 0x00, 0x00, 0x0c, 0x04, 0x04,
      0x04, 0x04, 0x04, 0x04, 0x04, 0x08, 0x08, 0x30],
     [0xc0, 0x40, 0x40, 0x40, 0x40, 0x4e, 0x44, 0x48,
      0x50, 0x60, 0x50, 0x48, 0x44, 0xe6, 0x00, 0x00],
     [0x30, 0x10, 0x10, 0x10, 0x10, 0x10, 0x10, 0x10,
      0x10, 0x10, 0x10, 0x10, 0x10, 0x38, 0x00, 0x00],
     [0x00, 0x00, 0x00, 0x00, 0x00, 0xf6, 0x49, 0x49,
      0x49, 0x49, 0x49, 0x49, 0x49, 0xdb, 0x00, 0x00],
     [0x00, 0x00, 0x00, 0x00, 0x00, 0xd8, 0x64, 0x42,
      0x42, 0x42, 0x42, 0x42, 0x42, 0xe3, 0x00, 0x00],
     [0x00, 0x00, 0x00, 0x00, 0x00, 0x38, 0x44, 0x82,
      0x82, 0x82, 0x82, 0x82, 0x44, 0x38, 0x00, 0x00],
     [0x00, 0x00, 0x00, 0x00, 0xd8, 0x64, 0x42, 0x42,
      0x42, 0x42, 0x42, 0x64, 0x58, 0x40, 0x40, 0xe0],
     [0x00, 0x00, 0x00, 0x00, 0x34, 0x4c, 0x84, 0x84,
      0x84, 0x84, 0x84, 0x4c, 0x34, 0x04, 0x04, 0x0e],
     [0x00, 0x00, 0x00, 0x00, 0x00, 0xdc, 0x62, 0x42,
      0x40, 0x40, 0x40, 0x40, 0x40, 0xe0, 0x00, 0x00],
     [0x00, 0x00, 0x00, 0x00, 0x00, 0x7a, 0x86, 0x82,
      0xc0, 0x38, 0x06, 0x82, 0xc2, 0xbc, 0x00, 0x00],
     [0x00, 0x00, 0x10, 0x10, 0x10, 0x7c, 0x10, 0x10,
      0x10, 0x10, 0x10, 0x10, 0x10, 0x0e, 0x00, 0x00],
     [0x00, 0x00, 0x00, 0x00, 0x00, 0xc6, 0x42, 0x42,
      0x42, 0x42, 0x42, 0x42, 0x46, 0x3b, 0x00, 0x00],
     [0x00, 0x00, 0x00, 0x00, 0x00, 0xe7, 0x42, 0x42,
      0x42, 0x24, 0x24, 0x24, 0x18, 0x18, 0x00, 0x00],
     [0x00, 0x00, 0x00, 0x00, 0x00, 0xe7, 0x42, 0x42,
      0x5a, 0x5a, 0x5a, 0x24, 0x24, 0x24, 0x00, 0x00],
     [0x00, 0x00, 0x00, 0x00, 0x00, 0xc6, 0x44, 0x28,
      0x28, 0x10, 0x28, 0x28, 0x44, 0xc6, 0x00, 0x00],
     [0x00, 0x00, 0x00, 0x00, 0x00, 0xe7, 0x42, 0x42,
      0x24, 0x24, 0x24, 0x18, 0x18, 0x10, 0x10, 0x60],
     [0x00, 0x00, 0x00, 0x00, 0x00, 0xfe, 0x82, 0x84,
      0x08, 0x10, 0x20, 0x42, 0x82, 0xfe, 0x00, 0x00],
     [0x00, 0x06, 0x08, 0x10, 0x10, 0x10, 0x10, 0x60,
      0x10, 0x10, 0x10, 0x10, 0x08, 0x06, 0x00, 0x00],
     [0x10, 0x10, 0x10, 0x10, 0x10, 0x10, 0x10, 0x10,
      0x10, 0x10, 0x10, 0x10, 0x10, 0x10, 0x10, 0x10],
     [0x00, 0x60, 0x10, 0x08, 0x08, 0x08, 0x08, 0x06,
      0x08, 0x08, 0x08, 0x08, 0x10, 0x60, 0x00, 0x00],
     [0x00, 0x72, 0x8c, 0x00, 0x00, 0x00, 0x00, 0x00,
      0x00, 0x00, 0x00, 0x00, 0x00, 0x00, 0x00, 0x00],
     [0x00, 0x00, 0x00, 0x00, 0x00, 0x00, 0x00, 0x00,
      0x00, 0x00, 0x00, 0x00, 0x00, 0x00, 0x00, 0x00]]"

definition FONT_4 :: "u8 list list" where
  "FONT_4 =
    [[0x00, 0x00, 0x00, 0x00, 0x00, 0x00, 0x00, 0x00,
      0x00, 0x00, 0x00, 0x00, 0x00, 0x00, 0x00, 0x00],
     [0x00, 0x00, 0x00, 0x00, 0x00, 0x00, 0x00, 0x00,
      0x00, 0x00, 0x00, 0x00, 0x00, 0x00, 0x00, 0x00],
     [0x00, 0x00, 0x00, 0x00, 0x00, 0x00, 0x00, 0x00,
      0x00, 0x00, 0x00, 0x00, 0x00, 0x00, 0x00, 0x00],
     [0x00, 0x00, 0x00, 0x00, 0x00, 0x00, 0x00, 0x00,
      0x00, 0x00, 0x00, 0x00, 0x00, 0x00, 0x00, 0x00],
     [0x00, 0x00, 0x00, 0x00, 0x00, 0x00, 0x00, 0x00,
      0x00, 0x00, 0x00, 0x00, 0x00, 0x00, 0x00, 0x00],
     [0x00, 0x00, 0x00, 0x00, 0x00, 0x00, 0x00, 0x00,
      0x00, 0x00, 0x00, 0x00, 0x00, 0x00, 0x00, 0x00],
     [0x00, 0x00, 0x00, 0x00, 0x00, 0x00, 0x00, 0x00,
      0x00, 0x00, 0x00, 0x00, 0x00, 0x00, 0x00, 0x00],
     [0x00, 0x00, 0x00, 0x00, 0x00, 0x00, 0x00, 0x00,
      0x00, 0x00, 0x00, 0x00, 0x00, 0x00, 0x00, 0x00],
     [0x00, 0x00, 0x00, 0x00, 0x00, 0x00, 0x00, 0x00,
      0x00, 0x00, 0x00, 0x00, 0x00, 0x00, 0x00, 0x00],
     [0x00, 0x00, 0x00, 0x00, 0x00, 0x00, 0x00, 0x00,
      0x00, 0x00, 0x00, 0x00, 0x00, 0x00, 0x00, 0x00],
     [0x00, 0x00, 0x00, 0x00, 0x00, 0x00, 0x00, 0x00,
      0x00, 0x00, 0x00, 0x00, 0x00, 0x00, 0x00, 0x00],
     [0x00, 0x00, 0x00, 0x00, 0x00, 0x00, 0x00, 0x00,
      0x00, 0x00, 0x00, 0x00, 0x00, 0x00, 0x00, 0x00],
     [0x00, 0x00, 0x00, 0x00, 0x00, 0x00, 0x00, 0x00,
      0x00, 0x00, 0x00, 0x00, 0x00, 0x00, 0x00, 0x00],
     [0x00, 0x00, 0x00, 0x00, 0x00, 0x00, 0x00, 0x00,
      0x00, 0x00, 0x00, 0x00, 0x00, 0x00, 0x00, 0x00],
     [0x00, 0x00, 0x00, 0x00, 0x00, 0x00, 0x00, 0x00,
      0x00, 0x00, 0x00, 0x00, 0x00, 0x00, 0x00, 0x00],
     [0x00, 0x00, 0x00, 0x00, 0x00, 0x00, 0x00, 0x00,
      0x00, 0x00, 0x00, 0x00, 0x00, 0x00, 0x00, 0x00],
     [0x00, 0x00, 0x00, 0x00, 0x00, 0x00, 0x00, 0x00,
      0x00, 0x00, 0x00, 0x00, 0x00, 0x00, 0x00, 0x00],
     [0x00, 0x00, 0x00, 0x00, 0x00, 0x00, 0x00, 0x00,
      0x00, 0x00, 0x00, 0x00, 0x00, 0x00, 0x00, 0x00],
     [0x00, 0x00, 0x00, 0x00, 0x00, 0x00, 0x00, 0x00,
      0x00, 0x00, 0x00, 0x00, 0x00, 0x00, 0x00, 0x00],
     [0x00, 0x00, 0x00, 0x00, 0x00, 0x00, 0x00, 0x00,
      0x00, 0x00, 0x00, 0x00, 0x00, 0x00, 0x00, 0x00],
     [0x00, 0x00, 0x00, 0x00, 0x00, 0x00, 0x00, 0x00,
      0x00, 0x00, 0x00, 0x00, 0x00, 0x00, 0x00, 0x00],
     [0x00, 0x00, 0x00, 0x00, 0x00, 0x00, 0x00, 0x00,
      0x00, 0x00, 0x00, 0x00, 0x00, 0x00, 0x00, 0x00],
     [0x00, 0x00, 0x00, 0x00, 0x00, 0x00, 0x00, 0x00,
      0x00, 0x00, 0x00, 0x00, 0x00, 0x00, 0x00, 0x00],
     [0x00, 0x00, 0x00, 0x00, 0x00, 0x00, 0x00, 0x00,
      0x00, 0x00, 0x00, 0x00, 0x00, 0x00, 0x00, 0x00],
     [0x00, 0x00, 0x00, 0x00, 0x00, 0x00, 0x00, 0x00,
      0x00, 0x00, 0x00, 0x00, 0x00, 0x00, 0x00, 0x00],
     [0x00, 0x00, 0x00, 0x00, 0x00, 0x00, 0x00, 0x00,
      0x00, 0x00, 0x00, 0x00, 0x00, 0x00, 0x00, 0x00],
     [0x00, 0x00, 0x00, 0x00, 0x00, 0x00, 0x00, 0x00,
      0x00, 0x00, 0x00, 0x00, 0x00, 0x00, 0x00, 0x00],
     [0x00, 0x00, 0x00, 0x00, 0x00, 0x00, 0x00, 0x00,
      0x00, 0x00, 0x00, 0x00, 0x00, 0x00, 0x00, 0x00],
     [0x00, 0x00, 0x00, 0x00, 0x00, 0x00, 0x00, 0x00,
      0x00, 0x00, 0x00, 0x00, 0x00, 0x00, 0x00, 0x00],
     [0x00, 0x00, 0x00, 0x00, 0x00, 0x00, 0x00, 0x00,
      0x00, 0x00, 0x00, 0x00, 0x00, 0x00, 0x00, 0x00],
     [0x00, 0x00, 0x00, 0x00, 0x00, 0x00, 0x00, 0x00,
      0x00, 0x00, 0x00, 0x00, 0x00, 0x00, 0x00, 0x00],
     [0x00, 0x00, 0x00, 0x00, 0x00, 0x00, 0x00, 0x00,
      0x00, 0x00, 0x00, 0x00, 0x00, 0x00, 0x00, 0x00]]"

definition FONT_5 :: "u8 list list" where
  "FONT_5 =
    [[0x00, 0x00, 0x00, 0x00, 0x00, 0x00, 0x00, 0x00,
      0x00, 0x00, 0x00, 0x00, 0x00, 0x00, 0x00, 0x00],
     [0x00, 0x00, 0x00, 0x00, 0x00, 0x00, 0x00, 0x00,
      0x00, 0x00, 0x00, 0x00, 0x00, 0x00, 0x00, 0x00],
     [0x00, 0x00, 0x00, 0x00, 0x00, 0x00, 0x00, 0x00,
      0x00, 0x00, 0x00, 0x00, 0x00, 0x00, 0x00, 0x00],
     [0x00, 0x00, 0x00, 0x00, 0x00, 0x00, 0x00, 0x00,
      0x00, 0x00, 0x00, 0x00, 0x00, 0x00, 0x00, 0x00],
     [0x00, 0x00, 0x00, 0x00, 0x00, 0x00, 0x00, 0x00,
      0x00, 0x00, 0x00, 0x00, 0x00, 0x00, 0x00, 0x00],
     [0x00, 0x00, 0x00, 0x00, 0x00, 0x00, 0x00, 0x00,
      0x00, 0x00, 0x00, 0x00, 0x00, 0x00, 0x00, 0x00],
     [0x00, 0x00, 0x00, 0x00, 0x00, 0x00, 0x00, 0x00,
      0x00, 0x00, 0x00, 0x00, 0x00, 0x00, 0x00, 0x00],
     [0x00, 0x00, 0x00, 0x00, 0x00, 0x00, 0x00, 0x00,
      0x00, 0x00, 0x00, 0x00, 0x00, 0x00, 0x00, 0x00],
     [0x00, 0x00, 0x00, 0x00, 0x00, 0x00, 0x00, 0x00,
      0x00, 0x00, 0x00, 0x00, 0x00, 0x00, 0x00, 0x00],
     [0x00, 0x00, 0x00, 0x00, 0x00, 0x00, 0x00, 0x00,
      0x00, 0x00, 0x00, 0x00, 0x00, 0x00, 0x00, 0x00],
     [0x00, 0x00, 0x00, 0x00, 0x00, 0x00, 0x00, 0x00,
      0x00, 0x00, 0x00, 0x00, 0x00, 0x00, 0x00, 0x00],
     [0x00, 0x00, 0x00, 0x00, 0x00, 0x00, 0x00, 0x00,
      0x00, 0x00, 0x00, 0x00, 0x00, 0x00, 0x00, 0x00],
     [0x00, 0x00, 0x00, 0x00, 0x00, 0x00, 0x00, 0x00,
      0x00, 0x00, 0x00, 0x00, 0x00, 0x00, 0x00, 0x00],
     [0x00, 0x00, 0x00, 0x00, 0x00, 0x00, 0x00, 0x00,
      0x00, 0x00, 0x00, 0x00, 0x00, 0x00, 0x00, 0x00],
     [0x00, 0x00, 0x00, 0x00, 0x00, 0x00, 0x00, 0x00,
      0x00, 0x00, 0x00, 0x00, 0x00, 0x00, 0x00, 0x00],
     [0x00, 0x00, 0x00, 0x00, 0x00, 0x00, 0x00, 0x00,
      0x00, 0x00, 0x00, 0x00, 0x00, 0x00, 0x00, 0x00],
     [0x00, 0x00, 0x00, 0x00, 0x00, 0x00, 0x00, 0x00,
      0x00, 0x00, 0x00, 0x00, 0x00, 0x00, 0x00, 0x00],
     [0x00, 0x00, 0x00, 0x00, 0x00, 0x00, 0x00, 0x00,
      0x00, 0x00, 0x00, 0x00, 0x00, 0x00, 0x00, 0x00],
     [0x00, 0x00, 0x00, 0x00, 0x00, 0x00, 0x00, 0x00,
      0x00, 0x00, 0x00, 0x00, 0x00, 0x00, 0x00, 0x00],
     [0x00, 0x00, 0x00, 0x00, 0x00, 0x00, 0x00, 0x00,
      0x00, 0x00, 0x00, 0x00, 0x00, 0x00, 0x00, 0x00],
     [0x00, 0x00, 0x00, 0x00, 0x00, 0x00, 0x00, 0x00,
      0x00, 0x00, 0x00, 0x00, 0x00, 0x00, 0x00, 0x00],
     [0x00, 0x00, 0x00, 0x00, 0x00, 0x00, 0x00, 0x00,
      0x00, 0x00, 0x00, 0x00, 0x00, 0x00, 0x00, 0x00],
     [0x00, 0x00, 0x00, 0x00, 0x00, 0x00, 0x00, 0x00,
      0x00, 0x00, 0x00, 0x00, 0x00, 0x00, 0x00, 0x00],
     [0x00, 0x00, 0x00, 0x00, 0x00, 0x00, 0x00, 0x00,
      0x00, 0x00, 0x00, 0x00, 0x00, 0x00, 0x00, 0x00],
     [0x00, 0x00, 0x00, 0x00, 0x00, 0x00, 0x00, 0x00,
      0x00, 0x00, 0x00, 0x00, 0x00, 0x00, 0x00, 0x00],
     [0x00, 0x00, 0x00, 0x00, 0x00, 0x00, 0x00, 0x00,
      0x00, 0x00, 0x00, 0x00, 0x00, 0x00, 0x00, 0x00],
     [0x00, 0x00, 0x00, 0x00, 0x00, 0x00, 0x00, 0x00,
      0x00, 0x00, 0x00, 0x00, 0x00, 0x00, 0x00, 0x00],
     [0x00, 0x00, 0x00, 0x00, 0x00, 0x00, 0x00, 0x00,
      0x00, 0x00, 0x00, 0x00, 0x00, 0x00, 0x00, 0x00],
     [0x00, 0x00, 0x00, 0x00, 0x00, 0x00, 0x00, 0x00,
      0x00, 0x00, 0x00, 0x00, 0x00, 0x00, 0x00, 0x00],
     [0x00, 0x00, 0x00, 0x00, 0x00, 0x00, 0x00, 0x00,
      0x00, 0x00, 0x00, 0x00, 0x00, 0x00, 0x00, 0x00],
     [0x00, 0x00, 0x00, 0x00, 0x00, 0x00, 0x00, 0x00,
      0x00, 0x00, 0x00, 0x00, 0x00, 0x00, 0x00, 0x00],
     [0x00, 0x00, 0x00, 0x00, 0x00, 0x00, 0x00, 0x00,
      0x00, 0x00, 0x00, 0x00, 0x00, 0x00, 0x00, 0x00]]"

definition FONT_6 :: "u8 list list" where
  "FONT_6 =
    [[0x00, 0x00, 0x00, 0x00, 0x00, 0x00, 0x00, 0x00,
      0x00, 0x00, 0x00, 0x00, 0x00, 0x00, 0x00, 0x00],
     [0x00, 0x00, 0x00, 0x00, 0x00, 0x00, 0x00, 0x00,
      0x00, 0x00, 0x00, 0x00, 0x00, 0x00, 0x00, 0x00],
     [0x00, 0x00, 0x00, 0x00, 0x00, 0x00, 0x00, 0x00,
      0x00, 0x00, 0x00, 0x00, 0x00, 0x00, 0x00, 0x00],
     [0x00, 0x00, 0x00, 0x00, 0x00, 0x00, 0x00, 0x00,
      0x00, 0x00, 0x00, 0x00, 0x00, 0x00, 0x00, 0x00],
     [0x00, 0x00, 0x00, 0x00, 0x00, 0x00, 0x00, 0x00,
      0x00, 0x00, 0x00, 0x00, 0x00, 0x00, 0x00, 0x00],
     [0x00, 0x00, 0x00, 0x00, 0x00, 0x00, 0x00, 0x00,
      0x00, 0x00, 0x00, 0x00, 0x00, 0x00, 0x00, 0x00],
     [0x00, 0x00, 0x00, 0x00, 0x00, 0x00, 0x00, 0x00,
      0x00, 0x00, 0x00, 0x00, 0x00, 0x00, 0x00, 0x00],
     [0x00, 0x00, 0x00, 0x00, 0x00, 0x00, 0x00, 0x00,
      0x00, 0x00, 0x00, 0x00, 0x00, 0x00, 0x00, 0x00],
     [0x00, 0x00, 0x00, 0x00, 0x00, 0x00, 0x00, 0x00,
      0x00, 0x00, 0x00, 0x00, 0x00, 0x00, 0x00, 0x00],
     [0x00, 0x00, 0x00, 0x00, 0x00, 0x00, 0x00, 0x00,
      0x00, 0x00, 0x00, 0x00, 0x00, 0x00, 0x00, 0x00],
     [0x00, 0x00, 0x00, 0x00, 0x00, 0x00, 0x00, 0x00,
      0x00, 0x00, 0x00, 0x00, 0x00, 0x00, 0x00, 0x00],
     [0x00, 0x00, 0x00, 0x00, 0x00, 0x00, 0x00, 0x00,
      0x00, 0x00, 0x00, 0x00, 0x00, 0x00, 0x00, 0x00],
     [0x00, 0x00, 0x00, 0x00, 0x00, 0x00, 0x00, 0x00,
      0x00, 0x00, 0x00, 0x00, 0x00, 0x00, 0x00, 0x00],
     [0x00, 0x00, 0x00, 0x00, 0x00, 0x00, 0x00, 0x00,
      0x00, 0x00, 0x00, 0x00, 0x00, 0x00, 0x00, 0x00],
     [0x00, 0x00, 0x00, 0x00, 0x00, 0x00, 0x00, 0x00,
      0x00, 0x00, 0x00, 0x00, 0x00, 0x00, 0x00, 0x00],
     [0x00, 0x00, 0x00, 0x00, 0x00, 0x00, 0x00, 0x00,
      0x00, 0x00, 0x00, 0x00, 0x00, 0x00, 0x00, 0x00],
     [0x00, 0x00, 0x00, 0x00, 0x00, 0x00, 0x00, 0x00,
      0x00, 0x00, 0x00, 0x00, 0x00, 0x00, 0x00, 0x00],
     [0x00, 0x00, 0x00, 0x00, 0x00, 0x00, 0x00, 0x00,
      0x00, 0x00, 0x00, 0x00, 0x00, 0x00, 0x00, 0x00],
     [0x00, 0x00, 0x00, 0x00, 0x00, 0x00, 0x00, 0x00,
      0x00, 0x00, 0x00, 0x00, 0x00, 0x00, 0x00, 0x00],
     [0x00, 0x00, 0x00, 0x00, 0x00, 0x00, 0x00, 0x00,
      0x00, 0x00, 0x00, 0x00, 0x00, 0x00, 0x00, 0x00],
     [0x00, 0x00, 0x00, 0x00, 0x00, 0x00, 0x00, 0x00,
      0x00, 0x00, 0x00, 0x00, 0x00, 0x00, 0x00, 0x00],
     [0x00, 0x00, 0x00, 0x00, 0x00, 0x00, 0x00, 0x00,
      0x00, 0x00, 0x00, 0x00, 0x00, 0x00, 0x00, 0x00],
     [0x00, 0x00, 0x00, 0x00, 0x00, 0x00, 0x00, 0x00,
      0x00, 0x00, 0x00, 0x00, 0x00, 0x00, 0x00, 0x00],
     [0x00, 0x00, 0x00, 0x00, 0x00, 0x00, 0x00, 0x00,
      0x00, 0x00, 0x00, 0x00, 0x00, 0x00, 0x00, 0x00],
     [0x00, 0x00, 0x00, 0x00, 0x00, 0x00, 0x00, 0x00,
      0x00, 0x00, 0x00, 0x00, 0x00, 0x00, 0x00, 0x00],
     [0x00, 0x00, 0x00, 0x00, 0x00, 0x00, 0x00, 0x00,
      0x00, 0x00, 0x00, 0x00, 0x00, 0x00, 0x00, 0x00],
     [0x00, 0x00, 0x00, 0x00, 0x00, 0x00, 0x00, 0x00,
      0x00, 0x00, 0x00, 0x00, 0x00, 0x00, 0x00, 0x00],
     [0x00, 0x00, 0x00, 0x00, 0x00, 0x00, 0x00, 0x00,
      0x00, 0x00, 0x00, 0x00, 0x00, 0x00, 0x00, 0x00],
     [0x00, 0x00, 0x00, 0x00, 0x00, 0x00, 0x00, 0x00,
      0x00, 0x00, 0x00, 0x00, 0x00, 0x00, 0x00, 0x00],
     [0x00, 0x00, 0x00, 0x00, 0x00, 0x00, 0x00, 0x00,
      0x00, 0x00, 0x00, 0x00, 0x00, 0x00, 0x00, 0x00],
     [0x00, 0x00, 0x00, 0x00, 0x00, 0x00, 0x00, 0x00,
      0x00, 0x00, 0x00, 0x00, 0x00, 0x00, 0x00, 0x00],
     [0x00, 0x00, 0x00, 0x00, 0x00, 0x00, 0x00, 0x00,
      0x00, 0x00, 0x00, 0x00, 0x00, 0x00, 0x00, 0x00]]"

definition FONT_7 :: "u8 list list" where
  "FONT_7 =
    [[0x00, 0x00, 0x00, 0x00, 0x00, 0x00, 0x00, 0x00,
      0x00, 0x00, 0x00, 0x00, 0x00, 0x00, 0x00, 0x00],
     [0x00, 0x00, 0x00, 0x00, 0x00, 0x00, 0x00, 0x00,
      0x00, 0x00, 0x00, 0x00, 0x00, 0x00, 0x00, 0x00],
     [0x00, 0x00, 0x00, 0x00, 0x00, 0x00, 0x00, 0x00,
      0x00, 0x00, 0x00, 0x00, 0x00, 0x00, 0x00, 0x00],
     [0x00, 0x00, 0x00, 0x00, 0x00, 0x00, 0x00, 0x00,
      0x00, 0x00, 0x00, 0x00, 0x00, 0x00, 0x00, 0x00],
     [0x00, 0x00, 0x00, 0x00, 0x00, 0x00, 0x00, 0x00,
      0x00, 0x00, 0x00, 0x00, 0x00, 0x00, 0x00, 0x00],
     [0x00, 0x00, 0x00, 0x00, 0x00, 0x00, 0x00, 0x00,
      0x00, 0x00, 0x00, 0x00, 0x00, 0x00, 0x00, 0x00],
     [0x00, 0x00, 0x00, 0x00, 0x00, 0x00, 0x00, 0x00,
      0x00, 0x00, 0x00, 0x00, 0x00, 0x00, 0x00, 0x00],
     [0x00, 0x00, 0x00, 0x00, 0x00, 0x00, 0x00, 0x00,
      0x00, 0x00, 0x00, 0x00, 0x00, 0x00, 0x00, 0x00],
     [0x00, 0x00, 0x00, 0x00, 0x00, 0x00, 0x00, 0x00,
      0x00, 0x00, 0x00, 0x00, 0x00, 0x00, 0x00, 0x00],
     [0x00, 0x00, 0x00, 0x00, 0x00, 0x00, 0x00, 0x00,
      0x00, 0x00, 0x00, 0x00, 0x00, 0x00, 0x00, 0x00],
     [0x00, 0x00, 0x00, 0x00, 0x00, 0x00, 0x00, 0x00,
      0x00, 0x00, 0x00, 0x00, 0x00, 0x00, 0x00, 0x00],
     [0x00, 0x00, 0x00, 0x00, 0x00, 0x00, 0x00, 0x00,
      0x00, 0x00, 0x00, 0x00, 0x00, 0x00, 0x00, 0x00],
     [0x00, 0x00, 0x00, 0x00, 0x00, 0x00, 0x00, 0x00,
      0x00, 0x00, 0x00, 0x00, 0x00, 0x00, 0x00, 0x00],
     [0x00, 0x00, 0x00, 0x00, 0x00, 0x00, 0x00, 0x00,
      0x00, 0x00, 0x00, 0x00, 0x00, 0x00, 0x00, 0x00],
     [0x00, 0x00, 0x00, 0x00, 0x00, 0x00, 0x00, 0x00,
      0x00, 0x00, 0x00, 0x00, 0x00, 0x00, 0x00, 0x00],
     [0x00, 0x00, 0x00, 0x00, 0x00, 0x00, 0x00, 0x00,
      0x00, 0x00, 0x00, 0x00, 0x00, 0x00, 0x00, 0x00],
     [0x00, 0x00, 0x00, 0x00, 0x00, 0x00, 0x00, 0x00,
      0x00, 0x00, 0x00, 0x00, 0x00, 0x00, 0x00, 0x00],
     [0x00, 0x00, 0x00, 0x00, 0x00, 0x00, 0x00, 0x00,
      0x00, 0x00, 0x00, 0x00, 0x00, 0x00, 0x00, 0x00],
     [0x00, 0x00, 0x00, 0x00, 0x00, 0x00, 0x00, 0x00,
      0x00, 0x00, 0x00, 0x00, 0x00, 0x00, 0x00, 0x00],
     [0x00, 0x00, 0x00, 0x00, 0x00, 0x00, 0x00, 0x00,
      0x00, 0x00, 0x00, 0x00, 0x00, 0x00, 0x00, 0x00],
     [0x00, 0x00, 0x00, 0x00, 0x00, 0x00, 0x00, 0x00,
      0x00, 0x00, 0x00, 0x00, 0x00, 0x00, 0x00, 0x00],
     [0x00, 0x00, 0x00, 0x00, 0x00, 0x00, 0x00, 0x00,
      0x00, 0x00, 0x00, 0x00, 0x00, 0x00, 0x00, 0x00],
     [0x00, 0x00, 0x00, 0x00, 0x00, 0x00, 0x00, 0x00,
      0x00, 0x00, 0x00, 0x00, 0x00, 0x00, 0x00, 0x00],
     [0x00, 0x00, 0x00, 0x00, 0x00, 0x00, 0x00, 0x00,
      0x00, 0x00, 0x00, 0x00, 0x00, 0x00, 0x00, 0x00],
     [0x00, 0x00, 0x00, 0x00, 0x00, 0x00, 0x00, 0x00,
      0x00, 0x00, 0x00, 0x00, 0x00, 0x00, 0x00, 0x00],
     [0x00, 0x00, 0x00, 0x00, 0x00, 0x00, 0x00, 0x00,
      0x00, 0x00, 0x00, 0x00, 0x00, 0x00, 0x00, 0x00],
     [0x00, 0x00, 0x00, 0x00, 0x00, 0x00, 0x00, 0x00,
      0x00, 0x00, 0x00, 0x00, 0x00, 0x00, 0x00, 0x00],
     [0x00, 0x00, 0x00, 0x00, 0x00, 0x00, 0x00, 0x00,
      0x00, 0x00, 0x00, 0x00, 0x00, 0x00, 0x00, 0x00],
     [0x00, 0x00, 0x00, 0x00, 0x00, 0x00, 0x00, 0x00,
      0x00, 0x00, 0x00, 0x00, 0x00, 0x00, 0x00, 0x00],
     [0x00, 0x00, 0x00, 0x00, 0x00, 0x00, 0x00, 0x00,
      0x00, 0x00, 0x00, 0x00, 0x00, 0x00, 0x00, 0x00],
     [0x00, 0x00, 0x00, 0x00, 0x00, 0x00, 0x00, 0x00,
      0x00, 0x00, 0x00, 0x00, 0x00, 0x00, 0x00, 0x00],
     [0x00, 0x00, 0x00, 0x00, 0x00, 0x00, 0x00, 0x00,
      0x00, 0x00, 0x00, 0x00, 0x00, 0x00, 0x00, 0x00]]"

definition FONT :: "u8 list list" where
  "FONT = FONT_0 @ FONT_1 @ FONT_2 @ FONT_3 @ FONT_4 @ FONT_5 @ FONT_6 @ FONT_7"

lemma FONT_block_length:
  "length FONT_0 = 32" "length FONT_1 = 32" "length FONT_2 = 32" "length FONT_3 = 32"
  "length FONT_4 = 32" "length FONT_5 = 32" "length FONT_6 = 32" "length FONT_7 = 32"
  unfolding FONT_0_def FONT_1_def FONT_2_def FONT_3_def FONT_4_def FONT_5_def FONT_6_def FONT_7_def
  by simp_all

lemma FONT_length: "length FONT = 256"
  by (simp add: FONT_def FONT_block_length)

lemma FONT_block_rows:
  "list_all (\<lambda>g. length g = 16) FONT_0" "list_all (\<lambda>g. length g = 16) FONT_1"
  "list_all (\<lambda>g. length g = 16) FONT_2" "list_all (\<lambda>g. length g = 16) FONT_3"
  "list_all (\<lambda>g. length g = 16) FONT_4" "list_all (\<lambda>g. length g = 16) FONT_5"
  "list_all (\<lambda>g. length g = 16) FONT_6" "list_all (\<lambda>g. length g = 16) FONT_7"
  unfolding FONT_0_def FONT_1_def FONT_2_def FONT_3_def FONT_4_def FONT_5_def FONT_6_def FONT_7_def
  by simp_all

lemma FONT_all_rows: "list_all (\<lambda>g. length g = 16) FONT"
  unfolding FONT_def list_all_append by (intro conjI FONT_block_rows)

lemma FONT_rows: "b < 256 \<Longrightarrow> length (FONT ! b) = 16"
  using FONT_all_rows unfolding list_all_length FONT_length by blast

text \<open>The printable characters, the space included, have different glyphs.\<close>

lemma printable_glyphs: "distinct (FONT_1 @ FONT_2 @ take 31 FONT_3)"
  by code_simp

lemma printable_part: "take 95 (drop 32 FONT) = FONT_1 @ FONT_2 @ take 31 FONT_3"
  by (simp add: FONT_def FONT_block_length)

lemma glyph_injective:
  assumes "32 \<le> a" "a < 127" "32 \<le> b" "b < 127" "FONT ! a = FONT ! b"
  shows "a = b"
proof -
  let ?p = "take 95 (drop 32 FONT)"
  have nth: "?p ! (i - 32) = FONT ! i" "i - 32 < length ?p" if "32 \<le> i" "i < 127" for i
    using that by (simp_all add: FONT_length)
  have "distinct ?p" unfolding printable_part by (rule printable_glyphs)
  moreover have "?p ! (a - 32) = ?p ! (b - 32)"
    using nth(1) [of a] nth(1) [of b] assms by (simp only:)
  ultimately have "a - 32 = b - 32"
    using nth(2) [of a] nth(2) [of b] assms nth_eq_iff_index_eq by blast
  then show ?thesis using assms by linarith
qed

end
