(* ===== verification/Console.thy ===== *)
theory Console
  imports Font Text_Format Memory
begin

text \<open>
  The framebuffer console (\<^verbatim>\<open>src/kernel/console.rs\<close>). Output is what leaves the kernel: the bytes
  written to the debug port and the volatile pixel writes, each an address and a colour, in order.
  The mode information block left by the loader is memory read as bytes.
\<close>

section \<open>State and operations\<close>

record console =
  buffer :: usize
  width :: usize
  height :: usize
  stride :: usize
  cursor_x :: usize
  cursor_y :: usize

definition CONSOLE_INITIAL :: console where
  "CONSOLE_INITIAL = \<lparr>buffer = 0, width = 0, height = 0, stride = 0, cursor_x = 0, cursor_y = 0\<rparr>"

type_synonym pixel_writes = "(usize \<times> u32) list"

definition mode_word :: "(nat \<Rightarrow> u8) \<Rightarrow> nat \<Rightarrow> usize" where
  "mode_word mem offset = unat (read_le 2 mem (PAGE_OFFSET + 0x8200 + offset) :: u16)"

definition string_bytes :: "string \<Rightarrow> u8 list" where
  "string_bytes s = map (\<lambda>ch. of_nat (of_char ch)) s"

text \<open>\<^verbatim>\<open>DebugWriter\<close> and \<^verbatim>\<open>ScreenWriter\<close>: one byte after the other.\<close>

definition debug_write :: "string \<Rightarrow> u8 list" where
  "debug_write s = string_bytes s"

text \<open>The initialisation ends with a line to the debug port alone; the result is the console and these bytes.\<close>

definition console_init :: "(nat \<Rightarrow> u8) \<Rightarrow> (console \<times> u8 list) res" where
  "console_init mem =
     (let info = PAGE_OFFSET + 0x8200; w = mode_word mem 18; h = mode_word mem 20; pitch = mode_word mem 16;
          physical = unat (read_le 4 mem (info + 40) :: u32); byte = (\<lambda>i. mem (info + i))
      in bind_res (ensure ((of_nat (mode_word mem 0) :: u64) AND 0x81 = 0x81) ''VBE mode lacks linear framebuffer'') (\<lambda>_.
         bind_res (ensure (byte 25 = 32 \<and> byte 27 = 6) ''info.add(25).read() == 32 && info.add(27).read() == 6'') (\<lambda>_.
         bind_res (ensure (byte 31 = 8 \<and> byte 32 = 16) ''info.add(31).read() == 8 && info.add(32).read() == 16'') (\<lambda>_.
         bind_res (ensure (byte 33 = 8 \<and> byte 34 = 8) ''info.add(33).read() == 8 && info.add(34).read() == 8'') (\<lambda>_.
         bind_res (ensure (byte 35 = 8 \<and> byte 36 = 0) ''info.add(35).read() == 8 && info.add(36).read() == 0'') (\<lambda>_.
         bind_res (ensure (w \<ge> 8 \<and> h \<ge> 16 \<and> pitch \<ge> umul w 4 \<and> pitch mod 4 = 0) ''width >= 8 && height >= 16'') (\<lambda>_.
         let offset = physical mod 2 ^ 21 in
         bind_res (ensure (physical \<noteq> 0 \<and> uadd offset (umul pitch h) \<le> 16 * 1024 * 1024) ''physical != 0'') (\<lambda>_.
         Inr (\<lparr>buffer = uadd (PAGE_OFFSET + 0xa00000) offset, width = w, height = h, stride = pitch div 4,
               cursor_x = 0, cursor_y = 0\<rparr>, debug_write (''VBE console ready'' @ [CHR 0x0a]))))))))))"

definition newline :: "console \<Rightarrow> console" where
  "newline c = c\<lparr>cursor_x := 0, cursor_y := uadd (cursor_y c) 1 mod (height c div 16)\<rparr>"

definition pixel_index :: "console \<Rightarrow> nat \<Rightarrow> nat \<Rightarrow> usize" where
  "pixel_index c row column =
     uadd (uadd (umul (uadd (umul (cursor_y c) 16) row) (stride c)) (umul (cursor_x c) 8)) column"

definition glyph :: "u8 \<Rightarrow> u32 \<Rightarrow> console \<Rightarrow> pixel_writes" where
  "glyph b color c =
     concat (map (\<lambda>(row, bits). map (\<lambda>column.
         (uadd (buffer c) (umul 4 (pixel_index c row column)),
          if bits AND drop_bit column 0x80 \<noteq> 0 then color else 0)) [0..<8])
       (enumerate 0 (FONT ! unat b)))"

function console_byte :: "u8 \<Rightarrow> u32 \<Rightarrow> console \<Rightarrow> console \<times> pixel_writes" where
  "console_byte b color c =
     (if buffer c = 0 then (c, [])
      else if b = 10 then (newline c, [])
      else if b = 13 then (c\<lparr>cursor_x := 0\<rparr>, [])
      else if b = 9 then
        fold (\<lambda>_ (c', ws). let (c'', ws') = console_byte 0x20 color c' in (c'', ws @ ws'))
          [0..<usub 8 (cursor_x c mod 8)] (c, [])
      else if b = 8 then
        (let c' = (if cursor_x c > 0 then c\<lparr>cursor_x := usub (cursor_x c) 1\<rparr>
              else if cursor_y c > 0 then
                c\<lparr>cursor_y := usub (cursor_y c) 1, cursor_x := usub (width c div 8) 1\<rparr>
              else c)
         in (c', glyph 0x20 color c'))
      else
        (let c' = c\<lparr>cursor_x := uadd (cursor_x c) 1\<rparr>
         in (if cursor_x c' \<ge> width c' div 8 then newline c' else c', glyph b color c)))"
  by auto
termination by (relation "measure (\<lambda>(b, _, _). if b = 9 then 1 else 0)") auto

declare console_byte.simps [simp del]

fun screen_bytes :: "u8 list \<Rightarrow> u32 \<Rightarrow> console \<Rightarrow> console \<times> pixel_writes" where
  "screen_bytes [] color c = (c, [])"
| "screen_bytes (b # bs) color c =
     (let (c', ws) = console_byte b color c; (c'', ws') = screen_bytes bs color c' in (c'', ws @ ws'))"

record console_state =
  busy :: bool
  shared_console :: console
  debug_port :: "u8 list"
  pixels :: pixel_writes

definition console_print :: "u32 \<Rightarrow> string \<Rightarrow> console_state \<Rightarrow> console_state" where
  "console_print color s st =
     (let st1 = st\<lparr>debug_port := debug_port st @ debug_write s\<rparr>
      in if busy st1 then st1
         else let (c, ws) = screen_bytes (string_bytes s) color (shared_console st1)
              in st1\<lparr>busy := False, shared_console := c, pixels := pixels st1 @ ws\<rparr>)"

section \<open>The cursor stays on the screen\<close>

text \<open>What the mode check guarantees: the whole screen lies in the 16 MiB window.\<close>

definition console_ok :: "console \<Rightarrow> bool" where
  "console_ok c \<longleftrightarrow> 8 \<le> width c \<and> 16 \<le> height c \<and> height c < 2 ^ 16 \<and> width c \<le> stride c
     \<and> PAGE_OFFSET + 0xa00000 \<le> buffer c
     \<and> buffer c + 4 * (stride c * height c) \<le> PAGE_OFFSET + 0xa00000 + 16 * 1024 * 1024
     \<and> cursor_x c < width c div 8 \<and> cursor_y c < height c div 16"

definition in_window :: "usize \<Rightarrow> bool" where
  "in_window a \<longleftrightarrow> PAGE_OFFSET + 0xa00000 \<le> a \<and> a + 4 \<le> PAGE_OFFSET + 0x1a00000"

text \<open>Two consoles for the same screen.\<close>

definition same_screen :: "console \<Rightarrow> console \<Rightarrow> bool" where
  "same_screen c c' \<longleftrightarrow> buffer c' = buffer c \<and> width c' = width c \<and> height c' = height c \<and> stride c' = stride c"

lemma console_ok_nonnull: "console_ok c \<Longrightarrow> buffer c \<noteq> 0"
  by (simp add: console_ok_def PAGE_OFFSET_def)

lemma newline_ok: "console_ok c \<Longrightarrow> console_ok (newline c) \<and> same_screen c (newline c)"
  by (auto simp: console_ok_def newline_def same_screen_def div_greater_zero_iff)

lemma console_init_ok:
  assumes "console_init mem = Inr (c, ready)"
  shows "console_ok c" "ready = string_bytes (''VBE console ready'' @ [CHR 0x0a])"
proof -
  have w: "mode_word mem i < 65536" for i
    unfolding mode_word_def using unsigned_less [of "read_le 2 mem (PAGE_OFFSET + 0x8200 + i) :: u16"] by simp
  have p: "mode_word mem 16 * mode_word mem 20 < 65536 * 65536" "mode_word mem 18 * 4 < 65536 * 4"
    by (rule mult_strict_mono) (simp_all add: w)
  have um: "umul (mode_word mem 16) (mode_word mem 20) = mode_word mem 16 * mode_word mem 20"
    "umul (mode_word mem 18) 4 = mode_word mem 18 * 4"
    using p by (auto intro!: umul_exact)
  define info where "info = PAGE_OFFSET + 0x8200"
  define offset where "offset = unat (read_le 4 mem (info + 40) :: u32) mod 2 ^ 21"
  have o: "offset < 2097152" by (simp add: offset_def)
  have ua: "uadd offset (mode_word mem 16 * mode_word mem 20) = offset + mode_word mem 16 * mode_word mem 20"
    "uadd (PAGE_OFFSET + 0xa00000) offset = PAGE_OFFSET + 0xa00000 + offset"
    using p o by (auto intro!: uadd_exact simp: PAGE_OFFSET_def)
  from assms have f: "8 \<le> mode_word mem 18" "16 \<le> mode_word mem 20" "mode_word mem 18 * 4 \<le> mode_word mem 16"
      "mode_word mem 16 mod 4 = 0" "offset + mode_word mem 16 * mode_word mem 20 \<le> 16 * 1024 * 1024"
      "c = \<lparr>buffer = PAGE_OFFSET + 0xa00000 + offset, width = mode_word mem 18, height = mode_word mem 20,
         stride = mode_word mem 16 div 4, cursor_x = 0, cursor_y = 0\<rparr>"
    unfolding console_init_def Let_def info_def [symmetric] offset_def [symmetric]
    by (auto simp: bind_res_Inr um ua ensure_simps)
  moreover from f(4) obtain q where "mode_word mem 16 = 4 * q" by (auto simp: mod_eq_0_iff_dvd dvd_def)
  ultimately show "console_ok c" using w [of 20] by (simp add: console_ok_def div_greater_zero_iff mult.assoc)
  show "ready = string_bytes (''VBE console ready'' @ [CHR 0x0a])"
    using assms unfolding console_init_def Let_def debug_write_def by (auto simp: bind_res_Inr)
qed

text \<open>The addresses of a glyph: no calculation wraps around.\<close>

definition pixel_address :: "console \<Rightarrow> nat \<Rightarrow> nat \<Rightarrow> nat \<Rightarrow> nat \<Rightarrow> usize" where
  "pixel_address c x y row column = buffer c + 4 * ((y * 16 + row) * stride c + (x * 8 + column))"

definition on_screen :: "console \<Rightarrow> nat \<Rightarrow> nat \<Rightarrow> bool" where
  "on_screen c x y \<longleftrightarrow> x < width c div 8 \<and> y < height c div 16"

lemma pixel_bound:
  assumes "console_ok c" "on_screen c x y" "row < 16" "column < 8"
  shows "(y * 16 + row) * stride c + (x * 8 + column) < stride c * height c" "x * 8 + column < stride c"
    "stride c * height c \<le> 4194304"
proof -
  have "y * 16 + 16 \<le> height c" "x * 8 + 8 \<le> width c"
    using assms(2) unfolding on_screen_def
    by (metis Suc_leI add.commute mult_Suc mult.commute div_times_less_eq_dividend le_trans mult_le_mono2)+
  then have l: "y * 16 + row + 1 \<le> height c" and x: "x * 8 + column < width c"
    using assms(3,4) by linarith+
  then show xs: "x * 8 + column < stride c" using assms(1) by (simp add: console_ok_def)
  have "(y * 16 + row + 1) * stride c \<le> height c * stride c" using l by (rule mult_le_mono1)
  then show "(y * 16 + row) * stride c + (x * 8 + column) < stride c * height c"
    using xs by (simp add: algebra_simps)
  show "stride c * height c \<le> 4194304" using assms(1) by (simp add: console_ok_def)
qed

lemma pixel_address_window:
  assumes "console_ok c" "on_screen c x y" "row < 16" "column < 8"
  shows "in_window (pixel_address c x y row column)"
  using assms(1) pixel_bound(1) [OF assms] by (simp add: in_window_def pixel_address_def console_ok_def)

lemma pixel_index_exact:
  assumes "console_ok c" "row < 16" "column < 8"
  shows "uadd (buffer c) (umul 4 (pixel_index c row column)) = pixel_address c (cursor_x c) (cursor_y c) row column"
proof -
  have on: "on_screen c (cursor_x c) (cursor_y c)" using assms(1) by (simp add: console_ok_def on_screen_def)
  note b = pixel_bound [OF assms(1) on assms(2,3)]
  let ?i = "(cursor_y c * 16 + row) * stride c + (cursor_x c * 8 + column)"
  have i: "?i < 4194304" using b by linarith
  have s: "1 \<le> stride c" using assms(1) by (simp add: console_ok_def)
  have "cursor_y c * 16 + row \<le> (cursor_y c * 16 + row) * stride c" using s by simp
  then have y: "cursor_y c * 16 + row < 4194304" "(cursor_y c * 16 + row) * stride c < 4194304" using i by linarith+
  have "pixel_index c row column = ?i"
    unfolding pixel_index_def using y i by (simp add: usize_simps)
  moreover have "buffer c + 4 * ?i < usize_range"
    using pixel_address_window [OF assms(1) on assms(2,3)] by (simp add: in_window_def pixel_address_def PAGE_OFFSET_def)
  ultimately show ?thesis using i by (simp add: pixel_address_def usize_simps)
qed

definition glyph_pixel :: "u8 \<Rightarrow> u32 \<Rightarrow> nat \<Rightarrow> nat \<Rightarrow> u32" where
  "glyph_pixel b color row column = (if FONT ! unat b ! row AND drop_bit column 0x80 \<noteq> 0 then color else 0)"

lemma unat_u8_less: "unat (b :: u8) < 256"
  using unsigned_less [of b] by simp

lemma glyph_eq:
  assumes "console_ok c"
  shows "glyph b color c = concat (map (\<lambda>row. map (\<lambda>column.
      (pixel_address c (cursor_x c) (cursor_y c) row column, glyph_pixel b color row column)) [0..<8]) [0..<16])"
proof -
  have e: "enumerate 0 (FONT ! unat b) = map (\<lambda>row. (row, FONT ! unat b ! row)) [0..<16]"
    using FONT_rows [OF unat_u8_less [of b]] by (intro nth_equalityI) (simp_all add: nth_enumerate_eq)
  show ?thesis
    unfolding glyph_def e map_map o_def prod.case
    by (intro arg_cong [where f = concat] map_cong refl) (simp add: pixel_index_exact [OF assms] glyph_pixel_def)
qed

lemma glyph_in_window: "console_ok c \<Longrightarrow> list_all in_window (map fst (glyph b color c))"
  using pixel_address_window [of c "cursor_x c" "cursor_y c"]
  by (auto simp: glyph_eq list_all_iff on_screen_def console_ok_def)

section \<open>Bounds\<close>

text \<open>What every step of the console keeps.\<close>

definition drawn_ok :: "console \<Rightarrow> console \<times> pixel_writes \<Rightarrow> bool" where
  "drawn_ok c = (\<lambda>(c', ws). console_ok c' \<and> same_screen c c' \<and> list_all in_window (map fst ws))"

lemma drawn_refl: "console_ok c \<Longrightarrow> drawn_ok c (c, [])"
  by (simp add: drawn_ok_def same_screen_def)

lemma drawn_trans: "drawn_ok c (c', ws) \<Longrightarrow> drawn_ok c' (c'', ws') \<Longrightarrow> drawn_ok c (c'', ws @ ws')"
  by (auto simp: drawn_ok_def same_screen_def)

lemma console_small:
  assumes "console_ok c"
  shows "cursor_x c < 4194304" "cursor_y c < 4194304" "width c \<le> 4194304"
proof -
  have "stride c \<le> stride c * height c" "height c \<le> stride c * height c"
    using assms by (auto simp: console_ok_def)
  then show w: "width c \<le> 4194304" using assms unfolding console_ok_def by linarith
  have "cursor_x c < width c" "cursor_y c < height c"
    using assms unfolding console_ok_def by (meson div_le_dividend less_le_trans)+
  then show "cursor_x c < 4194304" "cursor_y c < 4194304"
    using w assms by (simp_all add: console_ok_def)
qed

text \<open>Any byte that is drawn: the glyph at the cursor, then one cell on.\<close>

lemma console_byte_draws:
  assumes "console_ok c" "b \<notin> {8, 9, 10, 13}"
  shows "console_byte b color c =
    (if cursor_x c + 1 < width c div 8 then c\<lparr>cursor_x := cursor_x c + 1\<rparr> else newline c, glyph b color c)"
proof -
  have "uadd (cursor_x c) 1 = cursor_x c + 1"
    using console_small(1) [OF assms(1)] by (intro uadd_exact) simp
  then show ?thesis
    using assms console_ok_nonnull [OF assms(1)] by (auto simp: console_byte.simps [of b] Let_def newline_def)
qed

lemma drawn_byte:
  assumes "console_ok c" "b \<notin> {8, 9, 10, 13}"
  shows "drawn_ok c (console_byte b color c)"
proof -
  have "console_ok (if cursor_x c + 1 < width c div 8 then c\<lparr>cursor_x := cursor_x c + 1\<rparr> else newline c)"
    using assms(1) newline_ok [OF assms(1)] by (auto simp: console_ok_def)
  moreover have "same_screen c (if cursor_x c + 1 < width c div 8 then c\<lparr>cursor_x := cursor_x c + 1\<rparr> else newline c)"
    using newline_ok [OF assms(1)] by (auto simp: same_screen_def)
  ultimately show ?thesis
    using glyph_in_window [OF assms(1)] by (simp add: console_byte_draws [OF assms] drawn_ok_def)
qed

lemma drawn_fold:
  assumes "\<And>c'. console_ok c' \<Longrightarrow> drawn_ok c' (step c')"
  shows "drawn_ok c (c', ws) \<Longrightarrow>
    drawn_ok c (fold (\<lambda>_ (c', ws). let (c'', ws') = step c' in (c'', ws @ ws')) xs (c', ws))"
proof (induction xs arbitrary: c' ws)
  case (Cons x xs)
  have "console_ok c'" using Cons.prems by (simp add: drawn_ok_def)
  then have "drawn_ok c' (step c')" by (rule assms)
  then have "drawn_ok c (fst (step c'), ws @ snd (step c'))"
    using drawn_trans [OF Cons.prems] by (cases "step c'") simp
  then show ?case using Cons.IH by (simp add: Let_def split_def)
qed simp

lemma console_byte_ok:
  assumes "console_ok c"
  shows "drawn_ok c (console_byte b color c)"
proof -
  note nn = console_ok_nonnull [OF assms]
  consider "b = 10" | "b = 13" | "b = 9" | "b = 8" | "b \<notin> {8, 9, 10, 13}" by blast
  then show ?thesis
  proof cases
    case 1
    then show ?thesis using newline_ok [OF assms] nn by (subst console_byte.simps) (simp add: drawn_ok_def)
  next
    case 2
    then show ?thesis using assms nn by (subst console_byte.simps) (auto simp: drawn_ok_def console_ok_def same_screen_def)
  next
    case 3
    have "drawn_ok c' (console_byte 0x20 color c')" if "console_ok c'" for c'
      by (rule drawn_byte [OF that]) simp
    from drawn_fold [OF this drawn_refl [OF assms]] show ?thesis
      using nn 3 by (subst console_byte.simps) (simp del: upt_Suc)
  next
    case 4
    let ?c = "if cursor_x c > 0 then c\<lparr>cursor_x := usub (cursor_x c) 1\<rparr>
      else if cursor_y c > 0 then c\<lparr>cursor_y := usub (cursor_y c) 1, cursor_x := usub (width c div 8) 1\<rparr> else c"
    have w: "0 < width c div 8" using assms by (auto simp: console_ok_def)
    then have "console_ok ?c"
      using assms by (auto simp: console_ok_def usub_exact)
    moreover have "same_screen c ?c" by (auto simp: same_screen_def)
    moreover have "console_byte b color c = (?c, glyph 0x20 color ?c)"
      using 4 nn by (subst console_byte.simps) (simp add: Let_def)
    ultimately show ?thesis using glyph_in_window [of ?c] by (simp add: drawn_ok_def)
  next
    case 5
    then show ?thesis by (rule drawn_byte [OF assms])
  qed
qed

lemma screen_bytes_ok: "console_ok c \<Longrightarrow> drawn_ok c (screen_bytes bs color c)"
proof (induction bs arbitrary: c)
  case Nil
  then show ?case by (simp add: drawn_refl)
next
  case (Cons b bs)
  obtain c' ws where b: "console_byte b color c = (c', ws)" by (cases "console_byte b color c")
  then have d: "drawn_ok c (c', ws)" using console_byte_ok [OF Cons.prems, of b color] by simp
  then have "drawn_ok c' (screen_bytes bs color c')" using Cons.IH by (simp add: drawn_ok_def)
  then show ?case using drawn_trans [OF d] b by (cases "screen_bytes bs color c'") simp
qed

definition console_start :: "console \<Rightarrow> u8 list \<Rightarrow> console_state" where
  "console_start c ready = \<lparr>busy = False, shared_console = c, debug_port = ready, pixels = []\<rparr>"

definition print_all :: "(u32 \<times> string) list \<Rightarrow> console_state \<Rightarrow> console_state" where
  "print_all ps st = fold (\<lambda>(color, s). console_print color s) ps st"

lemma print_step:
  fixes color :: u32 and s :: string
  assumes "\<not> busy st" "console_ok (shared_console st)" "list_all in_window (map fst (pixels st))"
  defines "st' \<equiv> console_print color s st"
  shows "\<not> busy st'" "console_ok (shared_console st')" "list_all in_window (map fst (pixels st'))"
    "same_screen (shared_console st) (shared_console st')" "debug_port st' = debug_port st @ string_bytes s"
proof -
  obtain c ws where s: "screen_bytes (string_bytes s) color (shared_console st) = (c, ws)"
    by (cases "screen_bytes (string_bytes s) color (shared_console st)")
  then have "drawn_ok (shared_console st) (c, ws)"
    using screen_bytes_ok [OF assms(2), of "string_bytes s" color] by simp
  then show "\<not> busy st'" "console_ok (shared_console st')" "list_all in_window (map fst (pixels st'))"
    "same_screen (shared_console st) (shared_console st')" "debug_port st' = debug_port st @ string_bytes s"
    using assms s by (simp_all add: console_print_def debug_write_def drawn_ok_def)
qed

lemma print_all_ok:
  assumes "\<not> busy st" "console_ok (shared_console st)" "list_all in_window (map fst (pixels st))"
  shows "\<not> busy (print_all ps st) \<and> console_ok (shared_console (print_all ps st))
    \<and> list_all in_window (map fst (pixels (print_all ps st)))
    \<and> debug_port (print_all ps st) = debug_port st @ concat (map (\<lambda>(color, s). string_bytes s) ps)"
  using assms
proof (induction ps arbitrary: st)
  case (Cons p ps)
  obtain color s where p: "p = (color, s)" by (cases p)
  from Cons.IH [OF print_step(1-3) [OF Cons.prems, of color s]] show ?case
    using print_step(5) [OF Cons.prems, of color s] by (simp add: print_all_def p)
qed (simp add: print_all_def)

text \<open>
  C25. No output leaves the screen: for any mode block the initialisation accepts and any sequence
  of messages, with tabs, backspaces and line breaks anywhere, every pixel write lands inside the
  16 MiB framebuffer window, the cursor stays on the grid, the guard is free again, and the debug
  port received the line of the initialisation and then every byte in order.
\<close>

theorem console_bounds:
  assumes "console_init mem = Inr (c, ready)"
  shows "let st = print_all messages (console_start c ready) in list_all in_window (map fst (pixels st))
    \<and> cursor_x (shared_console st) < width (shared_console st) div 8
    \<and> cursor_y (shared_console st) < height (shared_console st) div 16
    \<and> \<not> busy st \<and> debug_port st = string_bytes (''VBE console ready'' @ [CHR 0x0a]) @ concat (map (\<lambda>(color, s). string_bytes s) messages)"
  unfolding Let_def
  using print_all_ok [of "console_start c ready" messages] console_init_ok [OF assms(1)]
  by (simp add: console_start_def console_ok_def)

section \<open>What is printed can be read\<close>

text \<open>The framebuffer after the writes, and the picture in a cell of it.\<close>

definition framebuffer :: "pixel_writes \<Rightarrow> (usize \<Rightarrow> u32) \<Rightarrow> usize \<Rightarrow> u32" where
  "framebuffer ws frame = fold (\<lambda>(a, p) f. f(a := p)) ws frame"

definition cell_rows :: "console \<Rightarrow> (usize \<Rightarrow> u32) \<Rightarrow> nat \<Rightarrow> nat \<Rightarrow> bool list list" where
  "cell_rows c frame x y =
     map (\<lambda>row. map (\<lambda>column. frame (pixel_address c x y row column) \<noteq> 0) [0..<8]) [0..<16]"

definition picture :: "u8 \<Rightarrow> bool list list" where
  "picture b = map (\<lambda>row. map (\<lambda>column. glyph_pixel b 1 row column \<noteq> 0) [0..<8]) [0..<16]"

definition read_cell :: "console \<Rightarrow> (usize \<Rightarrow> u32) \<Rightarrow> nat \<Rightarrow> nat \<Rightarrow> nat option" where
  "read_cell c frame x y = find (\<lambda>i. picture (of_nat i) = cell_rows c frame x y) [32..<127]"

text \<open>Different pixels have different addresses.\<close>

lemma digits_unique:
  fixes a b d e m :: nat
  assumes "a * m + b = d * m + e" "b < m" "e < m"
  shows "a = d \<and> b = e"
proof -
  have "(a * m + b) div m = a" "(d * m + e) div m = d" "(a * m + b) mod m = b" "(d * m + e) mod m = e"
    using assms(2,3) by simp_all
  then show ?thesis using assms(1) by metis
qed

lemma pixel_address_injective:
  assumes "pixel_address c x y row column = pixel_address c x' y' row' column'" "console_ok c"
    and "on_screen c x y" "row < 16" "column < 8" "on_screen c x' y'" "row' < 16" "column' < 8"
  shows "x = x' \<and> y = y' \<and> row = row' \<and> column = column'"
proof -
  have "(y * 16 + row) * stride c + (x * 8 + column) = (y' * 16 + row') * stride c + (x' * 8 + column')"
    using assms(1) by (simp add: pixel_address_def)
  then have "y * 16 + row = y' * 16 + row' \<and> x * 8 + column = x' * 8 + column'"
    by (rule digits_unique) (use pixel_bound(2) assms in blast)+
  then show ?thesis using digits_unique [of y 16 row y' row'] digits_unique [of x 8 column x' column'] assms by simp
qed

lemma framebuffer_other: "a \<notin> set (map fst ws) \<Longrightarrow> framebuffer ws frame a = frame a"
  unfolding framebuffer_def by (induction ws arbitrary: frame) auto

lemma framebuffer_append: "framebuffer (ws @ ws') frame = framebuffer ws' (framebuffer ws frame)"
  by (simp add: framebuffer_def)

lemma framebuffer_value:
  assumes "(a, p) \<in> set ws" "\<And>q. (a, q) \<in> set ws \<Longrightarrow> q = p"
  shows "framebuffer ws frame a = p"
  using assms
proof (induction ws rule: rev_induct)
  case (snoc w ws)
  obtain a' p' where w: "w = (a', p')" by (cases w)
  show ?case
  proof (cases "a = a'")
    case True
    then show ?thesis using snoc.prems(2) [of p'] by (simp add: framebuffer_def w)
  next
    case False
    then have "(a, p) \<in> set ws" using snoc.prems(1) by (simp add: w)
    moreover have "q = p" if "(a, q) \<in> set ws" for q using snoc.prems(2) [of q] that by simp
    ultimately have "framebuffer ws frame a = p" by (rule snoc.IH)
    then show ?thesis using False by (simp add: framebuffer_def w)
  qed
qed simp

text \<open>A glyph fills its cell and touches no other.\<close>

lemma glyph_cell:
  assumes "console_ok c" "on_screen c x y" "row < 16" "column < 8"
  shows "framebuffer (glyph b color c) frame (pixel_address c x y row column) =
    (if x = cursor_x c \<and> y = cursor_y c then glyph_pixel b color row column
     else frame (pixel_address c x y row column))"
proof -
  have on: "on_screen c (cursor_x c) (cursor_y c)" using assms(1) by (simp add: console_ok_def on_screen_def)
  have same: "x = cursor_x c \<and> y = cursor_y c \<and> row = row' \<and> column = column'"
    if "pixel_address c x y row column = pixel_address c (cursor_x c) (cursor_y c) row' column'" "row' < 16" "column' < 8"
    for row' column'
    by (rule pixel_address_injective [OF that(1) assms on that(2,3)])
  show ?thesis
  proof (cases "x = cursor_x c \<and> y = cursor_y c")
    case True
    have "framebuffer (glyph b color c) frame (pixel_address c x y row column) = glyph_pixel b color row column"
    proof (rule framebuffer_value)
      show "(pixel_address c x y row column, glyph_pixel b color row column) \<in> set (glyph b color c)"
        using True assms by (auto simp: glyph_eq intro!: bexI [of _ row] rev_image_eqI [of column])
      fix q assume "(pixel_address c x y row column, q) \<in> set (glyph b color c)"
      then show "q = glyph_pixel b color row column"
        using same by (auto simp: glyph_eq [OF assms(1)])
    qed
    then show ?thesis using True by simp
  next
    case False
    have "pixel_address c x y row column \<notin> set (map fst (glyph b color c))"
    proof
      assume "pixel_address c x y row column \<in> set (map fst (glyph b color c))"
      then obtain row' column' where
        "pixel_address c x y row column = pixel_address c (cursor_x c) (cursor_y c) row' column'" "row' < 16" "column' < 8"
        by (auto simp: glyph_eq [OF assms(1)])
      then show False using same False by blast
    qed
    then show ?thesis unfolding if_not_P [OF False] by (rule framebuffer_other)
  qed
qed

text \<open>A line of printable characters that fits.\<close>

definition printable :: "u8 \<Rightarrow> bool" where
  "printable b \<longleftrightarrow> 32 \<le> unat b \<and> unat b < 127"

lemma printable_drawn: "printable b \<Longrightarrow> b \<notin> {8, 9, 10, 13}"
  by (auto simp: printable_def)

lemma screen_line:
  assumes "console_ok c" "list_all printable bs" "cursor_x c + length bs \<le> width c div 8"
    and "on_screen c x y" "row < 16" "column < 8"
  shows "framebuffer (snd (screen_bytes bs color c)) frame (pixel_address c x y row column) =
    (if y = cursor_y c \<and> cursor_x c \<le> x \<and> x < cursor_x c + length bs
     then glyph_pixel (bs ! (x - cursor_x c)) color row column
     else frame (pixel_address c x y row column))"
  using assms
proof (induction bs arbitrary: c frame)
  case Nil
  then show ?case by (auto simp: framebuffer_def)
next
  case (Cons b bs)
  define nxt where "nxt = (if cursor_x c + 1 < width c div 8 then c\<lparr>cursor_x := cursor_x c + 1\<rparr> else newline c)"
  let ?frame = "framebuffer (glyph b color c) frame"
  have d: "console_byte b color c = (nxt, glyph b color c)"
    unfolding nxt_def by (rule console_byte_draws [OF Cons.prems(1) printable_drawn]) (use Cons.prems(2) in simp)
  have n: "console_ok nxt" "same_screen c nxt"
    using drawn_byte [OF Cons.prems(1) printable_drawn, of b color] Cons.prems(2) by (simp_all add: d drawn_ok_def)
  note cell = glyph_cell [OF Cons.prems(1,4,5,6), of b color frame]
  have addr: "pixel_address nxt x y row column = pixel_address c x y row column" "on_screen nxt x y"
    using n(2) Cons.prems(4) by (simp_all add: pixel_address_def same_screen_def on_screen_def)
  have eq: "framebuffer (snd (screen_bytes (b # bs) color c)) frame (pixel_address c x y row column) =
      framebuffer (snd (screen_bytes bs color nxt)) ?frame (pixel_address nxt x y row column)"
    by (cases "screen_bytes bs color nxt") (simp add: d framebuffer_append addr)
  show ?case
  proof (cases "bs = []")
    case True
    then show ?thesis unfolding eq by (auto simp: addr cell framebuffer_def [of "[]"])
  next
    case False
    then have lt: "cursor_x c + 1 < width c div 8" using Cons.prems(3) by (cases bs) simp_all
    then have nx: "nxt = c\<lparr>cursor_x := cursor_x c + 1\<rparr>" by (simp add: nxt_def)
    have IH: "framebuffer (snd (screen_bytes bs color nxt)) ?frame (pixel_address nxt x y row column) =
      (if y = cursor_y nxt \<and> cursor_x nxt \<le> x \<and> x < cursor_x nxt + length bs
       then glyph_pixel (bs ! (x - cursor_x nxt)) color row column
       else ?frame (pixel_address nxt x y row column))"
      by (rule Cons.IH) (use n addr Cons.prems in \<open>simp_all add: nx\<close>)
    show ?thesis
      unfolding eq IH unfolding addr cell unfolding nx
      using Cons.prems(3) by (auto simp: nth_Cons' split: nat.splits)
  qed
qed

lemma column_bit: "column < 8 \<Longrightarrow> (b :: u8) AND drop_bit column 0x80 \<noteq> 0 \<longleftrightarrow> bit b (7 - column)"
proof -
  assume c: "column < 8"
  have "column = 0 \<or> column = 1 \<or> column = 2 \<or> column = 3 \<or> column = 4 \<or> column = 5 \<or> column = 6 \<or> column = 7"
    using c by linarith
  then have "drop_bit column (0x80 :: u8) = 2 ^ (7 - column)" by (elim disjE) simp_all
  then show ?thesis by (simp add: and_exp_eq_0_iff_not_bit)
qed

lemma picture_glyph: "picture a = picture b \<longleftrightarrow> FONT ! unat a = FONT ! unat b"
proof
  assume eq: "picture a = picture b"
  have "FONT ! unat a ! row = FONT ! unat b ! row" if row: "row < 16" for row
  proof (rule bit_word_eqI)
    fix k assume "k < LENGTH(8)"
    then have k: "7 - k < 8" "7 - (7 - k) = k" by simp_all
    have "picture a ! row ! (7 - k) = picture b ! row ! (7 - k)" by (simp only: eq)
    then show "bit (FONT ! unat a ! row) k = bit (FONT ! unat b ! row) k"
      using row k by (simp add: picture_def glyph_pixel_def column_bit split: if_splits)
  qed
  then show "FONT ! unat a = FONT ! unat b"
    by (intro nth_equalityI) (simp_all add: FONT_rows unat_u8_less)
qed (simp add: picture_def glyph_pixel_def)

lemma read_cell_picture:
  assumes "printable b" "cell_rows c frame x y = picture b"
  shows "read_cell c frame x y = Some (unat b)"
proof -
  define m where "m = (127 :: nat)"
  have b: "unat b - 32 < length [32..<m]" "[32..<m] ! (unat b - 32) = unat b"
    using assms(1) by (auto simp: printable_def m_def simp del: upt_conv_Cons upt_rec_numeral)
  have "picture (of_nat ([32..<m] ! j)) \<noteq> picture b" if j: "j < unat b - 32" for j
  proof
    have i: "[32..<m] ! j = 32 + j" "32 + j < unat b" using j b(1) by simp_all
    have u: "unat (of_nat (32 + j) :: u8) = 32 + j"
      using i(2) unat_u8_less [of b] by (simp add: unsigned_of_nat take_bit_nat_eq_self del: of_nat_add)
    assume "picture (of_nat ([32..<m] ! j)) = picture b"
    then have "FONT ! (32 + j) = FONT ! unat b" unfolding picture_glyph i(1) u .
    then show False using glyph_injective [of "32 + j" "unat b"] i(2) assms(1) by (simp add: printable_def)
  qed
  then show ?thesis
    unfolding read_cell_def assms(2) find_Some_iff m_def [symmetric] using b
    by (intro exI [of _ "unat b - 32"]) simp
qed

lemma cell_rows_picture:
  assumes "\<And>row column. row < 16 \<Longrightarrow> column < 8 \<Longrightarrow>
      frame (pixel_address c x y row column) = glyph_pixel b color row column" "color \<noteq> 0"
  shows "cell_rows c frame x y = picture b"
  using assms by (auto simp: cell_rows_def picture_def glyph_pixel_def)

lemma string_byte: "k < length s \<Longrightarrow> unat (string_bytes s ! k) = of_char (s ! k)"
  by (simp add: string_bytes_def unsigned_of_nat take_bit_nat_eq_self)

text \<open>
  C26. The screen shows what was printed: after any earlier output, a message of printable ASCII
  characters that fits in the rest of the line, printed in any colour but black, can be read back
  from the pixels character by character, and every other cell of the screen keeps its pixels.
\<close>

theorem console_text_readable:
  fixes background :: "usize \<Rightarrow> u32" and color :: u32 and s :: string
  assumes "console_init mem = Inr (c, ready)" "st = print_all messages (console_start c ready)"
    and "list_all (\<lambda>ch. 32 \<le> (of_char ch :: nat) \<and> of_char ch < (127 :: nat)) s" "color \<noteq> 0"
    and "cursor_x (shared_console st) + length s \<le> width (shared_console st) div 8"
  defines "con \<equiv> shared_console st" and "frame \<equiv> framebuffer (pixels st) background"
    and "frame' \<equiv> framebuffer (pixels (console_print color s st)) background"
  shows "(\<forall>k < length s. read_cell con frame' (cursor_x con + k) (cursor_y con) = Some (of_char (s ! k)))
    \<and> (\<forall>x y. on_screen con x y \<and> \<not> (y = cursor_y con \<and> cursor_x con \<le> x \<and> x < cursor_x con + length s)
         \<longrightarrow> cell_rows con frame' x y = cell_rows con frame x y)"
proof -
  have ok: "console_ok con" "\<not> busy st"
    using print_all_ok [of "console_start c ready" messages] console_init_ok [OF assms(1)]
    by (simp_all add: con_def assms(2) console_start_def)
  have len: "length (string_bytes s) = length s" by (simp add: string_bytes_def)
  have pr: "list_all printable (string_bytes s)"
    using assms(3) by (simp add: list_all_length len printable_def string_byte)
  have fits: "cursor_x con + length (string_bytes s) \<le> width con div 8" using assms(5) by (simp add: con_def len)
  have f: "frame' = framebuffer (snd (screen_bytes (string_bytes s) color con)) frame"
    using ok(2) by (simp add: frame'_def frame_def con_def console_print_def framebuffer_append split: prod.split)
  note line = screen_line [OF ok(1) pr fits, of _ _ _ _ color frame, folded f]
  have "read_cell con frame' (cursor_x con + k) (cursor_y con) = Some (of_char (s ! k))" if k: "k < length s" for k
  proof -
    have on: "on_screen con (cursor_x con + k) (cursor_y con)"
      using k fits ok(1) by (simp add: on_screen_def len console_ok_def)
    have "cell_rows con frame' (cursor_x con + k) (cursor_y con) = picture (string_bytes s ! k)"
      by (rule cell_rows_picture [OF _ assms(4)]) (use line [OF on] k in \<open>simp add: len\<close>)
    moreover have "printable (string_bytes s ! k)" using pr k by (simp add: list_all_length len)
    ultimately show ?thesis using read_cell_picture string_byte [OF k] by metis
  qed
  moreover have "cell_rows con frame' x y = cell_rows con frame x y"
    if "on_screen con x y \<and> \<not> (y = cursor_y con \<and> cursor_x con \<le> x \<and> x < cursor_x con + length s)" for x y
    using line [of x y] that by (auto simp: cell_rows_def len)
  ultimately show ?thesis by blast
qed

text \<open>The mode the boot loader selects: 1440 by 900 pixels of 32 bits.\<close>

definition example_block :: "u8 list" where
  "example_block = (replicate 48 0)[0 := 0x9b, 16 := 0x80, 17 := 0x16, 18 := 0xa0, 19 := 0x05, 20 := 0x84, 21 := 0x03,
     25 := 32, 27 := 6, 31 := 8, 32 := 16, 33 := 8, 34 := 8, 35 := 8, 36 := 0, 43 := 0xe0]"

definition example_mode :: "nat \<Rightarrow> u8" where
  "example_mode = (\<lambda>a. let i = a - (PAGE_OFFSET + 0x8200) in if i < 48 then example_block ! i else 0)"

lemma example_mode_byte: "i < 48 \<Longrightarrow> example_mode (PAGE_OFFSET + 0x8200 + i) = example_block ! i"
  by (simp only: example_mode_def Let_def diff_add_inverse if_True)

lemma example_mode_holds:
  assumes "i + length bs \<le> 48" "take (length bs) (drop i example_block) = bs"
  shows "holds_bytes example_mode (PAGE_OFFSET + 0x8200 + i) bs"
  unfolding holds_bytes_def
proof (rule nth_equalityI)
  fix k assume "k < length (map example_mode [PAGE_OFFSET + 0x8200 + i..<PAGE_OFFSET + 0x8200 + i + length bs])"
  then have k: "k < length bs" by simp
  then have "map example_mode [PAGE_OFFSET + 0x8200 + i..<PAGE_OFFSET + 0x8200 + i + length bs] ! k
      = example_mode (PAGE_OFFSET + 0x8200 + (i + k))"
    by (simp only: nth_map length_upt nth_upt diff_add_inverse add.assoc nat_add_left_cancel_less)
  also have "\<dots> = example_block ! (i + k)" using k assms(1) by (intro example_mode_byte) simp
  also have "\<dots> = take (length bs) (drop i example_block) ! k"
    using k assms(1) by (simp add: example_block_def del: list_update_code)
  finally show "map example_mode [PAGE_OFFSET + 0x8200 + i..<PAGE_OFFSET + 0x8200 + i + length bs] ! k = bs ! k"
    unfolding assms(2) .
qed simp

lemma example_words:
  "mode_word example_mode 0 = 0x9b" "mode_word example_mode 16 = 5760" "mode_word example_mode 18 = 1440"
  "mode_word example_mode 20 = 900" "(read_le 4 example_mode (PAGE_OFFSET + 0x8200 + 40) :: u32) = 0xe0000000"
proof -
  have block: "example_block = [0x9b, 0, 0, 0, 0, 0, 0, 0, 0, 0, 0, 0, 0, 0, 0, 0, 0x80, 0x16, 0xa0, 0x05, 0x84, 0x03, 0, 0,
      0, 32, 0, 6, 0, 0, 0, 8, 16, 8, 8, 8, 0, 0, 0, 0, 0, 0, 0, 0xe0, 0, 0, 0, 0]"
    by (simp add: example_block_def numeral_eq_Suc)
  have word: "mode_word example_mode i = unat w"
    if "i + 2 \<le> 48" "take 2 (drop i example_block) = le_bytes 2 w" for i and w :: u16
  proof -
    have "(read_le 2 example_mode (PAGE_OFFSET + 0x8200 + i) :: u16) = w"
      by (rule read_le_holds, rule example_mode_holds) (use that in simp_all)
    then show ?thesis by (simp only: mode_word_def)
  qed
  have b: "le_bytes 2 (0x9b :: u16) = [0x9b, 0]" "le_bytes 2 (5760 :: u16) = [0x80, 0x16]"
    "le_bytes 2 (1440 :: u16) = [0xa0, 0x05]" "le_bytes 2 (900 :: u16) = [0x84, 0x03]"
    "le_bytes 4 (0xe0000000 :: u32) = [0, 0, 0, 0xe0]"
    by (simp_all add: le_bytes_def upt_rec)
  show "mode_word example_mode 0 = 0x9b" "mode_word example_mode 16 = 5760" "mode_word example_mode 18 = 1440"
    "mode_word example_mode 20 = 900"
    using word [of 0 "0x9b"] word [of 16 5760] word [of 18 1440] word [of 20 900] unfolding b block by simp_all
  show "(read_le 4 example_mode (PAGE_OFFSET + 0x8200 + 40) :: u32) = 0xe0000000"
    by (rule read_le_holds, rule example_mode_holds) (simp_all add: b block)
qed

lemma example_console_init: "console_init example_mode = Inr
    (\<lparr>buffer = PAGE_OFFSET + 0xa00000, width = 1440, height = 900, stride = 1440, cursor_x = 0, cursor_y = 0\<rparr>,
     string_bytes (''VBE console ready'' @ [CHR 0x0a]))"
proof -
  have b: "example_mode (PAGE_OFFSET + 0x8200 + 25) = 32" "example_mode (PAGE_OFFSET + 0x8200 + 27) = 6"
    "example_mode (PAGE_OFFSET + 0x8200 + 31) = 8" "example_mode (PAGE_OFFSET + 0x8200 + 32) = 16"
    "example_mode (PAGE_OFFSET + 0x8200 + 33) = 8" "example_mode (PAGE_OFFSET + 0x8200 + 34) = 8"
    "example_mode (PAGE_OFFSET + 0x8200 + 35) = 8" "example_mode (PAGE_OFFSET + 0x8200 + 36) = 0"
    by (subst example_mode_byte; simp add: example_block_def)+
  show ?thesis
    unfolding console_init_def Let_def example_words b
    by (simp add: umul_def uadd_def PAGE_OFFSET_def debug_write_def)
qed

theorem console_bounds_witness:
  "\<exists>c ready. console_init example_mode = Inr (c, ready)
    \<and> list_all in_window (map fst (pixels (print_all [(GREEN, ''a'' @ [CHR 0x08, CHR 0x08, CHR 0x09])] (console_start c ready))))"
  using console_bounds [OF example_console_init, of "[(GREEN, ''a'' @ [CHR 0x08, CHR 0x08, CHR 0x09])]"] example_console_init
  unfolding Let_def by blast

theorem console_text_readable_witness:
  "\<exists>c ready. console_init example_mode = Inr (c, ready)
    \<and> read_cell c (framebuffer (pixels (console_print RED ''OK'' (console_start c ready))) (\<lambda>_. 0)) 1 0 = Some 75"
proof -
  let ?c = "\<lparr>buffer = PAGE_OFFSET + 0xa00000, width = 1440, height = 900, stride = 1440, cursor_x = 0, cursor_y = 0\<rparr>"
  let ?r = "string_bytes (''VBE console ready'' @ [CHR 0x0a])"
  have "console_start ?c ?r = print_all [] (console_start ?c ?r)" by (simp add: print_all_def)
  from console_text_readable [OF example_console_init this, of "''OK''" RED "\<lambda>_. 0"]
  have "\<forall>k < length ''OK''. read_cell ?c (framebuffer (pixels (console_print RED ''OK'' (console_start ?c ?r))) (\<lambda>_. 0)) (0 + k) 0
      = Some (of_char (''OK'' ! k))"
    by (simp add: console_start_def RED_def)
  then have "read_cell ?c (framebuffer (pixels (console_print RED ''OK'' (console_start ?c ?r))) (\<lambda>_. 0)) 1 0 = Some 75"
    by (auto dest!: spec [of _ 1])
  then show ?thesis using example_console_init by blast
qed

end
