(* ===== verification/Memory_Ops.thy ===== *)
theory Memory_Ops
  imports Kernel_Prelude "HOL-Library.List_Lexorder"
begin

text \<open>
  The byte operations the compiler may call (\<^verbatim>\<open>memset\<close>, \<^verbatim>\<open>memcpy\<close>, \<^verbatim>\<open>memmove\<close>, \<^verbatim>\<open>memcmp\<close> of
  \<^verbatim>\<open>src/kernel/arch.rs\<close>). Three of them are repeated string instructions, so the model has the
  registers such an instruction uses: a repetition performs the instruction until RCX is zero, and
  the direction flag decides which way RDI and RSI move. Memory is a function from addresses to bytes.
\<close>

section \<open>String instructions\<close>

record string_cpu =
  rdi :: usize
  rsi :: usize
  rcx :: usize
  al :: u8
  direction :: bool
  bytes :: "nat \<Rightarrow> u8"

definition advance :: "bool \<Rightarrow> usize \<Rightarrow> usize" where
  "advance df a = (if df then usub a 1 else uadd a 1)"

definition stosb :: "string_cpu \<Rightarrow> string_cpu" where
  "stosb c = c\<lparr>bytes := (bytes c)(rdi c := al c), rdi := advance (direction c) (rdi c)\<rparr>"

definition movsb :: "string_cpu \<Rightarrow> string_cpu" where
  "movsb c = c\<lparr>bytes := (bytes c)(rdi c := bytes c (rsi c)),
     rdi := advance (direction c) (rdi c), rsi := advance (direction c) (rsi c)\<rparr>"

function rep :: "(string_cpu \<Rightarrow> string_cpu) \<Rightarrow> string_cpu \<Rightarrow> string_cpu" where
  "rep instruction c =
     (if rcx c = 0 then c else rep instruction ((instruction c)\<lparr>rcx := rcx c - 1\<rparr>))"
  by auto
termination by (relation "measure (\<lambda>(_, c). rcx c)") auto

declare rep.simps [simp del]

section \<open>Operations\<close>

definition memset :: "usize \<Rightarrow> 32 word \<Rightarrow> usize \<Rightarrow> string_cpu \<Rightarrow> usize \<times> string_cpu" where
  "memset dst byte len c = (dst, rep stosb (c\<lparr>rdi := dst, al := ucast byte, rcx := len\<rparr>))"

definition memcpy :: "usize \<Rightarrow> usize \<Rightarrow> usize \<Rightarrow> string_cpu \<Rightarrow> usize \<times> string_cpu" where
  "memcpy dst src len c = (dst, rep movsb (c\<lparr>rdi := dst, rsi := src, rcx := len\<rparr>))"

definition memmove :: "usize \<Rightarrow> usize \<Rightarrow> usize \<Rightarrow> string_cpu \<Rightarrow> usize \<times> string_cpu" where
  "memmove dst src len c =
     (if dst > src \<and> usub dst src < len then
        (dst, (rep movsb (c\<lparr>direction := True, rdi := uadd dst (usub len 1), rsi := uadd src (usub len 1), rcx := len\<rparr>))
                \<lparr>direction := False\<rparr>)
      else memcpy dst src len c)"

fun memcmp_from :: "(nat \<Rightarrow> u8) \<Rightarrow> usize \<Rightarrow> usize \<Rightarrow> nat list \<Rightarrow> int" where
  "memcmp_from mem a b [] = 0"
| "memcmp_from mem a b (i # is) =
     (let x = mem (uadd a i); y = mem (uadd b i)
      in if x \<noteq> y then uint x - uint y else memcmp_from mem a b is)"

definition memcmp :: "(nat \<Rightarrow> u8) \<Rightarrow> usize \<Rightarrow> usize \<Rightarrow> usize \<Rightarrow> int" where
  "memcmp mem a b len = memcmp_from mem a b [0..<len]"

section \<open>Copying\<close>

text \<open>The contents memory is to have: a range replaced by the bytes another range held before.\<close>

definition copied :: "usize \<Rightarrow> usize \<Rightarrow> usize \<Rightarrow> (nat \<Rightarrow> u8) \<Rightarrow> nat \<Rightarrow> u8" where
  "copied dst src len mem = (\<lambda>a. if dst \<le> a \<and> a < dst + len then mem (src + (a - dst)) else mem a)"

lemma rep_Suc: "rcx c = Suc n \<Longrightarrow> rep f c = rep f ((f c)\<lparr>rcx := n\<rparr>)"
  by (subst rep.simps) simp

lemma rep_zero: "rcx c = 0 \<Longrightarrow> rep f c = c"
  by (subst rep.simps) simp

lemma rep_direction: "(\<And>c. direction (f c) = direction c) \<Longrightarrow> direction (rep f c) = direction c"
proof (induction f c rule: rep.induct)
  case (1 f c)
  then show ?case by (cases "rcx c = 0") (simp_all add: rep.simps [of f c])
qed

lemma movsb_direction: "direction (movsb c) = direction c"
  by (simp add: movsb_def)

text \<open>Upwards, provided no byte is overwritten before it is read.\<close>

lemma rep_movsb_up:
  assumes "rcx c = n" "\<not> direction c" "rdi c = d" "rsi c = s" "d + n < usize_range" "s + n < usize_range"
    and "d \<le> s \<or> s + n \<le> d"
  shows "bytes (rep movsb c) = copied d s n (bytes c)"
  using assms
proof (induction n arbitrary: c d s)
  case 0
  then show ?case by (auto simp: rep_zero copied_def fun_eq_iff)
next
  case (Suc n)
  let ?c = "(movsb c)\<lparr>rcx := n\<rparr>"
  have m: "rdi ?c = d + 1" "rsi ?c = s + 1" "\<not> direction ?c" "rcx ?c = n" "bytes ?c = (bytes c)(d := bytes c s)"
    using Suc.prems by (simp_all add: movsb_def advance_def uadd_exact)
  have "bytes (rep movsb ?c) = copied (d + 1) (s + 1) n (bytes ?c)"
    by (rule Suc.IH) (use m Suc.prems in auto)
  also have "\<dots> = copied d s (Suc n) (bytes c)"
  proof
    fix a
    consider "a < d \<or> d + Suc n \<le> a" | "a = d" | "d < a" "a < d + Suc n" by linarith
    then show "copied (d + 1) (s + 1) n (bytes ?c) a = copied d s (Suc n) (bytes c) a"
    proof cases
      case 3
      then have e: "s + 1 + (a - (d + 1)) = s + (a - d)" by linarith
      moreover have "s + (a - d) \<noteq> d" using 3 Suc.prems(7) by linarith
      ultimately show ?thesis using 3 unfolding copied_def m(5) by simp
    qed (auto simp: copied_def m(5))
  qed
  finally show ?case using Suc.prems(1) by (simp add: rep_Suc)
qed

text \<open>Downwards, for a destination above the source.\<close>

lemma rep_movsb_down:
  assumes "rcx c = n" "direction c" "0 < n \<longrightarrow> rdi c = d + (n - 1) \<and> rsi c = s + (n - 1)"
    and "d + n < usize_range" "s < d"
  shows "bytes (rep movsb c) = copied d s n (bytes c)"
  using assms
proof (induction n arbitrary: c)
  case 0
  then show ?case by (auto simp: rep_zero copied_def fun_eq_iff)
next
  case (Suc n)
  let ?c = "(movsb c)\<lparr>rcx := n\<rparr>"
  have m: "direction ?c" "rcx ?c = n" "bytes ?c = (bytes c)(d + n := bytes c (s + n))"
    using Suc.prems by (simp_all add: movsb_def)
  have "0 < n \<longrightarrow> rdi ?c = d + (n - 1) \<and> rsi ?c = s + (n - 1)"
    using Suc.prems by (auto simp: movsb_def advance_def usub_exact)
  then have "bytes (rep movsb ?c) = copied d s n (bytes ?c)"
    by (intro Suc.IH) (use m Suc.prems in auto)
  also have "\<dots> = copied d s (Suc n) (bytes c)"
  proof
    fix a
    consider "a < d \<or> d + Suc n \<le> a" | "a = d + n" | "d \<le> a" "a < d + n" by linarith
    then show "copied d s n (bytes ?c) a = copied d s (Suc n) (bytes c) a"
    proof cases
      case 3
      then have "s + (a - d) \<noteq> d + n" using Suc.prems(5) by linarith
      then show ?thesis using 3 by (simp add: copied_def m(3))
    qed (auto simp: copied_def m(3))
  qed
  finally show ?case using Suc.prems(1) by (simp add: rep_Suc)
qed

lemma memcpy_run:
  assumes "\<not> direction c" "dst + len < usize_range" "src + len < usize_range" "dst \<le> src \<or> src + len \<le> dst"
  shows "fst (memcpy dst src len c) = dst" "bytes (snd (memcpy dst src len c)) = copied dst src len (bytes c)"
    "\<not> direction (snd (memcpy dst src len c))"
proof -
  show "bytes (snd (memcpy dst src len c)) = copied dst src len (bytes c)"
    unfolding memcpy_def using rep_movsb_up [of "c\<lparr>rdi := dst, rsi := src, rcx := len\<rparr>" len dst src] assms by simp
qed (use assms(1) rep_direction [OF movsb_direction] in \<open>simp_all add: memcpy_def\<close>)

text \<open>
  C39. Moving bytes is right for every overlap: whatever the two ranges, \<^verbatim>\<open>memmove\<close> returns the
  destination, leaves there the bytes the source held before the call, changes nothing else, and
  returns with the direction flag clear as the calling convention demands.
\<close>

theorem memmove_copies:
  assumes "\<not> direction c" "dst + len < usize_range" "src + len < usize_range"
    and "memmove dst src len c = (r, c')"
  shows "r = dst \<and> map (bytes c') [dst..<dst + len] = map (bytes c) [src..<src + len]
    \<and> (\<forall>a. \<not> (dst \<le> a \<and> a < dst + len) \<longrightarrow> bytes c' a = bytes c a) \<and> \<not> direction c'"
proof -
  have "r = dst \<and> bytes c' = copied dst src len (bytes c) \<and> \<not> direction c'"
  proof (cases "dst > src \<and> usub dst src < len")
    case True
    let ?c = "c\<lparr>direction := True, rdi := uadd dst (usub len 1), rsi := uadd src (usub len 1), rcx := len\<rparr>"
    have "bytes (rep movsb ?c) = copied dst src len (bytes ?c)"
      by (rule rep_movsb_down) (use True assms in \<open>auto simp: usize_simps\<close>)
    then show ?thesis using assms(4) True by (auto simp: memmove_def)
  next
    case False
    then have "dst \<le> src \<or> src + len \<le> dst" by (auto simp: usub_exact)
    then show ?thesis using memcpy_run [of c dst len src] assms False by (auto simp: memmove_def)
  qed
  then show ?thesis by (auto simp: copied_def intro!: nth_equalityI)
qed

theorem memmove_copies_witness:
  "\<exists>r c'. memmove 0x1002 0x1000 4 \<lparr>rdi = 0, rsi = 0, rcx = 0, al = 0, direction = False, bytes = of_nat\<rparr> = (r, c')
     \<and> map (bytes c') [0x1002..<0x1002 + 4] = [0, 1, 2, 3 :: u8] \<and> \<not> direction c'"
proof -
  let ?c = "\<lparr>rdi = 0, rsi = 0, rcx = 0, al = 0, direction = False, bytes = of_nat\<rparr>"
  obtain r c' where m: "memmove 0x1002 0x1000 4 ?c = (r, c')" by (cases "memmove 0x1002 0x1000 4 ?c")
  have "map (bytes ?c) [0x1000..<0x1000 + 4] = [0, 1, 2, 3 :: u8]" by (simp add: upt_rec)
  then show ?thesis using m memmove_copies [OF _ _ _ m] by simp
qed

section \<open>Filling\<close>

lemma rep_stosb_up:
  assumes "rcx c = n" "\<not> direction c" "rdi c = d" "d + n < usize_range"
  shows "bytes (rep stosb c) = (\<lambda>a. if d \<le> a \<and> a < d + n then al c else bytes c a)"
  using assms
proof (induction n arbitrary: c d)
  case 0
  then show ?case by (auto simp: rep_zero fun_eq_iff)
next
  case (Suc n)
  let ?c = "(stosb c)\<lparr>rcx := n\<rparr>"
  have m: "rdi ?c = d + 1" "\<not> direction ?c" "rcx ?c = n" "bytes ?c = (bytes c)(d := al c)" "al ?c = al c"
    using Suc.prems by (simp_all add: stosb_def advance_def uadd_exact)
  have "bytes (rep stosb ?c) = (\<lambda>a. if d + 1 \<le> a \<and> a < d + 1 + n then al ?c else bytes ?c a)"
    by (rule Suc.IH) (use m Suc.prems in auto)
  also have "\<dots> = (\<lambda>a. if d \<le> a \<and> a < d + Suc n then al c else bytes c a)"
    by (auto simp: m)
  finally show ?case using Suc.prems(1) by (simp add: rep_Suc)
qed

lemma memset_fills:
  assumes "\<not> direction c" "dst + len < usize_range"
  shows "bytes (snd (memset dst byte len c)) = (\<lambda>a. if dst \<le> a \<and> a < dst + len then ucast byte else bytes c a)"
  unfolding memset_def using rep_stosb_up [of "c\<lparr>rdi := dst, al := ucast byte, rcx := len\<rparr>" len dst] assms
  by (simp cong: if_cong)

section \<open>Comparing\<close>

lemma memcmp_from_lists:
  "(\<And>i. i \<in> set is \<Longrightarrow> uadd a i = a + i \<and> uadd b i = b + i) \<Longrightarrow>
   (memcmp_from mem a b is = 0 \<longleftrightarrow> map (\<lambda>i. mem (a + i)) is = map (\<lambda>i. mem (b + i)) is)
   \<and> (memcmp_from mem a b is < 0 \<longleftrightarrow> map (\<lambda>i. mem (a + i)) is < map (\<lambda>i. mem (b + i)) is)"
  by (induction "is") (auto simp: Let_def word_less_def word_uint_eq_iff)

text \<open>
  Comparing bytes is the lexicographic order of the two ranges, byte values unsigned: the result is
  zero exactly for equal contents and negative exactly when the first range comes first.
\<close>

theorem memcmp_lexicographic:
  assumes "a + len < usize_range" "b + len < usize_range"
  shows "(memcmp mem a b len = 0 \<longleftrightarrow> map mem [a..<a + len] = map mem [b..<b + len])
    \<and> (memcmp mem a b len < 0 \<longleftrightarrow> map mem [a..<a + len] < map mem [b..<b + len])"
proof -
  have s: "map mem [k..<k + len] = map (\<lambda>i. mem (k + i)) [0..<len]" for k
    by (rule nth_equalityI) simp_all
  have "uadd a i = a + i \<and> uadd b i = b + i" if "i \<in> set [0..<len]" for i
    using that assms by (simp add: uadd_exact)
  from memcmp_from_lists [where mem = mem, OF this] show ?thesis by (simp only: memcmp_def s simp_thms)
qed

theorem memcmp_lexicographic_witness:
  "memcmp of_nat 0x10FF 0x1200 2 \<noteq> 0 \<and> \<not> memcmp (of_nat :: nat \<Rightarrow> u8) 0x10FF 0x1200 2 < 0"
  using memcmp_lexicographic [of "0x10FF" 2 "0x1200" "of_nat :: nat \<Rightarrow> u8"] by (simp add: upt_rec)

end
