(* ===== verification/Processor.thy ===== *)
theory Processor
  imports Memory Text_Format
begin

text \<open>
  The check of the processor mode at start-up (\<^verbatim>\<open>src/kernel/processor.rs\<close>). The registers the
  assembly reads are the record \<open>boot_registers\<close>; LAR answers for a selector with the access
  rights of its descriptor, or not at all.
\<close>

section \<open>The check\<close>

record boot_registers =
  reg_cr0 :: u64
  reg_cr3 :: u64
  reg_cr4 :: u64
  reg_cs :: u16
  reg_rip :: u64
  reg_rsp :: u64
  efer_low :: u32
  efer_high :: u32
  reg_lar :: "u16 \<Rightarrow> u32 option"
  reg_if :: bool

definition CR0_PE :: u64 where "CR0_PE = 1"
definition CR0_PG :: u64 where "CR0_PG = push_bit 31 1"
definition CR4_PAE :: u64 where "CR4_PAE = push_bit 5 1"
definition CR4_LA57 :: u64 where "CR4_LA57 = push_bit 12 1"
definition EFER_LME :: u64 where "EFER_LME = push_bit 8 1"
definition EFER_LMA :: u64 where "EFER_LMA = push_bit 10 1"

definition efer :: "boot_registers \<Rightarrow> u64" where
  "efer r = ucast (efer_low r) OR push_bit 32 (ucast (efer_high r))"

definition code64 :: u32 where
  "code64 = push_bit 21 1 OR push_bit 15 1 OR push_bit 12 1 OR push_bit 11 1"

definition code64_mask :: u32 where
  "code64_mask = code64 OR push_bit 22 1 OR push_bit 13 3"

definition check_address :: "u64 \<Rightarrow> unit res" where
  "check_address address =
     bind_res (ensure (address \<le> 0x00007fffffffffff \<or> address \<ge> 0xffff800000000000) ''address <= 0x0000_7fff_ffff_ffff'') (\<lambda>_.
     ensure (address \<ge> of_nat PAGE_OFFSET) ''expected high-half execution'')"

definition mode_messages :: "boot_registers \<Rightarrow> u32 \<Rightarrow> message list" where
  "mode_messages r attributes =
     [(GREEN, ''Processor registers: CR0='' @ hexadecimal 18 (unat (reg_cr0 r)) @ '' CR3='' @ hexadecimal 18 (unat (reg_cr3 r))
        @ '' CR4='' @ hexadecimal 18 (unat (reg_cr4 r)) @ [CHR 0x0a]),
      (GREEN, ''Processor code: EFER='' @ hexadecimal 18 (unat (efer r)) @ '' CS='' @ hexadecimal 4 (unat (reg_cs r))
        @ '' LAR='' @ hexadecimal 10 (unat attributes) @ '' RIP='' @ hexadecimal 18 (unat (reg_rip r))
        @ '' RSP='' @ hexadecimal 18 (unat (reg_rsp r)) @ [CHR 0x0a]),
      (GREEN, ''Processor mode OK: IA-32e active, 64-bit code, CPL0; 4-level paging, canonical RIP/RSP'' @ [CHR 0x0a])]"

definition verify_boot_mode :: "boot_registers \<Rightarrow> message list res" where
  "verify_boot_mode r =
     bind_res (ensure (\<not> reg_if r) ''!arch::interrupts_enabled()'') (\<lambda>_.
     bind_res (ensure (reg_cr0 r AND (CR0_PE OR CR0_PG) = CR0_PE OR CR0_PG) ''cr0 & (CR0_PE | CR0_PG)'') (\<lambda>_.
     bind_res (ensure (reg_cr4 r AND CR4_PAE \<noteq> 0) ''cr4 & CR4_PAE'') (\<lambda>_.
     bind_res (ensure (reg_cr4 r AND CR4_LA57 = 0) ''bootstrap requires four-level paging'') (\<lambda>_.
     bind_res (ensure (efer r AND (EFER_LME OR EFER_LMA) = EFER_LME OR EFER_LMA) ''efer & (EFER_LME | EFER_LMA)'') (\<lambda>_.
     bind_res (ensure (reg_cs r = 0x08) ''expected kernel GDT selector and CPL0'') (\<lambda>_.
     bind_res (expect (reg_lar r (reg_cs r)) ''cannot query current code descriptor'') (\<lambda>attributes.
     bind_res (ensure (attributes AND code64_mask = code64) ''expected present ring0 L=1 D=0 code'') (\<lambda>_.
     bind_res (ensure (reg_cr3 r AND 0x000ffffffffff000 = 0x101000) ''cr3 & 0x000f_ffff_ffff_f000 == 0x101000'') (\<lambda>_.
     bind_res (for_res [reg_rip r, reg_rsp r] (\<lambda>address _. check_address address) ()) (\<lambda>_.
     Inr (mode_messages r attributes)))))))))))"

section \<open>What it establishes\<close>

lemma word_bits_iff: "(x :: 'w::len word) = y \<longleftrightarrow> (\<forall>n<LENGTH('w). bit x n = bit y n)"
  by (auto intro: bit_word_eqI)

lemma mask_equal_iff: "(x :: 'w::len word) AND (a OR b) = a OR b \<longleftrightarrow> x AND a = a \<and> x AND b = b"
  by (auto simp: bit_eq_iff bit_simps)

lemma bit_single: "bit (push_bit k (1 :: 'w::len word)) n \<longleftrightarrow> k = n \<and> n < LENGTH('w)"
  by (auto simp: bit_simps bit_1_iff)

lemma and_single:
  fixes x :: "'w::len word"
  assumes "n < LENGTH('w)"
  shows "x AND push_bit n 1 = push_bit n 1 \<longleftrightarrow> bit x n" "x AND push_bit n 1 = 0 \<longleftrightarrow> \<not> bit x n"
  using assms unfolding word_bits_iff by (auto simp only: bit_and_iff bit_single bit_0_eq bot_apply bot_bool_def)

lemma cr3_field:
  "(x :: u64) AND 0x000ffffffffff000 = 0x101000 \<longleftrightarrow> take_bit 40 (drop_bit 12 x) = 0x101"
proof -
  have e: "x AND 0x000ffffffffff000 = push_bit 12 (take_bit 40 (drop_bit 12 x))"
  proof -
    have "(0x000ffffffffff000 :: u64) = push_bit 12 (mask 40)" by (simp add: mask_eq_exp_minus_1 push_bit_eq_mult)
    moreover have "x AND push_bit 12 (mask 40) = push_bit 12 (take_bit 40 (drop_bit 12 x))"
      unfolding word_bits_iff by (auto simp only: bit_and_iff bit_push_bit_iff bit_mask_iff bit_take_bit_iff bit_drop_bit_eq o_def) simp_all
    ultimately show ?thesis by metis
  qed
  have v: "(0x101000 :: u64) = push_bit 12 0x101" by (simp add: push_bit_eq_mult)
  have "push_bit 12 (take_bit 40 (drop_bit 12 x)) = push_bit 12 (0x101 :: u64) \<longleftrightarrow> take_bit 40 (drop_bit 12 x) = 0x101"
  proof
    assume "push_bit 12 (take_bit 40 (drop_bit 12 x)) = push_bit 12 (0x101 :: u64)"
    then have "drop_bit 12 (push_bit 12 (take_bit 40 (drop_bit 12 x))) = drop_bit 12 (push_bit 12 (0x101 :: u64))" by simp
    moreover have "drop_bit 12 (push_bit 12 (take_bit 40 y)) = take_bit 40 y" for y :: u64
      by (rule bit_word_eqI) (auto simp: bit_simps)
    moreover have "drop_bit 12 (push_bit 12 (0x101 :: u64)) = 0x101" by (simp add: push_bit_eq_mult drop_bit_eq_div)
    ultimately show "take_bit 40 (drop_bit 12 x) = 0x101" by simp
  qed simp
  then show ?thesis unfolding e v .
qed

text \<open>A code descriptor's access rights: L, P, S and the code bit set, D clear, DPL zero.\<close>

definition long_mode_code :: "u32 \<Rightarrow> bool" where
  "long_mode_code a \<longleftrightarrow> bit a 21 \<and> bit a 15 \<and> bit a 12 \<and> bit a 11 \<and> \<not> bit a 22 \<and> \<not> bit a 14 \<and> \<not> bit a 13"

lemma code64_bits:
  "n < 32 \<Longrightarrow> bit code64 n \<longleftrightarrow> n \<in> {11, 12, 15, 21}"
  "n < 32 \<Longrightarrow> bit code64_mask n \<longleftrightarrow> n \<in> {11, 12, 13, 14, 15, 21, 22}"
proof -
  have "push_bit 13 3 = push_bit 13 1 OR push_bit 14 (1 :: u32)" by (simp add: push_bit_eq_mult)
  then have m: "code64_mask = code64 OR push_bit 22 1 OR (push_bit 13 1 OR push_bit 14 1)"
    by (simp only: code64_mask_def)
  assume n: "n < 32"
  show c: "bit code64 n \<longleftrightarrow> n \<in> {11, 12, 15, 21}"
    unfolding code64_def using n by (auto simp only: bit_or_iff bit_single insert_iff empty_iff word_size) simp_all
  show "bit code64_mask n \<longleftrightarrow> n \<in> {11, 12, 13, 14, 15, 21, 22}"
    unfolding m using n c by (auto simp only: bit_or_iff bit_single insert_iff empty_iff) simp_all
qed

lemma code64_test: "a AND code64_mask = code64 \<longleftrightarrow> long_mode_code a"
proof -
  have len: "LENGTH(32) = 32" by simp
  have "a AND code64_mask = code64 \<longleftrightarrow> (\<forall>n<32. bit (a AND code64_mask) n = bit code64 n)"
    unfolding word_bits_iff [of "a AND code64_mask"] len ..
  also have "\<dots> \<longleftrightarrow> (\<forall>n<32. (bit a n \<and> n \<in> {11, 12, 13, 14, 15, 21, 22}) = (n \<in> {11, 12, 15, 21}))"
    by (intro all_cong) (simp only: bit_and_iff code64_bits)
  also have "\<dots> \<longleftrightarrow> long_mode_code a"
  proof
    assume e: "\<forall>n<32. (bit a n \<and> n \<in> {11, 12, 13, 14, 15, 21, 22}) = (n \<in> {11, 12, 15, 21})"
    show "long_mode_code a"
      unfolding long_mode_code_def
      using e [rule_format, of 11] e [rule_format, of 12] e [rule_format, of 13] e [rule_format, of 14]
        e [rule_format, of 15] e [rule_format, of 21] e [rule_format, of 22] by simp
  qed (auto simp: long_mode_code_def)
  finally show ?thesis .
qed

text \<open>An address of the upper half: the processor's canonical form with bits 47 to 63 set.\<close>

lemma check_address_iff: "check_address a = Inr () \<longleftrightarrow> 0xffff800000000000 \<le> a"
  by (auto simp: check_address_def bind_res_Inr PAGE_OFFSET_def)

text \<open>
  C40. The start-up check passes exactly in the mode the kernel needs, each condition in terms of the
  bits the processor manual names: protected mode and paging on, four-level paging, long mode enabled and
  active, the kernel's code selector naming a present 64-bit ring 0 code segment, the boot page table
  as root, and both instruction and stack pointer in the upper half. In every other state it panics.
\<close>

theorem verify_boot_mode_exact:
  "(\<exists>printed. verify_boot_mode r = Inr printed) \<longleftrightarrow>
     \<not> reg_if r \<and> bit (reg_cr0 r) 0 \<and> bit (reg_cr0 r) 31 \<and> bit (reg_cr4 r) 5 \<and> \<not> bit (reg_cr4 r) 12
     \<and> bit (efer_low r) 8 \<and> bit (efer_low r) 10 \<and> reg_cs r = 8 \<and> (\<exists>a. reg_lar r 8 = Some a \<and> long_mode_code a)
     \<and> take_bit 40 (drop_bit 12 (reg_cr3 r)) = 0x101
     \<and> 0xffff800000000000 \<le> reg_rip r \<and> 0xffff800000000000 \<le> reg_rsp r"
proof -
  have cr0: "reg_cr0 r AND (CR0_PE OR CR0_PG) = CR0_PE OR CR0_PG \<longleftrightarrow> bit (reg_cr0 r) 0 \<and> bit (reg_cr0 r) 31"
    using and_single(1) [of 0 "reg_cr0 r"] and_single(1) [of 31 "reg_cr0 r"]
    unfolding mask_equal_iff CR0_PE_def CR0_PG_def by simp
  have cr4: "reg_cr4 r AND CR4_PAE \<noteq> 0 \<longleftrightarrow> bit (reg_cr4 r) 5" "reg_cr4 r AND CR4_LA57 = 0 \<longleftrightarrow> \<not> bit (reg_cr4 r) 12"
    unfolding CR4_PAE_def CR4_LA57_def by (subst and_single(2); simp)+
  have low: "bit (efer r) n \<longleftrightarrow> bit (efer_low r) n" if "n < 32" for n
    using that by (simp add: efer_def bit_simps)
  have lm: "efer r AND (EFER_LME OR EFER_LMA) = EFER_LME OR EFER_LMA \<longleftrightarrow> bit (efer_low r) 8 \<and> bit (efer_low r) 10"
    using and_single(1) [of 8 "efer r"] and_single(1) [of 10 "efer r"] low [of 8] low [of 10]
    unfolding mask_equal_iff EFER_LME_def EFER_LMA_def by simp
  show ?thesis
    unfolding verify_boot_mode_def cr0 cr4 lm code64_test cr3_field
    by (auto simp: bind_res_Inr check_address_iff)
qed

end
