(* ===== verification/Memory_Report.thy ===== *)
theory Memory_Report
  imports Memory_Init Text_Format
begin

text \<open>
  What the memory initialisation prints (\<^verbatim>\<open>memory::init\<close> and \<^verbatim>\<open>bootinfo::read_memory_map\<close>): the hand-over
  line, the firmware map, the totals, the zones, the layout of the metadata, the counts of free and reserved pages and the page
  table entries. The figures come from the same map and descriptor; the theorem reads them back from the text.
\<close>

section \<open>The lines\<close>

definition hex18n :: "nat \<Rightarrow> string" where
  "hex18n n = hexadecimal 18 n"

definition handoff_messages :: "memory_map \<Rightarrow> message list" where
  "handoff_messages m =
     [(GREEN, ''E820 handoff OK: version=1, entries='' @ decimal (map_count m) @ '', stride=20; complete, no overlaps'' @ [CHR 0x0a]),
      (GREEN, ''Boot memory layout OK: handoff, stack, VBE scratch, loader, temporary page tables'' @ [CHR 0x0a])]"

text \<open>The line of the self-test the checking build runs inside \<^verbatim>\<open>read_memory_map\<close>.\<close>

definition input_check_message :: message where
  "input_check_message = (GREEN, ''E820 input checks OK: header, overflow, overlaps, ordering, reserved ranges'' @ [CHR 0x0a])"

definition entry_line :: "e820_entry \<Rightarrow> message" where
  "entry_line e = (ORANGE, ''Address:'' @ hex18n (unat (e820_address e)) @ '' Length:'' @ hex18n (unat (e820_length e))
     @ '' Type:'' @ decimal (unat (e820_kind e)) @ [CHR 0x0a])"

definition map_messages :: "memory_map \<Rightarrow> ram_stats \<Rightarrow> message list" where
  "map_messages m stats =
     (BLUE, ''Physical address map (1=RAM, 2=reserved, 3=ACPI reclaim, 4=NVS, 5=bad)'' @ [CHR 0x0a])
     # map entry_line (entries m)
     @ [(ORANGE, ''OS usable RAM:'' @ hex18n (unat (total_ram stats)) @ ''; usable 2M pages:''
          @ decimal (total_pages stats) @ [CHR 0x0a])]"

text \<open>The counts the consistency check has just found equal to those of the zone.\<close>

definition zone_line :: "memory_descriptor \<Rightarrow> usize \<Rightarrow> message" where
  "zone_line d i = (let z = md_zones d ! i in
     (ORANGE, ''Zone '' @ decimal i @ '': '' @ hex18n (zn_start_address z) @ ''..'' @ hex18n (zn_end_address z)
       @ '', pages='' @ decimal (zn_number_pages z) @ '' free='' @ decimal (zn_page_free_count z)
       @ '' used='' @ decimal (zn_page_using_count z) @ '' refs='' @ decimal (zn_total_pages_ref_count z) @ [CHR 0x0a]))"

definition counts_line :: "usize \<Rightarrow> usize \<Rightarrow> message" where
  "counts_line n_free n_reserved =
     (GREEN, ''Memory invariants OK: free='' @ decimal n_free @ '' reserved='' @ decimal n_reserved @ [CHR 0x0a])"

record image_symbols =
  sym_text :: usize
  sym_endtext :: usize
  sym_enddata :: usize
  sym_end :: usize

definition layout_messages :: "image_symbols \<Rightarrow> memory_descriptor \<Rightarrow> message list" where
  "layout_messages linked d =
     [(ORANGE, ''bits_map:'' @ hex18n (md_bits_map_addr d) @ '' bits_size:'' @ decimal (md_bits_size d)
        @ '' bits_length:'' @ decimal (md_bits_length d) @ [CHR 0x0a]),
      (ORANGE, ''pages:'' @ hex18n (md_pages_addr d) @ '' pages_length:'' @ decimal (md_pages_length d)
        @ '' zones:'' @ hex18n (md_zones_addr d) @ '' zones_count:'' @ decimal (md_zones_size d) @ [CHR 0x0a]),
      (ORANGE, ''start_code:'' @ hex18n (sym_text linked) @ '' end_code:'' @ hex18n (sym_endtext linked)
        @ '' end_data:'' @ hex18n (sym_enddata linked) @ '' end_brk:'' @ hex18n (sym_end linked)
        @ '' end_of_struct:'' @ hex18n (md_end_of_struct d) @ [CHR 0x0a])]"

text \<open>The first entries of the two upper tables, read before the low half is removed.\<close>

definition table_messages :: "u64 \<Rightarrow> (usize \<Rightarrow> u64) \<Rightarrow> message list" where
  "table_messages cr3 tables =
     (let pml4 = uadd PAGE_OFFSET (unat cr3);
          pdpt = uadd PAGE_OFFSET (unat (tables pml4 AND 0x000ffffffffff000))
      in [(INDIGO, ''Global_CR3:'' @ hex18n (unat cr3) @ '' PML4[0]:'' @ hex18n (unat (tables pml4)) @ [CHR 0x0a]),
          (PURPLE, ''PDPT[0]:'' @ hex18n (unat (tables pdpt)) @ [CHR 0x0a]),
          (GREEN, ''Identity mapping removed; high-half mapping retained'' @ [CHR 0x0a])])"

text \<open>
  The initialisation with its output; the map and the statistics are those \<open>memory_init\<close> reads and computes itself.
\<close>

definition memory_init_printed :: "bool \<Rightarrow> image_symbols \<Rightarrow> (nat \<Rightarrow> u8) \<Rightarrow> u64 \<Rightarrow> (usize \<Rightarrow> u64)
    \<Rightarrow> (message list \<times> memory_descriptor \<times> (usize \<Rightarrow> u64) \<times> usize \<times> usize) res" where
  "memory_init_printed memory_check linked handoff cr3 tables =
     bind_res (read_memory_map handoff) (\<lambda>m.
     bind_res (if memory_check then bootinfo_verify else Inr ()) (\<lambda>_.
     bind_res (stats_loop (map_entries m) (map_count m)) (\<lambda>stats.
     bind_res (memory_init (sym_text linked) (sym_end linked) handoff cr3 tables) (\<lambda>(d, tables', free, reserved).
     Inr ((if memory_check then [input_check_message] else []) @ handoff_messages m @ map_messages m stats @ map (zone_line d) [0..<md_zones_size d] @ layout_messages linked d
            @ [counts_line free reserved] @ table_messages cr3 tables,
          d, tables', free, reserved)))))"

section \<open>Reading the report\<close>

text \<open>The lines of the firmware map and the line of the counts, recognised by their first character.\<close>

definition read_entry_text :: "string \<Rightarrow> nat \<times> nat \<times> nat" where
  "read_entry_text s = (text_value 16 (take 16 (drop 10 s)), text_value 16 (take 16 (drop 36 s)),
     text_value 10 (butlast (drop 58 s)))"

definition reported_entries :: "message list \<Rightarrow> (nat \<times> nat \<times> nat) list" where
  "reported_entries ms = map (\<lambda>(c, s). read_entry_text s) (filter (\<lambda>(c, s). take 8 s = ''Address:'') ms)"

definition reported_counts :: "message list \<Rightarrow> (nat \<times> nat) list" where
  "reported_counts ms = map (\<lambda>(c, s). let t = drop 27 s in
       (text_value 10 (takeWhile (\<lambda>c. c \<noteq> CHR '' '') t),
        text_value 10 (butlast (drop 10 (dropWhile (\<lambda>c. c \<noteq> CHR '' '') t)))))
     (filter (\<lambda>(c, s). take 17 s = ''Memory invariants'') ms)"

definition reported_ram :: "message list \<Rightarrow> nat list" where
  "reported_ram ms = map (\<lambda>(c, s). text_value 16 (take 16 (drop 16 s))) (filter (\<lambda>(c, s). take 13 s = ''OS usable RAM'') ms)"

lemma length_hex18n: "n < 2 ^ 64 \<Longrightarrow> length (hex18n n) = 18"
  using length_hexadecimal_u64 [of "of_nat n"] by (simp add: hex18n_def unsigned_of_nat take_bit_nat_eq_self)

lemma hex18n_split: "n < 2 ^ 64 \<Longrightarrow> \<exists>ds. hex18n n = CHR ''0'' # CHR ''x'' # ds \<and> length ds = 16 \<and> text_value 16 ds = n"
  using length_hex18n [of n] hexadecimal_value [of 18 n] unfolding hex18n_def
  by (auto simp: hexadecimal_def Let_def)

lemma unat_u64_less: "unat (x :: u64) < 2 ^ 64"
  using unsigned_less [of x] by simp

lemma read_entry_line: "read_entry_text (snd (entry_line e)) = (unat (e820_address e), unat (e820_length e), unat (e820_kind e))"
proof -
  obtain as where a: "hex18n (unat (e820_address e)) = CHR ''0'' # CHR ''x'' # as" "length as = 16"
      "text_value 16 as = unat (e820_address e)" using hex18n_split [OF unat_u64_less] by blast
  obtain ls where l: "hex18n (unat (e820_length e)) = CHR ''0'' # CHR ''x'' # ls" "length ls = 16"
      "text_value 16 ls = unat (e820_length e)" using hex18n_split [OF unat_u64_less] by blast
  show ?thesis
    using a(2,3) l(2,3) by (simp add: entry_line_def read_entry_text_def a(1) l(1) decimal_value butlast_append)
qed

lemma decimal_no_space: "c \<in> set (decimal n) \<Longrightarrow> c \<noteq> CHR '' ''"
  using digits_text_set [of 10 n] unfolding decimal_def by auto

lemma read_counts_line:
  "reported_counts [counts_line f r] = [(f, r)]"
  using decimal_no_space [of _ f]
  by (simp add: counts_line_def reported_counts_def takeWhile_append dropWhile_append decimal_value butlast_append Let_def)

text \<open>The lines that are not of the wanted kind.\<close>

lemmas message_lines = handoff_messages_def map_messages_def zone_line_def layout_messages_def table_messages_def Let_def

lemma reported_append:
  "reported_entries (xs @ ys) = reported_entries xs @ reported_entries ys"
  "reported_counts (xs @ ys) = reported_counts xs @ reported_counts ys"
  "reported_ram (xs @ ys) = reported_ram xs @ reported_ram ys"
  by (simp_all add: reported_entries_def reported_counts_def reported_ram_def)

lemma reported_zone_lines:
  "reported_entries (map (zone_line d) is) = []" "reported_counts (map (zone_line d) is) = []" "reported_ram (map (zone_line d) is) = []"
  by (induction "is") (simp_all add: reported_entries_def reported_counts_def reported_ram_def zone_line_def Let_def)

lemma reported_entry_lines:
  "reported_entries (map entry_line es) = map (\<lambda>e. (unat (e820_address e), unat (e820_length e), unat (e820_kind e))) es"
  "reported_counts (map entry_line es) = []" "reported_ram (map entry_line es) = []"
proof -
  have "reported_entries [entry_line e] = [(unat (e820_address e), unat (e820_length e), unat (e820_kind e))]" for e
    using read_entry_line [of e] by (simp add: reported_entries_def) (simp add: entry_line_def)
  then have one: "reported_entries (entry_line e # ms) = (unat (e820_address e), unat (e820_length e), unat (e820_kind e)) # reported_entries ms" for e ms
    using reported_append(1) [of "[entry_line e]" ms] by simp
  show "reported_entries (map entry_line es) = map (\<lambda>e. (unat (e820_address e), unat (e820_length e), unat (e820_kind e))) es"
    by (induction es) (simp_all add: one, simp add: reported_entries_def)
  show "reported_counts (map entry_line es) = []" "reported_ram (map entry_line es) = []"
    by (induction es) (simp_all add: reported_counts_def reported_ram_def entry_line_def)
qed

lemma reported_map:
  "reported_entries (map_messages m stats) = map (\<lambda>e. (unat (e820_address e), unat (e820_length e), unat (e820_kind e))) (entries m)"
  "reported_counts (map_messages m stats) = []" "reported_ram (map_messages m stats) = [unat (total_ram stats)]"
proof -
  let ?title = "(BLUE, ''Physical address map (1=RAM, 2=reserved, 3=ACPI reclaim, 4=NVS, 5=bad)'' @ [CHR 0x0a])"
  let ?total = "(ORANGE, ''OS usable RAM:'' @ hex18n (unat (total_ram stats)) @ ''; usable 2M pages:'' @ decimal (total_pages stats) @ [CHR 0x0a])"
  have ms: "map_messages m stats = [?title] @ map entry_line (entries m) @ [?total]" by (simp add: map_messages_def)
  obtain ds where "hex18n (unat (total_ram stats)) = CHR ''0'' # CHR ''x'' # ds" "length ds = 16" "text_value 16 ds = unat (total_ram stats)"
    using hex18n_split [OF unat_u64_less] by blast
  then have t: "reported_ram [?total] = [unat (total_ram stats)]" by (simp add: reported_ram_def)
  have "reported_entries [?title] = []" "reported_counts [?title] = []" "reported_ram [?title] = []"
    "reported_entries [?total] = []" "reported_counts [?total] = []"
    by (simp_all add: reported_entries_def reported_counts_def reported_ram_def)
  then show "reported_entries (map_messages m stats) = map (\<lambda>e. (unat (e820_address e), unat (e820_length e), unat (e820_kind e))) (entries m)"
    "reported_counts (map_messages m stats) = []" "reported_ram (map_messages m stats) = [unat (total_ram stats)]"
    unfolding ms reported_append using t reported_entry_lines by simp_all
qed

lemma reported_others:
  "reported_entries (handoff_messages m) = []" "reported_counts (handoff_messages m) = []" "reported_ram (handoff_messages m) = []"
  "reported_entries (layout_messages linked d) = []" "reported_counts (layout_messages linked d) = []" "reported_ram (layout_messages linked d) = []"
  "reported_entries (table_messages cr3 t) = []" "reported_counts (table_messages cr3 t) = []" "reported_ram (table_messages cr3 t) = []"
  "reported_entries [counts_line f r] = []" "reported_ram [counts_line f r] = []"
  "reported_entries (if b then [input_check_message] else []) = []" "reported_counts (if b then [input_check_message] else []) = []"
  "reported_ram (if b then [input_check_message] else []) = []"
  by (simp_all add: reported_entries_def reported_counts_def reported_ram_def handoff_messages_def layout_messages_def
      table_messages_def counts_line_def input_check_message_def Let_def)

text \<open>The total the loop computes is the sum of the RAM entries, without wrap-around.\<close>

lemma stats_total_ram:
  assumes "stats_loop es n = Inr stats"
  shows "n \<le> length es \<and> unat (total_ram stats) = (\<Sum>e\<leftarrow>take n es. if e820_kind e = 1 then unat (e820_length e) else 0)"
proof -
  let ?I = "\<lambda>k st. k \<le> length es \<and> unat (total_ram st) = (\<Sum>e\<leftarrow>take k es. if e820_kind e = 1 then unat (e820_length e) else 0)"
  show ?thesis
  proof (rule for_range_partial [where I = ?I, OF assms [unfolded stats_loop_def]])
    fix i st st'
    assume I: "?I i st" and b: "bind_res (if i < length es then Inr (es ! i)
        else Inl (Panic ''index out of bounds'')) (\<lambda>e. account_entry e st) = Inr st'"
    then have i: "i < length es" and a: "account_entry (es ! i) st = Inr st'" by (auto split: if_splits)
    have "unat (total_ram st') = unat (total_ram st) + (if e820_kind (es ! i) = 1 then unat (e820_length (es ! i)) else 0)"
    proof (cases "e820_length (es ! i) = 0")
      case True
      then show ?thesis using a by (simp add: account_entry_def)
    next
      case False
      obtain en where en: "entry_end (es ! i) = Inr en"
        using a False by (cases "entry_end (es ! i)") (simp_all add: account_entry_def)
      obtain r where r: "usable_range (es ! i) = Inr r" using account_entry_Inr [OF a] by blast
      show ?thesis
      proof (cases "e820_kind (es ! i) = 1")
        case True
        then obtain c where c: "checked_add_u64 (total_ram st) (e820_length (es ! i)) = Some c"
          using a False en by (cases "checked_add_u64 (total_ram st) (e820_length (es ! i))") (simp_all add: account_entry_def Let_def expect_simps)
        then have "total_ram st' = c"
          using a False en r True by (cases r) (auto simp: account_entry_def Let_def expect_simps)
        with c True show ?thesis by (simp add: checked_add_u64_Some unat_add_u64)
      next
        case no: False
        then have "total_ram st' = total_ram st"
          using a False en r by (cases r) (auto simp: account_entry_def Let_def)
        with no show ?thesis by simp
      qed
    qed
    then show "?I (Suc i) st'" using I i by (simp add: take_Suc_conv_app_nth)
  qed simp_all
qed

text \<open>The printing computation succeeds exactly when the initialisation does, with the same result.\<close>

definition report_of :: "bool \<Rightarrow> image_symbols \<Rightarrow> memory_map \<Rightarrow> ram_stats \<Rightarrow> u64 \<Rightarrow> (usize \<Rightarrow> u64) \<Rightarrow> memory_descriptor
    \<Rightarrow> usize \<Rightarrow> usize \<Rightarrow> message list" where
  "report_of memory_check linked m stats cr3 tables d n_free n_reserved =
     (if memory_check then [input_check_message] else []) @ handoff_messages m @ map_messages m stats
     @ map (zone_line d) [0..<md_zones_size d] @ layout_messages linked d @ [counts_line n_free n_reserved] @ table_messages cr3 tables"

lemma memory_init_prints:
  assumes "memory_init (sym_text linked) (sym_end linked) handoff cr3 tables = Inr (d, tables', free, reserved)"
  shows "\<exists>m stats. read_memory_map handoff = Inr m \<and> stats_loop (map_entries m) (map_count m) = Inr stats
    \<and> memory_init_printed memory_check linked handoff cr3 tables
      = Inr (report_of memory_check linked m stats cr3 tables d free reserved, d, tables', free, reserved)"
proof -
  obtain m d1 where m: "read_memory_map handoff = Inr m" "build_metadata (sym_text linked) (sym_end linked) m = Inr (d1, reserved)"
    using assms by (auto simp: memory_init_Inr)
  then obtain stats where st: "stats_loop (map_entries m) (map_count m) = Inr stats"
    by (auto simp: build_metadata_def Let_def bind_res_Inr stats_loop_e820)
  have "(if memory_check then bootinfo_verify else Inr ()) = Inr ()" by (simp add: bootinfo_verify_passes)
  then show ?thesis
    by (intro exI [of _ m] exI [of _ stats]) (simp add: memory_init_printed_def report_of_def m(1) st assms del: if_split)
qed

text \<open>
  C12. The report of the memory initialisation is true and complete. Read back from its text, the printed firmware map is the
  hand-over's, every entry with its address, length and type in order; the RAM total is the sum of its RAM entries, and the
  counts are the number of pages the allocator will find free and of pages kept. The text exists whenever the initialisation succeeds.
\<close>

theorem memory_report_true:
  assumes "memory_init (sym_text linked) (sym_end linked) handoff cr3 tables = Inr (d, tables', free, reserved)"
  shows "\<exists>m printed. read_memory_map handoff = Inr m
    \<and> memory_init_printed memory_check linked handoff cr3 tables = Inr (printed, d, tables', free, reserved)
    \<and> reported_entries printed = map (\<lambda>e. (unat (e820_address e), unat (e820_length e), unat (e820_kind e))) (entries m)
    \<and> reported_ram printed = [\<Sum>e\<leftarrow>entries m. if e820_kind e = 1 then unat (e820_length e) else 0]
    \<and> reported_counts printed = [(card (free_pages d), reserved)]"
proof -
  obtain m stats where m: "read_memory_map handoff = Inr m" and st: "stats_loop (map_entries m) (map_count m) = Inr stats"
    and run: "memory_init_printed memory_check linked handoff cr3 tables
      = Inr (report_of memory_check linked m stats cr3 tables d free reserved, d, tables', free, reserved)"
    using memory_init_prints [OF assms, of memory_check] by blast
  have ram: "unat (total_ram stats) = (\<Sum>e\<leftarrow>entries m. if e820_kind e = 1 then unat (e820_length e) else 0)"
    using stats_total_ram [OF st] by (simp add: entries_def)
  have free: "free = card (free_pages d)" using memory_init_facts [OF assms] by blast
  let ?printed = "report_of memory_check linked m stats cr3 tables d free reserved"
  have "reported_entries ?printed = map (\<lambda>e. (unat (e820_address e), unat (e820_length e), unat (e820_kind e))) (entries m)"
    "reported_ram ?printed = [\<Sum>e\<leftarrow>entries m. if e820_kind e = 1 then unat (e820_length e) else 0]"
    "reported_counts ?printed = [(card (free_pages d), reserved)]"
    by (simp_all only: report_of_def reported_append reported_others reported_map reported_zone_lines read_counts_line ram free
        append_Nil append_Nil2)
  then show ?thesis using m run by blast
qed

theorem memory_report_true_witness:
  "\<exists>printed d t free reserved.
     memory_init_printed True \<lparr>sym_text = example_text, sym_endtext = example_text, sym_enddata = example_end, sym_end = example_end\<rparr>
       example_memory 0x1000 example_tables = Inr (printed, d, t, free, reserved)
     \<and> (0x100000, 0xf00000, 1) \<in> set (reported_entries printed) \<and> reported_counts printed = [(card (free_pages d), reserved)]"
proof -
  let ?linked = "\<lparr>sym_text = example_text, sym_endtext = example_text, sym_enddata = example_end, sym_end = example_end\<rparr>"
  obtain d t free reserved where i: "memory_init (sym_text ?linked) (sym_end ?linked) example_memory 0x1000 example_tables =
      Inr (d, t, free, reserved)" using example_init by auto
  obtain m printed where p: "read_memory_map example_memory = Inr m"
      "memory_init_printed True ?linked example_memory 0x1000 example_tables = Inr (printed, d, t, free, reserved)"
      "reported_entries printed = map (\<lambda>e. (unat (e820_address e), unat (e820_length e), unat (e820_kind e))) (entries m)"
      "reported_counts printed = [(card (free_pages d), reserved)]"
    using memory_report_true [OF i, of True] by blast
  have "m = example_handoff" using p(1) example_read by simp
  then have "(0x100000, 0xf00000, 1) \<in> set (reported_entries printed)"
    using p(3) by (simp add: example_entries_of example_entries_def)
  then show ?thesis using p(2,4) by blast
qed

end
