(* ===== verification/Kernel_Start.thy ===== *)
theory Kernel_Start
  imports Console Processor Allocator_Check Keyboard_Init Interrupts Task_Demo User_Session Memory_Report
begin

text \<open>
  The start of the kernel (\<^verbatim>\<open>Start_Kernel\<close> in \<^verbatim>\<open>src/kernel/main.rs\<close>): the initialisation of every part in
  the order of the source and the handing over of what each part leaves for the next, up to the
  main loop, with every line of the log in its order; \<open>Console\<close> says how a line is printed. What is
  outside the kernel is the environment \<open>kernel_env\<close>: memory as the loader left it, registers,
  addresses of symbols, devices with the interrupts they raise, and the user program.
\<close>

section \<open>The page demonstration\<close>

definition page_demo :: "memory_descriptor \<Rightarrow> stack_words \<Rightarrow> (memory_descriptor \<times> stack_words) res" where
  "page_demo d w =
     bind_res (allocate d Mapped 1) (\<lambda>(r, d1).
     bind_res (expect_ok r ''no free bootstrap-mapped page'') (\<lambda>mapped.
     bind_res (allocate d1 Any 1) (\<lambda>(r, d2).
     bind_res (expect_ok r ''no free physical page'') (\<lambda>physical.
     bind_res (ensure (physical_address mapped \<noteq> physical_address physical)
       ''mapped.physical_address() != physical.physical_address()'') (\<lambda>_.
     let first = uadd PAGE_OFFSET (physical_address mapped);
         last = uadd first (usub (umul (run_count mapped) PAGE_2M_SIZE) 8);
         w1 = (w(first := 0x4d494b4f4f530001))(last := 0x4d494b4f4f530002)
     in bind_res (ensure (w1 first = 0x4d494b4f4f530001) ''first.read_volatile()'') (\<lambda>_.
        bind_res (ensure (w1 last = 0x4d494b4f4f530002) ''last.read_volatile()'') (\<lambda>_.
        bind_res (release d2 physical) (\<lambda>d3.
        bind_res (release d3 mapped) (\<lambda>d4.
        Inr (d4, w1))))))))))"

section \<open>Start-up\<close>

record 'w kernel_env =
  ke_ports :: "'w ports"
  ke_bytes :: "nat \<Rightarrow> u8"
  ke_words :: stack_words
  ke_tables :: table_memory
  ke_registers :: boot_registers
  ke_text :: usize
  ke_endtext :: usize
  ke_enddata :: usize
  ke_end :: usize
  ke_gdt :: "u64 list"
  ke_stacks :: "u64 \<times> u64 \<times> u64"
  ke_tss_base :: u64
  ke_exceptions :: "nat \<Rightarrow> u64"
  ke_irq_entries :: "nat \<Rightarrow> u64"
  ke_deliveries :: "'w delivery list"
  ke_boot_stack :: usize
  ke_boot_top :: usize
  ke_code :: task_code
  ke_demo :: demo_env
  ke_cpu :: cpu
  ke_layout :: user_layout
  ke_program :: "user_event list"
  ke_msrs :: msrs
  ke_memory_check :: bool
  ke_syscall_check :: bool
  ke_irq_check :: bool
  ke_keyboard_check :: bool
  ke_registers_changed :: u64

record kernel_state =
  ks_tss :: tss
  ks_gdt :: "u64 list"
  ks_idt :: idt
  ks_memory :: memory_descriptor
  ks_tables :: table_memory
  ks_irq :: irq_state
  ks_tasks :: "nat \<Rightarrow> kernel_task option"
  ks_current :: nat
  ks_msrs :: msrs

text \<open>The states the two demonstrations start from.\<close>

definition task_start :: "'w kernel_env \<Rightarrow> tss \<Rightarrow> memory_descriptor \<Rightarrow> stack_words \<Rightarrow> task_machine" where
  "task_start e tss d w = \<lparr>tm_tasks = [boot_task_at (ke_code e) \<mapsto> BOOT_TASK_INITIAL], tm_current = 0, tm_next_pid = 1,
     tm_tss = tss, tm_memory = d, tm_words = w, tm_cpu = ke_cpu e,
     tm_interrupts = reg_if (ke_registers e), tm_cr3 = reg_cr3 (ke_registers e)\<rparr>"

definition user_start :: "'w kernel_env \<Rightarrow> tss \<Rightarrow> idt \<Rightarrow> memory_descriptor \<Rightarrow> table_memory \<Rightarrow> user_machine" where
  "user_start e tss idt d tables = \<lparr>um_memory = d, um_tables = tables, um_bytes = ke_bytes e, um_tss = tss, um_idt = idt,
     um_msrs = ke_msrs e, um_cr0 = reg_cr0 (ke_registers e), um_active = False, um_canary = 0\<rparr>"

definition start_layout :: "'w kernel_env \<Rightarrow> user_layout" where
  "start_layout e = (ke_layout e)\<lparr>ul_cr3 := reg_cr3 (ke_registers e), ul_cs := reg_cs (ke_registers e)\<rparr>"

definition linked_image :: "'w kernel_env \<Rightarrow> image_symbols" where
  "linked_image e = \<lparr>sym_text = ke_text e, sym_endtext = ke_endtext e, sym_enddata = ke_enddata e, sym_end = ke_end e\<rparr>"

text \<open>The lines that are printed between the parts and by the interrupt controllers and the keyboard driver.\<close>

definition hello_message :: message where
  "hello_message = (YELLOW, ''Hello'' @ [CHR 0x09] @ ''Miko'' @ [CHR 0x09] @ ''OS!'' @ [CHR 0x0a])"
definition gates_message :: message where
  "gates_message = (GREEN, ''GDT/IDT/TSS ready'' @ [CHR 0x0a])"
definition memory_message :: message where
  "memory_message = (RED, ''init memory'' @ [CHR 0x0a])"
definition page_message :: message where
  "page_message = (GREEN, ''Physical page allocation/read-write/free OK'' @ [CHR 0x0a])"
definition controllers_message :: message where
  "controllers_message = (GREEN, ''8259A ready: vectors=0x20..0x2f, all IRQs masked'' @ [CHR 0x0a])"
definition context_message :: message where
  "context_message = (GREEN, ''IRQ context checks OK: GPRs, RFLAGS, RSP; software IRQ7/15 spurious paths'' @ [CHR 0x0a])"
definition timer_message :: message where
  "timer_message = (GREEN, ''PIT IRQ0 delivered twice; PIC EOI and IRETQ return OK'' @ [CHR 0x0a])"
definition queue_message :: message where
  "queue_message = (GREEN, ''Keyboard queue checks OK: wraparound, FIFO, overflow'' @ [CHR 0x0a])"
definition keyboard_message :: message where
  "keyboard_message = (GREEN, ''PS/2 keyboard ready: IRQ1, translated set 1 scan bytes'' @ [CHR 0x0a])"
definition kernel_message :: message where
  "kernel_message = (GREEN, ''MikoOS Rust kernel ready'' @ [CHR 0x0a])"

text \<open>
  The log, what printing it made of console and debug port, and the state at the main loop. No state: the kernel never gets there, because it still waits for the timer, or
  because the user program does not finish or is stopped by a reported fault.
\<close>

definition start_kernel :: "'w kernel_env \<Rightarrow> ('w, message list \<times> console_state \<times> kernel_state option) io" where
  "start_kernel e =
     (let r = ke_registers e; p = ke_ports e; (exception_stack, double_stack, irq_stack) = ke_stacks e in
      bind_io (lift_io (console_init (ke_bytes e))) (\<lambda>(c, ready).
      let screen = (\<lambda>log. print_all log (console_start c ready)) in
      let (tss, gdt) = gate_init exception_stack double_stack irq_stack (of_nat (ke_boot_top e)) (ke_tss_base e) (TSS_INITIAL, ke_gdt e);
          idt0 = trap_init (ke_exceptions e) (ul_exception_255 (start_layout e)) IDT_INITIAL in
      bind_io (lift_io (verify_boot_mode r)) (\<lambda>mode_lines.
      bind_io (lift_io (memory_init_printed (ke_memory_check e) (linked_image e) (ke_bytes e) (reg_cr3 r) (ke_tables e)))
        (\<lambda>(report, d0, tables, free, reserved).
      bind_io (lift_io (page_demo d0 (ke_words e))) (\<lambda>(d1, words).
      bind_io (lift_io (if ke_memory_check e then bind_res (verify_allocator d1) (\<lambda>(line, d). Inr ([line], d)) else Inr ([], d1)))
        (\<lambda>(check_lines, d2).
      bind_io (interrupt_init p (reg_if r) (ke_irq_entries e) idt0) (\<lambda>idt1.
      bind_io (if ke_irq_check e then verify_context p (reg_if r) (ke_registers_changed e) irq_state_initial
               else return_io irq_state_initial) (\<lambda>irq0.
      let log1 = [hello_message, gates_message] @ mode_lines @ [memory_message] @ report @ [page_message] @ check_lines
            @ [controllers_message] @ (if ke_irq_check e then [context_message] else []) in
      bind_io (demonstrate_timer p (ke_irq_check e) (reg_if r) (ke_deliveries e) irq0) (\<lambda>timer.
      case timer of None \<Rightarrow> return_io (log1, screen log1, None) | Some irq \<Rightarrow>
      bind_io (lift_io (demonstrate_tasks (ke_code e) (ke_demo e) (ke_boot_stack e) (ke_boot_top e) 4 (task_start e tss d2 words))) (\<lambda>tasks.
      case tasks of None \<Rightarrow> return_io (log1 @ [timer_message], screen (log1 @ [timer_message]), None) | Some (task_lines, tm) \<Rightarrow>
      bind_io (lift_io (demonstrate_user (start_layout e) (ke_syscall_check e) (reg_if r) (ke_program e)
          (user_start e (tm_tss tm) idt1 (tm_memory tm) tables))) (\<lambda>(user_lines, outcome, um).
      let log2 = log1 @ [timer_message] @ task_lines @ user_lines in
      case outcome of Finished _ \<Rightarrow>
        then_io (keyboard_init p (reg_if r)
            (then_io (lift_io (if ke_keyboard_check e then verify_queue else Inr ())) (enable_keyboard p (reg_if r))))
          (let log3 = log2 @ (if ke_keyboard_check e then [queue_message] else []) @ [keyboard_message, kernel_message] in
           return_io (log3, screen log3,
             Some \<lparr>ks_tss = um_tss um, ks_gdt = gdt, ks_idt = um_idt um, ks_memory = um_memory um,
               ks_tables = um_tables um, ks_irq = irq, ks_tasks = tm_tasks tm, ks_current = tm_current tm, ks_msrs = um_msrs um\<rparr>))
      | _ \<Rightarrow> return_io (log2, screen log2, None))))))))))))"

text \<open>The whole log, from the lines of the mode check and the memory report, the thread's page and the texts of the user program.\<close>

definition boot_log :: "'w kernel_env \<Rightarrow> message list \<Rightarrow> message list \<Rightarrow> usize \<Rightarrow> usize \<Rightarrow> string list \<Rightarrow> message list" where
  "boot_log e mode_lines report free base texts =
     [hello_message, gates_message] @ mode_lines @ [memory_message] @ report @ [page_message]
     @ (if ke_memory_check e then [check_message free] else []) @ [controllers_message]
     @ (if ke_irq_check e then [context_message] else []) @ [timer_message]
     @ [thread_message 1 (base + 4104) (base + 32768), init_message, yield_message, resume_message, exit_message 1 1, demo_message]
     @ [sysenter_message, ready_message] @ map (Pair GREEN) texts @ return_messages (ke_syscall_check e) @ [cleanup_message]
     @ (if ke_keyboard_check e then [queue_message] else []) @ [keyboard_message, kernel_message]"

text \<open>
  The lines \<^verbatim>\<open>scripts/smoke.py\<close> demands of the kernel in an ordinary run: all but the two of the loader and the text of the
  user program.
\<close>

definition smoke_lines :: "string list" where
  "smoke_lines = [''VBE console ready'', ''E820 handoff OK: version=1, entries='',
     ''Boot memory layout OK: handoff, stack, VBE scratch, loader, temporary page tables'',
     ''Hello'' @ [CHR 0x09] @ ''Miko'' @ [CHR 0x09] @ ''OS!'', ''GDT/IDT/TSS ready'',
     ''Processor mode OK: IA-32e active, 64-bit code, CPL0; 4-level paging, canonical RIP/RSP'',
     ''Memory invariants OK'', ''Identity mapping removed; high-half mapping retained'',
     ''Physical page allocation/read-write/free OK'', ''8259A ready: vectors=0x20..0x2f, all IRQs masked'',
     ''PIT IRQ0 delivered twice; PIC EOI and IRETQ return OK'', ''Kernel thread created: pid=1'',
     ''init task is running, arg=0x000000000000000a'', ''Bootstrap task resumed: init yielded'',
     ''init task resumed after yielding'', ''Kernel thread exit: pid=1 code=1'',
     ''Kernel thread demo OK: yield, resume, exit=1; page reclaimed'',
     ''User mapping ready: code=0x800000 R-X, stack=0x9ff000 RW-NX; kernel supervisor'',
     ''SYSENTER ready: CS=0x8, dedicated kernel stack, 128 services'',
     ''System call demo OK: SYSENTER/SYSEXIT64 returned to ring3; write=19, ENOSYS=-38'',
     ''User mode OK: CS=0x2b SS=0x33 CPL=3, Rust stack/result verified; INT 0x80 used TSS.RSP0'',
     ''User demo cleanup OK: ring0 restored, low mapping removed, page reclaimed'',
     ''PS/2 keyboard ready: IRQ1, translated set 1 scan bytes'', ''MikoOS Rust kernel ready'']"

definition shows_line :: "u8 list \<Rightarrow> string \<Rightarrow> bool" where
  "shows_line port line \<longleftrightarrow> sublist (string_bytes line) port"

section \<open>The page demonstration passes\<close>

lemma free_page_available:
  assumes wf: "md_wf d" and i: "i \<in> free_pages d" "area = Mapped \<Longrightarrow> i < 5"
  shows "\<exists>r d'. allocate d area 1 = Inr (Inr r, d')"
proof -
  have l: "layout_ok d" using wf by (simp add: md_wf_def)
  have ib: "i < md_bits_size d" "\<not> page_used d i" using i(1) by (simp_all add: free_pages_def)
  obtain z where "pg_zone (md_pages d ! i) = Some z" using free_page_state(3) [OF wf ib] by blast
  then have z: "in_zone d z i" using zone_of_page [OF l ib(1)] by blast
  then have "z < md_zones_size d" "md_zones_size d \<le> length (md_zones d)" using l by (simp_all add: in_zone_def layout_ok_def)
  then have "zone_window area (md_zones d ! z) \<in> set (zone_windows d area)"
    by (auto simp: zone_windows_def in_set_conv_nth intro!: imageI exI [of _ z])
  moreover have "i + 1 \<le> zn_end_address (md_zones d ! z) div PAGE_2M_SIZE" using z by (simp add: in_zone_def zone_last_def)
  then have "(i + 1) * PAGE_2M_SIZE \<le> zn_end_address (md_zones d ! z)" by (simp add: less_eq_div_iff_mult_less_eq PAGE_2M_SIZE_def)
  moreover have "area = Mapped \<Longrightarrow> (i + 1) * PAGE_2M_SIZE \<le> DIRECT_RAM_END" using i(2) by (simp add: PAGE_2M_SIZE_def DIRECT_RAM_END_def)
  ultimately have "(zone_first (md_zones d ! z), zone_end_address area (md_zones d ! z) div PAGE_2M_SIZE) \<in> set (zone_windows d area)"
      "(i + 1) * PAGE_2M_SIZE \<le> zone_end_address area (md_zones d ! z)"
    by (auto simp: zone_window_def zone_end_address_def split: allocation_area.splits)
  moreover from this(2) have "i + 1 \<le> zone_end_address area (md_zones d ! z) div PAGE_2M_SIZE"
    by (simp add: less_eq_div_iff_mult_less_eq PAGE_2M_SIZE_def)
  moreover have "{i..<i + 1} \<subseteq> free_pages d" using i(1) by auto
  moreover have "zone_first (md_zones d ! z) \<le> i" using z by (simp add: in_zone_def)
  ultimately have "available d area 1 i" unfolding available_def by blast
  then have "allocate d area 1 \<noteq> Inr (Inl OutOfMemory, d)" using allocate_exhausted [OF wf, of area 1] by blast
  then show ?thesis using allocate_spec [OF wf, of 1 area] by (auto split: option.splits)
qed

lemma page_demo_ok:
  assumes wf: "md_wf d" and a: "allocate d Mapped 1 = Inr (Inr r, d1)" and two: "2 \<le> card (free_pages d)"
  shows "\<exists>w'. page_demo d w = Inr (d, w')"
proof -
  note R = allocate_result [OF wf a]
  then have wf1: "md_wf d1" and one: "run_count r = 1" and free: "free_pages d1 = free_pages d - run_pages r" by blast+
  have "card (run_pages r) = 1" by (simp add: run_pages_def one)
  have "finite (free_pages d)" by (rule finite_subset [of _ "{..<md_bits_size d}"]) (auto simp: free_pages_def)
  moreover have "\<not> free_pages d \<subseteq> run_pages r"
  proof
    assume "free_pages d \<subseteq> run_pages r"
    then have "card (free_pages d) \<le> card (run_pages r)" by (rule card_mono [rotated]) (simp add: run_pages_def)
    with two \<open>card (run_pages r) = 1\<close> show False by simp
  qed
  ultimately obtain i where i: "i \<in> free_pages d1" using free by blast
  then obtain r' d2 where b: "allocate d1 Any 1 = Inr (Inr r', d2)"
    using free_page_available [OF wf1] by blast
  note R' = allocate_result [OF wf1 b]
  have "run_pages r \<inter> run_pages r' = {}" using R' free by blast
  moreover have "run_count r' = 1" using R' by blast
  ultimately have "run_first r \<noteq> run_first r'" by (auto simp: run_pages_def one)
  moreover have phys: "physical_address x = run_first x * PAGE_2M_SIZE" if "owned_run s x" "md_wf s" for x s
  proof -
    have "run_first x \<le> md_bits_size s" using that(1) by (simp add: owned_run_def)
    then have "run_first x * PAGE_2M_SIZE \<le> md_bits_size s * PAGE_2M_SIZE" by (rule mult_le_mono1)
    also have "\<dots> < usize_range" using that(2) by (simp add: md_wf_def layout_ok_def)
    finally show ?thesis by (simp add: physical_address_def umul_exact)
  qed
  ultimately have ne: "physical_address r \<noteq> physical_address r'"
    using phys [of d1 r] phys [of d2 r'] R R' by (simp add: PAGE_2M_SIZE_def)
  have rel: "release d2 r' = Inr d1" "release d1 r = Inr d"
    by (rule allocated_released [OF wf1 b], rule allocated_released [OF wf a])
  have low: "physical_address r + 2097152 \<le> 10485760"
    using R by (simp add: PAGE_2M_SIZE_def DIRECT_RAM_END_def)
  define first where "first = uadd PAGE_OFFSET (physical_address r)"
  have f: "first = PAGE_OFFSET + physical_address r" unfolding first_def by (rule uadd_exact) (use low in \<open>simp add: PAGE_OFFSET_def\<close>)
  have "uadd first (usub (umul (run_count r) PAGE_2M_SIZE) 8) = first + 2097144"
    using low by (simp add: one f usize_simps PAGE_2M_SIZE_def PAGE_OFFSET_def)
  then show ?thesis
    unfolding page_demo_def
    by (simp add: a b ne rel first_def [symmetric] Let_def del: One_nat_def)
qed


section \<open>The start completes\<close>

text \<open>
  What the linker, the loader and the processor have to supply: the boot stack and the boot task's
  descriptor lie inside the kernel image, every call of the thread demonstration stays inside its stack and
  saves six registers, and the user demonstration finds its processor features and its code.
\<close>

definition tasks_placed :: "'w kernel_env \<Rightarrow> bool" where
  "tasks_placed e \<longleftrightarrow> env_ok (ke_demo e) \<and> boot_task_at (ke_code e) \<noteq> 0 \<and> boot_task_at (ke_code e) < ke_end e
     \<and> switch_return_at (ke_code e) \<notin> {of_nat (trampoline_at (ke_code e)), of_nat (returned_at (ke_code e))}
     \<and> (\<forall>p. ke_boot_stack e + 56 + call_depth (ke_demo e) p \<le> ke_boot_top e \<and> call_depth (ke_demo e) p + 56 \<le> 28664)
     \<and> ke_boot_top e mod 16 = 0 \<and> ke_boot_top e \<le> ke_end e
     \<and> ke_boot_stack e \<le> cpu_rsp (ke_cpu e) \<and> cpu_rsp (ke_cpu e) < ke_boot_top e"

definition user_prepared :: "'w kernel_env \<Rightarrow> bool" where
  "user_prepared e \<longleftrightarrow> (let l = start_layout e in
     (\<exists>r. prepare_cpu (ul_cpuid l) (ke_msrs e, reg_cr0 (ke_registers e)) = Inr r)
     \<and> 1 \<le> user_code_bytes l \<and> user_code_bytes l \<le> PAGE \<and> ul_user_demo l = ul_user_start l
     \<and> ul_return_bottom l mod 16 = 0 \<and> ul_return_bottom l + 32768 < usize_range)"

text \<open>Free pages start behind the kernel image.\<close>

lemma free_page_behind_image:
  assumes "memory_init text kernel_end handoff cr3 tables = Inr (d, tables', free, kept)" "i \<in> free_pages d"
  shows "kernel_end \<le> PAGE_OFFSET + i * PAGE_2M_SIZE" "kernel_end < usize_range"
proof -
  note F = memory_init_facts [OF assms(1)]
  have "kept \<le> i" using F assms(2) by auto
  then have "kept * PAGE_2M_SIZE \<le> i * PAGE_2M_SIZE" by (rule mult_le_mono1)
  then show "kernel_end \<le> PAGE_OFFSET + i * PAGE_2M_SIZE" using F by linarith
  have "md_end_of_struct d - PAGE_OFFSET \<le> DIRECT_RAM_END" "kernel_end \<le> md_end_of_struct d" using F by blast+
  then show "kernel_end < usize_range" by (simp add: DIRECT_RAM_END_def PAGE_OFFSET_def)
qed

lemma task_start_ready:
  assumes "memory_init text (ke_end e) handoff cr3 tables = Inr (d, tables', free, kept)" "free_pages d \<noteq> {}"
    and "tasks_placed e" "length tss = 104" "\<not> reg_if (ke_registers e)"
  shows "demo_ready (ke_code e) (ke_demo e) (ke_boot_stack e) (ke_boot_top e) (task_start e tss d w)"
proof -
  note P = assms(3) [unfolded tasks_placed_def]
  have "md_wf d" using memory_init_facts [OF assms(1)] by blast
  moreover have "ke_boot_top e < usize_range"
    using free_page_behind_image(2) [OF assms(1)] assms(2) P by (metis all_not_in_conv le_less_trans)
  moreover have "page_window i \<inter> {ke_boot_stack e..<ke_boot_top e} = {} \<and> boot_task_at (ke_code e) \<notin> page_window i"
    if "i \<in> free_pages d" for i
    using free_page_behind_image(1) [OF assms(1) that] P by (auto simp: page_window_def)
  ultimately show ?thesis
    using P assms(4,5) by (simp add: demo_ready_def task_start_def)
qed

lemma user_start_ready:
  assumes "md_wf d" "length tss = 104" "length idt = 256" "idt ! 0x80 = gate_new (ul_exception_255 (start_layout e)) 0x8f 1"
    and "tables_ready (reg_cr3 (ke_registers e)) (ul_pdpt (ke_layout e)) (ul_pd (ke_layout e)) (ul_pt (ke_layout e)) tables"
    and "user_prepared e" "kernel_stack tss mod 16 = 0" "reg_cs (ke_registers e) = 8"
  shows "session_initial (start_layout e) (user_start e tss idt d tables)"
    and "session_layout (start_layout e) (user_start e tss idt d tables)"
proof -
  show "session_initial (start_layout e) (user_start e tss idt d tables)"
    using assms(1-5) by (simp add: session_initial_def user_start_def start_layout_def)
  show "session_layout (start_layout e) (user_start e tss idt d tables)"
    using assms(6) unfolding user_prepared_def Let_def session_layout_def
    using assms(7,8) by (simp add: user_start_def) (simp add: start_layout_def)
qed

lemma gate_init_length: "length (fst (gate_init s1 s2 s3 top_address base (TSS_INITIAL, gdt))) = 104"
  by (simp add: gate_init_def fill_tss_def Let_def tss_length length_TSS_INITIAL split: prod.split)

text \<open>The two demonstrations, one after the other, and what they leave.\<close>

lemma demonstrations_run:
  assumes "memory_init text (ke_end e) handoff cr3 tables0 = Inr (d, tables, free, kept)"
    and "allocate d Mapped 1 = Inr (Inr r, d')" "tasks_placed e" "user_prepared e" "length tss = 104"
    and "verify_boot_mode (ke_registers e) = Inr printed"
    and "length idt = 256" "idt ! 0x80 = gate_new (ul_exception_255 (start_layout e)) 0x8f 1"
    and "tables_ready (reg_cr3 (ke_registers e)) (ul_pdpt (ke_layout e)) (ul_pd (ke_layout e)) (ul_pt (ke_layout e)) tables"
    and "ke_program e = events @ [Finish k frame]" "list_all (well_behaved (start_layout e)) events"
    and "good_finish (start_layout e) k frame"
  shows "\<exists>tm base texts um.
      demonstrate_tasks (ke_code e) (ke_demo e) (ke_boot_stack e) (ke_boot_top e) 4 (task_start e tss d w)
        = Inr (Some ([thread_message 1 (base + 4104) (base + 32768), init_message, yield_message, resume_message,
            exit_message 1 1, demo_message], tm))
    \<and> demonstrate_user (start_layout e) chk False (ke_program e) (user_start e (tm_tss tm) idt (tm_memory tm) tables)
        = Inr ([sysenter_message, ready_message] @ map (Pair GREEN) texts @ return_messages chk @ [cleanup_message], Finished RESULT, um)
    \<and> tm_current tm = boot_task_at (ke_code e) \<and> dom (tm_tasks tm) = {boot_task_at (ke_code e)}
    \<and> um_memory um = d \<and> um_idt um = idt \<and> kernel_stack (um_tss um) = of_nat (ke_boot_top e)
    \<and> um_msrs um 0x174 = 0 \<and> um_msrs um 0x175 = 0 \<and> um_msrs um 0x176 = 0
    \<and> (\<forall>va. user_access PAGE_OFFSET (um_tables um) (reg_cr3 (ke_registers e)) va = None)"
proof -
  have wf: "md_wf d" using memory_init_facts [OF assms(1)] by blast
  have mode: "\<not> reg_if (ke_registers e)" "reg_cs (ke_registers e) = 8"
    using assms(6) by (auto simp: verify_boot_mode_def bind_res_Inr)
  have "free_pages d \<noteq> {}"
    using allocate_result [OF wf assms(2)] by (auto simp: run_pages_def)
  note ready = task_start_ready [OF assms(1) this assms(3,5) mode(1), of w]
  have m: "tm_memory (task_start e tss d w) = d" by (simp add: task_start_def)
  let ?b = "PAGE_OFFSET + physical_address r"
  let ?p = "[thread_message 1 (?b + 4104) (?b + 32768), init_message, yield_message, resume_message, exit_message 1 1, demo_message]"
  obtain tm where tm: "demonstrate_tasks (ke_code e) (ke_demo e) (ke_boot_stack e) (ke_boot_top e) 4 (task_start e tss d w)
      = Inr (Some (?p, tm))" "tm_memory tm = d" "tm_current tm = boot_task_at (ke_code e)"
      "kernel_stack (tm_tss tm) = of_nat (ke_boot_top e)" "length (tm_tss tm) = 104" "dom (tm_tasks tm) = {boot_task_at (ke_code e)}"
    using task_demo_runs [OF ready, unfolded m, OF assms(2)] by force
  have "(of_nat (ke_boot_top e) :: u64) mod 16 = 0"
    by (rule aligned_u64) (use ready in \<open>simp_all add: demo_ready_def\<close>)
  note user = user_start_ready [OF wf tm(5) assms(7-9,4) this [folded tm(4)] mode(2)]
  have um: "um_memory (user_start e (tm_tss tm) idt d tables) = d" "um_idt (user_start e (tm_tss tm) idt d tables) = idt"
    "um_tss (user_start e (tm_tss tm) idt d tables) = tm_tss tm" by (simp_all add: user_start_def)
  obtain texts um where run: "demonstrate_user (start_layout e) chk False (ke_program e) (user_start e (tm_tss tm) idt d tables) =
      Inr ([sysenter_message, ready_message] @ map (Pair GREEN) texts @ return_messages chk @ [cleanup_message], Finished RESULT, um)"
    using demonstration_runs [OF user _ assms(11,12), of chk] assms(2) unfolding um(1) assms(10) by blast
  have "ul_cr3 (start_layout e) = reg_cr3 (ke_registers e)" by (simp add: start_layout_def)
  then show ?thesis
    using demonstration_restores [OF user(1) run, unfolded um] tm(3,4,6)
    by (intro exI [of _ tm] exI [of _ ?b] exI [of _ texts] exI [of _ um]) (simp add: tm(1,2) run)
qed

text \<open>The interrupt controllers: initialisation, context check, timer demonstration.\<close>

lemma devices_run:
  assumes "ke_irq_check e \<longrightarrow> ke_registers_changed e = 0" "pic_ports p chips" "quiet (chips w)"
    and "ke_deliveries e = d1 # d2 # ds" "timer_delivery chips d1" "timer_delivery chips d2"
  shows "\<exists>idt irq0 irq w1 w2 w3.
      interrupt_init p False (ke_irq_entries e) (trap_init (ke_exceptions e) other IDT_INITIAL) w = (Inr idt, w1)
    \<and> (if ke_irq_check e then verify_context p False (ke_registers_changed e) irq_state_initial
        else return_io irq_state_initial) w1 = (Inr irq0, w2)
    \<and> demonstrate_timer p (ke_irq_check e) False (ke_deliveries e) irq0 w2 = (Inr (Some irq), w3) \<and> timer_irqs irq = 2 \<and> key_queue irq = new_queue
    \<and> quiet (chips w3) \<and> mask_register (fst (chips w3)) = 0xff \<and> mask_register (snd (chips w3)) = 0xff
    \<and> length idt = 256 \<and> user_callable idt = [3, 4, 5] \<and> idt ! 0x80 = gate_new other 0x8f 1"
proof -
  obtain idt w1 where idt: "interrupt_init p False (ke_irq_entries e) (trap_init (ke_exceptions e) other IDT_INITIAL) w = (Inr idt, w1)"
      "quiet (chips w1)" "length idt = 256" "user_callable idt = [3, 4, 5]" "idt ! 0x80 = gate_new other 0x8f 1"
    using interrupt_init_runs [OF assms(2,3)] by blast
  obtain irq0 w2 where check: "(if ke_irq_check e then verify_context p False (ke_registers_changed e) irq_state_initial
      else return_io irq_state_initial) w1 = (Inr irq0, w2)" "quiet (chips w2)" "timer_irqs irq0 = 0" "key_queue irq0 = new_queue"
  proof (cases "ke_irq_check e")
    case True
    then show ?thesis
      using verify_context_runs [OF assms(2) idt(2), of irq_state_initial] assms(1) that by (auto simp: irq_state_initial_def)
  qed (use idt(2) that in \<open>simp add: return_io_run irq_state_initial_def\<close>)
  obtain w3 where "demonstrate_timer p (ke_irq_check e) False (ke_deliveries e) irq0 w2
      = (Inr (Some (irq0\<lparr>timer_irqs := 2\<rparr>)), w3)"
      "quiet (chips w3)" "mask_register (fst (chips w3)) = 0xff" "mask_register (snd (chips w3)) = 0xff"
    using timer_demo_returns [OF assms(2) check(2,3) _ assms(5,6)] check(4) assms(4) by auto
  then show ?thesis using idt(1,3-5) check(1,4) by fastforce
qed

text \<open>A message of the log begins with the line; then the debug port shows it.\<close>

definition starts_line :: "message list \<Rightarrow> string \<Rightarrow> bool" where
  "starts_line log line \<longleftrightarrow> list_ex (\<lambda>m. take (length line) (snd m) = line) log"

lemma starts_line_shown:
  assumes "starts_line log line"
  shows "shows_line (before @ concat (map (\<lambda>(color, s). string_bytes s) log)) line"
proof -
  obtain m where m: "m \<in> set log" "take (length line) (snd m) = line" using assms by (auto simp: starts_line_def list_ex_iff)
  then obtain xs ys where "log = xs @ m # ys" by (auto simp: in_set_conv_decomp)
  moreover have "snd m = line @ drop (length line) (snd m)" using m(2) by (metis append_take_drop_id)
  then have "string_bytes (snd m) = string_bytes line @ string_bytes (drop (length line) (snd m))"
    unfolding string_bytes_def by (metis map_append)
  ultimately have "before @ concat (map (\<lambda>(color, s). string_bytes s) log) =
      (before @ concat (map (\<lambda>(color, s). string_bytes s) xs)) @ string_bytes line
      @ (string_bytes (drop (length line) (snd m)) @ concat (map (\<lambda>(color, s). string_bytes s) ys))"
    by (simp add: split_def)
  then show ?thesis unfolding shows_line_def sublist_def by blast
qed

lemma starts_line_append: "starts_line (xs @ ys) line \<longleftrightarrow> starts_line xs line \<or> starts_line ys line"
  by (simp add: starts_line_def)

lemma init_message_text: "init_message = (YELLOW, ''init task is running, arg=0x000000000000000a'' @ [CHR 0x0a])"
proof -
  have "replicate 15 (CHR ''0'') = ''000000000000000''" by code_simp
  then show ?thesis by (simp add: init_message_def hexadecimal_def digits_text.simps digit_def Let_def)
qed

lemma starts_lines:
  assumes "list_all (\<lambda>m. m \<in> set log) ms" "list_all2 (\<lambda>m line. take (length line) (snd m) = line) ms lines"
  shows "list_all (starts_line log) lines"
  using assms(2,1) by (induction rule: list_all2_induct) (auto simp: starts_line_def list_ex_iff)

lemma report_lines:
  assumes "memory_init_printed chk linked handoff cr3 tables = Inr (report, d, tables', free, kept)"
  shows "list_all (starts_line report) [''E820 handoff OK: version=1, entries='',
     ''Boot memory layout OK: handoff, stack, VBE scratch, loader, temporary page tables'',
     ''Memory invariants OK'', ''Identity mapping removed; high-half mapping retained'']"
proof -
  obtain m stats where r: "report = (if chk then [input_check_message] else []) @ handoff_messages m
      @ (map_messages m stats @ map (zone_line d) [0..<md_zones_size d] @ layout_messages linked d)
      @ [counts_line free kept] @ table_messages cr3 tables"
    using assms by (auto simp: memory_init_printed_def bind_res_Inr split: prod.splits)
  have "starts_line (handoff_messages m) ''E820 handoff OK: version=1, entries=''"
    "starts_line (handoff_messages m) ''Boot memory layout OK: handoff, stack, VBE scratch, loader, temporary page tables''"
    "starts_line [counts_line free kept] ''Memory invariants OK''"
    "starts_line (table_messages cr3 tables) ''Identity mapping removed; high-half mapping retained''"
    by (simp_all add: starts_line_def handoff_messages_def counts_line_def table_messages_def Let_def)
  then show ?thesis unfolding r by (simp only: list.pred_inject starts_line_append simp_thms)
qed

lemma boot_log_lines:
  assumes "memory_init_printed chk linked handoff cr3 tables = Inr (report, d, tables', free, kept)"
    and "verify_boot_mode r = Inr mode_lines"
  shows "list_all (starts_line (boot_log e mode_lines report n base texts)) (tl smoke_lines)"
proof -
  obtain lar where "mode_lines = mode_messages r lar" using assms(2) by (auto simp: verify_boot_mode_def bind_res_Inr)
  then have mode: "starts_line mode_lines ''Processor mode OK: IA-32e active, 64-bit code, CPL0; 4-level paging, canonical RIP/RSP''"
    by (simp add: starts_line_def mode_messages_def)
  have "decimal 1 = ''1''" by (simp add: decimal_def digits_text.simps digit_def Let_def)
  note texts = this init_message_text thread_message_def exit_message_def hello_message_def gates_message_def page_message_def
    controllers_message_def timer_message_def yield_message_def resume_message_def demo_message_def sysenter_message_def
    ready_message_def cleanup_message_def keyboard_message_def kernel_message_def
  let ?log = "boot_log e mode_lines report n base texts"
  have member: "list_all (\<lambda>m. m \<in> set ?log) [hello_message, gates_message, page_message, controllers_message, timer_message,
      thread_message 1 (base + 4104) (base + 32768), init_message, yield_message, resume_message, exit_message 1 1, demo_message,
      ready_message, sysenter_message, cleanup_message, keyboard_message, kernel_message]"
    by (simp add: boot_log_def)
  then have singles: "list_all (starts_line ?log) [''Hello'' @ [CHR 0x09] @ ''Miko'' @ [CHR 0x09] @ ''OS!'', ''GDT/IDT/TSS ready'',
      ''Physical page allocation/read-write/free OK'', ''8259A ready: vectors=0x20..0x2f, all IRQs masked'',
      ''PIT IRQ0 delivered twice; PIC EOI and IRETQ return OK'', ''Kernel thread created: pid=1'',
      ''init task is running, arg=0x000000000000000a'', ''Bootstrap task resumed: init yielded'',
      ''init task resumed after yielding'', ''Kernel thread exit: pid=1 code=1'',
      ''Kernel thread demo OK: yield, resume, exit=1; page reclaimed'',
      ''User mapping ready: code=0x800000 R-X, stack=0x9ff000 RW-NX; kernel supervisor'',
      ''SYSENTER ready: CS=0x8, dedicated kernel stack, 128 services'',
      ''User demo cleanup OK: ring0 restored, low mapping removed, page reclaimed'',
      ''PS/2 keyboard ready: IRQ1, translated set 1 scan bytes'', ''MikoOS Rust kernel ready'']"
    by (rule starts_lines) (simp add: texts del: One_nat_def)
  have services: "starts_line (return_messages c) ''System call demo OK: SYSENTER/SYSEXIT64 returned to ring3; write=19, ENOSYS=-38''"
    "starts_line (return_messages c) ''User mode OK: CS=0x2b SS=0x33 CPL=3, Rust stack/result verified; INT 0x80 used TSS.RSP0''" for c
    by (simp_all add: return_messages_def starts_line_def)
  have "starts_line xs line \<Longrightarrow> set xs \<subseteq> set ?log \<Longrightarrow> starts_line ?log line" for xs line
    by (auto simp: starts_line_def list_ex_iff)
  note from_part = this
  have "set mode_lines \<subseteq> set ?log" "set report \<subseteq> set ?log" "set (return_messages (ke_syscall_check e)) \<subseteq> set ?log"
    by (auto simp: boot_log_def)
  then have "starts_line mode_lines line \<Longrightarrow> starts_line ?log line" "starts_line report line \<Longrightarrow> starts_line ?log line"
    "starts_line (return_messages (ke_syscall_check e)) line \<Longrightarrow> starts_line ?log line" for line
    using from_part by blast+
  then show ?thesis using singles services report_lines [OF assms(1)] mode by (simp add: smoke_lines_def)
qed

text \<open>The debug port at the end: the line of the console's initialisation, then the log.\<close>

lemma boot_output:
  assumes "console_init mem = Inr (c, ready)" "list_all (starts_line log) (tl smoke_lines)"
  shows "debug_port (print_all log (console_start c ready)) =
      string_bytes (''VBE console ready'' @ [CHR 0x0a]) @ concat (map (\<lambda>(color, s). string_bytes s) log)"
    and "list_all (shows_line (debug_port (print_all log (console_start c ready)))) smoke_lines"
proof -
  note ok = console_init_ok [OF assms(1)]
  show port: "debug_port (print_all log (console_start c ready)) =
      string_bytes (''VBE console ready'' @ [CHR 0x0a]) @ concat (map (\<lambda>(color, s). string_bytes s) log)"
    using print_all_ok [of "console_start c ready" log] ok by (simp add: console_start_def)
  have first: "shows_line (debug_port (print_all log (console_start c ready))) ''VBE console ready''"
    unfolding port shows_line_def sublist_def string_bytes_def map_append append_assoc by (metis append_Nil)
  have "shows_line (debug_port (print_all log (console_start c ready))) line" if "starts_line log line" for line
    unfolding port using that by (rule starts_line_shown)
  then have "list_all (shows_line (debug_port (print_all log (console_start c ready)))) (tl smoke_lines)"
    using assms(2) by (simp only: list_all_iff) blast
  moreover have "smoke_lines = ''VBE console ready'' # tl smoke_lines" by (simp add: smoke_lines_def)
  ultimately show "list_all (shows_line (debug_port (print_all log (console_start c ready)))) smoke_lines"
    using first by (metis list.pred_inject(2))
qed

text \<open>Memory: the report, the page demonstration and the self-test of the allocator.\<close>

lemma memory_runs:
  assumes "memory_init (ke_text e) (ke_end e) (ke_bytes e) (reg_cr3 (ke_registers e)) (ke_tables e) = Inr (d, tables, free, kept)"
    and "2 \<le> free" "i \<in> free_pages d" "i < 5"
    and "ke_memory_check e \<longrightarrow> (\<exists>s t. one_free_zone d s t \<and> s + 66 \<le> t \<and> s \<le> 3)"
  shows "\<exists>r d' words report. allocate d Mapped 1 = Inr (Inr r, d') \<and> page_demo d (ke_words e) = Inr (d, words)
    \<and> memory_init_printed (ke_memory_check e) (linked_image e) (ke_bytes e) (reg_cr3 (ke_registers e)) (ke_tables e)
      = Inr (report, d, tables, free, kept)
    \<and> (if ke_memory_check e then bind_res (verify_allocator d) (\<lambda>(line, d). Inr ([line], d)) else Inr ([], d))
      = Inr (if ke_memory_check e then [check_message free] else [], d)"
proof -
  have wf: "md_wf d" and free: "free = card (free_pages d)" using memory_init_facts [OF assms(1)] by blast+
  obtain r d' where alloc: "allocate d Mapped 1 = Inr (Inr r, d')" using free_page_available [OF wf assms(3)] assms(4) by blast
  obtain words where page: "page_demo d (ke_words e) = Inr (d, words)"
    using page_demo_ok [OF wf alloc] assms(2) free by blast
  obtain report where report: "memory_init_printed (ke_memory_check e) (linked_image e) (ke_bytes e) (reg_cr3 (ke_registers e)) (ke_tables e)
      = Inr (report, d, tables, free, kept)"
  proof -
    have "memory_init (sym_text (linked_image e)) (sym_end (linked_image e)) (ke_bytes e) (reg_cr3 (ke_registers e)) (ke_tables e)
        = Inr (d, tables, free, kept)" using assms(1) by (simp add: linked_image_def)
    then show ?thesis using memory_init_prints that by blast
  qed
  have check: "(if ke_memory_check e then bind_res (verify_allocator d) (\<lambda>(line, d). Inr ([line], d)) else Inr ([], d))
      = Inr (if ke_memory_check e then [check_message free] else [], d)"
  proof (cases "ke_memory_check e")
    case True
    with assms(5) obtain s t where z: "one_free_zone d s t" "s + 66 \<le> t" "s \<le> 3" by blast
    have "free = t - s" using one_free_zoneD(8) [OF z(1)] free by simp
    then show ?thesis using True self_test_passes [OF z] by simp
  qed simp
  from alloc page report check show ?thesis by blast
qed

text \<open>The start, with the state of the interrupt controllers and the key queue it leaves.\<close>

lemma start_kernel_runs:
  assumes "console_init (ke_bytes e) = Inr (c, ready)" "verify_boot_mode (ke_registers e) = Inr printed"
    and "memory_init (ke_text e) (ke_end e) (ke_bytes e) (reg_cr3 (ke_registers e)) (ke_tables e) = Inr (d, tables, free, kept)"
    and "2 \<le> free" "i \<in> free_pages d" "i < 5"
    and "ke_memory_check e \<longrightarrow> (\<exists>s t. one_free_zone d s t \<and> s + 66 \<le> t \<and> s \<le> 3)"
    and "ke_irq_check e \<longrightarrow> ke_registers_changed e = 0" "pic_ports (ke_ports e) chips" "cooperative_controller (ke_ports e) view" "quiet (chips w)"
    and "ke_deliveries e = d1 # d2 # ds" "timer_delivery chips d1" "timer_delivery chips d2"
    and "tasks_placed e" "user_prepared e"
    and "tables_ready (reg_cr3 (ke_registers e)) (ul_pdpt (ke_layout e)) (ul_pd (ke_layout e)) (ul_pt (ke_layout e)) tables"
    and "ke_program e = events @ [Finish k frame]" "list_all (well_behaved (start_layout e)) events"
    and "good_finish (start_layout e) k frame"
  shows "\<exists>report base texts ks w'. start_kernel e w = (Inr (boot_log e printed report free base texts,
        print_all (boot_log e printed report free base texts) (console_start c ready), Some ks), w')
    \<and> memory_init_printed (ke_memory_check e) (linked_image e) (ke_bytes e) (reg_cr3 (ke_registers e)) (ke_tables e)
      = Inr (report, d, tables, free, kept)
    \<and> ks_memory ks = d
    \<and> ks_current ks = boot_task_at (ke_code e) \<and> dom (ks_tasks ks) = {boot_task_at (ke_code e)}
    \<and> kernel_stack (ks_tss ks) = of_nat (ke_boot_top e) \<and> user_callable (ks_idt ks) = [3, 4, 5]
    \<and> timer_irqs (ks_irq ks) = 2 \<and> ks_msrs ks 0x174 = 0 \<and> ks_msrs ks 0x175 = 0 \<and> ks_msrs ks 0x176 = 0
    \<and> (\<forall>va. user_access PAGE_OFFSET (ks_tables ks) (reg_cr3 (ke_registers e)) va = None) \<and> view w' = (False, None)
    \<and> key_queue (ks_irq ks) = new_queue \<and> quiet (chips w')
    \<and> mask_register (fst (chips w')) = 0xfd \<and> mask_register (snd (chips w')) = 0xff"
proof -
  let ?p = "ke_ports e"
  have off: "reg_if (ke_registers e) = False" using assms(2) by (auto simp: verify_boot_mode_def bind_res_Inr)
  obtain r d' words report where alloc: "allocate d Mapped 1 = Inr (Inr r, d')" and page: "page_demo d (ke_words e) = Inr (d, words)"
    and report: "memory_init_printed (ke_memory_check e) (linked_image e) (ke_bytes e) (reg_cr3 (ke_registers e)) (ke_tables e)
      = Inr (report, d, tables, free, kept)"
    and check: "(if ke_memory_check e then bind_res (verify_allocator d) (\<lambda>(line, d). Inr ([line], d)) else Inr ([], d))
      = Inr (if ke_memory_check e then [check_message free] else [], d)"
    using memory_runs [OF assms(3-7)] by blast
  obtain s1 s2 s3 where stacks: "ke_stacks e = (s1, s2, s3)" by (cases "ke_stacks e")
  obtain tss gdt where gate: "gate_init s1 s2 s3 (of_nat (ke_boot_top e)) (ke_tss_base e) (TSS_INITIAL, ke_gdt e) = (tss, gdt)"
    "length tss = 104"
    using gate_init_length [of s1 s2 s3 "of_nat (ke_boot_top e)" "ke_tss_base e" "ke_gdt e"] by (metis prod.exhaust_sel)
  obtain idt irq0 irq w1 w1' w2 where
      irq: "interrupt_init ?p False (ke_irq_entries e)
        (trap_init (ke_exceptions e) (ul_exception_255 (start_layout e)) IDT_INITIAL) w = (Inr idt, w1)"
      "(if ke_irq_check e then verify_context ?p False (ke_registers_changed e) irq_state_initial
        else return_io irq_state_initial) w1 = (Inr irq0, w1')"
      "demonstrate_timer ?p (ke_irq_check e) False (ke_deliveries e) irq0 w1' = (Inr (Some irq), w2)"
    and table: "timer_irqs irq = 2" "length idt = 256" "user_callable idt = [3, 4, 5]"
      "idt ! 0x80 = gate_new (ul_exception_255 (start_layout e)) 0x8f 1"
    and left_chips: "key_queue irq = new_queue" "quiet (chips w2)" "mask_register (snd (chips w2)) = 0xff"
    using devices_run [OF assms(8,9,11-14)] by blast
  obtain tm base texts um where demo:
      "demonstrate_tasks (ke_code e) (ke_demo e) (ke_boot_stack e) (ke_boot_top e) 4 (task_start e tss d words)
        = Inr (Some ([thread_message 1 (base + 4104) (base + 32768), init_message, yield_message, resume_message,
            exit_message 1 1, demo_message], tm))"
      "demonstrate_user (start_layout e) (ke_syscall_check e) False (ke_program e) (user_start e (tm_tss tm) idt (tm_memory tm) tables)
        = Inr ([sysenter_message, ready_message] @ map (Pair GREEN) texts @ return_messages (ke_syscall_check e) @ [cleanup_message],
            Finished RESULT, um)"
    and left: "tm_current tm = boot_task_at (ke_code e)" "dom (tm_tasks tm) = {boot_task_at (ke_code e)}" "um_memory um = d"
      "um_idt um = idt" "kernel_stack (um_tss um) = of_nat (ke_boot_top e)" "um_msrs um 0x174 = 0" "um_msrs um 0x175 = 0"
      "um_msrs um 0x176 = 0" "\<forall>va. user_access PAGE_OFFSET (um_tables um) (reg_cr3 (ke_registers e)) va = None"
    using demonstrations_run [OF assms(3) alloc assms(15,16) gate(2) assms(2) table(2,4) assms(17-20)] by blast
  obtain w3 where keyboard: "keyboard_init ?p False (enable_keyboard ?p False) w2 = (Inr (), w3)" "view w3 = (False, None)"
    using cooperative_init [OF assms(10), of "fst (view w2)" "snd (view w2)"] by (auto simp: runs_to_def)
  have enable: "then_io (lift_io (if ke_keyboard_check e then verify_queue else Inr ())) (enable_keyboard ?p False) = enable_keyboard ?p False"
    by (simp add: verify_queue_passes fun_eq_iff then_io_def bind_io_def lift_io_def)
  have "start_kernel e w = (Inr (boot_log e printed report free base texts,
      print_all (boot_log e printed report free base texts) (console_start c ready), Some \<lparr>ks_tss = um_tss um, ks_gdt = gdt, ks_idt = um_idt um,
      ks_memory = um_memory um, ks_tables = um_tables um, ks_irq = irq,
      ks_tasks = tm_tasks tm, ks_current = tm_current tm, ks_msrs = um_msrs um\<rparr>), w3)"
    unfolding start_kernel_def Let_def off
    by (simp only: enable, simp add: boot_log_def stacks gate(1) io_simps lift_io_def assms(1,2) report page check irq demo keyboard(1) split del: if_split)
  moreover have "chips w3 = ((fst (chips w2))\<lparr>mask_register := 0xfd\<rparr>, snd (chips w2))"
    using keyboard_init_chips [OF assms(9) _ keyboard(1)] left_chips(2) by (simp add: quiet_def)
  then have "quiet (chips w3) \<and> mask_register (fst (chips w3)) = 0xfd \<and> mask_register (snd (chips w3)) = 0xff"
    using left_chips(2,3) by (simp add: quiet_def)
  ultimately show ?thesis using left table(1,3) keyboard(2) left_chips(1) report
    by (intro exI [of _ report] exI [of _ base] exI [of _ texts]) simp
qed

text \<open>
  C1. The kernel reaches its main loop and logs every stage. Given a hand-over and a video mode the initialisation accepts,
  the boot processor mode, a mapped and a second free page, working interrupt and keyboard controllers, two timer
  deliveries and a user program that finishes properly, no check of the whole start-up fails. The log is line by line that of
  the stages in order; the debug port carries the line of the console and then the log, and shows every line the smoke test
  demands of the kernel, apart from the user program's text. In the main
  loop every page the demonstrations used is back with the allocator
  exactly as initialisation left it, the bootstrap task is current and alone with its stack in the TSS, user mode may
  raise vectors 3 to 5 only, the timer has ticked twice, the SYSENTER registers are zero, no
  address translates at user level, the key queue is empty, the keyboard controller has nothing pending, no interrupt is in
  service, and of all lines the keyboard's alone is open.
\<close>

theorem start_kernel_completes:
  assumes "console_init (ke_bytes e) = Inr (c, ready)" "verify_boot_mode (ke_registers e) = Inr printed"
    and "memory_init (ke_text e) (ke_end e) (ke_bytes e) (reg_cr3 (ke_registers e)) (ke_tables e) = Inr (d, tables, free, kept)"
    and "2 \<le> free" "i \<in> free_pages d" "i < 5"
    and "ke_memory_check e \<longrightarrow> (\<exists>s t. one_free_zone d s t \<and> s + 66 \<le> t \<and> s \<le> 3)"
    and "ke_irq_check e \<longrightarrow> ke_registers_changed e = 0" "pic_ports (ke_ports e) chips" "cooperative_controller (ke_ports e) view" "quiet (chips w)"
    and "ke_deliveries e = d1 # d2 # ds" "timer_delivery chips d1" "timer_delivery chips d2"
    and "tasks_placed e" "user_prepared e"
    and "tables_ready (reg_cr3 (ke_registers e)) (ul_pdpt (ke_layout e)) (ul_pd (ke_layout e)) (ul_pt (ke_layout e)) tables"
    and "ke_program e = events @ [Finish k frame]" "list_all (well_behaved (start_layout e)) events"
    and "good_finish (start_layout e) k frame"
  shows "\<exists>log out report base texts ks w'. start_kernel e w = (Inr (log, out, Some ks), w')
    \<and> memory_init_printed (ke_memory_check e) (linked_image e) (ke_bytes e) (reg_cr3 (ke_registers e)) (ke_tables e)
      = Inr (report, d, tables, free, kept)
    \<and> log = boot_log e printed report free base texts \<and> out = print_all log (console_start c ready)
    \<and> debug_port out = string_bytes (''VBE console ready'' @ [CHR 0x0a]) @ concat (map (\<lambda>(color, s). string_bytes s) log)
    \<and> list_all (shows_line (debug_port out)) smoke_lines
    \<and> ks_memory ks = d
    \<and> ks_current ks = boot_task_at (ke_code e) \<and> dom (ks_tasks ks) = {boot_task_at (ke_code e)}
    \<and> kernel_stack (ks_tss ks) = of_nat (ke_boot_top e) \<and> user_callable (ks_idt ks) = [3, 4, 5]
    \<and> timer_irqs (ks_irq ks) = 2 \<and> key_queue (ks_irq ks) = new_queue
    \<and> ks_msrs ks 0x174 = 0 \<and> ks_msrs ks 0x175 = 0 \<and> ks_msrs ks 0x176 = 0
    \<and> (\<forall>va. user_access PAGE_OFFSET (ks_tables ks) (reg_cr3 (ke_registers e)) va = None)
    \<and> view w' = (False, None) \<and> quiet (chips w')
    \<and> mask_register (fst (chips w')) = 0xfd \<and> mask_register (snd (chips w')) = 0xff"
proof -
  from start_kernel_runs [OF assms] obtain report base texts ks w' where
    s: "start_kernel e w = (Inr (boot_log e printed report free base texts,
        print_all (boot_log e printed report free base texts) (console_start c ready), Some ks), w')"
      "memory_init_printed (ke_memory_check e) (linked_image e) (ke_bytes e) (reg_cr3 (ke_registers e)) (ke_tables e)
        = Inr (report, d, tables, free, kept)"
    and state: "ks_memory ks = d" "ks_current ks = boot_task_at (ke_code e)" "dom (ks_tasks ks) = {boot_task_at (ke_code e)}"
      "kernel_stack (ks_tss ks) = of_nat (ke_boot_top e)" "user_callable (ks_idt ks) = [3, 4, 5]"
      "timer_irqs (ks_irq ks) = 2" "key_queue (ks_irq ks) = new_queue" "ks_msrs ks 0x174 = 0" "ks_msrs ks 0x175 = 0" "ks_msrs ks 0x176 = 0"
      "\<forall>va. user_access PAGE_OFFSET (ks_tables ks) (reg_cr3 (ke_registers e)) va = None" "view w' = (False, None)"
      "quiet (chips w')" "mask_register (fst (chips w')) = 0xfd" "mask_register (snd (chips w')) = 0xff"
    by blast
  note out = boot_output [OF assms(1) boot_log_lines [OF s(2) assms(2), of e free base texts]]
  show ?thesis
    by (rule exI [of _ "boot_log e printed report free base texts"],
        rule exI [of _ "print_all (boot_log e printed report free base texts) (console_start c ready)"], rule exI [of _ report],
        rule exI [of _ base], rule exI [of _ texts], rule exI [of _ ks], rule exI [of _ w']) (intro conjI s state out refl)
qed

section \<open>An example\<close>

text \<open>A hand-over depends on its table only, a video mode on its information block only.\<close>

lemma read_memory_map_cong:
  assumes "read_memory_map mem = Inr m" "\<And>a. PAGE_OFFSET + 0x4ff0 \<le> a \<Longrightarrow> a < PAGE_OFFSET + 0x5280 \<Longrightarrow> mem' a = mem a"
  shows "read_memory_map mem' = Inr m"
proof -
  obtain n where n: "validate_header (read_header mem (PAGE_OFFSET + HEADER)) = Inr n"
      "m = \<lparr>map_entries = entries_from mem n @ replicate (MAX_ENTRIES - n) EMPTY, map_count = n\<rparr>"
      "validate_entries (entries_from mem n) = Inr ()" "\<forall>(s, t) \<in> set bootstrap_ranges. contains_usable m s t = Inr True"
    using assms(1) unfolding read_memory_map_iff by blast
  have same: "(read_le k mem' (PAGE_OFFSET + a) :: 'w::len word) = read_le k mem (PAGE_OFFSET + a)"
    if "0x4ff0 \<le> a" "a + k \<le> 0x5280" for k a
    by (rule read_le_cong) (use that assms(2) in simp)
  have h: "read_header mem' (PAGE_OFFSET + HEADER) = read_header mem (PAGE_OFFSET + HEADER)"
    by (simp add: read_header_def HEADER_def same add.assoc)
  have e: "entries_from mem' n = entries_from mem n"
  proof (rule map_cong [OF refl])
    fix i assume "i \<in> set [0..<n]"
    then have "i * 20 \<le> 31 * 20" using n(1) by (simp add: validate_header_Inr MAX_ENTRIES_def)
    then show "read_entry mem' (PAGE_OFFSET + ENTRIES + i * 20) = read_entry mem (PAGE_OFFSET + ENTRIES + i * 20)"
      by (simp add: read_entry_def ENTRIES_def same add.assoc)
  qed
  show ?thesis unfolding read_memory_map_iff using n [folded h e] by blast
qed

lemma console_init_cong:
  assumes "\<And>i. i < 48 \<Longrightarrow> mem' (PAGE_OFFSET + 0x8200 + i) = mem (PAGE_OFFSET + 0x8200 + i)"
  shows "console_init mem' = console_init mem"
proof -
  have same: "(read_le k mem' (PAGE_OFFSET + 0x8200 + a) :: 'w::len word) = read_le k mem (PAGE_OFFSET + 0x8200 + a)"
    if "a + k \<le> 48" for k a
  proof (rule read_le_cong)
    fix x assume "PAGE_OFFSET + 0x8200 + a \<le> x" "x < PAGE_OFFSET + 0x8200 + a + k"
    then show "mem' x = mem x" using assms [of "x - (PAGE_OFFSET + 0x8200)"] that by simp
  qed
  have "mode_word mem' i = mode_word mem i" if "i \<le> 46" for i
    using that by (simp add: mode_word_def same)
  then have "mode_word mem' 0 = mode_word mem 0" "mode_word mem' 16 = mode_word mem 16"
    "mode_word mem' 18 = mode_word mem 18" "mode_word mem' 20 = mode_word mem 20" by simp_all
  moreover have "(read_le 4 mem' (PAGE_OFFSET + 0x8200 + 40) :: u32) = read_le 4 mem (PAGE_OFFSET + 0x8200 + 40)"
    by (rule same) simp
  moreover have "mem' (PAGE_OFFSET + 0x8200 + i) = mem (PAGE_OFFSET + 0x8200 + i)" if "i \<in> {25, 27, 31, 32, 33, 34, 35, 36}" for i
    using that by (intro assms) auto
  then have "mem' (PAGE_OFFSET + 0x8200 + 25) = mem (PAGE_OFFSET + 0x8200 + 25)" "mem' (PAGE_OFFSET + 0x8200 + 27) = mem (PAGE_OFFSET + 0x8200 + 27)"
    "mem' (PAGE_OFFSET + 0x8200 + 31) = mem (PAGE_OFFSET + 0x8200 + 31)" "mem' (PAGE_OFFSET + 0x8200 + 32) = mem (PAGE_OFFSET + 0x8200 + 32)"
    "mem' (PAGE_OFFSET + 0x8200 + 33) = mem (PAGE_OFFSET + 0x8200 + 33)" "mem' (PAGE_OFFSET + 0x8200 + 34) = mem (PAGE_OFFSET + 0x8200 + 34)"
    "mem' (PAGE_OFFSET + 0x8200 + 35) = mem (PAGE_OFFSET + 0x8200 + 35)" "mem' (PAGE_OFFSET + 0x8200 + 36) = mem (PAGE_OFFSET + 0x8200 + 36)"
    by blast+
  ultimately show ?thesis unfolding console_init_def Let_def by (simp only:)
qed

definition boot_memory :: "nat \<Rightarrow> u8" where
  "boot_memory a = (if a < PAGE_OFFSET + 0x8000 then example_memory a else example_mode a)"

lemma boot_memory_reads:
  "read_memory_map boot_memory = Inr example_handoff" "console_init boot_memory = console_init example_mode"
  by (rule read_memory_map_cong [OF example_read], simp add: boot_memory_def)
    (rule console_init_cong, simp add: boot_memory_def)

text \<open>
  A machine with 16 MiB of RAM, the kernel image from 1 MiB to 1.5 MiB, the pair of interrupt controllers
  and a keyboard controller.
\<close>

definition pc_ports :: "((chip \<times> chip) \<times> bool \<times> u8 option) ports" where
  "pc_ports = \<lparr>
     port_in = (\<lambda>a (c, k). if a \<in> {STATUS_COMMAND, DATA}
       then (fst (port_in good_controller a k), c, snd (port_in good_controller a k))
       else (fst (port_in chip_pair_ports a c), snd (port_in chip_pair_ports a c), k)),
     port_out = (\<lambda>a v (c, k). if a \<in> {STATUS_COMMAND, DATA} then (c, port_out good_controller a v k)
       else (port_out chip_pair_ports a v c, k))\<rparr>"

lemma pc_chips: "pic_ports pc_ports fst"
  by (simp add: pic_ports_def pc_ports_def chip_pair_ports_def pic_ports_defs STATUS_COMMAND_def DATA_def split_def)

lemma pc_keyboard: "cooperative_controller pc_ports snd"
  using good_controller_cooperates
  by (simp add: cooperative_controller_def pc_ports_def split_def STATUS_COMMAND_def DATA_def MASTER_DATA_def)

definition boot_layout :: user_layout where
  "boot_layout = User_Session.example_layout\<lparr>ul_pdpt := PAGE_OFFSET + 0x140000, ul_pd := PAGE_OFFSET + 0x141000,
     ul_pt := PAGE_OFFSET + 0x142000, ul_return_bottom := PAGE_OFFSET + 0x150000, ul_user_start := PAGE_OFFSET + 0x160000,
     ul_user_end := PAGE_OFFSET + 0x160800, ul_user_demo := PAGE_OFFSET + 0x160000\<rparr>"

definition boot_program :: "user_event list" where
  "boot_program = [Store 0x9ff010 7, Call (PAGE_OFFSET + 0x157000) \<lparr>r15 = 0, r14 = 0, r13 = 0, r12 = 0, r11 = 0,
     r10 = 0, r9 = 0, r8 = 0, rsi = 2, rdi = 0x9ff000, rbp = 0, rdx = 0x800010, rcx = 0x9ff800, rbx = 0, rax = 1\<rparr>]"

definition boot_registers_example :: boot_registers where
  "boot_registers_example = \<lparr>reg_cr0 = 0x80000001, reg_cr3 = 0x101000, reg_cr4 = 0x20, reg_cs = 8,
     reg_rip = 0xffff800000100000, reg_rsp = 0xffff80000011ff00, efer_low = 0x500, efer_high = 0,
     reg_lar = (\<lambda>s. if s = 8 then Some 0x209b00 else None), reg_if = False\<rparr>"

definition boot_machine :: "((chip \<times> chip) \<times> bool \<times> u8 option) kernel_env" where
  "boot_machine = \<lparr>ke_ports = pc_ports, ke_bytes = boot_memory, ke_words = (\<lambda>_. 0),
     ke_tables = boot_tables(PAGE_OFFSET + 0x101000 := 0x102003), ke_registers = boot_registers_example,
     ke_text = example_text, ke_endtext = example_text + 0x40000, ke_enddata = example_text + 0x60000, ke_end = example_end, ke_gdt = replicate 10 0,
     ke_stacks = (0xffff800000120000, 0xffff800000128000, 0xffff80000012c000), ke_tss_base = 0xffff800000134000,
     ke_exceptions = (\<lambda>v. 0xffff800000108000 + 16 * of_nat v), ke_irq_entries = (\<lambda>v. 0xffff800000109000 + 16 * of_nat v),
     ke_deliveries = replicate 2 (\<lambda>(c, k). (take_timer c, k), 0x20),
     ke_boot_stack = PAGE_OFFSET + 0x110000, ke_boot_top = PAGE_OFFSET + 0x120000,
     ke_code = example_code\<lparr>boot_task_at := PAGE_OFFSET + 0x138000\<rparr>, ke_demo = example_env,
     ke_cpu = \<lparr>cpu_rsp = PAGE_OFFSET + 0x11ff00, cpu_rip = 0, cpu_saved = replicate 6 0\<rparr>,
     ke_layout = boot_layout, ke_program = boot_program @ [Finish (PAGE_OFFSET + 0x157000) example_finish],
     ke_msrs = (\<lambda>_. 0), ke_memory_check = False, ke_syscall_check = True, ke_irq_check = True, ke_keyboard_check = False, ke_registers_changed = 0\<rparr>"

lemma boot_machine_mode: "verify_boot_mode boot_registers_example = Inr (mode_messages boot_registers_example 0x209b00)"
  by (simp add: verify_boot_mode_def boot_registers_example_def efer_def code64_def code64_mask_def CR0_PE_def CR0_PG_def
      CR4_PAE_def CR4_LA57_def EFER_LME_def EFER_LMA_def check_address_def PAGE_OFFSET_def)

lemma boot_machine_placed: "tasks_placed boot_machine"
  by (simp add: tasks_placed_def boot_machine_def example_code_def example_env_def env_ok_def example_end_def PAGE_OFFSET_def)

lemma boot_machine_user:
  "user_prepared boot_machine" "list_all (well_behaved (start_layout boot_machine)) boot_program"
  "good_finish (start_layout boot_machine) (PAGE_OFFSET + 0x157000) example_finish"
proof -
  have l: "start_layout boot_machine = boot_layout"
    by (simp add: start_layout_def boot_machine_def boot_layout_def boot_registers_example_def User_Session.example_layout_def)
  have code: "user_code_bytes boot_layout = 0x800" "return_stack_top boot_layout = PAGE_OFFSET + 0x158000"
    by (simp_all add: user_code_bytes_def return_stack_top_def boot_layout_def usub_def uadd_def PAGE_OFFSET_def)
  show "user_prepared boot_machine"
    unfolding user_prepared_def l Let_def code
    by (simp add: boot_layout_def User_Session.example_layout_def boot_machine_def boot_registers_example_def
        prepare_cpu_def example_cpuid_def PAGE_def PAGE_OFFSET_def)
  show "list_all (well_behaved (start_layout boot_machine)) boot_program"
    unfolding l boot_program_def
    by (simp add: code, simp add: boot_layout_def uadd_def usub_def PAGE_OFFSET_def layout_defs)
  show "good_finish (start_layout boot_machine) (PAGE_OFFSET + 0x157000) example_finish"
    unfolding l good_finish_def code
    by (simp add: example_finish_def boot_layout_def uadd_def PAGE_OFFSET_def layout_defs)
qed

lemma boot_machine_tables:
  "tables_ready 0x101000 (PAGE_OFFSET + 0x140000) (PAGE_OFFSET + 0x141000) (PAGE_OFFSET + 0x142000) boot_tables"
proof -
  have "(0x101000 :: u64) AND ADDRESS_MASK = 0x101000" by (simp add: ADDRESS_MASK_def)
  moreover have "user_root 0x101000 = PAGE_OFFSET + 0x101000"
    by (simp add: user_root_def uadd_def PAGE_OFFSET_def)
  ultimately show ?thesis
    by (auto simp: tables_ready_def direct_page_def page_aligned_def boot_tables_def list_all_iff PAGE_OFFSET_def)
qed

lemma boot_machine_memory:
  "\<exists>d free. memory_init example_text example_end boot_memory 0x101000 (boot_tables(PAGE_OFFSET + 0x101000 := 0x102003))
     = Inr (d, boot_tables, free, 1) \<and> 2 \<le> free \<and> 1 \<in> free_pages d"
proof -
  let ?e = "\<lparr>e820_address = 0x100000, e820_length = 0xf00000, e820_kind = 1\<rparr>"
  let ?t = "boot_tables(PAGE_OFFSET + 0x101000 := 0x102003)"
  have top: "list_all (\<lambda>e. entry_top e + PAGE_2M_SIZE \<le> usize_range) (entries example_handoff)"
    and e: "?e \<in> set (entries example_handoff)"
    and lo: "PAGE_OFFSET \<le> lo_end Memory_Init.example_layout" "lo_end Memory_Init.example_layout \<le> PAGE_OFFSET + DIRECT_RAM_END"
    by (simp_all add: example_entries_of example_entries_def entry_top_def PAGE_2M_SIZE_def
        PAGE_OFFSET_def Memory_Init.example_layout_def DIRECT_RAM_END_def)
  have link: "?t (uadd (uadd PAGE_OFFSET (unat (0x101000 :: u64))) (256 * 8)) \<noteq> 0"
    and root: "?t(uadd PAGE_OFFSET (unat (0x101000 :: u64)) := 0) = boot_tables"
    by (simp_all add: PAGE_OFFSET_def uadd_def boot_tables_def fun_eq_iff)
  have kept: "div_ceil (lo_end Memory_Init.example_layout - PAGE_OFFSET) PAGE_2M_SIZE = 1"
    by (simp add: Memory_Init.example_layout_def PAGE_OFFSET_def PAGE_2M_SIZE_def div_ceil_def)
  from memory_init_total [where ?cr3.0 = "0x101000" and tables = ?t, OF boot_memory_reads(1) top example_usable e example_layout_metadata lo example_contains link]
  obtain d free where i: "memory_init example_text example_end boot_memory 0x101000 ?t = Inr (d, boot_tables, free, 1)"
    unfolding kept root by blast
  obtain m where m: "read_memory_map boot_memory = Inr m" "free_pages d = (\<Union>x \<in> set (entries m). usable_pages x) - {..<1}"
      "free = card (free_pages d)"
    using memory_init_facts [OF i] by blast
  have "1 \<in> usable_pages ?e" "2 \<in> usable_pages ?e"
    by (auto simp: usable_pages_def page_bytes_def entry_span_def PAGE_2M_SIZE_def)
  then have two: "{1, 2} \<subseteq> free_pages d" using m(1) e unfolding m(2) boot_memory_reads(1) by auto
  have "finite (free_pages d)" by (rule finite_subset [of _ "{..<md_bits_size d}"]) (auto simp: free_pages_def)
  from card_mono [OF this two] have "2 \<le> free" by (simp add: m(3))
  then show ?thesis using i two by blast
qed

lemma boot_machine_parts:
  "ke_registers boot_machine = boot_registers_example" "reg_cr3 boot_registers_example = 0x101000"
  "ke_bytes boot_machine = boot_memory" "ke_ports boot_machine = pc_ports" "ke_layout boot_machine = boot_layout"
  "ke_text boot_machine = example_text" "ke_end boot_machine = example_end"
  "ke_deliveries boot_machine = [(\<lambda>(c, k). (take_timer c, k), 0x20), (\<lambda>(c, k). (take_timer c, k), 0x20)]"
  "ke_tables boot_machine = boot_tables(PAGE_OFFSET + 0x101000 := 0x102003)"
  "ke_program boot_machine = boot_program @ [Finish (PAGE_OFFSET + 0x157000) example_finish]"
  by (simp_all add: boot_machine_def boot_registers_example_def numeral_2_eq_2)

lemma boot_machine_devices:
  "console_init boot_memory = Inr (\<lparr>buffer = PAGE_OFFSET + 0xa00000, width = 1440, height = 900, stride = 1440, cursor_x = 0, cursor_y = 0\<rparr>,
     string_bytes (''VBE console ready'' @ [CHR 0x0a]))"
  "quiet (idle_chip, idle_chip)" "timer_delivery fst (\<lambda>(c, k). (take_timer c, k :: bool \<times> u8 option), 0x20)"
  "\<not> ke_memory_check boot_machine" "\<not> ke_keyboard_check boot_machine" "ke_registers_changed boot_machine = 0"
  "tables_ready 0x101000 (ul_pdpt boot_layout) (ul_pd boot_layout) (ul_pt boot_layout) boot_tables"
  using boot_machine_tables
  by (simp_all only: boot_memory_reads(2) example_console_init)
    (simp_all add: quiet_def idle_chip_def timer_delivery_def boot_machine_def boot_layout_def split: prod.split)

text \<open>The conditions of the start, for this machine.\<close>

lemma boot_machine_conditions:
  "console_init (ke_bytes boot_machine) = Inr (\<lparr>buffer = PAGE_OFFSET + 0xa00000, width = 1440, height = 900, stride = 1440,
     cursor_x = 0, cursor_y = 0\<rparr>, string_bytes (''VBE console ready'' @ [CHR 0x0a]))"
  "verify_boot_mode (ke_registers boot_machine) = Inr (mode_messages boot_registers_example 0x209b00)"
  "ke_memory_check boot_machine \<longrightarrow> (\<exists>s t. one_free_zone d s t \<and> s + 66 \<le> t \<and> s \<le> 3)"
  "ke_irq_check boot_machine \<longrightarrow> ke_registers_changed boot_machine = 0" "pic_ports (ke_ports boot_machine) fst"
  "cooperative_controller (ke_ports boot_machine) snd" "quiet (fst ((idle_chip, idle_chip), False, None :: u8 option))"
  "ke_deliveries boot_machine = (\<lambda>(c, k). (take_timer c, k), 0x20) # (\<lambda>(c, k). (take_timer c, k), 0x20) # []"
  "timer_delivery fst (\<lambda>(c, k). (take_timer c, k :: bool \<times> u8 option), 0x20)" "tasks_placed boot_machine" "user_prepared boot_machine"
  "tables_ready (reg_cr3 (ke_registers boot_machine)) (ul_pdpt (ke_layout boot_machine)) (ul_pd (ke_layout boot_machine))
     (ul_pt (ke_layout boot_machine)) boot_tables"
  "ke_program boot_machine = boot_program @ [Finish (PAGE_OFFSET + 0x157000) example_finish]"
  "list_all (well_behaved (start_layout boot_machine)) boot_program"
  "good_finish (start_layout boot_machine) (PAGE_OFFSET + 0x157000) example_finish" "\<not> ke_keyboard_check boot_machine"
  using boot_machine_devices boot_machine_mode pc_chips pc_keyboard boot_machine_placed boot_machine_user
  by (simp_all only: boot_machine_parts simp_thms fst_conv)

lemma boot_machine_starts:
  "\<exists>d free. memory_init (ke_text boot_machine) (ke_end boot_machine) (ke_bytes boot_machine) (reg_cr3 (ke_registers boot_machine))
     (ke_tables boot_machine) = Inr (d, boot_tables, free, 1) \<and> 2 \<le> free \<and> 1 \<in> free_pages d"
  using boot_machine_memory by (simp only: boot_machine_parts)

theorem start_kernel_completes_witness:
  "\<exists>log out ks w'. start_kernel boot_machine ((idle_chip, idle_chip), False, None) = (Inr (log, out, Some ks), w')
    \<and> list_all (shows_line (debug_port out)) smoke_lines \<and> timer_irqs (ks_irq ks) = 2 \<and> snd w' = (False, None)
    \<and> mask_register (fst (fst w')) = 0xfd"
proof -
  note C = boot_machine_conditions
  obtain d free where m: "memory_init (ke_text boot_machine) (ke_end boot_machine) (ke_bytes boot_machine)
      (reg_cr3 (ke_registers boot_machine)) (ke_tables boot_machine) = Inr (d, boot_tables, free, 1)" "2 \<le> free" "1 \<in> free_pages d"
    using boot_machine_starts by blast
  have five: "(1 :: nat) < 5" by simp
  from start_kernel_completes [OF C(1,2) m five C(3-9,9-15)] show ?thesis by blast
qed

section \<open>Two readings of CR3\<close>

text \<open>
  The mode check and the user mapping mask the flag bits of CR3, \<^verbatim>\<open>memory::init\<close> does not: with a cache
  flag set, the check passes, and the removal of the identity mapping clears another word than the
  first of the root, where the user mapping will look for it.
\<close>

lemma root_masks_differ:
  "(\<exists>p. verify_boot_mode (boot_registers_example\<lparr>reg_cr3 := 0x101018\<rparr>) = Inr p)
   \<and> user_root 0x101018 = PAGE_OFFSET + 0x101000
   \<and> (\<exists>t. remove_identity 0x101018 (\<lambda>_. 0x102003) = Inr t \<and> t (user_root 0x101018) = 0x102003)"
proof -
  have root: "user_root 0x101018 = PAGE_OFFSET + 0x101000"
    by (simp add: user_root_def uadd_def PAGE_OFFSET_def)
  show ?thesis
    unfolding root remove_identity_Inr
    by (simp add: verify_boot_mode_def boot_registers_example_def efer_def code64_def code64_mask_def CR0_PE_def CR0_PG_def
        CR4_PAE_def CR4_LA57_def EFER_LME_def EFER_LMA_def check_address_def uadd_def PAGE_OFFSET_def)
qed

end
