(* ===== verification/Main_Loop.thy ===== *)
theory Main_Loop
  imports Kernel_Start
begin

text \<open>
  The main loop (\<^verbatim>\<open>run\<close> of \<^verbatim>\<open>src/kernel/keyboard.rs\<close>) behind the start of the kernel. Between two passes over the key queue the
  kernel waits with interrupts on; the environment decides which interrupts are delivered in each wait,
  each goes through the dispatcher, and the handler talks to the keyboard controller and to the chips.
\<close>

section \<open>The loop\<close>

text \<open>What one pass prints, from the bytes it took out of the queue and the losses it found.\<close>

definition pass_messages :: "u8 list \<Rightarrow> (usize \<times> usize) option \<Rightarrow> message list" where
  "pass_messages bytes report =
     map (\<lambda>b. (YELLOW, ''Keyboard scan byte: '' @ hexadecimal 4 (unat b) @ [CHR 0x0a])) bytes
     @ (case report of None \<Rightarrow> []
        | Some (dropped, errors) \<Rightarrow> [(RED, ''Keyboard input lost: dropped='' @ decimal dropped
            @ '' errors='' @ decimal errors @ [CHR 0x0a])])"

text \<open>
  The interrupts of one wait (\<^verbatim>\<open>arch::wait_for_interrupt\<close>): the one that ends the \<^verbatim>\<open>HLT\<close> and those that are taken
  before the \<^verbatim>\<open>CLI\<close> behind it.
\<close>

fun wait_window :: "'w ports \<Rightarrow> bool \<Rightarrow> 'w delivery list \<Rightarrow> irq_state \<Rightarrow> ('w, irq_state) io" where
  "wait_window p irq_check [] st = return_io st"
| "wait_window p irq_check ((signal, v) # ds) st =
     (\<lambda>w. bind_io (irq_dispatch p irq_check False v st) (wait_window p irq_check ds) (signal w))"

text \<open>The loop over the waits the environment ends; in the last one the kernel still waits.\<close>

fun keyboard_run :: "'w ports \<Rightarrow> bool \<Rightarrow> 'w delivery list list \<Rightarrow> irq_state \<Rightarrow> ('w, message list \<times> irq_state) io" where
  "keyboard_run p irq_check windows st =
     (case run_pass (key_queue st) of (bytes, report, q) \<Rightarrow>
        let st1 = st\<lparr>key_queue := q\<rparr>; printed = pass_messages bytes report in
        case windows of
          [] \<Rightarrow> return_io (printed, st1)
        | ds # rest \<Rightarrow> bind_io (wait_window p irq_check ds st1) (\<lambda>st2.
            bind_io (keyboard_run p irq_check rest st2) (\<lambda>(more_printed, st3).
              return_io (printed @ more_printed, st3))))"

declare keyboard_run.simps [simp del]

text \<open>
  The loop of the keyboard-check build, which halts behind the last expected byte; the waits behind that are never
  reached. The bytes of a pass are the ones it expected, since any other stops the kernel.
\<close>

definition checked_message :: message where
  "checked_message = (GREEN, ''Keyboard IRQ1 checks OK: a make/break, b make/break; no drops/errors'' @ [CHR 0x0a])"

fun checked_run :: "'w ports \<Rightarrow> bool \<Rightarrow> usize \<Rightarrow> 'w delivery list list \<Rightarrow> irq_state \<Rightarrow> ('w, message list \<times> irq_state) io" where
  "checked_run p irq_check checked windows st =
     bind_io (lift_io (checked_pass checked (key_queue st))) (\<lambda>result. case result of
       Check_Done q \<Rightarrow> then_io (stop_keyboard_check p False)
         (return_io (pass_messages (drop checked EXPECTED) None @ [checked_message], st\<lparr>key_queue := q\<rparr>))
     | Waiting seen report q \<Rightarrow>
         let st1 = st\<lparr>key_queue := q\<rparr>; printed = pass_messages (take (seen - checked) (drop checked EXPECTED)) report in
         case windows of
           [] \<Rightarrow> return_io (printed, st1)
         | ds # rest \<Rightarrow> bind_io (wait_window p irq_check ds st1) (\<lambda>st2.
             bind_io (checked_run p irq_check seen rest st2) (\<lambda>(more_printed, st3).
               return_io (printed @ more_printed, st3))))"

declare checked_run.simps [simp del]

text \<open>The kernel from its entry to a wait of the main loop, or to the halt of the keyboard check: the whole log, console and debug port, and the final state.\<close>

definition run_kernel :: "'w kernel_env \<Rightarrow> 'w delivery list list \<Rightarrow> ('w, message list \<times> console_state \<times> kernel_state option) io" where
  "run_kernel e windows =
     bind_io (start_kernel e) (\<lambda>(log, screen, started). case started of None \<Rightarrow> return_io (log, screen, None)
     | Some ks \<Rightarrow> bind_io (if ke_keyboard_check e then checked_run (ke_ports e) (ke_irq_check e) 0 windows (ks_irq ks)
           else keyboard_run (ke_ports e) (ke_irq_check e) windows (ks_irq ks)) (\<lambda>(printed, irq).
         return_io (log @ printed, print_all printed screen, Some (ks\<lparr>ks_irq := irq\<rparr>))))"

lemma print_all_append: "print_all (xs @ ys) screen = print_all ys (print_all xs screen)"
  by (simp add: print_all_def)

section \<open>The devices\<close>

text \<open>
  What the environment raises in a wait: a key byte, with the status and the data the controller shows, or a
  spurious request of either chip.
\<close>

datatype line_event = Key_Byte u8 u8 | Spurious_Master | Spurious_Slave

definition take_keyboard :: "chip \<times> chip \<Rightarrow> chip \<times> chip" where
  "take_keyboard c = ((fst c)\<lparr>in_service_register := in_service_register (fst c) OR 2\<rparr>, snd c)"

definition take_cascade :: "chip \<times> chip \<Rightarrow> chip \<times> chip" where
  "take_cascade c = ((fst c)\<lparr>in_service_register := in_service_register (fst c) OR 4\<rparr>, snd c)"

text \<open>
  The delivery of an event: line 1 in service and the controller's registers set; for a spurious request of the
  slave the master has the cascade line in service; for one of the master nothing.
\<close>

definition delivers :: "('w \<Rightarrow> chip \<times> chip) \<Rightarrow> ('w \<Rightarrow> u8 \<times> u8) \<Rightarrow> 'w delivery \<Rightarrow> line_event \<Rightarrow> bool" where
  "delivers chips reading d ev = (case ev of
     Key_Byte status byte \<Rightarrow> snd d = 0x21 \<and> (\<forall>w. chips (fst d w) = take_keyboard (chips w) \<and> reading (fst d w) = (status, byte))
   | Spurious_Master \<Rightarrow> snd d = 0x27 \<and> (\<forall>w. chips (fst d w) = chips w)
   | Spurious_Slave \<Rightarrow> snd d = 0x2f \<and> (\<forall>w. chips (fst d w) = take_cascade (chips w)))"

text \<open>
  The keyboard controller shows its status and its data byte on two ports; reading the status and the
  commands to the interrupt controllers do not change them.
\<close>

definition reading_ports :: "'w ports \<Rightarrow> ('w \<Rightarrow> u8 \<times> u8) \<Rightarrow> bool" where
  "reading_ports p reading \<longleftrightarrow>
     (\<forall>w. fst (port_in p STATUS_COMMAND w) = fst (reading w) \<and> reading (snd (port_in p STATUS_COMMAND w)) = reading w
        \<and> fst (port_in p DATA w) = snd (reading w))
   \<and> (\<forall>w a v. a \<in> {MASTER_COMMAND, SLAVE_COMMAND} \<longrightarrow>
        reading (port_out p a v w) = reading w \<and> reading (snd (port_in p a w)) = reading w)"

text \<open>The chips while the kernel waits: no line in service, the keyboard line alone open.\<close>

definition listening :: "chip \<times> chip \<Rightarrow> bool" where
  "listening c \<longleftrightarrow> quiet c \<and> mask_register (fst c) = 0xfd \<and> mask_register (snd c) = 0xff"

section \<open>One interrupt\<close>

definition handled :: "line_event \<Rightarrow> irq_state \<Rightarrow> bool \<Rightarrow> irq_state" where
  "handled ev st irq_check = (case ev of
     Key_Byte status byte \<Rightarrow> st\<lparr>key_queue := (if valid_status status then push (key_queue st) byte else count_error (key_queue st))\<rparr>
   | Spurious_Master \<Rightarrow> count_spurious irq_check 7 st
   | Spurious_Slave \<Rightarrow> count_spurious irq_check 15 st)"

lemma after_key_listening: "listening c \<Longrightarrow> listening (after_irq 1 st (take_keyboard c))"
  by (simp add: listening_def quiet_def after_irq_def select_service_def ended_def end_line_def irq_masks_def take_keyboard_def)

lemma after_spurious_listening:
  assumes "listening c"
  shows "spurious_line c 7" "listening (after_spurious 7 c)"
    and "spurious_line (take_cascade c) 15" "listening (after_spurious 15 (take_cascade c))"
  using assms by (auto simp: listening_def quiet_def spurious_line_def line_in_service_def after_spurious_def
      select_service_def end_line_def take_cascade_def Let_def)

lemma key_dispatch:
  assumes p: "pic_ports p chips" "reading_ports p reading" and c: "listening c" "chips w = take_keyboard c"
    and r: "reading w = (status, byte)" and q: "queue_ok (key_queue st)"
  shows "\<exists>w'. irq_dispatch p irq_check False 0x21 st w = (Inr (handled (Key_Byte status byte) st irq_check), w')
    \<and> listening (chips w')"
proof -
  have l: "expects (fst (chips w)) = 0" "expects (snd (chips w)) = 0" "line_in_service (chips w) 1"
    unfolding c(2) using c(1) by (simp_all add: listening_def quiet_def take_keyboard_def line_in_service_def bit_simps)
  have v: "irq_number 0x21 = Some 1" by (simp add: irq_number_Some)
  obtain st' w' where d: "irq_dispatch p irq_check False 0x21 st w = (Inr st', w')" "chips w' = after_irq 1 st (chips w)"
    using serves_run [OF dispatch_serves [OF p(1) l(1,2) q _ v _ l(3)], of irq_check] by auto
  have "keyboard_answer p w = (status, byte)"
    using p(2) r by (simp add: keyboard_answer_def in_service_def io_simps reading_ports_def Let_def case_prod_unfold)
  from key_served [OF d(1) v this] have "st' = handled (Key_Byte status byte) st irq_check" by (simp add: handled_def)
  then show ?thesis using d after_key_listening [OF c(1)] by (simp add: c(2))
qed

lemma event_dispatch:
  assumes p: "pic_ports p chips" "reading_ports p reading" and c: "listening (chips w)"
    and d: "delivers chips reading (signal, v) ev" and q: "queue_ok (key_queue st)"
  shows "\<exists>w'. irq_dispatch p irq_check False v st (signal w) = (Inr (handled ev st irq_check), w') \<and> listening (chips w')"
proof (cases ev)
  case (Key_Byte status byte)
  then show ?thesis using key_dispatch [OF p c _ _ q, of "signal w" status byte irq_check] d by (simp add: delivers_def)
next
  case Spurious_Master
  then have v: "irq_number v = Some 7" using d by (simp add: delivers_def irq_number_Some)
  show ?thesis
    using spurious_dispatch [OF p(1) v after_spurious_listening(1) [OF c], of irq_check st] after_spurious_listening(2) [OF c] d
    by (auto simp: runs_to_def delivers_def Spurious_Master handled_def)
next
  case Spurious_Slave
  then have v: "irq_number v = Some 15" using d by (simp add: delivers_def irq_number_Some)
  show ?thesis
    using spurious_dispatch [OF p(1) v after_spurious_listening(3) [OF c], of irq_check st] after_spurious_listening(4) [OF c] d
    by (auto simp: runs_to_def delivers_def Spurious_Slave handled_def)
qed

section \<open>One wait\<close>

definition event_step :: "line_event \<Rightarrow> u8 list \<times> usize \<times> usize \<Rightarrow> u8 list \<times> usize \<times> usize" where
  "event_step ev a = (case ev of Key_Byte status byte \<Rightarrow> spec_interrupt status byte a | _ \<Rightarrow> a)"

lemma handled_queue:
  assumes "queue_ok (key_queue st)"
  shows "queue_ok (key_queue (handled ev st irq_check))"
    "abstract_queue (key_queue (handled ev st irq_check)) = event_step ev (abstract_queue (key_queue st))"
    "timer_irqs (handled ev st irq_check) = timer_irqs st"
  using push_queued [OF assms] assms
  by (cases ev; auto simp: handled_def event_step_def abstract_queue_def spec_interrupt_def count_error_def count_spurious_def)+

lemma wait_window_runs:
  assumes p: "pic_ports p chips" "reading_ports p reading"
  shows "list_all2 (delivers chips reading) ds evs \<Longrightarrow> listening (chips w) \<Longrightarrow> queue_ok (key_queue st) \<Longrightarrow>
    \<exists>st' w'. wait_window p irq_check ds st w = (Inr st', w') \<and> listening (chips w') \<and> queue_ok (key_queue st')
      \<and> abstract_queue (key_queue st') = fold event_step evs (abstract_queue (key_queue st)) \<and> timer_irqs st' = timer_irqs st"
proof (induction ds evs arbitrary: st w rule: list_all2_induct)
  case Nil
  then show ?case by (simp add: return_io_run)
next
  case (Cons d ds ev evs)
  obtain signal v where d: "d = (signal, v)" by (cases d)
  obtain w1 where "irq_dispatch p irq_check False v st (signal w) = (Inr (handled ev st irq_check), w1)" "listening (chips w1)"
    using event_dispatch [OF p Cons.prems(1) Cons.hyps(1) [unfolded d] Cons.prems(2)] by blast
  then show ?case
    using Cons.IH [of w1 "handled ev st irq_check"] handled_queue [OF Cons.prems(2), of ev irq_check]
    by (simp add: d bind_io_run)
qed

text \<open>What a wait brings: the valid bytes in order, and the number of faulty ones.\<close>

definition valid_bytes :: "line_event list \<Rightarrow> u8 list" where
  "valid_bytes evs = concat (map (\<lambda>ev. case ev of Key_Byte s b \<Rightarrow> if valid_status s then [b] else [] | _ \<Rightarrow> []) evs)"

definition faulty :: "line_event list \<Rightarrow> nat" where
  "faulty evs = length (filter (\<lambda>ev. case ev of Key_Byte s b \<Rightarrow> \<not> valid_status s | _ \<Rightarrow> False) evs)"

lemma events_length: "length (valid_bytes evs) + faulty evs \<le> length evs"
  by (induction evs) (auto simp: valid_bytes_def faulty_def split: line_event.split)

lemma fold_event_step:
  "length evs < usize_range \<Longrightarrow> fold event_step evs ([], 0, 0) =
    (take QUEUE_CAPACITY (valid_bytes evs), length (valid_bytes evs) - QUEUE_CAPACITY, faulty evs)"
proof (induction evs rule: rev_induct)
  case Nil
  then show ?case by (simp add: valid_bytes_def faulty_def)
next
  case (snoc ev evs)
  have "uadd (length (valid_bytes evs) - QUEUE_CAPACITY) 1 = length (valid_bytes evs) - QUEUE_CAPACITY + 1"
    "uadd (faulty evs) 1 = faulty evs + 1"
    using events_length [of evs] snoc.prems by (simp_all add: uadd_exact del: One_nat_def)
  then show ?case
    using snoc by (cases ev) (auto simp: event_step_def spec_interrupt_def valid_bytes_def faulty_def min_def)
qed

text \<open>
  The lines of the pass after a wait: the first 64 valid bytes, one line each, and one line for the losses
  if a byte found the queue full or was faulty.
\<close>

definition wait_losses :: "line_event list \<Rightarrow> (usize \<times> usize) option" where
  "wait_losses evs = (if QUEUE_CAPACITY < length (valid_bytes evs) \<or> 0 < faulty evs
     then Some (length (valid_bytes evs) - QUEUE_CAPACITY, faulty evs) else None)"

definition wait_messages :: "line_event list \<Rightarrow> message list" where
  "wait_messages evs = pass_messages (take QUEUE_CAPACITY (valid_bytes evs)) (wait_losses evs)"

lemma wait_messages_Nil [simp]: "wait_messages [] = []"
  by (simp add: wait_messages_def wait_losses_def valid_bytes_def faulty_def pass_messages_def)

lemma pass_after_wait:
  assumes "queue_ok q" "abstract_queue q = fold event_step evs ([], 0, 0)" "length evs < usize_range"
  shows "\<exists>q'. run_pass q = (take QUEUE_CAPACITY (valid_bytes evs), wait_losses evs, q')
    \<and> queue_ok q' \<and> abstract_queue q' = ([], 0, 0)"
proof -
  have a: "queued q = take QUEUE_CAPACITY (valid_bytes evs)" "bq_dropped q = length (valid_bytes evs) - QUEUE_CAPACITY"
    "bq_errors q = faulty evs"
    using assms(2) unfolding fold_event_step [OF assms(3)] by (simp_all add: abstract_queue_def)
  obtain q1 where "drain_queue q = (queued q, q1)" "queue_ok q1" "queued q1 = []" "bq_dropped q1 = bq_dropped q" "bq_errors q1 = bq_errors q"
    using drain_queue_queued [OF assms(1)] by blast
  then show ?thesis unfolding a by (auto simp: run_pass_def abstract_queue_def wait_losses_def)
qed

section \<open>The whole loop\<close>

lemma keyboard_run_prints:
  assumes p: "pic_ports p chips" "reading_ports p reading"
  shows "list_all2 (list_all2 (delivers chips reading)) windows events \<Longrightarrow> list_all (\<lambda>evs. length evs < usize_range) events \<Longrightarrow>
    listening (chips w) \<Longrightarrow> queue_ok (key_queue st) \<Longrightarrow> length evs0 < usize_range \<Longrightarrow>
    abstract_queue (key_queue st) = fold event_step evs0 ([], 0, 0) \<Longrightarrow>
    \<exists>st' w'. keyboard_run p irq_check windows st w = (Inr (wait_messages evs0 @ concat (map wait_messages events), st'), w')
      \<and> listening (chips w') \<and> queue_ok (key_queue st') \<and> abstract_queue (key_queue st') = ([], 0, 0)
      \<and> timer_irqs st' = timer_irqs st"
proof (induction windows events arbitrary: st w evs0 rule: list_all2_induct)
  case Nil
  obtain q where "run_pass (key_queue st) = (take QUEUE_CAPACITY (valid_bytes evs0), wait_losses evs0, q)"
      "queue_ok q" "abstract_queue q = ([], 0, 0)"
    using pass_after_wait [OF Nil(3,5,4)] by blast
  then show ?case
    using Nil(2) by (subst keyboard_run.simps) (simp add: return_io_run wait_messages_def Let_def)
next
  case (Cons ds windows evs events)
  obtain q where pass: "run_pass (key_queue st) = (take QUEUE_CAPACITY (valid_bytes evs0), wait_losses evs0, q)"
      "queue_ok q" "abstract_queue q = ([], 0, 0)"
    using pass_after_wait [OF Cons.prems(3,5,4)] by blast
  let ?st = "st\<lparr>key_queue := q\<rparr>"
  obtain st1 w1 where wait: "wait_window p irq_check ds ?st w = (Inr st1, w1)" "listening (chips w1)" "queue_ok (key_queue st1)"
      "abstract_queue (key_queue st1) = fold event_step evs ([], 0, 0)" "timer_irqs st1 = timer_irqs st"
    using wait_window_runs [OF p Cons.hyps(1) Cons.prems(2), of ?st irq_check] pass(2,3) by auto
  obtain st2 w2 where rest: "keyboard_run p irq_check windows st1 w1 = (Inr (wait_messages evs @ concat (map wait_messages events), st2), w2)"
      "listening (chips w2)" "queue_ok (key_queue st2)" "abstract_queue (key_queue st2) = ([], 0, 0)" "timer_irqs st2 = timer_irqs st1"
    using Cons.IH [OF _ wait(2,3) _ wait(4)] Cons.prems(1) by auto
  show ?case
    using rest wait(1,5) by (subst keyboard_run.simps)
      (simp add: pass(1) bind_io_run return_io_run wait_messages_def [of evs0] Let_def)
qed

section \<open>The loop of the keyboard check\<close>

lemma checked_pass_counters:
  "checked_pass k q = Inr (Waiting n report q') \<Longrightarrow> bq_dropped q' = 0 \<and> bq_errors q' = 0"
proof (induction k q arbitrary: n report q' rule: checked_pass.induct)
  case (1 k q)
  obtain r q1 where pop: "pop q = (r, q1)" by (cases "pop q")
  show ?case
  proof (cases r)
    case None
    then show ?thesis using 1(2) by (subst (asm) checked_pass.simps) (auto simp: pop split: if_splits)
  next
    case (Some byte)
    have "k < length EXPECTED" "byte = EXPECTED ! k" "k + 1 \<noteq> length EXPECTED" "checked_pass (k + 1) q1 = Inr (Waiting n report q')"
      using 1(2) Some by (subst (asm) checked_pass.simps, auto simp: pop bind_res_Inr split: if_splits)+
    then show ?thesis using 1(1) [OF pop [symmetric] Some] by simp
  qed
qed

lemma length_EXPECTED: "length EXPECTED = 4"
  by (simp add: EXPECTED_def)

text \<open>The queue after a wait that brought a part of the expected bytes and nothing else.\<close>

lemma checked_wait:
  assumes "abstract_queue q = fold event_step evs ([], 0, 0)" "length evs < usize_range" "faulty evs = 0"
    and "valid_bytes evs @ rest = drop k EXPECTED"
  shows "queued q = valid_bytes evs" "bq_dropped q = 0" "bq_errors q = 0"
proof -
  have "length (valid_bytes evs @ rest) \<le> 4" unfolding assms(4) by (simp add: length_EXPECTED)
  then have "length (valid_bytes evs) \<le> QUEUE_CAPACITY" by (simp add: QUEUE_CAPACITY_def)
  then show "queued q = valid_bytes evs" "bq_dropped q = 0" "bq_errors q = 0"
    using assms(1,3) unfolding fold_event_step [OF assms(2)] by (simp_all add: abstract_queue_def)
qed

lemma no_messages: "concat (map valid_bytes events) = [] \<Longrightarrow> concat (map (\<lambda>evs. pass_messages (valid_bytes evs) None) events) = []"
  by (auto simp: pass_messages_def)

lemma checked_run_done:
  assumes p: "pic_ports p chips" and "listening (chips w)" "queue_ok (key_queue st)" "k < 4"
    and q: "queued (key_queue st) = drop k EXPECTED" "bq_dropped (key_queue st) = 0" "bq_errors (key_queue st) = 0"
  shows "\<exists>st' w'. checked_run p irq_check k windows st w = (Inr (pass_messages (drop k EXPECTED) None @ [checked_message], st'), w')
    \<and> quiet (chips w') \<and> mask_register (fst (chips w')) = 0xff \<and> mask_register (snd (chips w')) = 0xff"
proof -
  have "\<not> k + length (queued (key_queue st)) < 4" using assms(4) by (simp add: q(1) length_EXPECTED)
  then obtain q' where pass: "checked_pass k (key_queue st) = Inr (Check_Done q')"
    using checked_pass_exact [OF assms(3,4) q(2,3)] q(1) by auto
  obtain w' where mask: "mask_all p w = (Inr (), w')"
      "chips w' = ((fst (chips w))\<lparr>mask_register := 0xff\<rparr>, (snd (chips w))\<lparr>mask_register := 0xff\<rparr>)"
    using runs_to_mask_all [OF p, of "fst (chips w)" "snd (chips w)"] assms(2) by (auto simp: runs_to_def listening_def quiet_def)
  show ?thesis
    using mask assms(2) by (subst checked_run.simps)
      (simp add: pass bind_io_run lift_io_def then_io_run ensure_io_run stop_keyboard_check_def return_io_run listening_def quiet_def)
qed

text \<open>If the bytes that arrive are the expected ones and no byte is faulty, the check passes and the controllers are masked.\<close>

lemma checked_run_passes:
  assumes p: "pic_ports p chips" "reading_ports p reading"
  shows "list_all2 (list_all2 (delivers chips reading)) windows events \<Longrightarrow> list_all (\<lambda>evs. length evs < usize_range \<and> faulty evs = 0) events \<Longrightarrow>
    listening (chips w) \<Longrightarrow> queue_ok (key_queue st) \<Longrightarrow> length evs0 < usize_range \<Longrightarrow> faulty evs0 = 0 \<Longrightarrow>
    abstract_queue (key_queue st) = fold event_step evs0 ([], 0, 0) \<Longrightarrow> k < 4 \<Longrightarrow>
    valid_bytes evs0 @ concat (map valid_bytes events) = drop k EXPECTED \<Longrightarrow>
    \<exists>st' w'. checked_run p irq_check k windows st w =
        (Inr (concat (map (\<lambda>evs. pass_messages (valid_bytes evs) None) (evs0 # events)) @ [checked_message], st'), w')
      \<and> quiet (chips w') \<and> mask_register (fst (chips w')) = 0xff \<and> mask_register (snd (chips w')) = 0xff"
proof (induction windows events arbitrary: st w evs0 k rule: list_all2_induct)
  case Nil
  note q = checked_wait [OF Nil(6,4,5,8)]
  show ?case using checked_run_done [OF p(1) Nil(2,3,7), of irq_check "[]"] q Nil(8) by simp
next
  case (Cons ds windows evs events)
  let ?rest = "concat (map valid_bytes (evs # events))"
  note q = checked_wait [OF Cons.prems(6,4,5,8)]
  show ?case
  proof (cases "?rest = []")
    case True
    then have v: "valid_bytes evs0 = drop k EXPECTED" using Cons.prems(8) unfolding True by simp
    have "concat (map (\<lambda>evs. pass_messages (valid_bytes evs) None) (evs0 # evs # events)) = pass_messages (drop k EXPECTED) None"
      by (simp only: list.map(2) [of _ evs0] concat.simps(2) no_messages [OF True] v append_Nil2)
    then show ?thesis
      using checked_run_done [OF p(1) Cons.prems(2,3,7), of irq_check "ds # windows"] q by (simp only: v append_assoc)
  next
    case False
    let ?n = "length (valid_bytes evs0)"
    have len: "?n + length ?rest = 4 - k" using arg_cong [OF Cons.prems(8), of length] by (simp add: length_EXPECTED)
    then have n: "k + ?n < 4" using False Cons.prems(7) by (cases ?rest) (auto simp del: concat.simps list.map)
    have v: "take ?n (drop k EXPECTED) = valid_bytes evs0" unfolding Cons.prems(8) [symmetric] by simp
    obtain q' where pass: "checked_pass k (key_queue st) = Inr (Waiting (k + ?n) None q')" "queue_ok q'" "queued q' = []"
      using checked_pass_exact [OF Cons.prems(3,7) q(2,3)] n v q(1) by auto
    let ?st = "st\<lparr>key_queue := q'\<rparr>"
    have a: "abstract_queue q' = ([], 0, 0)" using checked_pass_counters [OF pass(1)] pass(3) by (simp add: abstract_queue_def)
    obtain st1 w1 where wait: "wait_window p irq_check ds ?st w = (Inr st1, w1)" "listening (chips w1)" "queue_ok (key_queue st1)"
        "abstract_queue (key_queue st1) = fold event_step evs ([], 0, 0)"
      using wait_window_runs [OF p Cons.hyps(1) Cons.prems(2), of ?st irq_check] pass(2) a by auto
    have "drop (k + ?n) EXPECTED = ?rest" using arg_cong [OF Cons.prems(8), of "drop ?n"] by (simp add: add.commute)
    then obtain st2 w2 where rest: "checked_run p irq_check (k + ?n) windows st1 w1 =
        (Inr (concat (map (\<lambda>evs. pass_messages (valid_bytes evs) None) (evs # events)) @ [checked_message], st2), w2)"
        "quiet (chips w2)" "mask_register (fst (chips w2)) = 0xff" "mask_register (snd (chips w2)) = 0xff"
      using Cons.IH [OF _ wait(2,3) _ _ wait(4) n] Cons.prems(1) by auto
    show ?thesis
      using rest wait(1) by (subst checked_run.simps) (simp add: pass(1) bind_io_run lift_io_def return_io_run v Let_def)
  qed
qed

text \<open>
  C2. The kernel starts and then serves the keyboard for ever. Under the conditions of the start, for all interrupts the devices
  deliver in the waits of the main loop, key bytes with any status and spurious requests, in any number and order: no check
  fails, every delivered line is ended and the keyboard line alone stays open, and the lines printed are, wait by wait, exactly
  the first 64 valid bytes in order and one line with the exact numbers of dropped and faulty bytes if there
  were any; console and debug port hold what printing the log makes of them, and memory is as the initialisation left it.
\<close>

theorem kernel_serves_keyboard:
  assumes "console_init (ke_bytes e) = Inr (c, ready)" "verify_boot_mode (ke_registers e) = Inr printed"
    and "memory_init (ke_text e) (ke_end e) (ke_bytes e) (reg_cr3 (ke_registers e)) (ke_tables e) = Inr (d, tables, free, kept)"
    and "2 \<le> free" "i \<in> free_pages d" "i < 5"
    and "ke_memory_check e \<longrightarrow> (\<exists>s t. one_free_zone d s t \<and> s + 66 \<le> t \<and> s \<le> 3)"
    and "ke_irq_check e \<longrightarrow> ke_registers_changed e = 0" "pic_ports (ke_ports e) chips" "cooperative_controller (ke_ports e) view" "quiet (chips w)"
    and "ke_deliveries e = d1 # d2 # ds" "timer_delivery chips d1" "timer_delivery chips d2"
    and "tasks_placed e" "user_prepared e"
    and "tables_ready (reg_cr3 (ke_registers e)) (ul_pdpt (ke_layout e)) (ul_pd (ke_layout e)) (ul_pt (ke_layout e)) tables"
    and "ke_program e = events @ [Finish k frame]" "list_all (well_behaved (start_layout e)) events"
    and "good_finish (start_layout e) k frame"
    and "reading_ports (ke_ports e) reading" "list_all2 (list_all2 (delivers chips reading)) windows arrived"
    and "list_all (\<lambda>evs. length evs < usize_range) arrived" "\<not> ke_keyboard_check e"
  shows "\<exists>report base texts log ks w'. run_kernel e windows w = (Inr (log, print_all log (console_start c ready), Some ks), w')
    \<and> log = boot_log e printed report free base texts @ concat (map wait_messages arrived)
    \<and> listening (chips w') \<and> queued (key_queue (ks_irq ks)) = [] \<and> timer_irqs (ks_irq ks) = 2 \<and> ks_memory ks = d"
proof -
  obtain report base texts ks w1 where
      start: "start_kernel e w = (Inr (boot_log e printed report free base texts,
        print_all (boot_log e printed report free base texts) (console_start c ready), Some ks), w1)" "ks_memory ks = d" "timer_irqs (ks_irq ks) = 2"
      "key_queue (ks_irq ks) = new_queue" "listening (chips w1)"
    using start_kernel_runs [OF assms(1-20)] unfolding listening_def by blast
  obtain irq w2 where run: "keyboard_run (ke_ports e) (ke_irq_check e) windows (ks_irq ks) w1
      = (Inr (wait_messages [] @ concat (map wait_messages arrived), irq), w2)"
      "listening (chips w2)" "abstract_queue (key_queue irq) = ([], 0, 0)" "timer_irqs irq = timer_irqs (ks_irq ks)"
    using keyboard_run_prints [OF assms(9,21-23) start(5), of "ks_irq ks" "[]" "ke_irq_check e"] start(4)
    by (auto simp: abstract_queue_def)
  then show ?thesis using start(1-3) assms(24)
    by - (rule exI [of _ report], rule exI [of _ base], rule exI [of _ texts],
      simp add: run_kernel_def bind_io_run return_io_run abstract_queue_def print_all_append)
qed

text \<open>
  The keyboard check passes: if the devices bring exactly the four expected bytes, spread over the waits in any way and mixed with
  spurious requests, the checking build halts with its message and both controllers masked.
\<close>

theorem keyboard_check_passes:
  assumes "console_init (ke_bytes e) = Inr (c, ready)" "verify_boot_mode (ke_registers e) = Inr printed"
    and "memory_init (ke_text e) (ke_end e) (ke_bytes e) (reg_cr3 (ke_registers e)) (ke_tables e) = Inr (d, tables, free, kept)"
    and "2 \<le> free" "i \<in> free_pages d" "i < 5"
    and "ke_memory_check e \<longrightarrow> (\<exists>s t. one_free_zone d s t \<and> s + 66 \<le> t \<and> s \<le> 3)"
    and "ke_irq_check e \<longrightarrow> ke_registers_changed e = 0" "pic_ports (ke_ports e) chips" "cooperative_controller (ke_ports e) view" "quiet (chips w)"
    and "ke_deliveries e = d1 # d2 # ds" "timer_delivery chips d1" "timer_delivery chips d2"
    and "tasks_placed e" "user_prepared e"
    and "tables_ready (reg_cr3 (ke_registers e)) (ul_pdpt (ke_layout e)) (ul_pd (ke_layout e)) (ul_pt (ke_layout e)) tables"
    and "ke_program e = events @ [Finish k frame]" "list_all (well_behaved (start_layout e)) events"
    and "good_finish (start_layout e) k frame"
    and "reading_ports (ke_ports e) reading" "list_all2 (list_all2 (delivers chips reading)) windows arrived"
    and "list_all (\<lambda>evs. length evs < usize_range \<and> faulty evs = 0) arrived" "ke_keyboard_check e"
    and "concat (map valid_bytes arrived) = EXPECTED"
  shows "\<exists>report base texts log ks w'. run_kernel e windows w = (Inr (log, print_all log (console_start c ready), Some ks), w')
    \<and> log = boot_log e printed report free base texts
      @ concat (map (\<lambda>evs. pass_messages (valid_bytes evs) None) arrived) @ [checked_message]
    \<and> mask_register (fst (chips w')) = 0xff \<and> mask_register (snd (chips w')) = 0xff"
proof -
  obtain report base texts ks w1 where
      start: "start_kernel e w = (Inr (boot_log e printed report free base texts,
        print_all (boot_log e printed report free base texts) (console_start c ready), Some ks), w1)"
      "key_queue (ks_irq ks) = new_queue" "listening (chips w1)"
    using start_kernel_runs [OF assms(1-20)] unfolding listening_def by blast
  have none: "abstract_queue (key_queue (ks_irq ks)) = fold event_step [] ([], 0, 0)" "queue_ok (key_queue (ks_irq ks))"
    by (simp_all add: start(2) abstract_queue_def)
  have all: "valid_bytes [] @ concat (map valid_bytes arrived) = drop 0 EXPECTED" "faulty [] = 0" "length [] < usize_range" "(0 :: nat) < 4"
    using assms(25) by (simp_all add: valid_bytes_def faulty_def)
  obtain irq w2 where "checked_run (ke_ports e) (ke_irq_check e) 0 windows (ks_irq ks) w1 =
      (Inr (concat (map (\<lambda>evs. pass_messages (valid_bytes evs) None) ([] # arrived)) @ [checked_message], irq), w2)"
      "mask_register (fst (chips w2)) = 0xff" "mask_register (snd (chips w2)) = 0xff"
    using checked_run_passes [OF assms(9,21-23) start(3) none(2) all(3,2) none(1) all(4,1), of "ke_irq_check e"] by blast
  then show ?thesis using start(1) assms(24)
    by - (rule exI [of _ report], rule exI [of _ base], rule exI [of _ texts],
      simp add: run_kernel_def bind_io_run return_io_run pass_messages_def valid_bytes_def print_all_append)
qed

definition pc_reading :: "(chip \<times> chip) \<times> bool \<times> u8 option \<Rightarrow> u8 \<times> u8" where
  "pc_reading = (\<lambda>(c, cfg, out). (if out = None then 0 else 1, case out of None \<Rightarrow> 0 | Some b \<Rightarrow> b))"

definition pc_key :: "u8 \<Rightarrow> ((chip \<times> chip) \<times> bool \<times> u8 option) delivery" where
  "pc_key b = (\<lambda>(c, k). (take_keyboard c, False, Some b), 0x21)"

lemma pc_reading_ports: "reading_ports pc_ports pc_reading"
  by (auto simp: reading_ports_def pc_reading_def pc_ports_def good_controller_def kbd_defs pic_ports_defs split: prod.splits)

lemma pc_deliveries:
  "delivers fst pc_reading (pc_key b) (Key_Byte 1 b)" "delivers fst pc_reading (\<lambda>w. w, 0x27) Spurious_Master"
  by (auto simp: delivers_def pc_key_def pc_reading_def)

theorem kernel_serves_keyboard_witness:
  "\<exists>log out ks w'. run_kernel boot_machine [[pc_key 0x1e, (\<lambda>w. w, 0x27)], [pc_key 0x9e]] ((idle_chip, idle_chip), False, None)
      = (Inr (log @ [(YELLOW, ''Keyboard scan byte: 0x1e'' @ [CHR 0x0a]), (YELLOW, ''Keyboard scan byte: 0x9e'' @ [CHR 0x0a])], out, Some ks), w')
    \<and> timer_irqs (ks_irq ks) = 2"
proof -
  let ?arrived = "[[Key_Byte 1 0x1e, Spurious_Master], [Key_Byte 1 0x9e]]"
  let ?windows = "[[pc_key 0x1e, (\<lambda>w. w, 0x27)], [pc_key 0x9e]]"
  note C = boot_machine_conditions
  obtain d free where m: "memory_init (ke_text boot_machine) (ke_end boot_machine) (ke_bytes boot_machine)
      (reg_cr3 (ke_registers boot_machine)) (ke_tables boot_machine) = Inr (d, boot_tables, free, 1)" "2 \<le> free" "1 \<in> free_pages d"
    using boot_machine_starts by blast
  have five: "(1 :: nat) < 5" by simp
  have reading: "reading_ports (ke_ports boot_machine) pc_reading"
    and arrive: "list_all2 (list_all2 (delivers fst pc_reading)) ?windows ?arrived"
    and short: "list_all (\<lambda>evs. length evs < usize_range) ?arrived"
    using pc_reading_ports pc_deliveries by (simp_all add: boot_machine_parts(4))
  have t: "concat (map wait_messages ?arrived) =
      [(YELLOW, ''Keyboard scan byte: 0x1e'' @ [CHR 0x0a]), (YELLOW, ''Keyboard scan byte: 0x9e'' @ [CHR 0x0a])]"
    by (simp add: wait_messages_def wait_losses_def pass_messages_def valid_bytes_def faulty_def valid_status_def kbd_defs
        QUEUE_CAPACITY_def hexadecimal_def digits_text.simps digit_def Let_def)
  from kernel_serves_keyboard [OF C(1,2) m five C(3-9,9-15) reading arrive short C(16), unfolded t] show ?thesis by blast
qed

end
