(* ===== verification/Fault_Demo.thy ===== *)
theory Fault_Demo
  imports User_Session
begin

text \<open>
  The deliberate faults of the checking builds: the four experiments at user level
  (\<^verbatim>\<open>src/kernel/usermode.rs\<close>), each of which the processor has to refuse, and the two in the kernel
  (\<^verbatim>\<open>src/kernel/main.rs\<close>). The processor's part is its documented page-fault error code, read off the same
  page tables the kernel writes; the report and its verdict are those of \<^verbatim>\<open>src/kernel/trap.rs\<close>. Address bits
  of table entries above the physical width, protection keys and SMAP are not modelled.
\<close>

section \<open>The selected experiment\<close>

record fault_features =
  ff_divide :: bool
  ff_page :: bool
  ff_user_kernel :: bool
  ff_user_write :: bool
  ff_user_exec :: bool
  ff_user_privileged :: bool

text \<open>The check of \<^verbatim>\<open>main.rs\<close> when the kernel is compiled.\<close>

definition features_accepted :: "fault_features \<Rightarrow> bool" where
  "features_accepted f \<longleftrightarrow> of_bool (ff_divide f) + of_bool (ff_page f) + of_bool (ff_user_kernel f)
     + of_bool (ff_user_write f) + of_bool (ff_user_exec f) + of_bool (ff_user_privileged f) \<le> (1 :: nat)"

datatype kernel_fault = Fault_Divide | Fault_Page

definition enabled_user_faults :: "fault_features \<Rightarrow> user_fault list" where
  "enabled_user_faults f = (if ff_user_kernel f then [Fault_User_Kernel] else [])
     @ (if ff_user_write f then [Fault_User_Write] else []) @ (if ff_user_exec f then [Fault_User_Exec] else [])
     @ (if ff_user_privileged f then [Fault_User_Privileged] else [])"

definition enabled_kernel_faults :: "fault_features \<Rightarrow> kernel_fault list" where
  "enabled_kernel_faults f = (if ff_divide f then [Fault_Divide] else []) @ (if ff_page f then [Fault_Page] else [])"

lemma accepted_single_fault:
  "features_accepted f \<longleftrightarrow> length (enabled_user_faults f) + length (enabled_kernel_faults f) \<le> 1"
  by (simp add: features_accepted_def enabled_user_faults_def enabled_kernel_faults_def)

section \<open>What the processor refuses\<close>

datatype access_kind = Data_Read | Data_Write | Instruction_Fetch

text \<open>
  The low bits of the error code of a walk: 0 when a level is not present, 9 when an entry has its
  execute-disable bit set while the feature is off, which makes the bit reserved, and 1 otherwise.
\<close>

fun walk_code :: "bool \<Rightarrow> nat \<Rightarrow> table_memory \<Rightarrow> nat list \<Rightarrow> u64 \<Rightarrow> u64 \<Rightarrow> u64" where
  "walk_code nxe offset mem [] base va = 0"
| "walk_code nxe offset mem (s # levels) base va =
     (let e = table_entry offset mem base (table_index s va)
      in if \<not> bit e 0 then 0
         else if bit e 63 \<and> \<not> nxe then 9
         else if levels = [] \<or> bit e 7 \<and> s \<noteq> 39 then 1
         else walk_code nxe offset mem levels (e AND ADDRESS_MASK) va)"

definition address_code :: "bool \<Rightarrow> table_memory \<Rightarrow> u64 \<Rightarrow> u64 \<Rightarrow> u64" where
  "address_code nxe mem cr3 va = walk_code nxe PAGE_OFFSET mem [39, 30, 21, 12] (cr3 AND ADDRESS_MASK) va"

datatype refusal = General_Protection | Page_Fault u64

definition permits :: "access_kind \<Rightarrow> (u64 \<times> bool \<times> bool) option \<Rightarrow> bool" where
  "permits kind translation = (case translation of None \<Rightarrow> False
   | Some (pa, writable, executable) \<Rightarrow>
       (case kind of Data_Read \<Rightarrow> True | Data_Write \<Rightarrow> writable | Instruction_Fetch \<Rightarrow> executable))"

text \<open>An access at user level: bits 1, 2 and 4 of the code are write, user and instruction fetch.\<close>

definition user_refusal :: "bool \<Rightarrow> table_memory \<Rightarrow> u64 \<Rightarrow> access_kind \<Rightarrow> u64 \<Rightarrow> refusal option" where
  "user_refusal nxe mem cr3 kind va =
     (let code = address_code nxe mem cr3 va in
      if \<not> canonical va then Some General_Protection
      else if code = 1 \<and> permits kind (user_access PAGE_OFFSET mem cr3 va) then None
      else Some (Page_Fault (code OR 4 OR (if kind = Data_Write then 2 else 0)
        OR (if kind = Instruction_Fetch \<and> nxe then 16 else 0))))"

text \<open>A read in the kernel, where the user bit of the entries does not matter.\<close>

definition kernel_read_refusal :: "bool \<Rightarrow> table_memory \<Rightarrow> u64 \<Rightarrow> u64 \<Rightarrow> refusal option" where
  "kernel_read_refusal nxe mem cr3 va =
     (let code = address_code nxe mem cr3 va in
      if \<not> canonical va then Some General_Protection else if code = 1 then None else Some (Page_Fault code))"

section \<open>The user experiments\<close>

text \<open>Where the program stands: at the experiment's instruction, and at the \<^verbatim>\<open>UD2\<close> behind it.\<close>

record user_point =
  up_registers :: "u64 list"
  up_rip :: u64
  up_rsp :: u64
  up_rflags :: u64
  up_behind :: u64
  up_behind_registers :: "u64 list"

text \<open>The access of each experiment; the privileged one is the instruction \<^verbatim>\<open>HLT\<close>.\<close>

definition fault_access :: "user_fault \<Rightarrow> (access_kind \<times> u64) option" where
  "fault_access feature = (case feature of
     Fault_User_Kernel \<Rightarrow> Some (Data_Read, of_nat PAGE_OFFSET + 0x100000)
   | Fault_User_Write \<Rightarrow> Some (Data_Write, CODE)
   | Fault_User_Exec \<Rightarrow> Some (Instruction_Fetch, STACK)
   | Fault_User_Privileged \<Rightarrow> None)"

definition user_frame :: "user_point \<Rightarrow> u64 list \<Rightarrow> u64 \<Rightarrow> u64 \<Rightarrow> u64 \<Rightarrow> interrupt_frame" where
  "user_frame p general v err ip = \<lparr>registers = general, vector = v, error = err, rip = ip, cs = 0x2b,
     rflags = up_rflags p, rsp = up_rsp p, ss = 0x33\<rparr>"

text \<open>
  CR2 and the frame of the exception. An access that is granted leads to the \<^verbatim>\<open>UD2\<close> and its exception
  6, except the jump, which then runs what the stack holds (\<open>None\<close>). A refused fetch is reported at
  its target.
\<close>

definition fault_frame :: "bool \<Rightarrow> table_memory \<Rightarrow> u64 \<Rightarrow> user_fault \<Rightarrow> user_point \<Rightarrow> u64 \<Rightarrow> (u64 \<times> interrupt_frame) option" where
  "fault_frame nxe mem cr3 feature p cr2 = (case fault_access feature of
     None \<Rightarrow> Some (cr2, user_frame p (up_registers p) 13 0 (up_rip p))
   | Some (kind, va) \<Rightarrow>
      (let general = (up_registers p)[14 := va] in case user_refusal nxe mem cr3 kind va of
         Some General_Protection \<Rightarrow> Some (cr2, user_frame p general 13 0 (up_rip p))
       | Some (Page_Fault code) \<Rightarrow>
           Some (va, user_frame p general 14 code (if kind = Instruction_Fetch then va else up_rip p))
       | None \<Rightarrow> if kind = Instruction_Fetch then None
                 else Some (cr2, user_frame p (up_behind_registers p) 6 0 (up_behind p))))"

text \<open>The execute-disable feature is bit 11 of the register EFER.\<close>

definition nx_enabled :: "msrs \<Rightarrow> bool" where
  "nx_enabled m \<longleftrightarrow> bit (m 0xc0000080) 11"

text \<open>
  A checking build up to its halt: entry of user mode, the stores of the program to its stack, the
  experiment and the report. \<open>None\<close>: the program did not fault in the experiment.
\<close>

definition fault_session :: "user_layout \<Rightarrow> user_fault \<Rightarrow> bool \<Rightarrow> (u64 \<times> u8) list \<Rightarrow> user_point \<Rightarrow> u64 \<Rightarrow> user_machine \<Rightarrow>
    (message list \<times> panic option) option res" where
  "fault_session l feature interrupts_enabled stores p cr2 m =
     bind_res (enter_user l interrupts_enabled m) (\<lambda>(m1, run, old_stack).
     bind_res (run_user l False (map (\<lambda>(va, b). Store va b) stores) m1) (\<lambda>(printed, e, m2).
     Inr (if e \<noteq> Running then None
          else map_option (\<lambda>(address, frame).
            let (report, failure) = exception_dispatch (Some (verify_expected_fault feature (um_active m2) address)) address frame
            in ([sysenter_message, ready_message] @ report, failure))
          (fault_frame (nx_enabled (um_msrs m2)) (um_tables m2) (ul_cr3 l) feature p cr2))))"

section \<open>The check accepts exactly a refusal by protection\<close>

definition point_ok :: "user_point \<Rightarrow> bool" where
  "point_ok p \<longleftrightarrow> up_rflags p AND (push_bit 12 3 OR push_bit 9 1 OR push_bit 10 1) = 0
     \<and> STACK \<le> up_rsp p \<and> up_rsp p < STACK_TOP \<and> CODE \<le> up_rip p \<and> up_rip p < CODE + of_nat PAGE"

lemma assert_user_frame_point: "point_ok p \<Longrightarrow> assert_user_frame (user_frame p general v err ip) = Inr ()"
  by (simp add: assert_user_frame_def point_ok_def user_frame_def)

text \<open>Refused although every level of the walk is present.\<close>

definition protected :: "table_memory \<Rightarrow> u64 \<Rightarrow> access_kind \<Rightarrow> u64 \<Rightarrow> bool" where
  "protected mem cr3 kind va \<longleftrightarrow> address_code True mem cr3 va = 1
     \<and> \<not> permits kind (user_access PAGE_OFFSET mem cr3 va)"

definition fault_label :: "user_fault \<Rightarrow> string" where
  "fault_label feature = (case feature of Fault_User_Kernel \<Rightarrow> ''kernel read denied'' | Fault_User_Write \<Rightarrow> ''code write denied''
     | Fault_User_Exec \<Rightarrow> ''stack execute denied'' | Fault_User_Privileged \<Rightarrow> ''privileged HLT denied'')"

definition verdict :: "user_fault \<Rightarrow> message" where
  "verdict feature = (GREEN, ''User protection check OK: '' @ fault_label feature @ ''; CPL=3'' @ [CHR 0x0a])"

lemma walk_code_values: "walk_code True offset mem levels base va \<in> {0, 1}"
  by (induction levels arbitrary: base) (auto simp: Let_def)

lemma experiment_canonical: "fault_access feature = Some (kind, va) \<Longrightarrow> canonical va"
  by (cases feature) (auto simp: fault_access_def canonical_def layout_defs PAGE_OFFSET_def)

definition expected_code :: "access_kind \<Rightarrow> u64" where
  "expected_code kind = 5 OR (if kind = Data_Write then 2 else 0) OR (if kind = Instruction_Fetch then 16 else 0)"

lemma user_refusal_protected:
  assumes "canonical va"
  shows "protected mem cr3 kind va \<longleftrightarrow> user_refusal True mem cr3 kind va
    = Some (Page_Fault (expected_code kind))"
proof -
  have "address_code True mem cr3 va \<in> {0, 1}" unfolding address_code_def by (rule walk_code_values)
  then show ?thesis using assms
    by (cases kind) (auto simp: protected_def user_refusal_def Let_def expected_code_def)
qed

lemma verify_page_fault:
  assumes "point_ok p" "fault_access feature = Some (kind, va)"
  shows "verify_expected_fault feature True address (user_frame p general v err ip) = Inr [verdict feature] \<longleftrightarrow>
    v = 14 \<and> err = expected_code kind \<and> address = va
      \<and> (if kind = Instruction_Fetch then ip = STACK else CODE \<le> ip \<and> ip < CODE + of_nat PAGE)"
proof -
  have f: "vector (user_frame p general v err ip) = v" "error (user_frame p general v err ip) = err"
    "rip (user_frame p general v err ip) = ip" by (simp_all add: user_frame_def)
  show ?thesis using assms(2)
    by (cases feature) (auto simp: fault_access_def verify_expected_fault_def assert_user_frame_point [OF assms(1)]
        bind_res_Inr f expected_code_def verdict_def fault_label_def)
qed

lemma fault_check_exact:
  assumes "point_ok p"
  shows "(case fault_frame True mem cr3 feature p cr2 of None \<Rightarrow> False
      | Some (address, frame) \<Rightarrow> verify_expected_fault feature True address frame = Inr [verdict feature])
    \<longleftrightarrow> (case fault_access feature of None \<Rightarrow> True | Some (kind, va) \<Rightarrow> protected mem cr3 kind va)"
proof (cases "fault_access feature")
  case None
  then have "feature = Fault_User_Privileged" by (cases feature) (auto simp: fault_access_def)
  then show ?thesis
    using assms by (simp add: fault_frame_def fault_access_def verify_expected_fault_def assert_user_frame_point)
      (simp add: user_frame_def point_ok_def verdict_def fault_label_def)
next
  case (Some access)
  then obtain kind va where a: "fault_access feature = Some (kind, va)" by (cases access) auto
  note ex = user_refusal_protected [OF experiment_canonical [OF a], of mem cr3 kind]
  have stack: "kind = Instruction_Fetch \<Longrightarrow> va = STACK" using a by (cases feature) (auto simp: fault_access_def)
  note verify = verify_page_fault [OF assms a]
  consider "user_refusal True mem cr3 kind va = None" | "user_refusal True mem cr3 kind va = Some General_Protection"
    | code where "user_refusal True mem cr3 kind va = Some (Page_Fault code)" by (metis option.exhaust refusal.exhaust)
  then show ?thesis
  proof cases
    case 3
    then show ?thesis using assms stack by (auto simp: fault_frame_def a verify ex Let_def point_ok_def)
  qed (simp_all add: fault_frame_def a verify ex Let_def)
qed

section \<open>Every experiment is refused\<close>

lemma walk_present: "walk offset mem levels base va rights = Some t \<Longrightarrow> walk_code True offset mem levels base va = 1"
  by (induction offset mem levels base va rights rule: walk.induct) (auto simp: Let_def split: if_splits)

lemma access_present: "user_access PAGE_OFFSET mem cr3 va = Some t \<Longrightarrow> address_code True mem cr3 va = 1"
  unfolding user_access_def address_code_def by (cases "canonical va") (simp_all add: walk_present del: walk.simps walk_code.simps)

text \<open>
  The kernel's own mapping of the experiment's page: entry 256 of the root leads through two tables to a
  present 2 MiB page, and these tables are not the ones of the user mapping.
\<close>

definition kernel_linked :: "u64 \<Rightarrow> usize \<Rightarrow> usize \<Rightarrow> usize \<Rightarrow> table_memory \<Rightarrow> bool" where
  "kernel_linked cr3 pdpt pd pt m \<longleftrightarrow>
     (let e4 = m (user_root cr3 + 8 * 256); third = PAGE_OFFSET + unat (e4 AND ADDRESS_MASK);
          e3 = m third; second = PAGE_OFFSET + unat (e3 AND ADDRESS_MASK); e2 = m second
      in bit e4 0 \<and> bit e3 0 \<and> \<not> bit e3 7 \<and> bit e2 0 \<and> bit e2 7
        \<and> list_all (\<lambda>t. t \<notin> {user_root cr3, pdpt, pd + 8 * 4, pt, pt + 8 * 511}) [third, second])"

lemma kernel_indices:
  "table_index 39 (of_nat PAGE_OFFSET + 0x100000) = 256" "table_index 30 (of_nat PAGE_OFFSET + 0x100000) = 0"
  "table_index 21 (of_nat PAGE_OFFSET + 0x100000) = 0"
  by (simp_all add: table_index_nat PAGE_OFFSET_def)

lemma kernel_page_present:
  assumes ready: "mapping_ready cr3 pdpt pd pt physical m" and linked: "kernel_linked cr3 pdpt pd pt m"
  shows "address_code True (installed cr3 pdpt pd pt physical m) cr3 (of_nat PAGE_OFFSET + 0x100000) = 1"
proof -
  let ?m = "installed cr3 pdpt pd pt physical m"
  define e4 where "e4 = m (user_root cr3 + 8 * 256)"
  define e3 where "e3 = m (PAGE_OFFSET + unat (e4 AND ADDRESS_MASK))"
  define e2 where "e2 = m (PAGE_OFFSET + unat (e3 AND ADDRESS_MASK))"
  note l = linked [unfolded kernel_linked_def Let_def, folded e4_def, folded e3_def, folded e2_def]
  have "?m (PAGE_OFFSET + unat (e4 AND ADDRESS_MASK)) = e3" "?m (PAGE_OFFSET + unat (e3 AND ADDRESS_MASK)) = e2"
    using l by (simp_all add: installed_def e3_def [symmetric] e2_def [symmetric])
  moreover have "?m (PAGE_OFFSET + unat (cr3 AND ADDRESS_MASK) + 8 * 256) = e4"
    using installed_words(1) [OF ready, of 256] ready_pages(8) [OF ready] by (simp add: e4_def)
  ultimately show ?thesis
    using l by (simp add: address_code_def table_entry_def kernel_indices Let_def)
qed

lemma enter_user_nx: "enter_user l f m = Inr (m1, r, old) \<Longrightarrow> nx_enabled (um_msrs m1)"
proof -
  have "prepare_cpu cpuid (m0, c) = Inr (m', c') \<Longrightarrow> nx_enabled m'" for cpuid m0 c m' c'
    by (auto simp: prepare_cpu_def nx_enabled_def Let_def bind_res_Inr bit_simps split: prod.splits)
  moreover have "syscall_enable g entry stack m0 = Inr m' \<Longrightarrow> nx_enabled m0 \<Longrightarrow> nx_enabled m'" for g entry stack m0 m'
    by (auto simp: syscall_enable_def nx_enabled_def bind_res_Inr write_msr_run)
  ultimately show "enter_user l f m = Inr (m1, r, old) \<Longrightarrow> nx_enabled (um_msrs m1)"
    by (auto simp: enter_user_def bind_res_Inr Let_def expect_ok_simps)
qed

lemma stack_stores_run:
  assumes "mapping_ready (ul_cr3 l) (ul_pdpt l) (ul_pd l) (ul_pt l) physical t"
    and "um_tables m = installed (ul_cr3 l) (ul_pdpt l) (ul_pd l) (ul_pt l) physical t"
    and "list_all (\<lambda>(va, b). STACK \<le> va \<and> va < STACK_TOP) stores"
  shows "\<exists>m'. run_user l chk (map (\<lambda>(va, b). Store va b) stores) m = Inr ([], Running, m')"
  using assms(2,3)
proof (induction stores arbitrary: m)
  case (Cons store stores)
  obtain va b where s: "store = (va, b)" by (cases store)
  have "\<exists>pa. user_page physical va = Some (pa, True, False)"
    using Cons.prems(2) s by (auto simp: user_page_def layout_defs word_le_nat_alt word_less_nat_alt)
  then obtain pa where "user_page physical va = Some (pa, True, False)" by blast
  then show ?case
    using Cons.IH [of "m\<lparr>um_bytes := (um_bytes m)(PAGE_OFFSET + unat pa := b)\<rparr>"] Cons.prems s
    by (simp add: user_access_installed [OF assms(1)])
qed simp

lemma experiments_protected:
  assumes ready: "mapping_ready cr3 pdpt pd pt physical m" and "kernel_linked cr3 pdpt pd pt m"
    and "fault_access feature = Some (kind, va)"
  shows "protected (installed cr3 pdpt pd pt physical m) cr3 kind va"
proof -
  let ?m = "installed cr3 pdpt pd pt physical m"
  note access = user_access_installed [OF ready]
  have code: "user_page physical CODE = Some (of_nat physical, False, True)"
    and stack: "user_page physical STACK = Some (of_nat (physical + PAGE), True, False)"
    and kernel: "user_page physical (of_nat PAGE_OFFSET + 0x100000) = None"
    by (simp_all add: user_page_def layout_defs PAGE_OFFSET_def)
  show ?thesis
    using assms(3) access_present [of ?m cr3 CODE] access_present [of ?m cr3 STACK] kernel_page_present [OF assms(1,2)]
    by (cases feature) (auto simp: fault_access_def protected_def permits_def access code stack kernel)
qed

lemma dispatch_verified:
  assumes "check frame = Inr [v]" "cs frame AND 3 = 3"
  shows "\<exists>report. exception_dispatch (Some check) cr2 frame = (report @ [v], None)"
  using assms by (simp add: exception_dispatch_def)

lemma fault_frame_ring: "fault_frame nxe mem cr3 feature p cr2 = Some (address, frame) \<Longrightarrow> cs frame AND 3 = 3"
  by (auto simp: fault_frame_def user_frame_def Let_def split: option.splits prod.splits refusal.splits if_splits)

text \<open>
  C11. Every experiment is refused by the processor for the reason the check expects. On a supported machine
  with a free page and the kernel's own page present, whatever the program stored on its stack before, the
  read of kernel memory, the write to the code page, the jump to the stack page and the privileged
  instruction each end in the report of the exception and the green verdict, and no assertion
  of \<^verbatim>\<open>verify_expected_fault\<close> fails.
\<close>

theorem fault_experiments_refused:
  assumes "session_initial l m" "session_layout l m" "\<exists>r d. allocate (um_memory m) Mapped 1 = Inr (Inr r, d)"
    and "kernel_linked (ul_cr3 l) (ul_pdpt l) (ul_pd l) (ul_pt l) (um_tables m)"
    and "list_all (\<lambda>(va, b). STACK \<le> va \<and> va < STACK_TOP) stores" "point_ok p"
  shows "\<exists>report. fault_session l feature False stores p cr2 m = Inr (Some (report @ [verdict feature], None))"
proof -
  obtain r d where "allocate (um_memory m) Mapped 1 = Inr (Inr r, d)" using assms(3) by blast
  from enter_user_total [OF assms(1,2) this] obtain m1 where
    e: "enter_user l False m = Inr (m1, r, kernel_stack (um_tss m))" by blast
  note en = enter_user_result [OF assms(1) e]
  obtain m2 where run: "run_user l False (map (\<lambda>(va, b). Store va b) stores) m1 = Inr ([], Running, m2)"
    using stack_stores_run [OF en(2,3) assms(5)] by blast
  have "m2 = m1\<lparr>um_bytes := um_bytes m2\<rparr>"
    using run_user_confined(1) [OF en(2,3) run] by (simp add: user_confined_def)
  then have same: "um_tables m2 = um_tables m1" "um_msrs m2 = um_msrs m1" "um_active m2"
    using en(8) by (metis user_machine.select_convs user_machine.surjective user_machine.update_convs(3))+
  let ?f = "fault_frame True (um_tables m2) (ul_cr3 l) feature p cr2"
  have "case fault_access feature of None \<Rightarrow> True | Some (kind, va) \<Rightarrow> protected (um_tables m2) (ul_cr3 l) kind va"
    using experiments_protected [OF en(2) assms(4)] unfolding same(1) en(3) by (auto split: option.split)
  then obtain address frame where f: "?f = Some (address, frame)"
      "verify_expected_fault feature True address frame = Inr [verdict feature]"
    unfolding fault_check_exact [OF assms(6), symmetric, where ?cr2.0 = cr2] by (auto split: option.splits)
  obtain report where "exception_dispatch (Some (verify_expected_fault feature True address)) address frame
      = (report @ [verdict feature], None)"
    using dispatch_verified [where check = "verify_expected_fault feature True address", OF f(2) fault_frame_ring [OF f(1)]] by blast
  then have "fault_session l feature False stores p cr2 m
      = Inr (Some (([sysenter_message, ready_message] @ report) @ [verdict feature], None))"
    using enter_user_nx [OF e] by (simp add: fault_session_def e run same f(1) [unfolded same(1)])
  then show ?thesis by blast
qed

text \<open>The page tables of \<^verbatim>\<open>head.S\<close> after the low half is removed; the frame buffer entries are left out.\<close>

definition head_tables :: table_memory where
  "head_tables = (\<lambda>a. if a = PAGE_OFFSET + 0x101800 then 0x102003
     else if a = PAGE_OFFSET + 0x102000 then 0x103003
     else if a = PAGE_OFFSET + 0x103000 then 0x83 else if a = PAGE_OFFSET + 0x103008 then 0x200083
     else if a = PAGE_OFFSET + 0x103010 then 0x400083 else if a = PAGE_OFFSET + 0x103018 then 0x600083
     else if a = PAGE_OFFSET + 0x103020 then 0x800083 else 0)"

lemma head_root:
  "(0x101000 :: u64) AND ADDRESS_MASK = 0x101000" "(0x102003 :: u64) AND ADDRESS_MASK = 0x102000"
  "(0x103003 :: u64) AND ADDRESS_MASK = 0x103000" "user_root 0x101000 = PAGE_OFFSET + 0x101000"
  by (simp_all add: ADDRESS_MASK_def user_root_def uadd_def PAGE_OFFSET_def)

lemma head_tables_ready: "tables_ready 0x101000 (PAGE_OFFSET + 0x200000) (PAGE_OFFSET + 0x201000) (PAGE_OFFSET + 0x202000) head_tables"
  unfolding tables_ready_def head_root
  by (auto simp: direct_page_def head_tables_def list_all_iff PAGE_OFFSET_def)

lemma head_linked: "kernel_linked 0x101000 (PAGE_OFFSET + 0x200000) (PAGE_OFFSET + 0x201000) (PAGE_OFFSET + 0x202000) head_tables"
proof -
  have "head_tables (PAGE_OFFSET + 0x101000 + 8 * 256) = 0x102003" "head_tables (PAGE_OFFSET + 0x102000) = 0x103003"
    "head_tables (PAGE_OFFSET + 0x103000) = 0x83" by (simp_all add: head_tables_def)
  then show ?thesis unfolding kernel_linked_def Let_def head_root by (simp add: head_root)
qed

theorem fault_experiments_refused_witness:
  "\<exists>report. fault_session example_layout Fault_User_Exec False [(0x9ff010, 7)]
     \<lparr>up_registers = replicate 15 0, up_rip = 0x800040, up_rsp = 0x9fff00, up_rflags = 2, up_behind = 0x800042,
       up_behind_registers = replicate 15 0\<rparr> 0 (example_machine\<lparr>um_tables := head_tables\<rparr>)
     = Inr (Some (report @ [(GREEN, ''User protection check OK: stack execute denied; CPL=3'' @ [CHR 0x0a])], None))"
proof -
  let ?p = "\<lparr>up_registers = replicate 15 0, up_rip = 0x800040, up_rsp = 0x9fff00, up_rflags = 2, up_behind = 0x800042,
       up_behind_registers = replicate 15 0\<rparr>"
  let ?m = "example_machine\<lparr>um_tables := head_tables\<rparr>"
  have s: "session_initial example_layout ?m" "session_layout example_layout ?m"
    using example_session(1,2) head_tables_ready
    by (simp_all add: session_initial_def session_layout_def) (simp add: example_layout_def)
  have a: "\<exists>r d. allocate (um_memory ?m) Mapped 1 = Inr (Inr r, d)" using example_allocate_one by simp
  have k: "kernel_linked (ul_cr3 example_layout) (ul_pdpt example_layout) (ul_pd example_layout) (ul_pt example_layout) (um_tables ?m)"
    using head_linked by (simp add: example_layout_def)
  have "point_ok ?p" by (simp add: point_ok_def layout_defs PAGE_def)
  from fault_experiments_refused [OF s a k _ this, of "[(0x9ff010, 7)]" Fault_User_Exec 0]
  show ?thesis by (simp add: layout_defs verdict_def fault_label_def)
qed

section \<open>The faults in the kernel\<close>

text \<open>The 64-bit division: \<open>None\<close> is the divide error.\<close>

definition div_instruction :: "u64 \<Rightarrow> u64 \<Rightarrow> u64 \<Rightarrow> (u64 \<times> u64) option" where
  "div_instruction high low divisor =
     (let dividend = unat high * 2 ^ 64 + unat low; d = unat divisor
      in if d = 0 \<or> 2 ^ 64 \<le> dividend div d then None else Some (of_nat (dividend div d), of_nat (dividend mod d)))"

definition kernel_frame :: "u64 list \<Rightarrow> u64 \<Rightarrow> u64 \<Rightarrow> u64 \<Rightarrow> u64 \<Rightarrow> u64 \<Rightarrow> interrupt_frame" where
  "kernel_frame general ip sp flags v err = \<lparr>registers = general, vector = v, error = err, rip = ip, cs = 8,
     rflags = flags, rsp = sp, ss = 0x10\<rparr>"

text \<open>
  CR2 and the frame, with the registers as the assembly sets them (RDX, RCX and RAX are entries 11, 12 and 14);
  \<open>None\<close>: the kernel goes on to its main loop.
\<close>

definition kernel_fault_frame :: "bool \<Rightarrow> table_memory \<Rightarrow> u64 \<Rightarrow> kernel_fault \<Rightarrow> u64 list \<Rightarrow> u64 \<Rightarrow> u64 \<Rightarrow> u64 \<Rightarrow> u64 \<Rightarrow>
    (u64 \<times> interrupt_frame) option" where
  "kernel_fault_frame nxe mem cr3 feature general ip sp flags cr2 = (case feature of
     Fault_Divide \<Rightarrow>
       (let g = general[11 := 0, 14 := 1, 12 := 0] in
        case div_instruction (g ! 11) (g ! 14) (g ! 12) of
          None \<Rightarrow> Some (cr2, kernel_frame g ip sp flags 0 0) | Some _ \<Rightarrow> None)
   | Fault_Page \<Rightarrow>
       (let g = general[14 := 0xffff80000aa00000] in
        case kernel_read_refusal nxe mem cr3 (g ! 14) of
          None \<Rightarrow> None
        | Some General_Protection \<Rightarrow> Some (cr2, kernel_frame g ip sp flags 13 0)
        | Some (Page_Fault code) \<Rightarrow> Some (g ! 14, kernel_frame g ip sp flags 14 code)))"

definition kernel_fault_report :: "bool \<Rightarrow> table_memory \<Rightarrow> u64 \<Rightarrow> kernel_fault \<Rightarrow> u64 list \<Rightarrow> u64 \<Rightarrow> u64 \<Rightarrow> u64 \<Rightarrow> u64 \<Rightarrow>
    (message list \<times> panic option) option" where
  "kernel_fault_report nxe mem cr3 feature general ip sp flags cr2 =
     map_option (\<lambda>(address, frame). exception_dispatch None address frame)
       (kernel_fault_frame nxe mem cr3 feature general ip sp flags cr2)"

text \<open>The page directory of the kernel has no entry for the page of the experiment.\<close>

definition fault_page_unmapped :: "u64 \<Rightarrow> table_memory \<Rightarrow> bool" where
  "fault_page_unmapped cr3 m \<longleftrightarrow>
     (let e4 = m (PAGE_OFFSET + unat (cr3 AND ADDRESS_MASK) + 8 * 256); e3 = m (PAGE_OFFSET + unat (e4 AND ADDRESS_MASK))
      in bit e4 0 \<and> bit e3 0 \<and> \<not> bit e3 7 \<and> \<not> bit e4 63 \<and> \<not> bit e3 63
        \<and> \<not> bit (m (PAGE_OFFSET + unat (e3 AND ADDRESS_MASK) + 8 * 85)) 0)"

lemma fault_page_indices:
  "table_index 39 0xffff80000aa00000 = 256" "table_index 30 0xffff80000aa00000 = 0" "table_index 21 0xffff80000aa00000 = 85"
  by (simp_all add: table_index_nat)

lemma printed_numbers:
  "decimal 0 = ''0''" "decimal 14 = ''14''" "hex18 0 = ''0x0000000000000000''"
  "hex18 0xffff80000aa00000 = ''0xffff80000aa00000''" "truth_text False = ''false''"
proof -
  have zeros: "replicate 15 (CHR ''0'') = ''000000000000000''" by code_simp
  show "decimal 0 = ''0''" "decimal 14 = ''14''" "hex18 0 = ''0x0000000000000000''"
    "hex18 0xffff80000aa00000 = ''0xffff80000aa00000''" "truth_text False = ''false''"
    by (simp_all add: decimal_def hex18_def hexadecimal_def truth_text_def digits_text.simps digit_def Let_def zeros)
qed

text \<open>Both experiments stop the kernel with the report they are meant to show.\<close>

theorem kernel_faults_reported:
  assumes "length general = 15" "fault_page_unmapped cr3 m"
  shows "kernel_fault_report nxe m cr3 feature general ip sp flags cr2 = Some (case feature of
      Fault_Divide \<Rightarrow> [(RED, ''EXCEPTION 0 (divide error) ERROR=0x0000000000000000 RIP='' @ hex18 ip @ '' RSP='' @ hex18 sp @ [CHR 0x0a])]
    | Fault_Page \<Rightarrow> [(RED, ''EXCEPTION 14 (page fault) ERROR=0x0000000000000000 RIP='' @ hex18 ip @ '' RSP='' @ hex18 sp @ [CHR 0x0a]),
        (RED, ''CR2=0xffff80000aa00000 present=false write=false user=false reserved=false instruction_fetch=false'' @ [CHR 0x0a])], None)"
proof (cases feature)
  case Fault_Divide
  then show ?thesis
    using assms(1) by (simp add: kernel_fault_report_def kernel_fault_frame_def div_instruction_def Let_def
        exception_dispatch_def kernel_frame_def exception_line_def exception_name_def NAMES_def printed_numbers)
next
  case Fault_Page
  have "address_code nxe m cr3 0xffff80000aa00000 = 0"
    using assms(2) by (simp add: address_code_def table_entry_def fault_page_indices fault_page_unmapped_def Let_def)
  then have r: "kernel_read_refusal nxe m cr3 0xffff80000aa00000 = Some (Page_Fault 0)"
    by (simp add: kernel_read_refusal_def canonical_def)
  show ?thesis
    using assms(1) r by (simp add: Fault_Page kernel_fault_report_def kernel_fault_frame_def Let_def
        exception_dispatch_def kernel_frame_def exception_line_def exception_name_def NAMES_def page_fault_line_def printed_numbers)
qed

end
