(* ===== verification/Translation_Cache.thy ===== *)
theory Translation_Cache
  imports Fault_Demo Memory_Init
begin

text \<open>
  The processor's cache of translations and its invalidation (\<^verbatim>\<open>flush_tlb\<close> and \<^verbatim>\<open>flush_tlb_one\<close> of
  \<^verbatim>\<open>src/kernel/arch.rs\<close>). The processor may remember the translation of any user access and drop it again
  at any time; a write to the tables does not change what is remembered. The other theories translate by the
  tables alone; the theorem here says that, with the flushes where the kernel has them, the cache makes no difference.
\<close>

section \<open>The cache\<close>

type_synonym tlb = "u64 \<Rightarrow> (u64 \<times> bool \<times> bool) option"

text \<open>Reloading CR3 drops every translation, \<^verbatim>\<open>INVLPG\<close> those of one page.\<close>

definition flush_tlb :: "tlb \<Rightarrow> tlb" where
  "flush_tlb cache = (\<lambda>_. None)"

definition flush_tlb_one :: "u64 \<Rightarrow> tlb \<Rightarrow> tlb" where
  "flush_tlb_one address cache = (\<lambda>va. if unat va div 4096 = unat address div 4096 then None else cache va)"

text \<open>What the processor does on its own: only successful translations are remembered.\<close>

datatype cache_event = Fill u64 | Evict u64

fun cache_step :: "table_memory \<Rightarrow> u64 \<Rightarrow> cache_event \<Rightarrow> tlb \<Rightarrow> tlb" where
  "cache_step mem cr3 (Fill va) cache = (case user_access PAGE_OFFSET mem cr3 va of
     None \<Rightarrow> cache | Some t \<Rightarrow> cache(va := Some t))"
| "cache_step mem cr3 (Evict va) cache = cache(va := None)"

definition cached_access :: "table_memory \<Rightarrow> u64 \<Rightarrow> tlb \<Rightarrow> u64 \<Rightarrow> (u64 \<times> bool \<times> bool) option" where
  "cached_access mem cr3 cache va = (case cache va of
     Some t \<Rightarrow> Some t | None \<Rightarrow> user_access PAGE_OFFSET mem cr3 va)"

section \<open>Mapping and unmapping with the cache\<close>

definition map_user :: "u64 \<Rightarrow> usize \<Rightarrow> usize \<Rightarrow> usize \<Rightarrow> usize \<Rightarrow> table_memory \<times> tlb \<Rightarrow> (table_memory \<times> tlb) res" where
  "map_user cr3 pdpt pd pt physical = (\<lambda>(m, cache).
     bind_res (install_mapping cr3 pdpt pd pt physical m) (\<lambda>m'. Inr (m', flush_tlb cache)))"

definition unmap_user :: "u64 \<Rightarrow> table_memory \<times> tlb \<Rightarrow> table_memory \<times> tlb" where
  "unmap_user cr3 = (\<lambda>(m, cache). (remove_mapping cr3 m, flush_tlb cache))"

text \<open>The cache holds nothing but what the tables say.\<close>

definition coherent :: "table_memory \<Rightarrow> u64 \<Rightarrow> tlb \<Rightarrow> bool" where
  "coherent mem cr3 cache \<longleftrightarrow> (\<forall>va t. cache va = Some t \<longrightarrow> user_access PAGE_OFFSET mem cr3 va = Some t)"

lemma coherent_flush: "coherent mem cr3 (flush_tlb cache)"
  by (simp add: coherent_def flush_tlb_def)

lemma coherent_step: "coherent mem cr3 cache \<Longrightarrow> coherent mem cr3 (cache_step mem cr3 ev cache)"
  by (cases ev) (auto simp: coherent_def split: option.split)

lemma coherent_steps: "coherent mem cr3 cache \<Longrightarrow> coherent mem cr3 (fold (cache_step mem cr3) evs cache)"
  by (induction evs arbitrary: cache) (simp_all add: coherent_step)

lemma coherent_access: "coherent mem cr3 cache \<Longrightarrow> cached_access mem cr3 cache va = user_access PAGE_OFFSET mem cr3 va"
  by (auto simp: coherent_def cached_access_def split: option.split)

text \<open>After a change of one page, dropping that page is enough.\<close>

lemma coherent_flush_one:
  assumes "coherent mem cr3 cache"
    and "\<And>va. unat va div 4096 \<noteq> unat address div 4096 \<Longrightarrow>
      user_access PAGE_OFFSET mem' cr3 va = user_access PAGE_OFFSET mem cr3 va"
  shows "coherent mem' cr3 (flush_tlb_one address cache)"
  using assms by (auto simp: coherent_def flush_tlb_one_def)

text \<open>
  C10. The cached translations cannot break the isolation. Whatever the processor remembered before, and
  whatever it remembers or forgets in between: while the user mapping is installed, an access at user level
  translates by the code and the stack page and nothing else, and after the removal, before the page goes
  back to the allocator, no access at user level translates.
\<close>

theorem isolation_despite_cache:
  assumes "mapping_ready cr3 pdpt pd pt physical m"
  shows "\<exists>m1 cache1. map_user cr3 pdpt pd pt physical (m, cache) = Inr (m1, cache1)
    \<and> cached_access m1 cr3 (fold (cache_step m1 cr3) during cache1) va = user_page physical va
    \<and> (case unmap_user cr3 (m1, fold (cache_step m1 cr3) during cache1) of (m2, cache2) \<Rightarrow>
        cached_access m2 cr3 (fold (cache_step m2 cr3) after cache2) va = None)"
proof -
  let ?m = "installed cr3 pdpt pd pt physical m"
  have "map_user cr3 pdpt pd pt physical (m, cache) = Inr (?m, flush_tlb cache)"
    by (simp add: map_user_def install_mapping_run [OF assms])
  moreover have "cached_access ?m cr3 (fold (cache_step ?m cr3) during (flush_tlb cache)) va = user_page physical va"
    by (simp add: coherent_access coherent_steps coherent_flush user_access_installed [OF assms])
  moreover have "case unmap_user cr3 (?m, fold (cache_step ?m cr3) during (flush_tlb cache)) of (m2, cache2) \<Rightarrow>
        cached_access m2 cr3 (fold (cache_step m2 cr3) after cache2) va = None"
    by (simp add: unmap_user_def coherent_access coherent_steps coherent_flush user_access_removed [OF assms])
  ultimately show ?thesis by (intro exI [of _ ?m] exI [of _ "flush_tlb cache"] conjI)
qed

theorem isolation_despite_cache_witness:
  "\<exists>m1 cache1. map_user 0x101000 (PAGE_OFFSET + 0x200000) (PAGE_OFFSET + 0x201000) (PAGE_OFFSET + 0x202000) 0x400000
      (boot_tables, \<lambda>_. Some (0, True, True)) = Inr (m1, cache1)
    \<and> cached_access m1 0x101000 (fold (cache_step m1 0x101000) [Fill 0x800010] cache1) 0x800010 = Some (0x400010, False, True)
    \<and> (case unmap_user 0x101000 (m1, fold (cache_step m1 0x101000) [Fill 0x800010] cache1) of (m2, cache2) \<Rightarrow>
        cached_access m2 0x101000 (fold (cache_step m2 0x101000) [] cache2) 0x800010 = None)"
proof -
  have "user_page 0x400000 0x800010 = Some (0x400010, False, True)" by (simp add: user_page_def layout_defs)
  then show ?thesis
    using isolation_despite_cache [OF boot_ready, of "\<lambda>_. Some (0, True, True)" "[Fill 0x800010]" "0x800010" "[]"] by simp
qed

text \<open>The flush is needed: without it the code page stays reachable after the removal.\<close>

lemma stale_translation:
  assumes "mapping_ready cr3 pdpt pd pt physical m"
  shows "cached_access (remove_mapping cr3 (installed cr3 pdpt pd pt physical m)) cr3
    (cache_step (installed cr3 pdpt pd pt physical m) cr3 (Fill CODE) (\<lambda>_. None)) CODE = Some (of_nat physical, False, True)"
  by (simp add: cached_access_def user_access_installed [OF assms] user_page_def layout_defs PAGE_def)

section \<open>Low addresses after the initialisation\<close>

text \<open>
  With the identity mapping removed, a read of the kernel below 512 GiB, the null pointer
  included, is a page fault of a page that is not present, if CR3 has its flag bits clear.
\<close>

lemma low_addresses_fault:
  assumes "remove_identity cr3 m = Inr m'" "cr3 AND ADDRESS_MASK = cr3" "unat cr3 + 4096 \<le> 0x800000000000" "unat va < 2 ^ 39"
  shows "kernel_read_refusal nxe m' cr3 va = Some (Page_Fault 0)"
proof -
  have "m' (PAGE_OFFSET + unat cr3) = 0"
    using assms(1,3) unfolding remove_identity_Inr by (auto simp: uadd_def PAGE_OFFSET_def)
  moreover have "table_index 39 va = 0" using assms(4) by (simp add: table_index_nat)
  moreover have "canonical va" using assms(4) by (simp add: canonical_def word_le_nat_alt)
  ultimately show ?thesis
    by (simp add: kernel_read_refusal_def address_code_def table_entry_def assms(2) Let_def)
qed

end
