(* ===== verification/Spec2Isabelle.thy ===== *)
theory Spec2Isabelle
  imports Bootinfo Memory Memory_Invariant Memory_Init Page_Interface Allocator Allocation
    Allocator_Check Keyboard_Init Interrupts User_Demo Task_Demo Console Memory_Ops Processor Kernel_Start Main_Loop Translation_Cache
begin

text \<open>
  The MikoOS kernel (the Rust sources under \<^verbatim>\<open>src/kernel\<close>), modelled operation by operation, and the
  theorems that make its parts correct.

  \<^bold>\<open>How the program works.\<close> The loader hands over the firmware's memory map and the video mode; the
  assembly in \<^verbatim>\<open>head.S\<close> switches to 64-bit mode and calls \<^verbatim>\<open>Start_Kernel\<close> (\<^verbatim>\<open>main.rs\<close>), which runs with
  interrupts off on one processor: it sets up the console, the task state segment and the interrupt table,
  checks the processor mode, initialises physical memory, tries the page allocator, initialises the
  interrupt controllers, counts two timer interrupts, lets a kernel thread and a user program run to their end,
  initialises the keyboard controller and enters the receive loop. Only the timer and the keyboard ever
  interrupt the main flow; with the main flow they share the counters and the byte queue.

  \<^bold>\<open>Conventions\<close> (theory \<open>Kernel_Prelude\<close>). \<^verbatim>\<open>u8\<close> to \<^verbatim>\<open>u64\<close> are words of that width; \<^verbatim>\<open>usize\<close> is a
  natural number below \<open>usize_range\<close>, with the wrap-around of the release build written out
  (\<open>uadd\<close>, \<open>usub\<close>, \<open>umul\<close>) and the checked operations as options. A panic is the error value \<open>Inl (Panic message)\<close>:
  every \<^verbatim>\<open>assert\<close>, \<^verbatim>\<open>expect\<close> and explicit panic is a branch, so a theorem that a result is \<open>Inr\<close> says that
  no check fails. Each mutable static is a field of a state that is passed on. Ports belong to a device that is
  a parameter of the model (\<open>Port_IO\<close>): a computation on it is a function of the device's state.

  \<^bold>\<open>Theories, in the order of the code.\<close>
  \<^item> \<open>Bootinfo\<close> (\<^verbatim>\<open>bootinfo.rs\<close>): header and entries of the hand-over as bytes, their validation,
    \<^verbatim>\<open>contains_usable\<close>, the self-test. The validation accepts exactly the maps without overflow and overlap; a map
    in the documented layout is read back exactly; what is accepted is well formed.
  \<^item> \<open>Memory\<close>, \<open>Memory_Invariant\<close>, \<open>Memory_Init\<close> (\<^verbatim>\<open>memory.rs\<close>): descriptor, pages, zones and bitmap; the
    invariant \<open>md_wf\<close> (arrays and bitmap agree, zone counters are the true counts) and its preservation by
    \<^verbatim>\<open>init_page\<close> and \<^verbatim>\<open>clean_page\<close>; the whole of \<^verbatim>\<open>init\<close>: the free pages afterwards are exactly the RAM pages outside the
    reserved stretch, everything in use is protected, and it succeeds on every map that holds the kernel. \<open>Memory_Report\<close> has
    the lines it prints, and that they read back as the map, the RAM total and the counts they stand for.
  \<^item> \<open>Allocator\<close>, \<open>Allocation\<close>, \<open>Allocator_Check\<close> (\<^verbatim>\<open>memory/allocator.rs\<close>): first fit with its zone scan, release,
    the consistency check and the self-test. The scan is refined by a naive search (\<open>spec_first_fit\<close>);
    allocation is sound and complete, a release restores the descriptor exactly, and sequences of both keep all live
    runs disjoint. \<open>Page_Interface\<close> states the contract as a locale, which the allocator interprets.
  \<^item> \<open>Memory_Ops\<close> (\<^verbatim>\<open>arch.rs\<close>): \<^verbatim>\<open>memset\<close>, \<^verbatim>\<open>memcpy\<close>, \<^verbatim>\<open>memmove\<close>, \<^verbatim>\<open>memcmp\<close> with the registers and the direction flag
    of the string instructions.
  \<^item> \<open>Gate\<close>, \<open>Trap\<close> (\<^verbatim>\<open>gate.rs\<close>, \<^verbatim>\<open>trap.rs\<close>): gates, the 104 bytes of the TSS and its descriptor, the table of 256 gates, the
    text of the fatal exception report.
  \<^item> \<open>Pic\<close>, \<open>Interrupts\<close> (\<^verbatim>\<open>interrupt/pic.rs\<close>, \<^verbatim>\<open>interrupt.rs\<close>): the two controllers, the installation of the 16 lines, the
    dispatcher, the timer demonstration and the context check. \<open>pic_ports\<close> states what the chips do on exactly the
    commands the driver sends; \<open>runs_to\<close> and \<open>serves\<close> are the rules for a driver on such a device. \<open>keyboard_answer\<close> names the two
    bytes the keyboard controller shows the handler, and a served request queues or rejects exactly them.
  \<^item> \<open>Keyboard\<close>, \<open>Keyboard_Init\<close> (\<^verbatim>\<open>keyboard.rs\<close>): the queue, the interrupt handler, the passes of the receive loop,
    and the protocol of the controller. \<open>Byte_Channel\<close> is the contract of a queue filled by a handler and drained by the
    main flow under every interleaving, as a locale; the driver's queue interprets it. The handshake is
    proved for every device, success for the documented controller (\<open>cooperative_controller\<close>).
  \<^item> \<open>Text_Format\<close>, \<open>Utf8\<close>: the parts of Rust's library the messages and the text service use.
  \<^item> \<open>Font\<close>, \<open>Console\<close> (\<^verbatim>\<open>font.rs\<close>, \<^verbatim>\<open>console.rs\<close>): the font itself, the mode check, cursor, glyphs and the busy flag.
    Every pixel lies in the mapped window, and a printed line can be read back from the screen. The debug port holds the line
    the initialisation writes there, followed by every message.
  \<^item> \<open>Paging\<close>, \<open>User_Mapping\<close>, \<open>Syscall\<close>, \<open>User_Session\<close>, \<open>User_Demo\<close> (\<^verbatim>\<open>usermode.rs\<close>, \<^verbatim>\<open>syscall.rs\<close>): the page walk of
    the processor, the mapping of the user program, the dispatcher with its services refined against what they
    promise, arbitrary programs as lists of events (stores, system calls, software interrupts of any vector, exceptions), which
    change nothing but their stack page and make the kernel panic by a forged completion only, and the requests of the
    kernel's own user program.
  \<^item> \<open>Fault_Demo\<close> (the fault builds of \<^verbatim>\<open>usermode.rs\<close> and \<^verbatim>\<open>main.rs\<close>): the processor's page-fault codes on the tables the kernel
    writes; each user experiment is refused for protection and reported with the right verdict, and the two
    deliberate faults of the kernel lead to the reports they are meant to show.
  \<^item> \<open>Translation_Cache\<close> (\<^verbatim>\<open>flush_tlb\<close> of \<^verbatim>\<open>arch.rs\<close> and its uses): the cache may hold any earlier translation and
    remember or forget at any time; with the flushes where the code has them, no access sees the difference. The other
    theories therefore translate by the tables alone.
  \<^item> \<open>Task\<close>, \<open>Task_Demo\<close> (\<^verbatim>\<open>task.rs\<close>, \<^verbatim>\<open>task_switch.S\<close>): descriptors, the context switch on 64-bit stack words, and the thread
    demonstration. The states reachable by work, exits and switches are an inductive relation with the invariant that a
    suspended task resumes exactly where it stopped.
  \<^item> \<open>Processor\<close> (\<^verbatim>\<open>processor.rs\<close>): the mode check, in terms of single bits.
  \<^item> \<open>Kernel_Start\<close> (\<^verbatim>\<open>main.rs\<close>): the composition of all of them with every line of the log, and that the start-up reaches the
    main loop with the chips quiet, the keyboard line alone open, and the lines the smoke test (\<^verbatim>\<open>scripts/smoke.py\<close>) demands of
    the kernel on the debug port (\<open>smoke_lines\<close>; the text of the user program depends on the program).
  \<^item> \<open>Main_Loop\<close> (\<^verbatim>\<open>run\<close> of \<^verbatim>\<open>keyboard.rs\<close>): the loop over waits in which the environment delivers interrupts, from the kernel's
    entry on: what is printed is exactly what arrived, for any bytes and spurious requests, and the keyboard-check build
    passes its check.

  \<^bold>\<open>Bounds.\<close> The polling loops of the keyboard driver take the source's own \<open>POLL_BUDGET\<close> as their argument. The thread
  demonstration runs with four hand-overs as fuel, which \<open>demonstrate_tasks_completes\<close> shows to be enough. The timer loop
  takes one delivery per turn and answers \<open>None\<close> when the list ends before the second one; the main loop, which never ends, is
  followed through the waits of a list of any length. All other loops
  terminate by themselves.

  \<^bold>\<open>Parameters.\<close> Memory as the loader left it, addresses of linker symbols and statics, registers, CPUID and LAR answers,
  devices, depth of stack frames and registers at a call. What is assumed of them is named where it is used: \<open>pic_ports\<close>,
  \<open>cooperative_controller\<close>, \<open>timer_delivery\<close>, \<open>reading_ports\<close>, \<open>delivers\<close>, \<open>env_ok\<close>, \<open>tables_ready\<close>, \<open>session_layout\<close>, \<open>tasks_placed\<close>,
  \<open>user_prepared\<close>; an example satisfies each of them, and \<open>boot_machine\<close> all of them together.

  \<^bold>\<open>Not modelled.\<close> The assembly entries and the boot code: frames, vectors and registers they hand over are
  parameters. Halting and the panic handler, which end the model; the lines printed before a panic are not kept. The
  stack check of the task-check build, which is assembly. In the page walk: address bits above the physical width, protection
  keys, SMAP and the accessed and dirty bits. A keyboard interrupt in the middle of a pass: the source
  takes bytes only with interrupts off. Memory ordering of volatile accesses, and non-maskable interrupts.

  \<^bold>\<open>What the model showed.\<close> \<^verbatim>\<open>usermode.rs\<close> masks the flag bits of CR3 and says that \<^verbatim>\<open>memory::init\<close> does the same;
  \<^verbatim>\<open>memory::init\<close> uses CR3 unmasked (\<open>root_masks_differ\<close>). With the flags clear, as the boot code leaves them, both agree.
\<close>

end
